(* ===== verification/Py_Prelude.thy ===== *)
theory Py_Prelude
  imports Complex_Main "HOL-Library.Char_ord"
begin

text \<open>
  The part of Python that the components share.

  \<^item> A Python \<open>str\<close> is a list of code points. The model keeps the code points below
    256 (Latin-1), one \<^typ>\<open>char\<close> each, so \<open>length\<close>, slicing and \<open>find\<close> count
    what Python counts. On this range \<open>str.lower\<close> is a map of characters, which is
    not so beyond it (U+0130 lowers to two code points).
  \<^item> A JSON document as \<open>json.loads\<close> returns it is a \<open>json\<close>; a \<open>dict\<close> is an
    association list whose first entry for a key is the one in force.
  \<^item> A raise is \<open>Inl\<close> of an error, a return is \<open>Inr\<close> of the value.
\<close>

named_theorems pystr_simps "equations of the string operations"
named_theorems result_simps "how a chain of checks succeeds"

subsection \<open>Characters\<close>

text \<open>\<open>str.lower\<close> on one Latin-1 code point: A to Z, and the accented capitals
  U+00C0 to U+00DE but the multiplication sign U+00D7.\<close>

definition lower_char :: "char \<Rightarrow> char" where
  "lower_char c =
     (let n = (of_char c :: nat)
      in if (65 \<le> n \<and> n \<le> 90) \<or> (192 \<le> n \<and> n \<le> 222 \<and> n \<noteq> 215)
         then char_of (n + 32) else c)"

definition lower :: "string \<Rightarrow> string" where
  "lower s = map lower_char s"

text \<open>\<open>c.isalnum() or c == "_"\<close>, which is also the \<open>\w\<close> of \<open>re\<close>: ASCII letters and
  digits, the underscore, the superscripts and fractions (\<open>isalnum\<close> counts whatever has
  a numeric value), the ordinal indicators, the micro sign and the accented letters.\<close>

definition is_word :: "char \<Rightarrow> bool" where
  "is_word c =
     (let n = (of_char c :: nat)
      in (48 \<le> n \<and> n \<le> 57) \<or> (65 \<le> n \<and> n \<le> 90) \<or> n = 95 \<or> (97 \<le> n \<and> n \<le> 122)
         \<or> n \<in> {170, 178, 179, 181, 185, 186, 188, 189, 190}
         \<or> (192 \<le> n \<and> n \<noteq> 215 \<and> n \<noteq> 247))"

text \<open>\<open>str.isspace\<close>, what \<open>strip\<close> removes.\<close>

definition is_space :: "char \<Rightarrow> bool" where
  "is_space c =
     (let n = (of_char c :: nat)
      in (9 \<le> n \<and> n \<le> 13) \<or> (28 \<le> n \<and> n \<le> 32) \<or> n = 133 \<or> n = 160)"

definition is_digit :: "char \<Rightarrow> bool" where
  "is_digit c = (let n = (of_char c :: nat) in 48 \<le> n \<and> n \<le> 57)"

subsection \<open>Strings\<close>

definition starts_with :: "string \<Rightarrow> string \<Rightarrow> bool" where
  "starts_with p s \<longleftrightarrow> take (length p) s = p"

definition ends_with :: "string \<Rightarrow> string \<Rightarrow> bool" where
  "ends_with p s \<longleftrightarrow> length p \<le> length s \<and> drop (length s - length p) s = p"

text \<open>\<open>s.find(p)\<close>, with \<open>None\<close> for -1.\<close>

fun find_sub :: "string \<Rightarrow> string \<Rightarrow> nat option" where
  "find_sub p [] = (if p = [] then Some 0 else None)"
| "find_sub p (c # cs) =
     (if starts_with p (c # cs) then Some 0 else map_option Suc (find_sub p cs))"

definition contains :: "string \<Rightarrow> string \<Rightarrow> bool" where
  "contains p s \<longleftrightarrow> find_sub p s \<noteq> None"

definition contains_ci :: "string \<Rightarrow> string \<Rightarrow> bool" where
  "contains_ci p s \<longleftrightarrow> contains (lower p) (lower s)"

definition lstrip :: "string \<Rightarrow> string" where
  "lstrip s = dropWhile is_space s"

definition rstrip :: "string \<Rightarrow> string" where
  "rstrip s = rev (dropWhile is_space (rev s))"

definition strip :: "string \<Rightarrow> string" where
  "strip s = rstrip (lstrip s)"

text \<open>\<open>s.strip(chars)\<close> and its two halves.\<close>

definition lstrip_of :: "string \<Rightarrow> string \<Rightarrow> string" where
  "lstrip_of chars s = dropWhile (\<lambda>c. c \<in> set chars) s"

definition rstrip_of :: "string \<Rightarrow> string \<Rightarrow> string" where
  "rstrip_of chars s = rev (lstrip_of chars (rev s))"

definition strip_of :: "string \<Rightarrow> string \<Rightarrow> string" where
  "strip_of chars s = rstrip_of chars (lstrip_of chars s)"

text \<open>\<open>s.partition(sep)\<close>: \<open>None\<close> when the separator is not there, else the text before
  and after its first occurrence.\<close>

definition partition_at :: "string \<Rightarrow> string \<Rightarrow> (string \<times> string) option" where
  "partition_at sep s =
     map_option (\<lambda>i. (take i s, drop (i + length sep) s)) (find_sub sep s)"

text \<open>\<open>"".join\<close> of the decimal digits, and \<open>str(n)\<close> of an \<open>int\<close>.\<close>

fun nat_digits :: "nat \<Rightarrow> string" where
  "nat_digits n =
     (if n < 10 then [char_of (48 + n)] else nat_digits (n div 10) @ [char_of (48 + n mod 10)])"

declare nat_digits.simps [simp del]

definition str_int :: "int \<Rightarrow> string" where
  "str_int i = (if i < 0 then ''-'' @ nat_digits (nat (- i)) else nat_digits (nat i))"

text \<open>\<open>sep.join(xs)\<close>.\<close>

fun py_join :: "string \<Rightarrow> string list \<Rightarrow> string" where
  "py_join sep [] = []"
| "py_join sep [x] = x"
| "py_join sep (x # y # ys) = x @ sep @ py_join sep (y # ys)"

subsection \<open>Facts on characters and strings\<close>

lemma of_char_bound: "(of_char c :: nat) < 256"
  by simp

lemma of_char_lower_char:
  "(of_char (lower_char c) :: nat) =
     (let n = of_char c in
      if (65 \<le> n \<and> n \<le> 90) \<or> (192 \<le> n \<and> n \<le> 222 \<and> n \<noteq> 215) then n + 32 else n)"
  using of_char_bound [of c]
  by (auto simp: lower_char_def Let_def take_bit_eq_mod)

lemma is_word_lower_char [simp]: "is_word (lower_char c) = is_word c"
  unfolding is_word_def of_char_lower_char Let_def
  by (auto split: if_splits)

lemma lower_char_idem [simp]: "lower_char (lower_char c) = lower_char c"
  by (rule injD [OF inj_of_char [where 'a = nat]]) (auto simp: of_char_lower_char Let_def)

lemma lower_char_eq_low:
  "(of_char d :: nat) < 65 \<Longrightarrow> lower_char c = d \<longleftrightarrow> c = d"
  using of_char_bound [of c]
  by (auto simp: lower_char_def Let_def take_bit_eq_mod split: if_splits)

lemma lower_char_punct [simp]:
  "lower_char c = CHR ''<'' \<longleftrightarrow> c = CHR ''<''"
  "lower_char c = CHR ''>'' \<longleftrightarrow> c = CHR ''>''"
  "lower_char c = CHR ''/'' \<longleftrightarrow> c = CHR ''/''"
  "CHR ''<'' = lower_char c \<longleftrightarrow> c = CHR ''<''"
  "CHR ''>'' = lower_char c \<longleftrightarrow> c = CHR ''>''"
  "CHR ''/'' = lower_char c \<longleftrightarrow> c = CHR ''/''"
  by (simp_all add: lower_char_eq_low eq_commute [of _ "lower_char c"])

lemma lower_char_punct_eq [simp]:
  "lower_char CHR ''<'' = CHR ''<''"
  "lower_char CHR ''>'' = CHR ''>''"
  "lower_char CHR ''/'' = CHR ''/''"
  by simp_all

lemma lower_Nil [simp, pystr_simps]: "lower [] = []"
  and lower_Cons [simp, pystr_simps]: "lower (c # cs) = lower_char c # lower cs"
  and lower_append [simp, pystr_simps]: "lower (s @ t) = lower s @ lower t"
  and length_lower [simp, pystr_simps]: "length (lower s) = length s"
  and lower_eq_Nil [simp]: "lower s = [] \<longleftrightarrow> s = []"
  by (simp_all add: lower_def)

lemma take_lower [pystr_simps]: "take n (lower s) = lower (take n s)"
  and drop_lower [pystr_simps]: "drop n (lower s) = lower (drop n s)"
  by (simp_all add: lower_def take_map drop_map)

lemma starts_with_append: "starts_with p s \<Longrightarrow> starts_with p (s @ t)"
  by (auto simp: starts_with_def) (metis append_self_conv diff_is_0_eq' length_take min.cobounded2
      min.absorb2 nat_le_linear take0 take_all)

lemma starts_with_length: "starts_with p s \<Longrightarrow> length p \<le> length s"
  unfolding starts_with_def by (metis length_take min.cobounded1)

lemma starts_with_append_long:
  "length p \<le> length s \<Longrightarrow> starts_with p (s @ t) \<longleftrightarrow> starts_with p s"
  by (simp add: starts_with_def)

lemma starts_with_Nil [simp]: "starts_with [] s"
  by (simp add: starts_with_def)

lemma starts_with_Cons_Cons [simp]:
  "starts_with (x # p) (y # s) \<longleftrightarrow> x = y \<and> starts_with p s"
  by (auto simp: starts_with_def)

lemma starts_with_Cons_Nil [simp]: "\<not> starts_with (x # p) []"
  by (simp add: starts_with_def)

lemma starts_with_self [simp]: "starts_with p (p @ s)"
  by (simp add: starts_with_def)

lemma find_sub_Some_bound: "find_sub p s = Some i \<Longrightarrow> i + length p \<le> length s"
  by (induction s arbitrary: i) (auto split: if_splits dest: starts_with_length)

lemma find_sub_Some_match: "find_sub p s = Some i \<Longrightarrow> starts_with p (drop i s)"
  by (induction s arbitrary: i) (auto split: if_splits)

lemma find_sub_None_no_match: "find_sub p s = None \<Longrightarrow> \<not> starts_with p (drop j s)"
proof (induction s arbitrary: j)
  case Nil
  then show ?case by (simp add: starts_with_def split: if_splits)
next
  case (Cons c cs)
  then show ?case by (cases j) (auto split: if_splits)
qed

lemma find_sub_first: "find_sub p s = Some i \<Longrightarrow> j < i \<Longrightarrow> \<not> starts_with p (drop j s)"
proof (induction s arbitrary: i j)
  case Nil
  then show ?case by (auto split: if_splits)
next
  case (Cons c cs)
  then show ?case by (cases j) (auto split: if_splits)
qed

lemma find_sub_append: "find_sub p s = Some i \<Longrightarrow> find_sub p (s @ t) = Some i"
proof (induction s arbitrary: i)
  case Nil
  then show ?case by (cases t) (auto split: if_splits)
next
  case (Cons c cs)
  then show ?case
    using starts_with_append [of p "c # cs" t]
      starts_with_append_long [of p "c # cs" t] find_sub_Some_bound [of p "c # cs" i]
    by (auto split: if_splits)
qed

text \<open>A needle that is not found in \<open>s\<close> can only be found in \<open>s @ t\<close> from its last
  \<open>length p - 1\<close> characters on.\<close>

lemma find_sub_drop_early:
  assumes "\<And>j. j < n \<Longrightarrow> \<not> starts_with p (drop j s)" and "n \<le> length s"
  shows "find_sub p s = map_option ((+) n) (find_sub p (drop n s))"
  using assms
proof (induction n arbitrary: s)
  case 0
  then show ?case by (simp add: option.map_ident)
next
  case (Suc n)
  from Suc.prems obtain c cs where s: "s = c # cs" by (cases s) auto
  have "\<not> starts_with p (drop j cs)" if "j < n" for j
    using Suc.prems(1) [of "Suc j"] that s by simp
  with Suc.IH [of cs] Suc.prems s have
    "find_sub p cs = map_option ((+) n) (find_sub p (drop n cs))" by simp
  moreover have "\<not> starts_with p s" using Suc.prems(1) [of 0] by simp
  ultimately show ?case by (simp add: s option.map_comp comp_def)
qed

lemma find_sub_tail:
  assumes "find_sub p s = None" and "p \<noteq> []" and "k = min (length s) (length p - 1)"
  shows "find_sub p (s @ t) =
    map_option ((+) (length s - k)) (find_sub p (drop (length s - k) s @ t))"
proof -
  have "\<not> starts_with p (drop j (s @ t))" if "j < length s - k" for j
  proof -
    from that assms have "length p \<le> length (drop j s)" by (cases p) auto
    then show ?thesis
      using find_sub_None_no_match [OF assms(1), of j] that
      by (simp add: starts_with_append_long)
  qed
  from find_sub_drop_early [OF this] show ?thesis by simp
qed

lemma find_sub_first_char:
  "c \<notin> set w \<Longrightarrow> find_sub (c # p) (w @ (c # p) @ b) = Some (length w)"
  by (induction w) auto

lemma partition_at_first_char:
  "c \<notin> set w \<Longrightarrow> partition_at (c # p) (w @ (c # p) @ b) = Some (w, b)"
  using find_sub_first_char [of c w p b] by (simp add: partition_at_def)

subsection \<open>JSON values and dictionaries\<close>

text \<open>A Python \<open>float\<close>: a rational number when finite.\<close>

datatype pyfloat = Finite rat | PosInf | NegInf | NaN

datatype json =
    JNull
  | JBool bool
  | JInt int
  | JFloat pyfloat
  | JStr string
  | JList "json list"
  | JObj "(string \<times> json) list"

type_synonym dict = "(string \<times> json) list"

text \<open>\<open>d.get(key)\<close>: absent and \<open>null\<close> are both Python's \<open>None\<close>.\<close>

definition dget :: "dict \<Rightarrow> string \<Rightarrow> json" where
  "dget d k = (case map_of d k of None \<Rightarrow> JNull | Some v \<Rightarrow> v)"

definition is_str :: "json \<Rightarrow> bool" where
  "is_str v = (case v of JStr _ \<Rightarrow> True | _ \<Rightarrow> False)"

text \<open>\<open>bool(v)\<close>.\<close>

definition truthy :: "json \<Rightarrow> bool" where
  "truthy v =
     (case v of
        JNull \<Rightarrow> False
      | JBool b \<Rightarrow> b
      | JInt i \<Rightarrow> i \<noteq> 0
      | JFloat x \<Rightarrow> x \<noteq> Finite 0
      | JStr s \<Rightarrow> s \<noteq> []
      | JList xs \<Rightarrow> xs \<noteq> []
      | JObj d \<Rightarrow> d \<noteq> [])"

text \<open>\<open>isinstance(v, int)\<close>: \<open>bool\<close> is a subclass of \<open>int\<close>.\<close>

definition is_int :: "json \<Rightarrow> bool" where
  "is_int v = (case v of JInt _ \<Rightarrow> True | JBool _ \<Rightarrow> True | _ \<Rightarrow> False)"

text \<open>What \<open>json.loads\<close> may do with a text: return a value, raise \<open>ValueError\<close>, or run
  out of stack on one nested too deep.\<close>

datatype loaded = Loaded json | LoadValueError | LoadRecursionError

text \<open>\<open>v[key]\<close> and iteration over a JSON value, \<open>None\<close> where Python raises \<open>TypeError\<close>
  or \<open>KeyError\<close>: a string iterates over its characters, a \<open>dict\<close> over its keys.\<close>

definition getitem :: "json \<Rightarrow> string \<Rightarrow> json option" where
  "getitem v k = (case v of JObj d \<Rightarrow> map_of d k | _ \<Rightarrow> None)"

definition py_iter :: "json \<Rightarrow> json list option" where
  "py_iter v =
     (case v of
        JList xs \<Rightarrow> Some xs
      | JStr s \<Rightarrow> Some (map (\<lambda>c. JStr [c]) s)
      | JObj d \<Rightarrow> Some (map (JStr \<circ> fst) d)
      | _ \<Rightarrow> None)"

text \<open>What may be a member of a set or a key of a dict.\<close>

definition hashable :: "json \<Rightarrow> bool" where
  "hashable v = (case v of JList _ \<Rightarrow> False | JObj _ \<Rightarrow> False | _ \<Rightarrow> True)"

text \<open>\<open>len(v)\<close>, \<open>None\<close> where it raises \<open>TypeError\<close>.\<close>

definition py_len :: "json \<Rightarrow> nat option" where
  "py_len v =
     (case v of
        JStr s \<Rightarrow> Some (length s) | JList xs \<Rightarrow> Some (length xs) | JObj d \<Rightarrow> Some (length d)
      | _ \<Rightarrow> None)"

text \<open>\<open>int(x)\<close> of a finite float cuts towards zero.\<close>

definition py_trunc :: "rat \<Rightarrow> int" where
  "py_trunc x = (if 0 \<le> x then floor x else - floor (- x))"

text \<open>\<open>==\<close> of two values: numbers compare by value whatever their type.\<close>

fun number_of :: "json \<Rightarrow> rat option" where
  "number_of (JBool b) = Some (if b then 1 else 0)"
| "number_of (JInt i) = Some (of_int i)"
| "number_of (JFloat (Finite x)) = Some x"
| "number_of _ = None"

fun py_eq :: "json \<Rightarrow> json \<Rightarrow> bool" where
  "py_eq (JList xs) (JList ys) = list_all2 py_eq xs ys"
| "py_eq (JObj d) (JObj d') =
     (list_all (\<lambda>(k, v). case map_of d' k of Some v' \<Rightarrow> py_eq v v' | None \<Rightarrow> False) d \<and>
      list_all (\<lambda>(k, v). map_of d k \<noteq> None) d')"
| "py_eq v w =
     (case (number_of v, number_of w) of
        (Some x, Some y) \<Rightarrow> x = y
      | (None, None) \<Rightarrow> v = w \<and> v \<noteq> JFloat NaN
      | _ \<Rightarrow> False)"

text \<open>\<open>math.isfinite\<close> of an \<open>int\<close> converts it to a float first, which raises \<open>OverflowError\<close> from
  half a unit below two to the 1024 on.\<close>

definition int_overflows :: "int \<Rightarrow> bool" where
  "int_overflows i \<longleftrightarrow> 2 ^ 1024 - 2 ^ 970 \<le> \<bar>i\<bar>"

lemma py_eq_JStr [simp]: "py_eq (JStr s) v \<longleftrightarrow> v = JStr s"
proof (cases v)
  case (JFloat x)
  then show ?thesis by (cases x) simp_all
qed auto

lemma dget_Nil [simp]: "dget [] k = JNull"
  and dget_Cons [simp]: "dget ((k', v) # d) k = (if k' = k then v else dget d k)"
  by (simp_all add: dget_def)

lemma getitem_JObj [simp]: "getitem (JObj d) k = map_of d k"
  and py_iter_JList [simp]: "py_iter (JList xs) = Some xs"
  by (simp_all add: getitem_def py_iter_def)

subsection \<open>Errors as values\<close>

text \<open>\<open>Inl\<close> is a raise: what follows is not run. \<open>require\<close> is an \<open>if\<close> that raises when its
  condition fails, \<open>from_option\<close> turns \<open>None\<close> into a raise, and \<open>collect\<close> runs a
  comprehension whose body may raise.\<close>

definition and_then :: "'e + 'a \<Rightarrow> ('a \<Rightarrow> 'e + 'b) \<Rightarrow> 'e + 'b" where
  "and_then r f = (case r of Inl e \<Rightarrow> Inl e | Inr v \<Rightarrow> f v)"

definition require :: "bool \<Rightarrow> 'e \<Rightarrow> 'e + unit" where
  "require b e = (if b then Inr () else Inl e)"

definition from_option :: "'e \<Rightarrow> 'a option \<Rightarrow> 'e + 'a" where
  "from_option e v = (case v of None \<Rightarrow> Inl e | Some x \<Rightarrow> Inr x)"

fun collect :: "('a \<Rightarrow> 'e + 'b) \<Rightarrow> 'a list \<Rightarrow> 'e + 'b list" where
  "collect f [] = Inr []"
| "collect f (x # xs) = and_then (f x) (\<lambda>y. and_then (collect f xs) (\<lambda>ys. Inr (y # ys)))"

lemma and_then_Inr [simp]: "and_then (Inr v) f = f v"
  and and_then_Inl [simp]: "and_then (Inl e) f = Inl e"
  by (simp_all add: and_then_def)

lemma and_then_eq_Inr [result_simps]:
  "and_then r f = Inr y \<longleftrightarrow> (\<exists>v. r = Inr v \<and> f v = Inr y)"
  by (cases r) simp_all

lemma require_eq_Inr [result_simps]: "require b e = Inr u \<longleftrightarrow> b"
  by (simp add: require_def)

lemma require_simps [simp]: "b \<Longrightarrow> require b e = Inr ()" "\<not> b \<Longrightarrow> require b e = Inl e"
  by (simp_all add: require_def)

lemma from_option_eq_Inr [result_simps]: "from_option e v = Inr x \<longleftrightarrow> v = Some x"
  by (cases v) (simp_all add: from_option_def)

lemma from_option_simps [simp]: "from_option e (Some x) = Inr x" "from_option e None = Inl e"
  by (simp_all add: from_option_def)

lemma collect_eq_Inr: "collect f xs = Inr ys \<longleftrightarrow> list_all2 (\<lambda>x y. f x = Inr y) xs ys"
  by (induction xs arbitrary: ys) (auto simp: and_then_eq_Inr list_all2_Cons1)

lemma collect_map: "(\<And>x. x \<in> set xs \<Longrightarrow> f (g x) = Inr (h x)) \<Longrightarrow>
    collect f (map g xs) = Inr (map h xs)"
  by (induction xs) auto

end
