(* ===== verification/Incremental.thy ===== *)
theory Incremental
  imports Main
begin

text \<open>
  The contract of a stage that consumes its input in pieces: a state, a \<open>feed\<close> that takes a
  piece and returns what may leave now, a \<open>flush\<close> for the end of the input. A stage keeps the
  contract when some \<open>owed s fut\<close>, the output still to come from state \<open>s\<close> if the rest of the
  input is \<open>fut\<close>, explains both; then how the input was cut into pieces cannot be seen.
\<close>

fun run_stream :: "('s \<Rightarrow> 'a list \<Rightarrow> 'b list \<times> 's) \<Rightarrow> ('s \<Rightarrow> 'b list) \<Rightarrow> 's \<Rightarrow> 'a list list \<Rightarrow> 'b list"
where
  "run_stream fd fl s [] = fl s"
| "run_stream fd fl s (c # cs) = (case fd s c of (out, s') \<Rightarrow> out @ run_stream fd fl s' cs)"

text \<open>What has left the stage after some pieces, before the end is known.\<close>

fun run_feeds :: "('s \<Rightarrow> 'a list \<Rightarrow> 'b list \<times> 's) \<Rightarrow> 's \<Rightarrow> 'a list list \<Rightarrow> 'b list \<times> 's" where
  "run_feeds fd s [] = ([], s)"
| "run_feeds fd s (c # cs) =
     (case fd s c of (out, s') \<Rightarrow> case run_feeds fd s' cs of (outs, s'') \<Rightarrow> (out @ outs, s''))"

locale incremental =
  fixes feed :: "'s \<Rightarrow> 'a list \<Rightarrow> 'b list \<times> 's"
    and flush :: "'s \<Rightarrow> 'b list"
    and owed :: "'s \<Rightarrow> 'a list \<Rightarrow> 'b list"
    and inv :: "'s \<Rightarrow> bool"
  assumes feed_inv: "inv s \<Longrightarrow> feed s c = (out, s') \<Longrightarrow> inv s'"
    and feed_owed: "inv s \<Longrightarrow> feed s c = (out, s') \<Longrightarrow> owed s (c @ fut) = out @ owed s' fut"
    and flush_owed: "inv s \<Longrightarrow> flush s = owed s []"
begin

lemma run_owed: "inv s \<Longrightarrow> run_stream feed flush s cs = owed s (concat cs)"
proof (induction cs arbitrary: s)
  case Nil
  then show ?case by (simp add: flush_owed)
next
  case (Cons c cs)
  obtain out s' where fd: "feed s c = (out, s')" by fastforce
  from Cons.IH [OF feed_inv [OF Cons.prems fd]] feed_owed [OF Cons.prems fd]
  show ?case using fd by simp
qed

lemma chunking_invisible:
  "inv s \<Longrightarrow> concat cs = concat ds \<Longrightarrow> run_stream feed flush s cs = run_stream feed flush s ds"
  by (simp add: run_owed)

lemma feeds_owed:
  "inv s \<Longrightarrow> run_feeds feed s cs = (out, s') \<Longrightarrow>
   inv s' \<and> owed s (concat cs @ fut) = out @ owed s' fut"
proof (induction cs arbitrary: s out s')
  case Nil
  then show ?case by simp
next
  case (Cons c cs)
  obtain o1 s1 where fd: "feed s c = (o1, s1)" by fastforce
  obtain o2 s2 where rf: "run_feeds feed s1 cs = (o2, s2)" by fastforce
  from Cons.IH [OF feed_inv [OF Cons.prems(1) fd] rf] feed_owed [OF Cons.prems(1) fd]
    Cons.prems(2) fd rf
  show ?case by auto
qed

text \<open>What has left is never taken back: it begins the output of every continuation.\<close>

lemma emitted_prefix:
  "inv s \<Longrightarrow> run_feeds feed s cs = (out, s') \<Longrightarrow>
   \<exists>rest. run_stream feed flush s (cs @ ds) = out @ rest"
  using feeds_owed [of s cs out s' "concat ds"] run_owed [of s "cs @ ds"] by auto

end

end
