(* ===== verification/Thinking.thy ===== *)
theory Thinking
  imports Py_Prelude Incremental
begin

text \<open>
  Thinking tags (\<open>engines/_thinking.py\<close>): the batch stripper, which runs two regular
  expressions over a finished answer, and \<open>ThinkingFilter\<close>, the state machine that does
  the same to an answer arriving in pieces. \<open>visible\<close> is the specification of the
  filter: what is left when every thinking span is dropped in one pass.
\<close>

subsection \<open>The batch stripper\<close>

text \<open>
  \<open>_THINK_BLOCK_RE\<close> is \<open><(think(?:ing)?)\b[^>]*>.*?</\1>\<close> with DOTALL and IGNORECASE.
  \<open>match_open_name nm s\<close> matches \<open><nm\b\<close> at the head of \<open>s\<close> and returns what follows.
  From there \<open>[^>]*>\<close> ends at the first \<open>>\<close> (it has no other choice) and the lazy
  \<open>.*?</\1>\<close> at the first closing tag of that name. The optional \<open>ing\<close> is greedy, so
  the longer name is tried first.
\<close>

definition word_boundary :: "string \<Rightarrow> bool" where
  "word_boundary r = (case r of [] \<Rightarrow> True | c # _ \<Rightarrow> \<not> is_word c)"

definition match_open_name :: "string \<Rightarrow> string \<Rightarrow> string option" where
  "match_open_name nm s =
     (if lower (take (Suc (length nm)) s) = CHR ''<'' # nm
         \<and> word_boundary (drop (Suc (length nm)) s)
      then Some (drop (Suc (length nm)) s) else None)"

definition close_tag :: "string \<Rightarrow> string" where
  "close_tag nm = ''</'' @ nm @ ''>''"

definition match_block_with :: "string \<Rightarrow> string \<Rightarrow> string option" where
  "match_block_with nm s =
     (case match_open_name nm s of
        None \<Rightarrow> None
      | Some r \<Rightarrow>
          (case find_sub ''>'' r of
             None \<Rightarrow> None
           | Some i \<Rightarrow>
               (let body = drop (Suc i) r
                in case find_sub (close_tag nm) (lower body) of
                     None \<Rightarrow> None
                   | Some j \<Rightarrow> Some (drop (j + length (close_tag nm)) body))))"

definition match_block :: "string \<Rightarrow> string option" where
  "match_block s =
     (case match_block_with ''thinking'' s of
        Some r \<Rightarrow> Some r
      | None \<Rightarrow> match_block_with ''think'' s)"

lemma match_open_name_length:
  "match_open_name nm s = Some r \<Longrightarrow> length r < length s"
  by (cases s) (auto simp: match_open_name_def lower_def split: if_splits)

lemma match_block_with_length:
  "match_block_with nm s = Some r \<Longrightarrow> length r < length s"
  by (auto simp: match_block_with_def Let_def split: option.splits
      dest: match_open_name_length)

lemma match_block_length [dest]: "match_block s = Some r \<Longrightarrow> length r < length s"
  by (auto simp: match_block_def split: option.splits dest: match_block_with_length)

text \<open>\<open>_THINK_BLOCK_RE.sub("", text)\<close>: leftmost matches, none overlapping.\<close>

function sub_blocks :: "string \<Rightarrow> string" where
  "sub_blocks [] = []"
| "sub_blocks (c # cs) =
     (case match_block (c # cs) of
        Some r \<Rightarrow> sub_blocks r
      | None \<Rightarrow> c # sub_blocks cs)"
  by pat_completeness auto
termination
  by (relation "measure length") (auto dest!: match_block_length)

text \<open>\<open>_THINK_TAIL_RE\<close> is \<open><think(?:ing)?\b.*$\<close>, also DOTALL: from the first opening
  tag to the end.\<close>

definition opens_tag :: "string \<Rightarrow> bool" where
  "opens_tag s \<longleftrightarrow>
     match_open_name ''thinking'' s \<noteq> None \<or> match_open_name ''think'' s \<noteq> None"

fun sub_tail :: "string \<Rightarrow> string" where
  "sub_tail [] = []"
| "sub_tail (c # cs) = (if opens_tag (c # cs) then [] else c # sub_tail cs)"

definition strip_thinking_blocks :: "string \<Rightarrow> string" where
  "strip_thinking_blocks text = strip (sub_tail (sub_blocks text))"

subsection \<open>The streaming filter\<close>

datatype tstate = Outside | Name | Opening | Inside

record tfilter =
  buf :: string
  tstate :: tstate
  tag :: string

definition new_filter :: tfilter where
  "new_filter = \<lparr>buf = [], tstate = Outside, tag = []\<rparr>"

definition think_names :: "string list" where
  "think_names = [''thinking'', ''think'']"

text \<open>\<open>_find_open\<close>, \<open>_read_name\<close> and \<open>_viable_prefix_len\<close>.\<close>

definition find_open :: "string \<Rightarrow> nat option" where
  "find_open text = find_sub ''<think'' (lower text)"

definition read_name :: "string \<Rightarrow> string \<times> bool" where
  "read_name text = (takeWhile is_word (tl text), dropWhile is_word (tl text) \<noteq> [])"

fun viable_from :: "nat \<Rightarrow> string \<Rightarrow> nat" where
  "viable_from 0 text = 0"
| "viable_from (Suc n) text =
     (if starts_with (drop (length text - Suc n) (lower text)) ''<think'' then Suc n
      else viable_from n text)"

definition viable_prefix_len :: "string \<Rightarrow> nat" where
  "viable_prefix_len text = viable_from (min (length text) (length ''<think'' - 1)) text"

text \<open>The \<open>while self._buf\<close> loop of \<open>feed\<close>; \<open>out\<close> is the join of the list it builds.\<close>

function feed_loop :: "tfilter \<Rightarrow> string \<Rightarrow> string \<times> tfilter" where
  "feed_loop f out =
     (if buf f = [] then (out, f)
      else case tstate f of
        Outside \<Rightarrow>
          (case find_open (buf f) of
             None \<Rightarrow>
               (let keep = viable_prefix_len (buf f); n = length (buf f) - keep
                in if keep \<noteq> 0 then (out @ take n (buf f), f\<lparr>buf := drop n (buf f)\<rparr>)
                   else (out @ buf f, f\<lparr>buf := []\<rparr>))
           | Some i \<Rightarrow>
               feed_loop (f\<lparr>buf := drop i (buf f), tstate := Name\<rparr>) (out @ take i (buf f)))
      | Name \<Rightarrow>
          (case read_name (buf f) of (name, ended) \<Rightarrow>
             if \<not> ended then (out, f)
             else if lower name \<notin> set think_names
             then feed_loop (f\<lparr>buf := tl (buf f), tstate := Outside\<rparr>) (out @ [hd (buf f)])
             else feed_loop (f\<lparr>tag := lower name, tstate := Opening\<rparr>) out)
      | Opening \<Rightarrow>
          (case find_sub ''>'' (buf f) of
             None \<Rightarrow> (out, f)
           | Some e \<Rightarrow> feed_loop (f\<lparr>buf := drop (e + 1) (buf f), tstate := Inside\<rparr>) out)
      | Inside \<Rightarrow>
          (let close = close_tag (tag f)
           in case find_sub close (lower (buf f)) of
                None \<Rightarrow>
                  (let keep = min (length (buf f)) (length close - 1)
                   in (out, f\<lparr>buf := drop (length (buf f) - keep) (buf f)\<rparr>))
              | Some e \<Rightarrow>
                  feed_loop (f\<lparr>buf := drop (e + length close) (buf f),
                               tstate := Outside, tag := []\<rparr>) out))"
  by pat_completeness auto
termination
  by (relation "measures [\<lambda>(f, out). length (buf f),
        \<lambda>(f, out). case tstate f of Outside \<Rightarrow> 2 | Name \<Rightarrow> 1 | _ \<Rightarrow> 0]")
     (auto simp: close_tag_def)

declare feed_loop.simps [simp del]

definition feed :: "tfilter \<Rightarrow> string \<Rightarrow> string \<times> tfilter" where
  "feed f text = feed_loop (f\<lparr>buf := buf f @ text\<rparr>) []"

definition flush :: "tfilter \<Rightarrow> string" where
  "flush f =
     (case tstate f of
        Opening \<Rightarrow> []
      | Inside \<Rightarrow> []
      | Name \<Rightarrow> (if lower (fst (read_name (buf f))) \<in> set think_names then [] else buf f)
      | Outside \<Rightarrow> buf f)"

text \<open>A whole stream: every \<open>feed\<close>, then \<open>flush\<close>.\<close>

definition stream :: "tfilter \<Rightarrow> string list \<Rightarrow> string" where
  "stream f chunks = run_stream feed flush f chunks"

subsection \<open>What the filter still owes\<close>

text \<open>What the filter will still show: per state, as a function of all the text that is
  not yet decided.\<close>

function visible :: "string \<Rightarrow> string" where
  "visible [] = []"
| "visible (c # cs) =
     (if opens_tag (c # cs)
      then (case match_block (c # cs) of Some r \<Rightarrow> visible r | None \<Rightarrow> [])
      else c # visible cs)"
  by pat_completeness auto
termination
  by (relation "measure length") (auto dest!: match_block_length)

definition after_body :: "string \<Rightarrow> string \<Rightarrow> string" where
  "after_body nm s =
     (case find_sub (close_tag nm) (lower s) of
        None \<Rightarrow> [] | Some j \<Rightarrow> visible (drop (j + length (close_tag nm)) s))"

definition after_open :: "string \<Rightarrow> string \<Rightarrow> string" where
  "after_open nm s =
     (case find_sub ''>'' s of None \<Rightarrow> [] | Some i \<Rightarrow> after_body nm (drop (Suc i) s))"

definition remaining :: "tfilter \<Rightarrow> string \<Rightarrow> string" where
  "remaining f fut =
     (case tstate f of
        Outside \<Rightarrow> visible (buf f @ fut)
      | Name \<Rightarrow> visible (buf f @ fut)
      | Opening \<Rightarrow> after_open (tag f) (buf f @ fut)
      | Inside \<Rightarrow> after_body (tag f) (buf f @ fut))"

definition filter_ok :: "tfilter \<Rightarrow> bool" where
  "filter_ok f \<longleftrightarrow>
     (case tstate f of
        Outside \<Rightarrow> True
      | Name \<Rightarrow> starts_with ''<think'' (lower (buf f))
      | _ \<Rightarrow> tag f \<in> set think_names)"

definition settled :: "tfilter \<Rightarrow> bool" where
  "settled f \<longleftrightarrow>
     (case tstate f of
        Outside \<Rightarrow> find_open (buf f) = None
      | Name \<Rightarrow> \<not> snd (read_name (buf f))
      | Opening \<Rightarrow> find_sub ''>'' (buf f) = None
      | Inside \<Rightarrow> find_sub (close_tag (tag f)) (lower (buf f)) = None)"

subsection \<open>Opening tags\<close>

lemma takeWhile_word_boundary:
  assumes "list_all is_word (take n cs)" and "word_boundary (drop n cs)" and "n \<le> length cs"
  shows "takeWhile is_word cs = take n cs \<and> dropWhile is_word cs = drop n cs"
proof -
  have cs: "cs = take n cs @ drop n cs" by simp
  have all: "\<forall>x \<in> set (take n cs). is_word x"
    using assms(1) by (simp add: list_all_iff)
  show ?thesis
  proof (cases "drop n cs")
    case Nil
    then show ?thesis using all assms(3) by simp
  next
    case (Cons d ds)
    then have "\<not> is_word d" using assms(2) by (simp add: word_boundary_def)
    with all Cons show ?thesis
      by (metis append_Nil2 cs dropWhile.simps(2) dropWhile_append2 takeWhile.simps(2)
          takeWhile_append2)
  qed
qed

lemma list_all_word_lower: "list_all is_word (lower s) = list_all is_word s"
  by (simp add: lower_def list_all_iff)

lemma match_open_name_iff:
  assumes "list_all is_word nm"
  shows "match_open_name nm (c # cs) = Some r \<longleftrightarrow>
    c = CHR ''<'' \<and> lower (takeWhile is_word cs) = nm \<and> r = dropWhile is_word cs"
proof
  assume m: "match_open_name nm (c # cs) = Some r"
  then have nm: "lower (take (length nm) cs) = nm" and b: "word_boundary (drop (length nm) cs)"
    and c: "c = CHR ''<''" and r: "r = drop (length nm) cs"
    by (auto simp: match_open_name_def split: if_splits)
  have len: "length nm \<le> length cs"
    using nm by (metis length_lower length_take min.cobounded1)
  have "list_all is_word (take (length nm) cs)"
    using assms nm list_all_word_lower by metis
  from takeWhile_word_boundary [OF this b len]
  show "c = CHR ''<'' \<and> lower (takeWhile is_word cs) = nm \<and> r = dropWhile is_word cs"
    using nm c r by simp
next
  assume a: "c = CHR ''<'' \<and> lower (takeWhile is_word cs) = nm \<and> r = dropWhile is_word cs"
  then have len: "length nm = length (takeWhile is_word cs)" by auto
  have "take (length nm) cs = takeWhile is_word cs" and "drop (length nm) cs = dropWhile is_word cs"
    unfolding len by (simp_all add: takeWhile_eq_take [symmetric] dropWhile_eq_drop [symmetric])
  moreover have "word_boundary (dropWhile is_word cs)"
    using hd_dropWhile [of is_word cs] unfolding word_boundary_def
    by (metis list.case_eq_if list.exhaust_sel list.simps(4))
  ultimately show "match_open_name nm (c # cs) = Some r"
    using a by (simp add: match_open_name_def)
qed

lemma think_names_word: "nm \<in> set think_names \<Longrightarrow> list_all is_word nm"
  by (auto simp: think_names_def is_word_def)

lemma match_open_name_None_iff:
  assumes "list_all is_word nm"
  shows "match_open_name nm (c # cs) = None \<longleftrightarrow>
    \<not> (c = CHR ''<'' \<and> lower (takeWhile is_word cs) = nm)"
  using match_open_name_iff [OF assms, of c cs] by (cases "match_open_name nm (c # cs)") auto

lemma opens_tag_Cons:
  "opens_tag (c # cs) \<longleftrightarrow> c = CHR ''<'' \<and> lower (takeWhile is_word cs) \<in> set think_names"
proof -
  have w: "''thinking'' \<in> set think_names" "''think'' \<in> set think_names"
    and set: "set think_names = {''thinking'', ''think''}"
    by (simp_all add: think_names_def)
  show ?thesis
    unfolding opens_tag_def match_open_name_None_iff [OF think_names_word [OF w(1)]]
      match_open_name_None_iff [OF think_names_word [OF w(2)]] set
    by blast
qed

lemma opens_tag_Nil [simp]: "\<not> opens_tag []"
  by (simp add: opens_tag_def match_open_name_def)

lemma visible_tag:
  assumes nm: "nm = lower (takeWhile is_word cs)" and "nm \<in> set think_names"
  shows "visible (CHR ''<'' # cs) = after_open nm (dropWhile is_word cs)"
proof -
  let ?s = "CHR ''<'' # cs"
  have m: "match_open_name n ?s = (if n = nm then Some (dropWhile is_word cs) else None)"
    if "n \<in> set think_names" for n
    using match_open_name_iff [OF think_names_word [OF that], of "CHR ''<''" cs]
      match_open_name_None_iff [OF think_names_word [OF that], of "CHR ''<''" cs] nm
    by auto
  have with_other: "match_block_with n ?s = None" if "n \<in> set think_names" "n \<noteq> nm" for n
    unfolding match_block_with_def m [OF that(1)] using that(2) by simp
  have w: "''thinking'' \<in> set think_names" "''think'' \<in> set think_names"
    and disj: "nm = ''thinking'' \<or> nm = ''think''" and neq: "''thinking'' \<noteq> ''think''"
    using assms(2) by (simp_all add: think_names_def)
  from disj have "match_block ?s = match_block_with nm ?s"
    unfolding match_block_def using with_other [OF w(1)] with_other [OF w(2)]
    by (elim disjE) (simp_all split: option.split)
  moreover have "opens_tag ?s" unfolding opens_tag_Cons using assms by blast
  ultimately have "visible ?s = (case match_block_with nm ?s of Some r \<Rightarrow> visible r | None \<Rightarrow> [])"
    by simp
  then show ?thesis
    unfolding match_block_with_def m [OF assms(2)]
    by (simp add: after_open_def after_body_def Let_def split: option.split)
qed

lemma think_names_start: "nm \<in> set think_names \<Longrightarrow> starts_with ''think'' nm"
  by (auto simp: think_names_def)

lemma opens_tag_think: "opens_tag s \<Longrightarrow> starts_with ''<think'' (lower s)"
proof (cases s)
  case (Cons c cs)
  assume "opens_tag s"
  with Cons have c: "c = CHR ''<''" and nm: "lower (takeWhile is_word cs) \<in> set think_names"
    by (auto simp: opens_tag_Cons)
  have "starts_with ''think'' (lower (takeWhile is_word cs))"
    using nm by (rule think_names_start)
  then have "starts_with ''think'' (lower (takeWhile is_word cs) @ lower (dropWhile is_word cs))"
    by (rule starts_with_append)
  then have "starts_with ''think'' (lower cs)"
    by (metis lower_append takeWhile_dropWhile_id)
  with Cons c show ?thesis by simp
qed simp

subsection \<open>One piece of text\<close>

lemma visible_prefix:
  "(\<And>i. i < length a \<Longrightarrow> \<not> opens_tag (drop i a @ b)) \<Longrightarrow> visible (a @ b) = a @ visible b"
proof (induction a)
  case (Cons c cs)
  have "\<not> opens_tag (drop i cs @ b)" if "i < length cs" for i
    using Cons.prems [of "Suc i"] that by simp
  moreover have "\<not> opens_tag (c # cs @ b)" using Cons.prems [of 0] by simp
  ultimately show ?case using Cons.IH by simp
qed simp

lemma viable_from_bound: "viable_from n t \<le> n"
  by (induction n) auto

lemma viable_from_ge:
  "m \<le> n \<Longrightarrow> m \<noteq> 0 \<Longrightarrow> starts_with (drop (length t - m) (lower t)) ''<think'' \<Longrightarrow>
   m \<le> viable_from n t"
proof (induction n)
  case (Suc n)
  show ?case
  proof (cases "m = Suc n")
    case True
    with Suc.prems show ?thesis by simp
  next
    case False
    with Suc have "m \<le> viable_from n t" by simp
    with Suc.prems(1) show ?thesis by simp
  qed
qed simp

lemma viable_prefix_len_eq: "viable_prefix_len t = viable_from (min (length t) 5) t"
  by (simp add: viable_prefix_len_def eval_nat_numeral)

lemma drop_take_append:
  "i \<le> length t \<Longrightarrow> j \<le> i \<Longrightarrow> drop j (take i t) @ drop i t @ u = drop j t @ u"
proof -
  assume "i \<le> length t" and "j \<le> i"
  then have "drop j (take i t @ drop i t) = drop j (take i t) @ drop i t"
    by (simp only: drop_append length_take) simp
  then show ?thesis by simp
qed

lemma viable_prefix_len_bound: "viable_prefix_len t \<le> length t"
  using viable_from_bound [of "min (length t) 5" t] by (simp add: viable_prefix_len_eq)

text \<open>No opening tag can begin before the withheld tail, whatever follows.\<close>

lemma no_open_before_tail:
  assumes none: "find_open t = None" and i: "i < length t - viable_prefix_len t"
  shows "\<not> opens_tag (drop i t @ fut)"
proof
  assume "opens_tag (drop i t @ fut)"
  then have sw: "starts_with ''<think'' (lower (drop i t) @ lower fut)"
    using opens_tag_think by fastforce
  let ?m = "length t - i"
  show False
  proof (cases "6 \<le> ?m")
    case True
    then have "starts_with ''<think'' (lower (drop i t))"
      using sw by (simp add: starts_with_append_long)
    then show False
      using find_sub_None_no_match [OF none [unfolded find_open_def], of i]
      by (simp add: drop_lower)
  next
    case False
    then have m5: "?m \<le> 5" by simp
    have "take ?m ''<think'' = lower (drop i t)"
      using sw i m5 by (simp add: starts_with_def) (metis append_eq_conv_conj length_drop
          length_lower min.absorb2 min_def take_append take_take)
    then have "starts_with (drop (length t - ?m) (lower t)) ''<think''"
      using i by (simp add: starts_with_def drop_lower)
    then have "?m \<le> viable_from (min (length t) 5) t"
      using i m5 by (intro viable_from_ge) auto
    then show False using i by (simp add: viable_prefix_len_eq)
  qed
qed

lemma visible_outside:
  assumes "find_open t = None"
  defines "n \<equiv> length t - viable_prefix_len t"
  shows "visible (t @ fut) = take n t @ visible (drop n t @ fut)"
proof -
  have "visible (take n t @ (drop n t @ fut)) = take n t @ visible (drop n t @ fut)"
  proof (rule visible_prefix)
    fix i assume "i < length (take n t)"
    then have "i < n" and "n \<le> length t" by (simp_all add: n_def)
    then have "drop i (take n t) @ drop n t @ fut = drop i t @ fut"
      by (intro drop_take_append) simp_all
    moreover have "\<not> opens_tag (drop i t @ fut)"
      using no_open_before_tail [OF assms(1), of i fut] \<open>i < n\<close> by (simp add: n_def)
    ultimately show "\<not> opens_tag (drop i (take n t) @ drop n t @ fut)" by (simp only:) simp
  qed
  then show ?thesis by (simp flip: append_assoc)
qed

lemma visible_to_open:
  assumes "find_open t = Some i"
  shows "visible (t @ fut) = take i t @ visible (drop i t @ fut)"
proof -
  have b: "i + 6 \<le> length t"
    using find_sub_Some_bound [OF assms [unfolded find_open_def]] by simp
  have "\<not> opens_tag (drop j (take i t) @ (drop i t @ fut))" if "j < i" for j
  proof
    assume "opens_tag (drop j (take i t) @ (drop i t @ fut))"
    moreover have "drop j (take i t) @ (drop i t @ fut) = drop j t @ fut"
      using that b by (intro drop_take_append) simp_all
    ultimately have "starts_with ''<think'' (lower (drop j t @ fut))"
      using opens_tag_think by metis
    moreover have "6 \<le> length (lower (drop j t))" using that b by simp
    ultimately have "starts_with ''<think'' (lower (drop j t))"
      using starts_with_append_long [of "''<think''" "lower (drop j t)" "lower fut"] by simp
    then show False
      using find_sub_first [OF assms [unfolded find_open_def] that] by (simp add: drop_lower)
  qed
  then have "visible (take i t @ (drop i t @ fut)) = take i t @ visible (drop i t @ fut)"
    by (intro visible_prefix) simp
  then show ?thesis by (simp flip: append_assoc)
qed

text \<open>The word that follows \<open><\<close>, once it has ended, does not change with more text.\<close>

lemma word_ended:
  "dropWhile is_word s \<noteq> [] \<Longrightarrow>
   takeWhile is_word (s @ u) = takeWhile is_word s \<and>
   dropWhile is_word (s @ u) = dropWhile is_word s @ u"
  by (induction s) auto

lemma word_not_ended: "dropWhile is_word s = [] \<Longrightarrow> takeWhile is_word s = s"
  by (metis append_Nil2 takeWhile_dropWhile_id)

lemma starts_think_Cons:
  "starts_with ''<think'' (lower b) \<Longrightarrow> \<exists>cs. b = CHR ''<'' # cs"
  by (cases b) auto

lemma no_gt_in_word: "find_sub ''>'' (takeWhile is_word s @ u) =
    map_option ((+) (length (takeWhile is_word s))) (find_sub ''>'' u)"
proof -
  have "\<not> starts_with ''>'' (drop j (takeWhile is_word s @ u))"
    if "j < length (takeWhile is_word s)" for j
  proof
    let ?w = "takeWhile is_word s"
    assume "starts_with ''>'' (drop j (?w @ u))"
    moreover have "drop j (?w @ u) = ?w ! j # (drop (Suc j) ?w @ u)"
      using that by (simp add: Cons_nth_drop_Suc [symmetric])
    ultimately have "?w ! j = CHR ''>''" by simp
    moreover have "is_word (?w ! j)"
      using that nth_mem set_takeWhileD by metis
    ultimately show False by (simp add: is_word_def)
  qed
  from find_sub_drop_early [OF this] show ?thesis by simp
qed

lemma after_open_skip_word:
  "after_open nm (CHR ''<'' # takeWhile is_word s @ u) = after_open nm u"
proof -
  have "find_sub ''>'' (CHR ''<'' # takeWhile is_word s @ u) =
    map_option ((+) (Suc (length (takeWhile is_word s)))) (find_sub ''>'' u)"
    using no_gt_in_word [of s u] by (cases "find_sub ''>'' u") simp_all
  then show ?thesis by (auto simp: after_open_def split: option.splits)
qed

text \<open>Each branch of the loop pays out exactly what it owes.\<close>

lemma remaining_name_other:
  assumes "b = CHR ''<'' # cs" and "dropWhile is_word cs \<noteq> []"
    and "lower (takeWhile is_word cs) \<notin> set think_names"
  shows "visible (b @ fut) = CHR ''<'' # visible (cs @ fut)"
  using assms word_ended [OF assms(2), of fut] by (simp add: opens_tag_Cons)

lemma remaining_name_tag:
  assumes "b = CHR ''<'' # cs" and "dropWhile is_word cs \<noteq> []"
    and "lower (takeWhile is_word cs) \<in> set think_names"
  shows "visible (b @ fut) = after_open (lower (takeWhile is_word cs)) (b @ fut)"
proof -
  let ?w = "takeWhile is_word cs" and ?r = "dropWhile is_word cs"
  note w = word_ended [OF assms(2), of fut]
  have "visible (CHR ''<'' # (cs @ fut)) = after_open (lower ?w) (?r @ fut)"
    using visible_tag [of "lower ?w" "cs @ fut"] assms(3) w by simp
  also have "\<dots> = after_open (lower ?w) (CHR ''<'' # ?w @ (?r @ fut))"
    by (simp only: after_open_skip_word)
  also have "CHR ''<'' # ?w @ (?r @ fut) = b @ fut"
    using assms(1) by (metis append_Cons append_assoc takeWhile_dropWhile_id)
  finally show ?thesis using assms(1) by simp
qed

lemma remaining_opening:
  "find_sub ''>'' b = Some e \<Longrightarrow> after_open nm (b @ fut) = after_body nm (drop (e + 1) b @ fut)"
  using find_sub_append [of "''>''" b e fut] find_sub_Some_bound [of "''>''" b e]
  by (simp add: after_open_def)

lemma remaining_inside_close:
  "find_sub (close_tag nm) (lower b) = Some e \<Longrightarrow>
   after_body nm (b @ fut) = visible (drop (e + length (close_tag nm)) b @ fut)"
  using find_sub_append [of "close_tag nm" "lower b" e "lower fut"]
    find_sub_Some_bound [of "close_tag nm" "lower b" e]
  by (simp add: after_body_def)

lemma remaining_inside_keep:
  assumes "find_sub (close_tag nm) (lower b) = None"
  defines "k \<equiv> min (length b) (length (close_tag nm) - 1)"
  shows "after_body nm (b @ fut) = after_body nm (drop (length b - k) b @ fut)"
proof -
  have "find_sub (close_tag nm) (lower b @ lower fut) =
    map_option ((+) (length b - k))
      (find_sub (close_tag nm) (lower (drop (length b - k) b) @ lower fut))"
    using find_sub_tail [OF assms(1), of k "lower fut"]
    by (simp add: k_def close_tag_def drop_lower)
  then show ?thesis
    by (auto simp: after_body_def k_def algebra_simps split: option.splits)
qed

lemma find_sub_drop_None: "find_sub p s = None \<Longrightarrow> find_sub p (drop n s) = None"
proof (cases "find_sub p (drop n s)")
  case (Some i)
  assume "find_sub p s = None"
  moreover have "starts_with p (drop (i + n) s)"
    using find_sub_Some_match [OF Some] by simp
  ultimately show ?thesis using find_sub_None_no_match by blast
qed simp

lemma find_open_drop: "find_open t = None \<Longrightarrow> find_open (drop n t) = None"
  using find_sub_drop_None [of "''<think''" "lower t" n] by (simp add: find_open_def drop_lower)

lemma find_open_Nil [simp]: "find_open [] = None"
  by (simp add: find_open_def)

text \<open>The loop: nothing is lost, nothing is invented, and it stops with nothing left that
  could be decided.\<close>

lemma filter_ok_simps [simp]:
  "filter_ok (f\<lparr>tstate := Outside\<rparr>)"
  "tstate f = Outside \<Longrightarrow> filter_ok f"
  "filter_ok (f\<lparr>tstate := Opening\<rparr>) \<longleftrightarrow> tag f \<in> set think_names"
  "filter_ok (f\<lparr>tstate := Inside\<rparr>) \<longleftrightarrow> tag f \<in> set think_names"
  "filter_ok (f\<lparr>tstate := Name\<rparr>) \<longleftrightarrow> starts_with ''<think'' (lower (buf f))"
  by (simp_all add: filter_ok_def)

lemma feed_loop_empty:
  assumes "buf f = []" and "filter_ok f"
  shows "settled f"
  using assms by (auto simp: settled_def filter_ok_def find_open_def close_tag_def
      split: tstate.splits)

lemma feed_loop_correct:
  assumes "filter_ok f" and "feed_loop f out = (out', f')"
  shows "filter_ok f' \<and> settled f' \<and>
    (\<forall>fut. out @ remaining f fut = out' @ remaining f' fut)"
  using assms
proof (induction f out arbitrary: out' f' rule: feed_loop.induct)
  case (1 f out)
  note eq = "1.prems"(2) [unfolded feed_loop.simps [of f out]]
  show ?case
  proof (cases "buf f = []")
    case True
    with eq "1.prems"(1) show ?thesis using feed_loop_empty by auto
  next
    case ne: False
    show ?thesis
    proof (cases "tstate f")
      case Outside
      show ?thesis
      proof (cases "find_open (buf f)")
        case None
        then show ?thesis using eq ne Outside visible_outside [OF None]
          by (auto simp: Let_def remaining_def settled_def find_open_drop [OF None] split: if_splits)
      next
        case (Some i)
        have "starts_with ''<think'' (lower (drop i (buf f)))"
          using find_sub_Some_match [OF Some [unfolded find_open_def]] by (simp add: drop_lower)
        then show ?thesis
          using "1.IH"(1) [OF ne Outside Some, of out' f'] eq ne Outside Some
            visible_to_open [OF Some] by (simp add: filter_ok_def remaining_def)
      qed
    next
      case Name
      then obtain cs where b: "buf f = CHR ''<'' # cs"
        using "1.prems"(1) starts_think_Cons by (auto simp: filter_ok_def)
      let ?w = "takeWhile is_word cs"
      have rd: "read_name (buf f) = (?w, dropWhile is_word cs \<noteq> [])"
        by (simp add: read_name_def b)
      show ?thesis
      proof (cases "dropWhile is_word cs = []")
        case True
        then show ?thesis using eq ne Name rd "1.prems"(1) by (simp add: settled_def)
      next
        case ended: False
        show ?thesis
        proof (cases "lower ?w \<in> set think_names")
          case True
          let ?g = "f\<lparr>tag := lower ?w, tstate := Opening\<rparr>"
          have "feed_loop ?g out = (out', f')" using eq ne Name rd ended True by (simp del: dropWhile_eq_Nil_conv)
          moreover have "filter_ok ?g" using True by simp
          ultimately have "filter_ok f' \<and> settled f' \<and>
              (\<forall>fut. out @ remaining ?g fut = out' @ remaining f' fut)"
            using "1.IH"(3) [OF ne Name rd [symmetric]] ended True by blast
          then show ?thesis using Name remaining_name_tag [OF b ended True]
            by (simp add: remaining_def)
        next
          case False
          let ?g = "f\<lparr>buf := tl (buf f), tstate := Outside\<rparr>"
          have "feed_loop ?g (out @ [hd (buf f)]) = (out', f')"
            using eq ne Name rd ended False by (simp del: dropWhile_eq_Nil_conv)
          moreover have "filter_ok ?g" by simp
          ultimately have "filter_ok f' \<and> settled f' \<and>
              (\<forall>fut. (out @ [hd (buf f)]) @ remaining ?g fut = out' @ remaining f' fut)"
            using "1.IH"(2) [OF ne Name rd [symmetric]] ended False by blast
          then show ?thesis using Name remaining_name_other [OF b ended False] b
            by (simp add: remaining_def)
        qed
      qed
    next
      case Opening
      show ?thesis
      proof (cases "find_sub ''>'' (buf f)")
        case None
        then show ?thesis using eq ne Opening "1.prems"(1) by (simp add: settled_def)
      next
        case (Some e)
        then show ?thesis
          using "1.IH"(4) [OF ne Opening Some, of out' f'] eq ne Opening "1.prems"(1)
            remaining_opening [OF Some]
          by (simp add: filter_ok_def remaining_def)
      qed
    next
      case Inside
      show ?thesis
      proof (cases "find_sub (close_tag (tag f)) (lower (buf f))")
        case None
        then show ?thesis using eq ne Inside "1.prems"(1) remaining_inside_keep [OF None]
            find_sub_drop_None [OF None]
          by (auto simp: settled_def Let_def filter_ok_def remaining_def drop_lower)
      next
        case (Some e)
        then show ?thesis
          using "1.IH"(5) [OF ne Inside refl Some, of out' f'] eq ne Inside
            remaining_inside_close [OF Some]
          by (simp add: filter_ok_def remaining_def)
      qed
    qed
  qed
qed

subsection \<open>The stream\<close>

lemma visible_plain: "find_open t = None \<Longrightarrow> visible t = t"
proof -
  assume none: "find_open t = None"
  have "\<not> opens_tag (drop i t @ [])" for i
    using opens_tag_think [of "drop i t"] find_sub_None_no_match [OF none [unfolded find_open_def], of i]
    by (auto simp: drop_lower)
  from visible_prefix [OF this] show ?thesis by simp
qed

lemma flush_remaining:
  assumes "filter_ok f" and "settled f"
  shows "flush f = remaining f []"
proof (cases "tstate f")
  case Outside
  with assms(2) show ?thesis
    by (simp add: flush_def remaining_def settled_def visible_plain)
next
  case Name
  then obtain cs where b: "buf f = CHR ''<'' # cs"
    using assms(1) starts_think_Cons by (auto simp: filter_ok_def)
  have d: "dropWhile is_word cs = []"
    using assms(2) Name b by (simp add: settled_def read_name_def)
  then have w: "takeWhile is_word cs = cs" by (rule word_not_ended)
  show ?thesis
  proof (cases "lower cs \<in> set think_names")
    case True
    then have "visible (CHR ''<'' # cs) = after_open (lower cs) []"
      using visible_tag [of "lower cs" cs] d w by simp
    then show ?thesis using Name b True
      by (simp add: flush_def remaining_def read_name_def after_open_def w del: visible.simps)
  next
    case False
    have all: "\<forall>c \<in> set cs. is_word c" using d by (simp add: dropWhile_eq_Nil_conv)
    have "\<not> opens_tag (drop i cs @ [])" if "i < length cs" for i
    proof -
      have "drop i cs = cs ! i # drop (Suc i) cs" using that by (simp add: Cons_nth_drop_Suc)
      moreover have "is_word (cs ! i)" using all that by simp
      ultimately show ?thesis by (auto simp: opens_tag_Cons is_word_def)
    qed
    from visible_prefix [OF this] have "visible cs = cs" by simp
    then have "visible (CHR ''<'' # cs) = CHR ''<'' # cs"
      using False by (simp add: opens_tag_Cons w)
    then show ?thesis using Name b False
      by (simp add: flush_def remaining_def read_name_def w)
  qed
qed (use assms in \<open>simp_all add: flush_def remaining_def settled_def after_open_def after_body_def\<close>)

lemma feed_correct:
  assumes "filter_ok f" and "feed f t = (out, f')"
  shows "filter_ok f' \<and> settled f' \<and> (\<forall>fut. remaining f (t @ fut) = out @ remaining f' fut)"
proof -
  have ok: "filter_ok (f\<lparr>buf := buf f @ t\<rparr>)"
    using assms(1) by (auto simp: filter_ok_def starts_with_append split: tstate.splits)
  have "remaining (f\<lparr>buf := buf f @ t\<rparr>) fut = remaining f (t @ fut)" for fut
    by (simp add: remaining_def split: tstate.splits)
  with feed_loop_correct [OF ok assms(2) [unfolded feed_def]] show ?thesis by simp
qed

lemma new_filter_fresh: "filter_ok new_filter \<and> settled new_filter"
  by (simp add: new_filter_def filter_ok_def settled_def)

interpretation tf: incremental feed flush remaining "\<lambda>f. filter_ok f \<and> settled f"
  by unfold_locales (auto simp: flush_remaining dest: feed_correct)

lemma stream_visible: "stream new_filter chunks = visible (concat chunks)"
  using tf.run_owed [OF new_filter_fresh, of chunks]
  by (simp add: stream_def remaining_def new_filter_def)

text \<open>The specification on its three shapes of text: nothing opens, a block closes, a block
  never closes.\<close>

lemma visible_shapes:
  assumes "\<And>i. i < length a \<Longrightarrow> \<not> opens_tag (drop i a @ b)"
  shows "b = [] \<Longrightarrow> visible (a @ b) = a"
    and "opens_tag b \<Longrightarrow> match_block b = Some r \<Longrightarrow> visible (a @ b) = a @ visible r"
    and "opens_tag b \<Longrightarrow> match_block b = None \<Longrightarrow> visible (a @ b) = a"
  using visible_prefix [OF assms] by (simp, (cases b; simp)+)

subsection \<open>Two passes against one\<close>

lemma match_block_opens: "match_block t = Some r \<Longrightarrow> opens_tag t"
  by (auto simp: match_block_def match_block_with_def opens_tag_def split: option.splits)

text \<open>A tag that starts right after an unfinished \<open><word\<close>: removing its block would glue what
  follows to that word.\<close>

definition dangling :: "string \<Rightarrow> bool" where
  "dangling a \<longleftrightarrow> starts_with ''<'' (dropWhile is_word (rev a))"

definition no_glue :: "string \<Rightarrow> bool" where
  "no_glue t \<longleftrightarrow> (\<forall>i < length t. opens_tag (drop i t) \<longrightarrow> \<not> dangling (take i t))"

lemma dangling_word: "list_all is_word w \<Longrightarrow> dangling (a @ CHR ''<'' # w)"
  by (simp add: dangling_def dropWhile_append list_all_iff is_word_def)

lemma dangling_append: "dangling b \<Longrightarrow> dangling (a @ b)"
proof -
  assume d: "dangling b"
  then have "dropWhile is_word (rev b) \<noteq> []" unfolding dangling_def
    by (metis starts_with_Cons_Nil)
  with d show ?thesis by (auto simp: dangling_def dropWhile_append starts_with_append)
qed

lemma no_glue_suffix: "no_glue (a @ b) \<Longrightarrow> no_glue b"
  unfolding no_glue_def
proof (intro allI impI)
  fix i assume h: "\<forall>i < length (a @ b). opens_tag (drop i (a @ b)) \<longrightarrow> \<not> dangling (take i (a @ b))"
    and "i < length b" and "opens_tag (drop i b)"
  then have "\<not> dangling (a @ take i b)"
    using h [rule_format, of "length a + i"] by simp
  then show "\<not> dangling (take i b)" using dangling_append by blast
qed

lemma no_glueD: "no_glue (a @ b) \<Longrightarrow> opens_tag b \<Longrightarrow> \<not> dangling a"
  unfolding no_glue_def by (drule spec [of _ "length a"]) (cases b; simp)

lemma sub_blocks_word: "list_all is_word w \<Longrightarrow> sub_blocks (w @ r) = w @ sub_blocks r"
proof (induction w)
  case (Cons c cs)
  then have "\<not> opens_tag (c # cs @ r)" by (auto simp: opens_tag_Cons is_word_def)
  then have "match_block (c # cs @ r) = None" using match_block_opens by fastforce
  with Cons show ?case by simp
qed simp

lemma takeWhile_sub_blocks:
  assumes "no_glue (CHR ''<'' # cs)"
  shows "takeWhile is_word (sub_blocks cs) = takeWhile is_word cs"
proof -
  let ?w = "takeWhile is_word cs" and ?r = "dropWhile is_word cs"
  have lw: "list_all is_word ?w" by (auto simp: list_all_iff dest: set_takeWhileD)
  have cs: "sub_blocks cs = ?w @ sub_blocks ?r"
    using sub_blocks_word [OF lw, of ?r] by simp
  show ?thesis
  proof (cases ?r)
    case Nil
    then have "sub_blocks cs = cs" using cs word_not_ended [OF Nil]
      by (metis append_Nil2 sub_blocks.simps(1))
    then show ?thesis by simp
  next
    case (Cons d ds)
    then have d: "\<not> is_word d" using hd_dropWhile [of is_word cs] by (metis list.distinct(1) list.sel(1))
    have "\<not> opens_tag ?r"
      using no_glueD [of "CHR ''<'' # ?w" ?r] assms dangling_word [OF lw, of "[]"] by auto
    then have "match_block ?r = None" using match_block_opens by fastforce
    then have "sub_blocks ?r = d # sub_blocks ds" using Cons by simp
    with cs d lw show ?thesis by (simp add: list_all_iff takeWhile_append)
  qed
qed

lemma batch_visible: "no_glue t \<Longrightarrow> sub_tail (sub_blocks t) = visible t"
proof (induction t rule: visible.induct)
  case (2 c cs)
  note prem = "2.prems" and IH = "2.IH"
  have cs: "no_glue cs" using no_glue_suffix [of "[c]" cs] prem by simp
  have keeps: "opens_tag (c # sub_blocks cs) = opens_tag (c # cs)"
    using takeWhile_sub_blocks prem by (auto simp: opens_tag_Cons)
  show ?case
  proof (cases "opens_tag (c # cs)")
    case True
    show ?thesis
    proof (cases "match_block (c # cs)")
      case None
      then show ?thesis using True keeps by simp
    next
      case (Some r)
      have "\<exists>a. c # cs = a @ r"
        using Some by (auto simp: match_block_def match_block_with_def match_open_name_def Let_def
            split: option.splits if_splits) (metis append_take_drop_id drop_drop drop_Suc_Cons)+
      then have "no_glue r" using prem no_glue_suffix by metis
      then show ?thesis using Some True IH(1) by simp
    qed
  next
    case False
    then have "match_block (c # cs) = None" using match_block_opens by fastforce
    then show ?thesis using False keeps IH(2) cs by simp
  qed
qed simp

subsection \<open>Properties\<close>

text \<open>C1. However an answer is cut into pieces, what the filter sends is the answer without its
  thinking spans, as the one-pass specification defines them: in particular two chunkings of
  one answer are sent alike.\<close>

theorem thinking_stream_spec: "stream new_filter chunks = visible (concat chunks)"
  by (rule stream_visible)



text \<open>Without that condition they do not: removing a block can glue a new tag together, which
  the batch stripper's second expression then cuts (the filter has sent it), or glue away the
  tag of a block that never closes, whose reasoning the batch stripper then shows (the filter
  hides it).\<close>

theorem thinking_stream_batch_divergence:
  "stream new_filter [''<thi<think>x</think>nk>secret''] = ''<think>secret'' \<and>
   strip_thinking_blocks ''<thi<think>x</think>nk>secret'' = [] \<and>
   stream new_filter [''<thinking<think>x</think>y''] = [] \<and>
   strip_thinking_blocks ''<thinking<think>x</think>y'' = ''<thinkingy''"
  by (intro conjI) code_simp+

text \<open>After text in which no tag opens, a block that closes disappears and the rest is
  treated afresh, and a block that never closes hides everything that follows.\<close>

lemma thinking_block_hidden:
  assumes "\<And>i. i < length a \<Longrightarrow> \<not> opens_tag (drop i a @ b)" and "opens_tag b"
    and "concat chunks = a @ b"
  shows "stream new_filter chunks =
    (case match_block b of
       Some r \<Rightarrow> a @ stream new_filter [r]
     | None \<Rightarrow> a)"
  using visible_shapes(2,3) [OF assms(1)] assms(2,3)
  by (auto simp: stream_visible split: option.split)

lemma thinking_block_hidden_witness:
  "stream new_filter [''ab<think>c'', ''</think>d''] = ''ab'' @ stream new_filter [''d''] \<and>
   stream new_filter [''ab<think>cd''] = ''ab''"
proof -
  have a: "\<And>i. i < length ''ab'' \<Longrightarrow> \<not> opens_tag (drop i ''ab'' @ b)" for b
    by (auto simp: less_Suc_eq numeral_2_eq_2 opens_tag_Cons)
  have o: "opens_tag ''<think>c</think>d''" "opens_tag ''<think>cd''" by code_simp+
  have m: "match_block ''<think>c</think>d'' = Some ''d''" "match_block ''<think>cd'' = None"
    by code_simp+
  show ?thesis
    using thinking_block_hidden [OF a o(1), of "[''ab<think>c'', ''</think>d'']"]
      thinking_block_hidden [OF a o(2), of "[''ab<think>cd'']"] m by simp
qed

text \<open>What has been sent is never taken back: at any point of the stream it begins what the
  whole answer will show, whatever is still to come.\<close>

theorem thinking_sent_is_prefix:
  "\<exists>rest. visible (concat (chunks @ later)) = fst (run_feeds feed new_filter chunks) @ rest"
proof -
  obtain out f where rf: "run_feeds feed new_filter chunks = (out, f)" by fastforce
  from tf.emitted_prefix [OF new_filter_fresh rf, of later] show ?thesis
    using rf by (simp add: stream_visible [unfolded stream_def])
qed

end
