(* ===== verification/Slots.thy ===== *)
theory Slots
  imports Py_Prelude Step_Systems
begin

text \<open>
  Conversations pinned to the slots of one llama-server (\<open>slots.py\<close>). \<open>choose_slot\<close> is
  \<open>SlotPins._choose\<close>; the step relation is \<open>SlotPins.hold\<close>, one rule for each stretch of
  it that runs without an \<open>await\<close>, over any number of requests interleaved by the event
  loop. An \<open>asyncio.Event\<close> is a number; it is set when it is in \<open>fired\<close>.
\<close>

subsection \<open>The map\<close>

text \<open>\<open>_owners\<close> is the \<open>OrderedDict\<close>, the least recently used conversation first.\<close>

record pins =
  total_slots :: nat
  owners :: "(string \<times> nat) list"
  busy :: "nat set"

datatype pins_error = ValueError

definition new_pins :: "int \<Rightarrow> pins_error + pins" where
  "new_pins n =
     (if n < 1 then Inl ValueError
      else Inr \<lparr>total_slots = nat n, owners = [], busy = {}\<rparr>)"

definition move_to_end :: "string \<Rightarrow> (string \<times> nat) list \<Rightarrow> (string \<times> nat) list" where
  "move_to_end k xs = filter (\<lambda>e. fst e \<noteq> k) xs @ filter (\<lambda>e. fst e = k) xs"

text \<open>\<open>d[k] = v\<close>: in place when the key is there, at the end when it is not.\<close>

definition od_set :: "string \<Rightarrow> nat \<Rightarrow> (string \<times> nat) list \<Rightarrow> (string \<times> nat) list" where
  "od_set k v xs =
     (if k \<in> fst ` set xs then map (\<lambda>e. if fst e = k then (k, v) else e) xs else xs @ [(k, v)])"

definition od_del :: "string \<Rightarrow> (string \<times> nat) list \<Rightarrow> (string \<times> nat) list" where
  "od_del k xs = filter (\<lambda>e. fst e \<noteq> k) xs"

definition list_index :: "string list \<Rightarrow> string \<Rightarrow> nat" where
  "list_index xs k = length (takeWhile (\<lambda>x. x \<noteq> k) xs)"

text \<open>\<open>{slot: owner for owner, slot in owners.items()}\<close>: the last writer wins.\<close>

definition owned_by :: "(string \<times> nat) list \<Rightarrow> nat \<rightharpoonup> string" where
  "owned_by xs = map_of (rev (map (\<lambda>(k, s). (s, k)) xs))"

definition idle_slots :: "pins \<Rightarrow> nat list" where
  "idle_slots p = filter (\<lambda>s. s \<notin> busy p) [0..<total_slots p]"

text \<open>The slot an idle-seeking request takes, and whom it evicts.\<close>

definition take_idle :: "pins \<Rightarrow> (nat \<times> pins) option" where
  "take_idle p =
     (let idle = idle_slots p; owned = owned_by (owners p);
          unowned = filter (\<lambda>s. owned s = None) idle
      in if idle = [] then None
         else if unowned \<noteq> [] then Some (hd unowned, p)
         else let order = map fst (owners p);
                  slot = arg_min_list (\<lambda>s. list_index order (the (owned s))) idle
              in Some (slot, p\<lparr>owners := od_del (the (owned slot)) (owners p)\<rparr>))"

definition choose_slot :: "pins \<Rightarrow> string option \<Rightarrow> (nat \<times> pins) option" where
  "choose_slot p key =
     (case Option.bind key (map_of (owners p)) of
        Some slot \<Rightarrow>
          (if slot \<in> busy p then None
           else Some (slot, p\<lparr>owners := move_to_end (the key) (owners p)\<rparr>))
      | None \<Rightarrow>
          (case take_idle p of
             None \<Rightarrow> None
           | Some (slot, p') \<Rightarrow>
               Some (slot, (case key of None \<Rightarrow> p' | Some k \<Rightarrow> p'\<lparr>owners := od_set k slot (owners p')\<rparr>))))"

definition owner :: "pins \<Rightarrow> string \<Rightarrow> nat option" where
  "owner p k = map_of (owners p) k"

subsection \<open>Requests holding and waiting\<close>

datatype phase =
    Asking "string option"
  | Waiting "string option" nat
  | Holding nat
  | Done

record engine =
  pin_map :: pins
  freed :: "nat option"
  fired :: "nat set"
  next_event :: nat
  request :: "nat \<rightharpoonup> phase"

definition start :: "pins \<Rightarrow> engine" where
  "start p = \<lparr>pin_map = p, freed = None, fired = {}, next_event = 0, request = Map.empty\<rparr>"

text \<open>One turn of the \<open>while\<close> in \<open>hold\<close>, up to its \<open>await\<close> or its \<open>yield\<close>.\<close>

definition hold_turn :: "engine \<Rightarrow> nat \<Rightarrow> string option \<Rightarrow> engine" where
  "hold_turn s r key =
     (case choose_slot (pin_map s) key of
        Some (slot, p) \<Rightarrow>
          s\<lparr>pin_map := p\<lparr>busy := insert slot (busy p)\<rparr>, request := (request s)(r \<mapsto> Holding slot)\<rparr>
      | None \<Rightarrow>
          (case freed s of
             Some e \<Rightarrow> s\<lparr>request := (request s)(r \<mapsto> Waiting key e)\<rparr>
           | None \<Rightarrow>
               s\<lparr>freed := Some (next_event s), next_event := Suc (next_event s),
                 request := (request s)(r \<mapsto> Waiting key (next_event s))\<rparr>))"

text \<open>The \<open>finally\<close> of \<open>hold\<close>: it runs however the request ends.\<close>

definition hold_release :: "engine \<Rightarrow> nat \<Rightarrow> nat \<Rightarrow> engine" where
  "hold_release s r slot =
     (let p = (pin_map s)\<lparr>busy := busy (pin_map s) - {slot}\<rparr>;
          s' = s\<lparr>pin_map := p, request := (request s)(r \<mapsto> Done)\<rparr>
      in case freed s of
           None \<Rightarrow> s'
         | Some e \<Rightarrow> s'\<lparr>fired := insert e (fired s), freed := None\<rparr>)"

inductive slot_step :: "engine \<Rightarrow> engine \<Rightarrow> bool" where
  arrive: "request s r = None \<Longrightarrow> slot_step s (s\<lparr>request := (request s)(r \<mapsto> Asking key)\<rparr>)"
| turn: "request s r = Some (Asking key) \<Longrightarrow> slot_step s (hold_turn s r key)"
| wake: "request s r = Some (Waiting key e) \<Longrightarrow> e \<in> fired s \<Longrightarrow>
    slot_step s (s\<lparr>request := (request s)(r \<mapsto> Asking key)\<rparr>)"
| cancelled: "request s r = Some (Waiting key e) \<Longrightarrow>
    slot_step s (s\<lparr>request := (request s)(r \<mapsto> Done)\<rparr>)"
| release: "request s r = Some (Holding slot) \<Longrightarrow> slot_step s (hold_release s r slot)"


subsection \<open>The map's invariant\<close>

definition pins_ok :: "pins \<Rightarrow> bool" where
  "pins_ok p \<longleftrightarrow> 0 < total_slots p \<and> distinct (map fst (owners p)) \<and> distinct (map snd (owners p))
     \<and> snd ` set (owners p) \<subseteq> {..<total_slots p} \<and> busy p \<subseteq> {..<total_slots p}"

lemma new_pins_ok: "new_pins n = Inr p \<Longrightarrow> pins_ok p \<and> total_slots p = nat n \<and> busy p = {}"
  by (auto simp: new_pins_def pins_ok_def split: if_splits)

lemma map_of_eq_Some: "distinct (map fst xs) \<Longrightarrow> map_of xs k = Some v \<longleftrightarrow> (k, v) \<in> set xs"
  by simp

lemma owned_by_eq_Some:
  assumes "distinct (map snd xs)"
  shows "owned_by xs s = Some k \<longleftrightarrow> (k, s) \<in> set xs"
proof -
  have "map fst (rev (map (\<lambda>(k, s). (s, k)) xs)) = rev (map snd xs)"
    by (simp add: rev_map comp_def case_prod_unfold)
  then have "distinct (map fst (rev (map (\<lambda>(k, s). (s, k)) xs)))"
    using assms by simp
  then show ?thesis unfolding owned_by_def by auto
qed

lemma owned_by_eq_None: "owned_by xs s = None \<longleftrightarrow> s \<notin> snd ` set xs"
  unfolding owned_by_def by (force simp: map_of_eq_None_iff)

lemma distinct_map_filter_split:
  "distinct (map f (filter P xs @ filter (\<lambda>x. \<not> P x) xs)) = distinct (map f xs)"
  by (induction xs) auto

lemma set_move_to_end [simp]: "set (move_to_end k xs) = set xs"
  by (auto simp: move_to_end_def)

lemma move_to_end_distinct [simp]:
  "distinct (map f (move_to_end k xs)) = distinct (map f xs)"
  using distinct_map_filter_split [of f "\<lambda>e. fst e \<noteq> k" xs] by (simp add: move_to_end_def)

lemma od_del_distinct: "distinct (map f xs) \<Longrightarrow> distinct (map f (od_del k xs))"
  by (simp add: od_del_def distinct_map_filter)

lemma set_od_del [simp]: "set (od_del k xs) = {e \<in> set xs. fst e \<noteq> k}"
  by (auto simp: od_del_def)

lemma od_set_new: "k \<notin> fst ` set xs \<Longrightarrow> od_set k v xs = xs @ [(k, v)]"
  by (auto simp: od_set_def)

lemma idle_slots_set [simp]: "set (idle_slots p) = {..<total_slots p} - busy p"
  by (auto simp: idle_slots_def)

text \<open>What an idle-seeking request gets: an idle slot nobody owns, or the idle slot whose owner
  is the least recently used, which then owns nothing.\<close>

lemma arg_min_list_least:
  "xs \<noteq> [] \<Longrightarrow> y \<in> set xs \<Longrightarrow> f (arg_min_list f xs) \<le> (f y :: nat)"
  using f_arg_min_list_f [of xs f] by simp

lemma distinct_map_inj:
  "distinct (map f xs) \<Longrightarrow> x \<in> set xs \<Longrightarrow> y \<in> set xs \<Longrightarrow> f x = f y \<Longrightarrow> x = y"
  by (auto simp: distinct_map dest: inj_onD)

lemma take_idle_cases:
  assumes ok: "pins_ok p" and ti: "take_idle p = Some (slot, p')"
  shows "slot \<notin> busy p \<and> slot < total_slots p \<and>
    (slot \<notin> snd ` set (owners p) \<and> p' = p \<or>
     (\<exists>k. (k, slot) \<in> set (owners p) \<and> p' = p\<lparr>owners := od_del k (owners p)\<rparr> \<and>
       (\<forall>s < total_slots p. s \<notin> busy p \<longrightarrow> (\<exists>k'. (k', s) \<in> set (owners p) \<and>
          list_index (map fst (owners p)) k \<le> list_index (map fst (owners p)) k'))))"
proof -
  let ?idle = "idle_slots p" and ?owned = "owned_by (owners p)"
  let ?f = "\<lambda>s. list_index (map fst (owners p)) (the (?owned s))"
  let ?un = "filter (\<lambda>s. ?owned s = None) ?idle"
  have ne: "?idle \<noteq> []" using ti by (auto simp: take_idle_def Let_def split: if_splits)
  show ?thesis
  proof (cases "?un = []")
    case False
    then have s: "slot = hd ?un" "p' = p"
      using ti ne by (auto simp: take_idle_def Let_def split: if_splits)
    have "slot \<in> set ?un" unfolding s(1) using False by (rule hd_in_set)
    then show ?thesis using s(2) by (auto simp: owned_by_eq_None)
  next
    case True
    then have all: "s \<in> set ?idle \<Longrightarrow> \<exists>k. ?owned s = Some k" for s
      by (auto simp: filter_empty_conv)
    have s: "slot = arg_min_list ?f ?idle"
      and p': "p' = p\<lparr>owners := od_del (the (?owned slot)) (owners p)\<rparr>"
      using ti ne True by (auto simp: take_idle_def Let_def split: if_splits)
    have idle: "slot \<in> set ?idle" unfolding s by (rule arg_min_list_in [OF ne])
    then obtain k where k: "?owned slot = Some k" using all by blast
    have owned_iff: "?owned s = Some k \<longleftrightarrow> (k, s) \<in> set (owners p)" for s k
      using ok by (simp add: pins_ok_def owned_by_eq_Some)
    have least: "\<exists>k'. (k', s') \<in> set (owners p) \<and>
        list_index (map fst (owners p)) k \<le> list_index (map fst (owners p)) k'"
      if "s' < total_slots p" "s' \<notin> busy p" for s'
    proof -
      from that have in_idle: "s' \<in> set ?idle" by simp
      then obtain k' where k': "?owned s' = Some k'" using all by blast
      have "?f slot \<le> ?f s'" unfolding s by (rule arg_min_list_least [OF ne in_idle])
      then show ?thesis using k k' owned_iff by auto
    qed
    have p'k: "p' = p\<lparr>owners := od_del k (owners p)\<rparr>" using p' k by simp
    have mem: "(k, slot) \<in> set (owners p)" using k owned_iff by simp
    have "slot \<notin> busy p \<and> slot < total_slots p" using idle by simp
    then show ?thesis using mem p'k least by blast
  qed
qed

lemma take_idle_None: "take_idle p = None \<longleftrightarrow> {..<total_slots p} \<subseteq> busy p"
proof -
  have "take_idle p = None \<longleftrightarrow> idle_slots p = []"
    by (auto simp: take_idle_def Let_def)
  also have "\<dots> \<longleftrightarrow> {..<total_slots p} \<subseteq> busy p"
    by (metis Diff_eq_empty_iff idle_slots_set set_empty)
  finally show ?thesis .
qed

text \<open>The whole choice.\<close>

lemma choose_slot_owner:
  "key = Some k \<Longrightarrow> owner p k = Some s \<Longrightarrow>
   choose_slot p key = (if s \<in> busy p then None
     else Some (s, p\<lparr>owners := move_to_end k (owners p)\<rparr>))"
  by (simp add: choose_slot_def owner_def)

lemma choose_slot_fresh:
  "Option.bind key (owner p) = None \<Longrightarrow>
   choose_slot p key = map_option (\<lambda>(slot, p'). (slot, (case key of None \<Rightarrow> p'
      | Some k \<Rightarrow> p'\<lparr>owners := od_set k slot (owners p')\<rparr>))) (take_idle p)"
  by (cases "take_idle p") (auto simp: choose_slot_def owner_def [abs_def])

lemma choose_slot_ok:
  assumes ok: "pins_ok p" and ch: "choose_slot p key = Some (slot, p')"
  shows "pins_ok p' \<and> slot \<notin> busy p \<and> slot < total_slots p \<and> busy p' = busy p \<and> total_slots p' = total_slots p
    \<and> (\<forall>k. key = Some k \<longrightarrow> owner p' k = Some slot)"
proof (cases "Option.bind key (owner p)")
  case (Some s)
  then obtain k where k: "key = Some k" "owner p k = Some s" by (cases key) auto
  then have "(k, s) \<in> set (owners p)" by (simp add: owner_def map_of_SomeD)
  with k ch choose_slot_owner [OF k] ok show ?thesis
    by (auto simp: pins_ok_def owner_def split: if_splits)
next
  case None
  then obtain q where ti: "take_idle p = Some (slot, q)"
    and p': "p' = (case key of None \<Rightarrow> q | Some k \<Rightarrow> q\<lparr>owners := od_set k slot (owners q)\<rparr>)"
    using ch by (auto simp: choose_slot_fresh [OF None])
  note ti = take_idle_cases [OF ok ti]
  have q: "pins_ok q \<and> busy q = busy p \<and> total_slots q = total_slots p"
    using ti ok by (fastforce simp: pins_ok_def od_del_distinct)
  have q_slot: "slot \<notin> snd ` set (owners q)"
  proof -
    have "slot \<notin> snd ` set (od_del k (owners p))" if "(k, slot) \<in> set (owners p)" for k
      using ok that by (auto simp: pins_ok_def dest: distinct_map_inj [of snd "owners p" "(k, slot)"])
    note gone = this
    from ti consider (free) "slot \<notin> snd ` set (owners p)" "q = p"
      | (evicted) k where "(k, slot) \<in> set (owners p)" "q = p\<lparr>owners := od_del k (owners p)\<rparr>"
      by blast
    then show ?thesis by cases (use gone in simp_all)
  qed
  have q_sub: "set (owners q) \<subseteq> set (owners p)"
    using ti by auto
  show ?thesis
  proof (cases key)
    case None
    then show ?thesis using p' q q_slot ti by simp
  next
    case (Some k)
    then have "k \<notin> fst ` set (owners p)"
      using \<open>Option.bind key (owner p) = None\<close> by (simp add: owner_def map_of_eq_None_iff)
    then have k: "k \<notin> fst ` set (owners q)" using q_sub by auto
    then have none: "map_of (owners q) k = None" by (simp add: map_of_eq_None_iff)
    have rest: "p' = q\<lparr>owners := owners q @ [(k, slot)]\<rparr>"
      using p' Some k by (simp add: od_set_new)
    have "slot < total_slots q" using ti q by simp
    then have "pins_ok p'"
      using rest q k q_slot by (auto simp: pins_ok_def)
    moreover have "owner p' k = Some slot"
      using none by (simp add: owner_def rest map_add_def)
    moreover have "busy p' = busy p" "total_slots p' = total_slots p"
      using rest q by simp_all
    ultimately show ?thesis using Some ti by simp
  qed
qed

lemma choose_slot_None_busy:
  "pins_ok p \<Longrightarrow> choose_slot p key = None \<Longrightarrow> busy p \<noteq> {}"
  by (cases "Option.bind key (owner p)")
    (auto simp: choose_slot_fresh choose_slot_def owner_def take_idle_None pins_ok_def
      split: if_splits option.splits)

subsection \<open>The engine's invariant\<close>

definition engine_ok :: "engine \<Rightarrow> bool" where
  "engine_ok s \<longleftrightarrow> pins_ok (pin_map s)
     \<and> busy (pin_map s) = {slot. \<exists>r. request s r = Some (Holding slot)}
     \<and> (\<forall>r r' slot. request s r = Some (Holding slot) \<longrightarrow> request s r' = Some (Holding slot) \<longrightarrow> r = r')
     \<and> (\<forall>r key e. request s r = Some (Waiting key e) \<longrightarrow> e \<in> fired s \<or> freed s = Some e)
     \<and> (freed s \<noteq> None \<longrightarrow> busy (pin_map s) \<noteq> {})"

lemma engine_okI:
  assumes "pins_ok (pin_map s)"
    and "\<And>slot. slot \<in> busy (pin_map s) \<longleftrightarrow> (\<exists>r. request s r = Some (Holding slot))"
    and "\<And>r r' slot. request s r = Some (Holding slot) \<Longrightarrow> request s r' = Some (Holding slot) \<Longrightarrow> r = r'"
    and "\<And>r key e. request s r = Some (Waiting key e) \<Longrightarrow> e \<in> fired s \<or> freed s = Some e"
    and "freed s \<noteq> None \<Longrightarrow> busy (pin_map s) \<noteq> {}"
  shows "engine_ok s"
  using assms unfolding engine_ok_def by blast

lemma engine_okD:
  assumes "engine_ok s"
  shows "pins_ok (pin_map s)"
    and "slot \<in> busy (pin_map s) \<longleftrightarrow> (\<exists>r. request s r = Some (Holding slot))"
    and "request s r = Some (Holding slot) \<Longrightarrow> request s r' = Some (Holding slot) \<Longrightarrow> r = r'"
    and "request s r = Some (Waiting key e) \<Longrightarrow> e \<in> fired s \<or> freed s = Some e"
    and "freed s \<noteq> None \<Longrightarrow> busy (pin_map s) \<noteq> {}"
  using assms unfolding engine_ok_def by blast+

lemma start_ok: "new_pins n = Inr p \<Longrightarrow> engine_ok (start p)"
  using new_pins_ok by (fastforce simp: start_def engine_ok_def)

lemma ex_fun_upd: "(\<exists>q. (f(r \<mapsto> v)) q = Some w) \<longleftrightarrow> v = w \<or> (\<exists>q. q \<noteq> r \<and> f q = Some w)"
  by auto

lemma held_unchanged:
  assumes "\<And>slot. request s r \<noteq> Some (Holding slot)" and "\<And>slot. ph \<noteq> Holding slot"
  shows "(\<exists>q. ((request s)(r \<mapsto> ph)) q = Some (Holding x)) \<longleftrightarrow>
    (\<exists>q. request s q = Some (Holding x))"
  unfolding ex_fun_upd using assms by metis

text \<open>A request that holds nothing and waits for nothing new may change its phase freely.\<close>

lemma phase_change_ok:
  assumes ok: "engine_ok s" and r: "\<And>slot. request s r \<noteq> Some (Holding slot)"
    and p: "\<And>slot. ph \<noteq> Holding slot" "\<And>key e. ph \<noteq> Waiting key e"
  shows "engine_ok (s\<lparr>request := (request s)(r \<mapsto> ph)\<rparr>)"
proof (rule engine_okI)
  show "pins_ok (pin_map (s\<lparr>request := (request s)(r \<mapsto> ph)\<rparr>))"
    using engine_okD(1) [OF ok] by simp
  show "slot \<in> busy (pin_map (s\<lparr>request := (request s)(r \<mapsto> ph)\<rparr>)) \<longleftrightarrow>
      (\<exists>q. request (s\<lparr>request := (request s)(r \<mapsto> ph)\<rparr>) q = Some (Holding slot))" for slot
    using engine_okD(2) [OF ok, of slot] held_unchanged [OF r p(1), of slot]
    by (simp del: fun_upd_apply)
  show "x = y" if "request (s\<lparr>request := (request s)(r \<mapsto> ph)\<rparr>) x = Some (Holding slot)"
    "request (s\<lparr>request := (request s)(r \<mapsto> ph)\<rparr>) y = Some (Holding slot)" for x y slot
    using that p engine_okD(3) [OF ok, of x slot y] by (simp split: if_splits)
  show "e \<in> fired (s\<lparr>request := (request s)(r \<mapsto> ph)\<rparr>) \<or>
      freed (s\<lparr>request := (request s)(r \<mapsto> ph)\<rparr>) = Some e"
    if "request (s\<lparr>request := (request s)(r \<mapsto> ph)\<rparr>) x = Some (Waiting key e)" for x key e
    using that p engine_okD(4) [OF ok, of x key e] by (simp split: if_splits)
qed (use engine_okD(5) [OF ok] in simp)

lemma hold_turn_ok:
  assumes ok: "engine_ok s" and r: "request s r = Some (Asking key)"
  shows "engine_ok (hold_turn s r key)"
proof (cases "choose_slot (pin_map s) key")
  case (Some sp)
  then obtain slot p where ch: "choose_slot (pin_map s) key = Some (slot, p)" by (cases sp) auto
  note c = choose_slot_ok [OF engine_okD(1) [OF ok] ch]
  have free: "request s r' \<noteq> Some (Holding slot)" for r'
    using c engine_okD(2) [OF ok, of slot] by blast
  let ?req = "(request s)(r \<mapsto> Holding slot)"
  have held: "x \<in> insert slot (busy p) \<longleftrightarrow> (\<exists>q. ?req q = Some (Holding x))" for x
  proof -
    have "x \<in> busy p \<longleftrightarrow> (\<exists>q. q \<noteq> r \<and> request s q = Some (Holding x))"
      using c engine_okD(2) [OF ok, of x] r by (metis option.inject phase.distinct(3))
    then show ?thesis unfolding ex_fun_upd by auto
  qed
  have "pins_ok (p\<lparr>busy := insert slot (busy p)\<rparr>)" using c by (auto simp: pins_ok_def)
  then show ?thesis
    unfolding hold_turn_def ch
    using held free engine_okD(3,4) [OF ok] r
    by (intro engine_okI) (auto split: if_splits)
next
  case None
  note ne = choose_slot_None_busy [OF engine_okD(1) [OF ok] None]
  have held: "x \<in> busy (pin_map s) \<longleftrightarrow>
      (\<exists>q. ((request s)(r \<mapsto> Waiting key e)) q = Some (Holding x))" for x e
    using engine_okD(2) [OF ok, of x] held_unchanged [of s r "Waiting key e" x] r by simp
  show ?thesis
    unfolding hold_turn_def None
    using engine_okD(1,3,4) [OF ok] r ne held
    by (intro engine_okI) (auto split: if_splits option.splits)
qed

lemma hold_release_ok:
  assumes ok: "engine_ok s" and r: "request s r = Some (Holding slot)"
  shows "engine_ok (hold_release s r slot)"
proof -
  have mine: "request s r' = Some (Holding slot) \<longleftrightarrow> r' = r" for r'
    using engine_okD(3) [OF ok] r by blast
  have held: "x \<in> busy (pin_map s) - {slot} \<longleftrightarrow>
      (\<exists>q. ((request s)(r \<mapsto> Done)) q = Some (Holding x))" for x
  proof -
    have "x \<in> busy (pin_map s) - {slot} \<longleftrightarrow> (\<exists>q. q \<noteq> r \<and> request s q = Some (Holding x))"
      using engine_okD(2) [OF ok, of x] mine r by (metis DiffD1 DiffD2 DiffI option.inject
          phase.inject(3) singletonD singletonI)
    then show ?thesis unfolding ex_fun_upd by simp
  qed
  have pins: "pins_ok ((pin_map s)\<lparr>busy := busy (pin_map s) - {slot}\<rparr>)"
    using engine_okD(1) [OF ok] by (auto simp: pins_ok_def)
  have awake: "request s q = Some (Waiting key e) \<Longrightarrow>
      e \<in> fired (hold_release s r slot)" for q key e
    using engine_okD(4) [OF ok, of q key e]
    by (auto simp: hold_release_def Let_def split: option.splits)
  have fields: "pin_map (hold_release s r slot) = (pin_map s)\<lparr>busy := busy (pin_map s) - {slot}\<rparr>"
    "request (hold_release s r slot) = (request s)(r \<mapsto> Done)"
    "freed (hold_release s r slot) = None"
    by (simp_all add: hold_release_def Let_def split: option.splits)
  show ?thesis
    using held pins awake engine_okD(3) [OF ok]
    by (intro engine_okI) (auto simp: fields split: if_splits)
qed

interpretation sl: step_system slot_step engine_ok
proof unfold_locales
  fix s t assume "engine_ok s" and "slot_step s t"
  from this(2,1) show "engine_ok t"
    by (induction rule: slot_step.induct)
      (auto intro: phase_change_ok hold_turn_ok hold_release_ok)
qed

lemma reachable_ok: "new_pins n = Inr p \<Longrightarrow> reaches slot_step (start p) s \<Longrightarrow> engine_ok s"
  using sl.reaches_inv start_ok by blast

inductive_cases slot_stepE: "slot_step s t"

subsection \<open>Whose slot is whose, after a choice\<close>

lemma owner_Some_iff: "pins_ok p \<Longrightarrow> owner p k = Some s \<longleftrightarrow> (k, s) \<in> set (owners p)"
  by (simp add: owner_def pins_ok_def)

lemma choose_slot_others:
  assumes ok: "pins_ok p" and ch: "choose_slot p (Some k) = Some (slot, p')"
    and own: "owner p k' = Some s'" and neq: "k' \<noteq> k"
  shows "owner p' k' = Some s' \<or>
    (owner p' k' = None \<and> s' = slot \<and> owner p k = None \<and>
     (\<forall>s < total_slots p. s \<notin> busy p \<longrightarrow> (\<exists>k''. owner p k'' = Some s \<and>
        list_index (map fst (owners p)) k' \<le> list_index (map fst (owners p)) k'')))"
proof -
  note ok' = choose_slot_ok [OF ok ch, THEN conjunct1]
  show ?thesis
  proof (cases "owner p k")
    case (Some s)
    then have "set (owners p') = set (owners p)"
      using ch choose_slot_owner [OF refl Some] by (auto split: if_splits)
    then show ?thesis using own owner_Some_iff [OF ok] owner_Some_iff [OF ok'] by simp
  next
    case None
    then have b: "Option.bind (Some k) (owner p) = None" by simp
    then obtain q where ti: "take_idle p = Some (slot, q)"
      and p': "p' = q\<lparr>owners := od_set k slot (owners q)\<rparr>"
      using ch by (auto simp: choose_slot_fresh [OF b])
    have kp: "k \<notin> fst ` set (owners p)"
      using None by (simp add: owner_def map_of_eq_None_iff)
    from take_idle_cases [OF ok ti] consider
        (free) "q = p"
      | (evicted) k0 where "(k0, slot) \<in> set (owners p)" "q = p\<lparr>owners := od_del k0 (owners p)\<rparr>"
          "\<forall>s < total_slots p. s \<notin> busy p \<longrightarrow> (\<exists>k''. (k'', s) \<in> set (owners p) \<and>
             list_index (map fst (owners p)) k0 \<le> list_index (map fst (owners p)) k'')"
      by blast
    then show ?thesis
    proof cases
      case free
      then have "set (owners p') = insert (k, slot) (set (owners p))"
        using p' kp by (simp add: od_set_new)
      then show ?thesis using own owner_Some_iff [OF ok] owner_Some_iff [OF ok'] by simp
    next
      case evicted
      have "k \<notin> fst ` set (owners q)" using evicted(2) kp by auto
      then have set': "set (owners p') = insert (k, slot) {e \<in> set (owners p). fst e \<noteq> k0}"
        using p' evicted(2) by (simp add: od_set_new)
      show ?thesis
      proof (cases "k' = k0")
        case False
        then show ?thesis using set' own owner_Some_iff [OF ok] owner_Some_iff [OF ok'] by simp
      next
        case True
        have "owner p' k' \<noteq> Some x" for x
          unfolding owner_Some_iff [OF ok'] set' using True neq by auto
        moreover have "s' = slot"
          using evicted(1) own True owner_Some_iff [OF ok, of k0 slot] by simp
        ultimately show ?thesis
          using evicted(3) None True owner_Some_iff [OF ok] by (cases "owner p' k'") simp_all
      qed
    qed
  qed
qed

subsection \<open>Properties\<close>

text \<open>A run with two requests on one slot: the first holds it, the second waits.\<close>

definition demo_pins :: pins where
  "demo_pins = \<lparr>total_slots = 1, owners = [], busy = {}\<rparr>"

definition demo_engine :: engine where
  "demo_engine = \<lparr>pin_map = \<lparr>total_slots = 1, owners = [(''a'', 0)], busy = {0}\<rparr>,
     freed = Some 0, fired = {}, next_event = 1,
     request = [0 \<mapsto> Holding 0, 1 \<mapsto> Waiting None 0]\<rparr>"

lemma demo_new_pins: "new_pins 1 = Inr demo_pins"
  by (simp add: new_pins_def demo_pins_def)

lemma demo_reaches: "reaches slot_step (start demo_pins) demo_engine"
proof -
  let ?s0 = "start demo_pins"
  let ?s1 = "?s0\<lparr>request := (request ?s0)(0 \<mapsto> Asking (Some ''a''))\<rparr>"
  let ?s2 = "hold_turn ?s1 0 (Some ''a'')"
  let ?s3 = "?s2\<lparr>request := (request ?s2)(1 \<mapsto> Asking None)\<rparr>"
  let ?s4 = "hold_turn ?s3 1 None"
  have two: "?s2 = \<lparr>pin_map = \<lparr>total_slots = 1, owners = [(''a'', 0)], busy = {0}\<rparr>,
     freed = None, fired = {}, next_event = 0, request = [0 \<mapsto> Holding 0]\<rparr>"
    by (simp add: start_def demo_pins_def hold_turn_def choose_slot_def take_idle_def
        idle_slots_def owned_by_def od_set_def Let_def)
  have four: "?s4 = demo_engine"
    unfolding two
    by (simp add: demo_engine_def hold_turn_def choose_slot_def take_idle_def idle_slots_def
        fun_upd_twist)
  have "slot_step ?s0 ?s1" by (rule slot_step.arrive) (simp add: start_def)
  moreover have "slot_step ?s1 ?s2" by (rule slot_step.turn) simp
  moreover have "slot_step ?s2 ?s3" by (rule slot_step.arrive) (simp add: two)
  moreover have "slot_step ?s3 ?s4" by (rule slot_step.turn) simp
  ultimately have "reaches slot_step ?s0 ?s4"
    by (meson reaches_refl reaches_step)
  then show ?thesis unfolding four .
qed

lemma slots_constant:
  assumes "new_pins n = Inr p" and "reaches slot_step (start p) s"
  shows "total_slots (pin_map s) = nat n"
proof -
  have "total_slots (pin_map t) = total_slots p" if "reaches slot_step (start p) t" for t
    using that
  proof (induction "start p" t rule: reaches.induct)
    case reaches_refl
    then show ?case by (simp add: start_def)
  next
    case (reaches_step t u)
    from reachable_ok [OF assms(1) reaches_step(1)] have "pins_ok (pin_map t)"
      by (rule engine_okD(1))
    with reaches_step(2,3) show ?case
      using choose_slot_ok
      by (auto elim!: slot_stepE simp: hold_turn_def hold_release_def Let_def split: option.splits)
  qed
  then show ?thesis using assms(2) new_pins_ok [OF assms(1)] by simp
qed

text \<open>C3. Whatever the interleaving of requests, releases, wake-ups and cancellations, the busy set is exactly the
  slots being served, all of them slots the engine has, and no two requests hold one slot: the engine is never
  sent a request for a slot that is serving another, and no slot stays taken after its request.\<close>

theorem slots_mutual_exclusion:
  assumes "new_pins n = Inr p" and "reaches slot_step (start p) s"
  shows "busy (pin_map s) = {slot. \<exists>r. request s r = Some (Holding slot)} \<and>
    busy (pin_map s) \<subseteq> {..<nat n} \<and>
    (\<forall>r r' slot. request s r = Some (Holding slot) \<and> request s r' = Some (Holding slot) \<longrightarrow> r = r')"
proof -
  have ok: "engine_ok s" using assms by (rule reachable_ok)
  then have "busy (pin_map s) \<subseteq> {..<nat n}"
    using engine_okD(1) [OF ok] slots_constant [OF assms] by (simp add: pins_ok_def)
  then show ?thesis using ok engine_okD(3) [OF ok] by (auto simp: engine_ok_def)
qed

theorem slots_mutual_exclusion_witness:
  "busy (pin_map demo_engine) = {slot. \<exists>r. request demo_engine r = Some (Holding slot)} \<and> request demo_engine 0 = Some (Holding 0)"
  using slots_mutual_exclusion [OF demo_new_pins demo_reaches] by (simp add: demo_engine_def)

text \<open>C4. No wake-up is lost: a request that waits has either been woken already, or some request
  holds a slot and the release of any held slot wakes it.\<close>

theorem slots_no_lost_wakeup:
  assumes "new_pins n = Inr p" and "reaches slot_step (start p) s"
    and "request s r = Some (Waiting key e)"
  shows "e \<in> fired s \<or>
    ((\<exists>q slot. request s q = Some (Holding slot)) \<and>
     (\<forall>q slot. request s q = Some (Holding slot) \<longrightarrow> e \<in> fired (hold_release s q slot)))"
proof -
  have ok: "engine_ok s" using assms(1,2) by (rule reachable_ok)
  from engine_okD(4) [OF ok assms(3)] consider "e \<in> fired s" | "freed s = Some e" by blast
  then show ?thesis
  proof cases
    case 2
    then obtain slot where "slot \<in> busy (pin_map s)" using engine_okD(5) [OF ok] by auto
    then have "\<exists>q slot. request s q = Some (Holding slot)"
      using engine_okD(2) [OF ok, of slot] by blast
    with 2 show ?thesis by (simp add: hold_release_def Let_def)
  qed simp
qed

theorem slots_no_lost_wakeup_witness: "0 \<in> fired (hold_release demo_engine 0 0)"
  using slots_no_lost_wakeup [OF demo_new_pins demo_reaches, of 1 None 0]
  by (simp add: demo_engine_def split: if_splits)

text \<open>What a choice has to give, said of the order in which conversations were last used.\<close>

definition recency :: "pins \<Rightarrow> string list" where
  "recency p = map fst (owners p)"

definition idle :: "pins \<Rightarrow> nat \<Rightarrow> bool" where
  "idle p s \<longleftrightarrow> s < total_slots p \<and> s \<notin> busy p"

definition unowned :: "pins \<Rightarrow> nat \<Rightarrow> bool" where
  "unowned p s \<longleftrightarrow> (\<forall>k. owner p k \<noteq> Some s)"

text \<open>The first conversation, by last use, whose slot is idle.\<close>

definition least_recent_idle :: "pins \<Rightarrow> string option" where
  "least_recent_idle p = List.find (\<lambda>k. case owner p k of Some s \<Rightarrow> s \<notin> busy p | None \<Rightarrow> False) (recency p)"

lemma list_index_nth: "k \<in> set xs \<Longrightarrow> list_index xs k < length xs \<and> xs ! list_index xs k = k"
  by (induction xs) (auto simp: list_index_def)

lemma least_recent_first:
  assumes ok: "pins_ok p" and k: "(k, slot) \<in> set (owners p)" and free: "slot \<notin> busy p"
    and least: "\<And>k' s. (k', s) \<in> set (owners p) \<Longrightarrow> s \<notin> busy p \<Longrightarrow> list_index (recency p) k \<le> list_index (recency p) k'"
  shows "least_recent_idle p = Some k"
proof -
  let ?P = "\<lambda>k. case owner p k of Some s \<Rightarrow> s \<notin> busy p | None \<Rightarrow> False"
  have mem: "k \<in> set (recency p)" using k by (force simp: recency_def)
  have own: "owner p k = Some slot" using owner_Some_iff [OF ok] k by simp
  have "\<not> ?P (recency p ! j)" if j: "j < list_index (recency p) k" for j
  proof
    assume P: "?P (recency p ! j)"
    then obtain s where s: "owner p (recency p ! j) = Some s" "s \<notin> busy p" by (auto split: option.splits)
    have len: "j < length (recency p)" using j list_index_nth [OF mem] by linarith
    have dist: "distinct (recency p)" using ok by (simp add: pins_ok_def recency_def)
    have "list_index (recency p) (recency p ! j) = j"
      using list_index_nth [of "recency p ! j" "recency p"] len dist by (metis nth_eq_iff_index_eq nth_mem)
    then show False using least [of "recency p ! j" s] s owner_Some_iff [OF ok] j by simp
  qed
  then show ?thesis
    unfolding least_recent_idle_def find_Some_iff
    using list_index_nth [OF mem] own free by (intro exI [of _ "list_index (recency p) k"]) auto
qed

lemma take_idle_exact:
  assumes ok: "pins_ok p" and ti: "take_idle p = Some (slot, q)"
  shows "idle p slot \<and>
    (if (\<exists>s. idle p s \<and> unowned p s) then unowned p slot \<and> (\<forall>s < slot. idle p s \<longrightarrow> \<not> unowned p s) \<and> q = p
     else \<exists>k. least_recent_idle p = Some k \<and> owner p k = Some slot \<and> q = p\<lparr>owners := od_del k (owners p)\<rparr>)"
proof -
  let ?owned = "owned_by (owners p)"
  let ?un = "filter (\<lambda>s. ?owned s = None) (idle_slots p)"
  have un_iff: "?owned s = None \<longleftrightarrow> unowned p s" for s
    using owner_Some_iff [OF ok] by (force simp: owned_by_eq_None unowned_def)
  have idle_iff: "s \<in> set (idle_slots p) \<longleftrightarrow> idle p s" for s by (auto simp: idle_def)
  have ne: "idle_slots p \<noteq> []" using ti by (auto simp: take_idle_def Let_def split: if_splits)
  note cases = take_idle_cases [OF ok ti]
  show ?thesis
  proof (cases "?un = []")
    case False
    then have s: "slot = hd ?un" "q = p"
      using ti ne by (auto simp: take_idle_def Let_def split: if_splits)
    have "sorted ?un" by (simp add: idle_slots_def sorted_filter [of id, simplified])
    then have least: "slot \<le> s" if "s \<in> set ?un" for s
      using that False s(1) by (cases ?un) auto
    have "slot \<in> set ?un" unfolding s(1) using False by (rule hd_in_set)
    then have mine: "idle p slot" "unowned p slot" using un_iff idle_iff by auto
    have "\<not> unowned p s" if "s < slot" "idle p s" for s
      using least [of s] that un_iff idle_iff by auto
    then show ?thesis using s(2) mine by auto
  next
    case True
    then have none: "\<not> (\<exists>s. idle p s \<and> unowned p s)"
      by (auto simp: filter_empty_conv un_iff idle_def)
    have "slot \<in> snd ` set (owners p)"
      using none cases un_iff [of slot] by (auto simp: owned_by_eq_None idle_def)
    then obtain k where k: "(k, slot) \<in> set (owners p)" "q = p\<lparr>owners := od_del k (owners p)\<rparr>"
        "\<forall>s < total_slots p. s \<notin> busy p \<longrightarrow> (\<exists>k'. (k', s) \<in> set (owners p) \<and>
          list_index (map fst (owners p)) k \<le> list_index (map fst (owners p)) k')"
      using cases by blast
    have "least_recent_idle p = Some k"
    proof (rule least_recent_first [OF ok k(1)])
      show "slot \<notin> busy p" using cases by blast
      fix k' s assume s: "(k', s) \<in> set (owners p)" "s \<notin> busy p"
      then have "s < total_slots p" using ok by (auto simp: pins_ok_def)
      then obtain k'' where k'': "(k'', s) \<in> set (owners p)" "list_index (recency p) k \<le> list_index (recency p) k''"
        using k(3) s(2) by (auto simp: recency_def)
      then have "k'' = k'" using ok s(1) distinct_map_inj [of snd "owners p" "(k'', s)" "(k', s)"] by (auto simp: pins_ok_def)
      then show "list_index (recency p) k \<le> list_index (recency p) k'" using k''(2) by simp
    qed
    then show ?thesis using none k cases owner_Some_iff [OF ok] by (auto simp: idle_def)
  qed
qed
lemma recency_moved:
  assumes "distinct (map fst xs)" and "map_of xs k = Some v"
  shows "map fst (move_to_end k xs) = filter (\<lambda>x. x \<noteq> k) (map fst xs) @ [k]"
proof -
  have "filter (\<lambda>e. fst e = k) xs = [(k, v)]"
    using assms
  proof (induction xs)
    case (Cons e xs)
    have "filter (\<lambda>e. fst e = k) xs = []" if "fst e = k"
      using Cons.prems(1) that by (auto simp: filter_empty_conv )
        (metis (no_types, lifting) fst_conv image_eqI)
    then show ?case using Cons by (cases e) (auto split: if_splits)
  qed simp
  then show ?thesis by (simp add: move_to_end_def filter_map comp_def)
qed

lemma recency_deleted: "map fst (od_del k xs) = filter (\<lambda>x. x \<noteq> k) (map fst xs)"
  by (simp add: od_del_def filter_map comp_def)

lemma owner_moved: "pins_ok p \<Longrightarrow> owner (p\<lparr>owners := move_to_end k (owners p)\<rparr>) k' = owner p k'"
proof -
  assume ok: "pins_ok p"
  then have ok': "pins_ok (p\<lparr>owners := move_to_end k (owners p)\<rparr>)" by (simp add: pins_ok_def)
  have "owner (p\<lparr>owners := move_to_end k (owners p)\<rparr>) k' = Some s \<longleftrightarrow> owner p k' = Some s" for s
    by (simp add: owner_Some_iff [OF ok] owner_Some_iff [OF ok'])
  then show ?thesis by (metis option.exhaust)
qed

lemma owner_deleted: "owner (p\<lparr>owners := od_del k (owners p)\<rparr>) k' = (if k' = k then None else owner p k')"
proof -
  have "map_of (filter (\<lambda>e. fst e \<noteq> k) xs) k' = (if k' = k then None else map_of xs k')" for xs :: "(string \<times> nat) list"
    by (induction xs) auto
  then show ?thesis by (simp add: owner_def od_del_def)
qed

text \<open>Who loses its slot to a request that owns none.\<close>

definition evicts :: "pins \<Rightarrow> string option" where
  "evicts p = (if \<exists>s. idle p s \<and> unowned p s then None else least_recent_idle p)"

text \<open>C5. A choice is exact. A conversation that owns a slot gets that slot or waits for it, and becomes the most
  recently used; nobody else's slot changes. Any other request waits only while no slot is idle; it gets the lowest
  idle slot nobody owns, evicting nobody, and when every idle slot is owned it gets the slot of the idle owner used
  least recently, which loses it. A named request then owns its slot and is the most recently used; the order of the
  others stays.\<close>

theorem slots_affinity_and_lru:
  assumes "pins_ok p"
  shows "case choose_slot p key of
      None \<Rightarrow> (case Option.bind key (owner p) of Some s \<Rightarrow> s \<in> busy p | None \<Rightarrow> \<not> (\<exists>s. idle p s))
    | Some (slot, p') \<Rightarrow>
        idle p slot \<and> busy p' = busy p \<and> total_slots p' = total_slots p \<and>
        (case Option.bind key (owner p) of
           Some s \<Rightarrow> slot = s \<and> owner p' = owner p \<and> recency p' = filter (\<lambda>k. Some k \<noteq> key) (recency p) @ [the key]
         | None \<Rightarrow>
             (case evicts p of
                   None \<Rightarrow> unowned p slot \<and> (\<forall>s < slot. idle p s \<longrightarrow> \<not> unowned p s)
                 | Some k \<Rightarrow> owner p k = Some slot) \<and>
                owner p' = (\<lambda>k. if Some k = key then Some slot else if Some k = evicts p then None else owner p k) \<and>
                recency p' = filter (\<lambda>k. Some k \<noteq> evicts p) (recency p) @ (case key of None \<Rightarrow> [] | Some k \<Rightarrow> [k]))"
proof (cases "Option.bind key (owner p)")
  case (Some s)
  then obtain k where k: "key = Some k" "owner p k = Some s" by (cases key) auto
  have own: "(k, s) \<in> set (owners p)" using k(2) owner_Some_iff [OF assms] by simp
  have "recency (p\<lparr>owners := move_to_end k (owners p)\<rparr>) = filter (\<lambda>x. x \<noteq> k) (recency p) @ [k]"
    using assms k(2) recency_moved by (simp add: recency_def pins_ok_def owner_def)
  moreover have "s < total_slots p" using own assms by (auto simp: pins_ok_def)
  ultimately show ?thesis
    using choose_slot_owner [OF k] owner_moved [OF assms, of k] k by (auto simp: idle_def)
next
  case None
  show ?thesis
  proof (cases "take_idle p")
    case no: None
    then have "choose_slot p key = None" by (simp add: choose_slot_fresh [OF None])
    then show ?thesis using no None by (auto simp: take_idle_None idle_def)
  next
    case (Some sq)
    then obtain slot q where ti: "take_idle p = Some (slot, q)" by (cases sq) auto
    note exact = take_idle_exact [OF assms ti]
    have slot: "idle p slot" "case evicts p of None \<Rightarrow> unowned p slot \<and> (\<forall>s < slot. idle p s \<longrightarrow> \<not> unowned p s) | Some k \<Rightarrow> owner p k = Some slot"
      using exact by (auto simp: evicts_def split: if_splits)
    have q: "busy q = busy p" "total_slots q = total_slots p"
        "owner q = (\<lambda>k. if Some k = evicts p then None else owner p k)" "recency q = filter (\<lambda>k. Some k \<noteq> evicts p) (recency p)"
      using exact owner_deleted [where p = p] by (auto simp: evicts_def recency_def recency_deleted fun_eq_iff split: if_splits)
    have key: "k \<notin> fst ` set (owners q)" if "key = Some k" for k
    proof -
      have "owner q k = None" using None that q(3) by simp
      then show ?thesis by (simp add: owner_def map_of_eq_None_iff)
    qed
    have ch: "choose_slot p key = Some (slot, case key of None \<Rightarrow> q | Some k \<Rightarrow> q\<lparr>owners := owners q @ [(k, slot)]\<rparr>)"
      using key by (simp add: choose_slot_fresh [OF None] ti od_set_new split: option.splits)
    have added: "owner (q\<lparr>owners := owners q @ [(k, slot)]\<rparr>) = (owner q)(k \<mapsto> slot)" if "key = Some k" for k
    proof -
      have "map_of (owners q) k = None" using key [OF that] by (simp add: map_of_eq_None_iff)
      then show ?thesis by (auto simp: owner_def fun_eq_iff map_add_def split: option.splits)
    qed
    show ?thesis
    proof (cases key)
      case none: None
      have "choose_slot p None = Some (slot, q)" using ch none by simp
      then show ?thesis using slot q none by simp
    next
      case (Some k)
      have "owner (q\<lparr>owners := owners q @ [(k, slot)]\<rparr>) =
          (\<lambda>k'. if Some k' = key then Some slot else if Some k' = evicts p then None else owner p k')"
        unfolding added [OF Some] q(3) Some by auto
      moreover have "recency (q\<lparr>owners := owners q @ [(k, slot)]\<rparr>) = filter (\<lambda>k. Some k \<noteq> evicts p) (recency p) @ [k]"
        using q(4) by (simp add: recency_def)
      ultimately show ?thesis
        using slot q(1,2) None Some ch by simp
    qed
  qed
qed

theorem slots_affinity_and_lru_witness:
  "owner (snd (the (choose_slot \<lparr>total_slots = 2, owners = [(''a'', 0), (''b'', 1)], busy = {}\<rparr>
     (Some ''c'')))) ''a'' = None"
proof -
  let ?p = "\<lparr>total_slots = 2, owners = [(''a'', 0), (''b'', 1)], busy = {}\<rparr>"
  have ok: "pins_ok ?p" by (auto simp: pins_ok_def)
  have ch: "choose_slot ?p (Some ''c'') = Some (0, ?p\<lparr>owners := [(''b'', 1), (''c'', 0)]\<rparr>)"
    by (simp add: choose_slot_def take_idle_def idle_slots_def owned_by_def od_set_def od_del_def
        list_index_def Let_def numeral_2_eq_2)
  have all: "\<not> unowned ?p s" if "idle ?p s" for s
  proof -
    have "owner ?p ''a'' = Some 0" "owner ?p ''b'' = Some 1" by (simp_all add: owner_def)
    moreover have "s = 0 \<or> s = 1" using that by (simp add: idle_def) linarith
    ultimately show ?thesis unfolding unowned_def by metis
  qed
  have first: "least_recent_idle ?p = Some ''a''" by (simp add: least_recent_idle_def recency_def owner_def)
  have none: "\<not> (\<exists>s. idle ?p s \<and> unowned ?p s)" using all by blast
  have key: "Option.bind (Some ''c'') (owner ?p) = None" by (simp add: owner_def)
  have ev: "evicts ?p = Some ''a''" using none first by (simp add: evicts_def)
  from slots_affinity_and_lru [OF ok, of "Some ''c''"] show ?thesis
    unfolding ch key ev by simp
qed

end
