(* ===== verification/Failures.thy ===== *)
theory Failures
  imports Py_Prelude
begin

text \<open>
  What a failed backend call means for the caller (\<open>failures.py\<close>, the exception classes of
  \<open>engines/_subprocess.py\<close>, and the HTTP answer \<open>routes/generate.py\<close> makes of them).
  The driver words a failure from its status and its text, and says whether the request may
  be sent again (\<open>Safe\<close>), would be refused again (\<open>Terminal\<close>), or may have been worked
  on (\<open>Indeterminate\<close>). \<open>json.loads\<close> is the argument \<open>loads\<close>: nothing here depends on
  how it parses, only on which of its three outcomes it has.
\<close>

subsection \<open>Errors\<close>

datatype exn_class =
    CliError
  | BackendTimeout
  | ToolsRefused string
  | OtherError

datatype exn_cause = NoCause | ConnectError | ConnectTimeout | OtherCause

text \<open>\<open>upstream_status\<close> and \<open>retry_after_seconds\<close> are read with \<open>getattr(..., None)\<close>;
  \<open>message\<close> is \<open>str(error)\<close>.\<close>

record exn =
  exn_class :: exn_class
  message :: string
  upstream_status :: "int option"
  retry_after_seconds :: "rat option"
  cause :: exn_cause

datatype disposition = Safe | Terminal | Indeterminate

text \<open>\<open>retry_after\<close>: \<open>parse_float\<close> is \<open>float(value)\<close> (\<open>None\<close> where it raises
  \<open>ValueError\<close>), \<open>seconds_until\<close> is the HTTP date read as seconds from now (\<open>None\<close> where
  it raises).\<close>

definition retry_after ::
  "(string \<Rightarrow> pyfloat option) \<Rightarrow> (string \<Rightarrow> pyfloat option) \<Rightarrow> string option \<Rightarrow> rat option"
where
  "retry_after parse_float seconds_until v =
     (case v of
        None \<Rightarrow> None
      | Some s \<Rightarrow>
          (if s = [] then None
           else case (case parse_float s of Some x \<Rightarrow> Some x | None \<Rightarrow> seconds_until s) of
                  None \<Rightarrow> None
                | Some (Finite x) \<Rightarrow> Some (max 0 x)
                | Some _ \<Rightarrow> None))"

subsection \<open>The words of a backend\<close>

text \<open>\<open>re.search\<close> of a pattern that \<open>m\<close> matches at the head of a text.\<close>

fun search :: "(string \<Rightarrow> bool) \<Rightarrow> string \<Rightarrow> bool" where
  "search m [] = m []"
| "search m (c # cs) = (m (c # cs) \<or> search m cs)"

text \<open>\<open>_CONTENT_REFUSAL\<close>: \<open>flag|moderat|content[ _-]?polic|safety|violat\<close>, any case.\<close>

definition content_refusal :: "string \<Rightarrow> bool" where
  "content_refusal s \<longleftrightarrow>
     (\<exists>w \<in> {''flag'', ''moderat'', ''contentpolic'', ''content polic'', ''content_polic'',
             ''content-polic'', ''safety'', ''violat''}. contains_ci w s)"

definition credential_refused :: "exn \<Rightarrow> int option" where
  "credential_refused e =
     (case upstream_status e of
        None \<Rightarrow> None
      | Some st \<Rightarrow>
          (if st = 401 \<or> st = 402 then Some st
           else if st = 403 \<and> \<not> content_refusal (message e) then Some st
           else None))"

definition template_refusal :: "string \<Rightarrow> bool" where
  "template_refusal s \<longleftrightarrow> contains ''Jinja Exception'' s"

definition pool_full :: "string \<Rightarrow> bool" where
  "pool_full s \<longleftrightarrow> contains ''Context size has been exceeded'' s"

text \<open>\<open>input \(\d+ tokens\) is (?:larger than the max context size|too large to process)\<close>.\<close>

definition too_long_at :: "string \<Rightarrow> bool" where
  "too_long_at s \<longleftrightarrow>
     (let r = drop (length ''input ('') s; ds = takeWhile is_digit r; r' = dropWhile is_digit r
      in starts_with ''input ('' s \<and> ds \<noteq> [] \<and>
         (starts_with '' tokens) is larger than the max context size'' r' \<or>
          starts_with '' tokens) is too large to process'' r'))"

definition input_too_long :: "string \<Rightarrow> bool" where
  "input_too_long s \<longleftrightarrow> search too_long_at s"

text \<open>\<open>_LOADING\<close> and \<open>_TOOLS_REFUSALS\<close> are used with \<open>fullmatch\<close> and allow one full stop.\<close>

definition loading_words :: "string \<Rightarrow> bool" where
  "loading_words m \<longleftrightarrow> m = ''Loading model'' \<or> m = ''Loading model.''"

definition tools_refusal_words :: "string \<Rightarrow> bool" where
  "tools_refusal_words m \<longleftrightarrow>
     m = ''tools param requires --jinja flag'' \<or> m = ''tools param requires --jinja flag.''"

text \<open>\<open>_backend_message\<close>: the one message an error body carries.\<close>

definition backend_message :: "(string \<Rightarrow> loaded) \<Rightarrow> string \<Rightarrow> string option" where
  "backend_message loads body =
     (let t = strip body
      in if t = [] then None
         else case loads t of
                LoadValueError \<Rightarrow> Some t
              | LoadRecursionError \<Rightarrow> None
              | Loaded (JObj d) \<Rightarrow>
                  (let err = (case map_of d ''error'' of Some v \<Rightarrow> v | None \<Rightarrow> dget d ''message'');
                       err' = (case err of JObj d' \<Rightarrow> dget d' ''message'' | v \<Rightarrow> v)
                   in case err' of
                        JStr s \<Rightarrow> (if strip s \<noteq> [] then Some (strip s) else None)
                      | _ \<Rightarrow> None)
              | Loaded _ \<Rightarrow> None)"

definition tools_refusal :: "(string \<Rightarrow> loaded) \<Rightarrow> string \<Rightarrow> string option" where
  "tools_refusal loads body =
     (case backend_message loads body of
        Some m \<Rightarrow> (if tools_refusal_words m then Some m else None)
      | None \<Rightarrow> None)"

definition capacity_refused :: "exn \<Rightarrow> bool" where
  "capacity_refused e =
     (case upstream_status e of
        Some st \<Rightarrow> (if st < 500 then False else pool_full (message e))
      | None \<Rightarrow> pool_full (message e))"

text \<open>\<open>_backend_body\<close>: what follows the first colon and blank of the driver's words.\<close>

definition backend_body :: "exn \<Rightarrow> string option" where
  "backend_body e = map_option snd (partition_at '': '' (message e))"

definition loading_refused :: "(string \<Rightarrow> loaded) \<Rightarrow> exn \<Rightarrow> bool" where
  "loading_refused loads e =
     (if upstream_status e \<noteq> Some 503 then False
      else case Option.bind (backend_body e) (backend_message loads) of
             None \<Rightarrow> False
           | Some m \<Rightarrow> loading_words m)"

definition disposition :: "(string \<Rightarrow> loaded) \<Rightarrow> exn \<Rightarrow> disposition" where
  "disposition loads e =
     (let st = upstream_status e
      in if st = Some 429 \<or> cause e = ConnectError \<or> cause e = ConnectTimeout then Safe
         else if capacity_refused e then Safe
         else if loading_refused loads e then Safe
         else if (case st of None \<Rightarrow> False
                  | Some n \<Rightarrow> 400 \<le> n \<and> n < 500 \<and> n \<notin> {408, 409, 425}) then Terminal
         else if template_refusal (message e) \<or> input_too_long (message e) then Terminal
         else if (case exn_class e of ToolsRefused _ \<Rightarrow> True | _ \<Rightarrow> False) then Terminal
         else Indeterminate)"

subsection \<open>The answer to the caller\<close>

record problem =
  ptype :: string
  title :: string
  pstatus :: int
  detail :: string
  component :: "string option"
  retry_disposition :: "disposition option"
  retry_after_field :: "rat option"

record http_error =
  status_code :: int
  retry_after_header :: "string option"
  problem :: problem

definition base_url :: string where
  "base_url = ''https://github.com/eugene-plexus/inference-driver#''"

text \<open>A refusal of the driver's own: \<open>HTTPException\<close> with a \<open>Problem\<close>.\<close>

definition refusal ::
  "string \<Rightarrow> string \<Rightarrow> int \<Rightarrow> string \<Rightarrow> string option \<Rightarrow> disposition option \<Rightarrow> http_error"
where
  "refusal slug ttl st words part disp =
     \<lparr>status_code = st, retry_after_header = None,
      problem = \<lparr>ptype = base_url @ slug, title = ttl, pstatus = st, detail = words,
        component = part, retry_disposition = disp, retry_after_field = None\<rparr>\<rparr>"

text \<open>A refusal with a title, a status and its words alone.\<close>

definition plain_refusal :: "string \<Rightarrow> int \<Rightarrow> string \<Rightarrow> http_error" where
  "plain_refusal ttl st words =
     \<lparr>status_code = st, retry_after_header = None,
      problem = \<lparr>ptype = [], title = ttl, pstatus = st, detail = words,
        component = None, retry_disposition = None, retry_after_field = None\<rparr>\<rparr>"

lemma refusal_status [simp]: "status_code (refusal slug ttl st words part disp) = st"
  by (simp add: refusal_def)

text \<open>\<open>str(int(wait + 0.999))\<close>.\<close>

definition retry_header :: "rat option \<Rightarrow> string option" where
  "retry_header w = map_option (\<lambda>x. str_int (py_trunc (x + 999 / 1000))) w"

definition outcome_unknown :: string where
  "outcome_unknown = '' Outcome unknown: work may have occurred. '' @
     ''Eugene will not automatically replay this request.''"

definition credential_error :: "exn \<Rightarrow> int \<Rightarrow> string \<Rightarrow> http_error" where
  "credential_error e refused kind =
     (let what = (if refused = 402 then ''the account behind its API key has no credit''
                  else ''its API key'');
          stp = (if refused = 402 then ''Add credit to that account, or set'' else ''Set'');
          wait = retry_after_seconds e
      in \<lparr>status_code = 502, retry_after_header = retry_header wait,
          problem = \<lparr>ptype = base_url @ ''backend-credential-refused'',
            title = ''Backend refused this driver's credential'', pstatus = 502,
            detail = ''The backend refused this driver's credential ('' @ what @ ''; HTTP '' @
              str_int refused @ ''): '' @ message e @ '' Nothing is wrong with the request. '' @
              stp @ '' a working API key on this driver.'',
            component = Some (''inference-driver:'' @ kind),
            retry_disposition = Some Terminal, retry_after_field = wait\<rparr>\<rparr>)"

definition capacity_error :: "exn \<Rightarrow> string \<Rightarrow> http_error" where
  "capacity_error e kind =
     \<lparr>status_code = 503, retry_after_header = None,
      problem = \<lparr>ptype = base_url @ ''backend-capacity'',
        title = ''Backend has no room for this request now'', pstatus = 503,
        detail = message e @ '' The prompts in flight on this engine together outgrew the '' @
          ''context its slots share; this request fits on its own. Nothing is '' @
          ''wrong with the request or the engine. Retry, or give the model more '' @
          ''context or another replica.'',
        component = Some (''inference-driver:'' @ kind),
        retry_disposition = Some Safe, retry_after_field = None\<rparr>\<rparr>"

definition backend_error :: "(string \<Rightarrow> loaded) \<Rightarrow> exn \<Rightarrow> string \<Rightarrow> http_error" where
  "backend_error loads e kind =
     (case credential_refused e of
        Some refused \<Rightarrow> credential_error e refused kind
      | None \<Rightarrow>
          if capacity_refused e then capacity_error e kind
          else
            let outcome = disposition loads e;
                code = (if exn_class e = BackendTimeout then 504
                        else if outcome = Terminal then 400 else 502);
                delay = retry_after_seconds e;
                msg = (if outcome = Indeterminate then message e @ outcome_unknown else message e)
            in \<lparr>status_code = code, retry_after_header = retry_header delay,
                problem = \<lparr>
                  ptype = base_url @ (if outcome = Terminal then ''backend-rejected-request''
                     else if loading_refused loads e then ''backend-loading''
                     else ''backend-error''),
                  title = (if outcome = Terminal then ''Backend rejected the request''
                     else if code = 504 then ''Backend did not finish in time''
                     else if loading_refused loads e then ''Backend is loading its model''
                     else ''Backend error''),
                  pstatus = code, detail = msg,
                  component = Some (''inference-driver:'' @ kind),
                  retry_disposition = Some outcome, retry_after_field = delay\<rparr>\<rparr>)"

subsection \<open>How the classes divide\<close>

definition unworded :: "exn \<Rightarrow> bool" where
  "unworded e \<longleftrightarrow> \<not> pool_full (message e) \<and> \<not> template_refusal (message e)
     \<and> \<not> input_too_long (message e)"

lemma loading_is_503: "loading_refused loads e \<Longrightarrow> upstream_status e = Some 503"
  by (simp add: loading_refused_def split: if_splits)

lemma capacity_not_4xx: "capacity_refused e \<Longrightarrow> upstream_status e = Some st \<Longrightarrow> 500 \<le> st"
  by (simp add: capacity_refused_def split: if_splits)

lemma credential_codes: "credential_refused e = Some st \<Longrightarrow>
    upstream_status e = Some st \<and> st \<in> {401, 402, 403}"
  by (auto simp: credential_refused_def split: option.splits if_splits)

lemma credential_terminal:
  assumes "credential_refused e = Some st" and "cause e \<notin> {ConnectError, ConnectTimeout}"
  shows "disposition loads e = Terminal"
proof -
  note c = credential_codes [OF assms(1)]
  have "\<not> capacity_refused e" using c capacity_not_4xx by force
  moreover have "\<not> loading_refused loads e" using c loading_is_503 by force
  ultimately show ?thesis using c assms(2) by (auto simp: disposition_def Let_def)
qed

lemma capacity_safe: "capacity_refused e \<Longrightarrow> disposition loads e = Safe"
  by (simp add: disposition_def Let_def)

lemma loading_safe: "loading_refused loads e \<Longrightarrow> disposition loads e = Safe"
  by (simp add: disposition_def Let_def)

lemma backend_error_class:
  "retry_disposition (problem (backend_error loads e kind)) =
     Some (if credential_refused e \<noteq> None then Terminal else disposition loads e)"
proof (cases "credential_refused e")
  case None
  then show ?thesis using capacity_safe [of e loads]
    by (simp add: backend_error_def capacity_error_def Let_def)
qed (simp add: backend_error_def credential_error_def Let_def)

subsection \<open>Properties\<close>

text \<open>C6. Silence never proves that no work was done: a failure without an upstream status that is
  not a refused connection, and whose words are none of the measured refusals, is
  indeterminate, and the caller is told so and not to expect a replay.\<close>

theorem transport_silence_is_indeterminate:
  assumes "upstream_status e = None" and "cause e \<notin> {ConnectError, ConnectTimeout}"
    and "\<forall>w. exn_class e \<noteq> ToolsRefused w" and "unworded e"
  shows "disposition loads e = Indeterminate \<and>
    detail (problem (backend_error loads e kind)) = message e @ outcome_unknown \<and>
    status_code (backend_error loads e kind) = (if exn_class e = BackendTimeout then 504 else 502)"
proof -
  have cap: "\<not> capacity_refused e"
    using assms(1,4) by (simp add: capacity_refused_def unworded_def)
  have load: "\<not> loading_refused loads e" using assms(1) by (simp add: loading_refused_def)
  have d: "disposition loads e = Indeterminate"
    using assms cap load by (auto simp: disposition_def Let_def unworded_def split: exn_class.splits)
  moreover have "credential_refused e = None" using assms(1) by (simp add: credential_refused_def)
  ultimately show ?thesis using cap by (simp add: backend_error_def Let_def)
qed

theorem transport_silence_is_indeterminate_witness:
  "disposition (\<lambda>_. LoadValueError) \<lparr>exn_class = BackendTimeout, message = ''late'',
     upstream_status = None, retry_after_seconds = None, cause = OtherCause\<rparr> = Indeterminate"
proof -
  let ?e = "\<lparr>exn_class = BackendTimeout, message = ''late'', upstream_status = None,
    retry_after_seconds = None, cause = OtherCause\<rparr>"
  have "unworded ?e"
    by (simp add: unworded_def pool_full_def template_refusal_def contains_def
        input_too_long_def too_long_at_def Let_def)
  then show ?thesis
    using transport_silence_is_indeterminate [of ?e "\<lambda>_. LoadValueError" "[]"] by simp
qed

text \<open>C7. The response agrees with what was found out of the failure: its disposition is that of the exception, but
  \<open>Terminal\<close> for a refused credential; the problem type and the status are those of the one branch it falls under; the
  header and the field \<open>retryAfterSeconds\<close> say the same wait, the backend's own, but none for want of room; an unknown
  outcome is told in words. So a 4xx is only ever for a request that would be refused again, a 503 only for a safe
  one, and \<open>Terminal\<close> with a 502 only when it is the driver's own credential that was refused.\<close>

theorem backend_error_consistent:
  "let r = backend_error loads e kind;
       own = credential_refused e \<noteq> None;
       full = (\<not> own \<and> capacity_refused e);
       out = (if own then Terminal else disposition loads e)
   in
    retry_disposition (problem r) = Some out \<and>
    ptype (problem r) = base_url @ (if own then ''backend-credential-refused'' else if full then ''backend-capacity''
      else if out = Terminal then ''backend-rejected-request'' else if loading_refused loads e then ''backend-loading''
      else ''backend-error'') \<and>
    status_code r = (if own then 502 else if full then 503 else if exn_class e = BackendTimeout then 504
      else if out = Terminal then 400 else 502) \<and>
    retry_after_field (problem r) = (if full then None else retry_after_seconds e) \<and>
    retry_after_header r = map_option (\<lambda>wait. str_int (py_trunc (wait + 999 / 1000))) (retry_after_field (problem r)) \<and>
    (out = Indeterminate \<longrightarrow> detail (problem r) = message e @ outcome_unknown) \<and>
    (\<not> own \<and> \<not> full \<and> out \<noteq> Indeterminate \<longrightarrow> detail (problem r) = message e) \<and>
    status_code r \<in> {400, 502, 503, 504} \<and> pstatus (problem r) = status_code r \<and>
    (status_code r = 400 \<longrightarrow> retry_disposition (problem r) = Some Terminal) \<and>
    (status_code r = 503 \<longrightarrow> retry_disposition (problem r) = Some Safe) \<and>
    (status_code r = 502 \<and> retry_disposition (problem r) = Some Terminal \<longrightarrow>
       credential_refused e \<noteq> None) \<and>
    (status_code r = 504 \<longrightarrow> exn_class e = BackendTimeout)"
proof (cases "credential_refused e")
  case None
  then show ?thesis using capacity_safe [of e loads]
    by (auto simp: backend_error_def capacity_error_def retry_header_def Let_def)
next
  case (Some st)
  then show ?thesis by (simp add: backend_error_def credential_error_def retry_header_def Let_def)
qed

theorem backend_error_consistent_witness:
  "retry_disposition (problem (backend_error (\<lambda>_. LoadValueError)
    \<lparr>exn_class = ToolsRefused ''w'', message = ''no tools'', upstream_status = Some 500,
     retry_after_seconds = None, cause = NoCause\<rparr> ''x'')) = Some Terminal"
proof -
  let ?e = "\<lparr>exn_class = ToolsRefused ''w'', message = ''no tools'', upstream_status = Some 500,
    retry_after_seconds = None, cause = NoCause\<rparr>"
  have "status_code (backend_error (\<lambda>_. LoadValueError) ?e ''x'') = 400"
    by (simp add: backend_error_def Let_def disposition_def credential_refused_def
        capacity_refused_def pool_full_def contains_def loading_refused_def)
  moreover have "status_code (backend_error (\<lambda>_. LoadValueError) ?e ''x'') = 400 \<longrightarrow>
      retry_disposition (problem (backend_error (\<lambda>_. LoadValueError) ?e ''x'')) = Some Terminal"
    using backend_error_consistent [of "\<lambda>_. LoadValueError" ?e "''x''"] unfolding Let_def by blast
  ultimately show ?thesis by blast
qed

text \<open>An engine still loading its model is told from a broken one by its whole message and
  nothing less: where the driver's own words have no colon and the body follows them, the error
  is a loading refusal exactly when the status is 503 and the body's one message is
  "Loading model", and then the request may go to another replica (502, safe, no talk of work
  that may have occurred).\<close>

theorem loading_refusal_exact:
  assumes "message e = words @ '': '' @ body" and "CHR '':'' \<notin> set words"
    and "\<not> capacity_refused e" and "exn_class e \<noteq> BackendTimeout"
  shows "(loading_refused loads e \<longleftrightarrow> upstream_status e = Some 503 \<and>
      (\<exists>m. backend_message loads body = Some m \<and> loading_words m)) \<and>
    (loading_refused loads e \<longrightarrow>
      status_code (backend_error loads e kind) = 502 \<and>
      retry_disposition (problem (backend_error loads e kind)) = Some Safe \<and>
      detail (problem (backend_error loads e kind)) = message e \<and>
      ptype (problem (backend_error loads e kind)) = base_url @ ''backend-loading'')"
proof -
  have "backend_body e = Some body"
    using partition_at_first_char [OF assms(2), of "'' ''" body] assms(1)
    by (simp add: backend_body_def)
  then have "loading_refused loads e \<longleftrightarrow> upstream_status e = Some 503 \<and>
      (\<exists>m. backend_message loads body = Some m \<and> loading_words m)"
    by (simp add: loading_refused_def split: option.split)
  then show ?thesis
    using loading_is_503 [of loads e] loading_safe [of loads e] assms(3,4)
    by (simp add: backend_error_def credential_refused_def Let_def)
qed

definition loading_body :: "string \<Rightarrow> loaded" where
  "loading_body _ = Loaded (JObj [(''error'', JObj [(''message'', JStr ''Loading model'')])])"

theorem loading_refusal_exact_witness:
  "status_code (backend_error loading_body \<lparr>exn_class = CliError, message = ''503: {}'',
     upstream_status = Some 503, retry_after_seconds = None, cause = NoCause\<rparr> ''x'') = 502"
proof -
  let ?e = "\<lparr>exn_class = CliError, message = ''503: {}'', upstream_status = Some 503,
    retry_after_seconds = None, cause = NoCause\<rparr>"
  have cap: "\<not> capacity_refused ?e"
    by (simp add: capacity_refused_def pool_full_def contains_def)
  have "backend_message loading_body ''{}'' = Some ''Loading model''"
    by (simp add: backend_message_def loading_body_def dget_def strip_def lstrip_def rstrip_def
        is_space_def Let_def)
  then show ?thesis
    using loading_refusal_exact [of ?e "''503''" "''{}''" loading_body "''x''"] cap
    by (simp add: loading_words_def)
qed

text \<open>A refusal of the request's tools is the caller's 400, whatever status the backend gave
  it: every replica would refuse it in the same words, and none is broken.\<close>

theorem tools_refusal_is_callers:
  assumes "exn_class e = ToolsRefused w" and "upstream_status e \<noteq> Some 429"
    and "cause e \<notin> {ConnectError, ConnectTimeout}" and "\<not> capacity_refused e"
    and "\<not> loading_refused loads e" and "credential_refused e = None"
  shows "status_code (backend_error loads e kind) = 400 \<and>
    retry_disposition (problem (backend_error loads e kind)) = Some Terminal"
proof -
  have "disposition loads e = Terminal"
    using assms by (auto simp: disposition_def Let_def)
  then show ?thesis using assms by (simp add: backend_error_def Let_def)
qed

theorem tools_refusal_is_callers_witness:
  "status_code (backend_error (\<lambda>_. LoadValueError) \<lparr>exn_class = ToolsRefused ''w'',
     message = ''no tools'', upstream_status = Some 500, retry_after_seconds = None,
     cause = NoCause\<rparr> ''x'') = 400"
proof -
  let ?e = "\<lparr>exn_class = ToolsRefused ''w'', message = ''no tools'', upstream_status = Some 500,
    retry_after_seconds = None, cause = NoCause\<rparr>"
  have "\<not> capacity_refused ?e" by (simp add: capacity_refused_def pool_full_def contains_def)
  then show ?thesis
    using tools_refusal_is_callers [of ?e "''w''" "\<lambda>_. LoadValueError" "''x''"]
    by (simp add: loading_refused_def credential_refused_def)
qed

end
