(* ===== verification/Tokens.thy ===== *)
theory Tokens
  imports Py_Prelude Step_Systems "HOL-Library.List_Lexorder" "HOL-Library.Product_Lexorder"
begin

text \<open>
  Tokens and the trust bundle (\<open>tokens.py\<close>). PyJWT, the Ed25519 keys and the hash are not
  code of this repository: they are the fields of a \<open>crypto\<close> record, and what the code
  relies on is stated where it is used. A public key is its raw bytes. \<open>verify\<close> makes its
  checks in the order of the source; \<open>note_clock_skew\<close> only logs and is a definition of its
  own.
\<close>

subsection \<open>Constants\<close>

definition TYP_SESSION :: string where "TYP_SESSION = ''ep-session+jwt''"
definition TYP_ADMINISTRATION :: string where "TYP_ADMINISTRATION = ''ep-administration+jwt''"
definition TYP_SERVICE :: string where "TYP_SERVICE = ''ep-service+jwt''"
definition TYP_CLIENT :: string where "TYP_CLIENT = ''ep-client+jwt''"
definition TYP_BUNDLE :: string where "TYP_BUNDLE = ''ep-trust-bundle+jwt''"

lemmas typ_defs = TYP_SESSION_def TYP_ADMINISTRATION_def TYP_SERVICE_def TYP_CLIENT_def
  TYP_BUNDLE_def

definition GRANT_AUTHORITY :: string where "GRANT_AUTHORITY = ''authority''"
definition GRANT_NODE :: string where "GRANT_NODE = ''node''"
definition GRANT_GATEWAY :: string where "GRANT_GATEWAY = ''gateway''"
definition GRANT_FILES :: string where "GRANT_FILES = ''files''"
definition GRANT_STANDBY :: string where "GRANT_STANDBY = ''standby''"

definition ISSUER_CONTROL :: string where "ISSUER_CONTROL = ''control''"
definition RECIPIENT_CONTROL :: string where "RECIPIENT_CONTROL = ''control''"
definition RECIPIENT_GATEWAY :: string where "RECIPIENT_GATEWAY = ''gateway''"
definition SUB_OPERATOR :: string where "SUB_OPERATOR = ''operator''"
definition SUB_AGENT :: string where "SUB_AGENT = ''agent''"
definition SUB_GATEWAY :: string where "SUB_GATEWAY = ''gateway''"
definition SUB_STANDBY :: string where "SUB_STANDBY = ''standby''"

definition LEEWAY_SECONDS :: int where "LEEWAY_SECONDS = 300"
definition DAY :: int where "DAY = 24 * 3600"
definition ADMINISTRATION_TTL_SECONDS :: int where "ADMINISTRATION_TTL_SECONDS = 3600"
definition MAX_SESSION_SECONDS :: int where "MAX_SESSION_SECONDS = 14 * DAY"
definition MAX_EXCHANGED_SECONDS :: int where "MAX_EXCHANGED_SECONDS = 10 * 60"
definition MAX_LOCAL_SERVICE_SECONDS :: int where "MAX_LOCAL_SERVICE_SECONDS = 400 * DAY"
definition MAX_REMOTE_SERVICE_SECONDS :: int where "MAX_REMOTE_SERVICE_SECONDS = 3600"
definition MAX_CLIENT_SECONDS :: int where "MAX_CLIENT_SECONDS = 400 * DAY"

subsection \<open>Clock skew\<close>

text \<open>The log of \<open>note_clock_skew\<close>: whether it warned, and the new \<open>_last_skew_warning\<close>.\<close>

definition note_clock_skew :: "rat \<Rightarrow> int \<Rightarrow> rat \<Rightarrow> bool \<times> rat" where
  "note_clock_skew last_warned iat now =
     (if of_int iat - now \<le> 2 then (False, last_warned)
      else if now - last_warned < 60 then (False, last_warned)
      else (True, now))"

subsection \<open>Keys\<close>

type_synonym pubkey = string

text \<open>
  The outside: base64, SHA-256, \<open>jwt.get_unverified_header\<close>, \<open>jwt.decode\<close> for a bundle (no
  claim checked) and for a token (required claims, \<open>exp\<close> and \<open>iat\<close> checked with a leeway),
  \<open>jwt.encode\<close>, and \<open>int\<close> and \<open>str\<close> of a JSON value. \<open>None\<close> is a raise.
\<close>

record ('t, 'sk) crypto =
  b64_decode :: "string \<Rightarrow> string option"
  b64_encode :: "string \<Rightarrow> string"
  b64_url :: "string \<Rightarrow> string"
  sha256 :: "string \<Rightarrow> string"
  public_half :: "'sk \<Rightarrow> pubkey"
  jws_header :: "'t \<Rightarrow> dict option"
  decode_bundle :: "'t \<Rightarrow> pubkey \<Rightarrow> dict option"
  decode_token :: "'t \<Rightarrow> pubkey \<Rightarrow> int \<Rightarrow> dict option"
  jws_encode :: "dict \<Rightarrow> 'sk \<Rightarrow> dict \<Rightarrow> 't"
  int_of :: "json \<Rightarrow> int option"
  str_of :: "json \<Rightarrow> string"

datatype token_error = TokenError string | BundleError string | ValueError string

definition thumbprint :: "('t, 'sk) crypto \<Rightarrow> pubkey \<Rightarrow> string" where
  "thumbprint cr key =
     b64_url cr (sha256 cr (''{\"crv\":\"Ed25519\",\"kty\":\"OKP\",\"x\":\"'' @ b64_url cr key @ ''\"}''))"

definition load_public :: "('t, 'sk) crypto \<Rightarrow> string \<Rightarrow> token_error + pubkey" where
  "load_public cr v =
     and_then (from_option (ValueError ''a public key must be base64 of 32 raw bytes'') (b64_decode cr v))
       (\<lambda>raw. if length raw \<noteq> 32 then Inl (ValueError ''a public key must be 32 raw bytes'')
              else Inr raw)"

subsection \<open>The trust bundle\<close>

definition node_recipient :: "string \<Rightarrow> string" where
  "node_recipient name = ''node:'' @ name"

definition node_of :: "string \<Rightarrow> string option" where
  "node_of recipient =
     (if starts_with ''node:'' recipient \<and> length recipient > 5 then Some (drop 5 recipient) else None)"

record trust_key =
  kid :: string
  issuer :: string
  public :: pubkey
  grants :: "string list"

record 't trust_bundle =
  version :: int
  epoch :: int
  bundle_iat :: int
  authority :: string
  keys :: "(string \<times> trust_key) list"
  revoked_sessions :: "string list"
  jws :: 't
  token_epochs :: "(int \<times> int) option"

definition members :: "'t trust_bundle \<Rightarrow> string list" where
  "members b = List.map_filter (\<lambda>(_, k). node_of (issuer k)) (keys b)"

definition age_seconds :: "'t trust_bundle \<Rightarrow> rat \<Rightarrow> int" where
  "age_seconds b now = max 0 (py_trunc (now - of_int (bundle_iat b)))"

text \<open>\<open>to_dict\<close>, and the payload \<open>build_bundle\<close> signs.\<close>

definition key_to_dict :: "('t, 'sk) crypto \<Rightarrow> trust_key \<Rightarrow> json" where
  "key_to_dict cr k = JObj
     [(''kid'', JStr (kid k)), (''issuer'', JStr (issuer k)),
      (''publicKey'', JStr (b64_encode cr (public k))),
      (''grants'', JList (map JStr (sort (remdups (grants k)))))]"

definition live_revocations :: "int \<Rightarrow> (string \<times> int) list \<Rightarrow> (string \<times> int) list" where
  "live_revocations issued rs =
     filter (\<lambda>(_, ex). ex + LEEWAY_SECONDS \<ge> issued) (sort (remdups rs))"

definition bundle_payload ::
  "('t, 'sk) crypto \<Rightarrow> 'sk \<Rightarrow> int \<Rightarrow> int \<Rightarrow> trust_key list \<Rightarrow> (string \<times> int) list \<Rightarrow> int
     \<Rightarrow> (int \<times> int) option \<Rightarrow> dict"
where
  "bundle_payload cr auth ver ep ks revoked issued te =
     [(''version'', JInt ver), (''epoch'', JInt ep), (''iat'', JInt issued),
      (''authority'', JStr (b64_encode cr (public_half cr auth))),
      (''keys'', JList (map (key_to_dict cr) (sort_key kid ks))),
      (''revokedSessions'', JList (map (\<lambda>(jti, ex). JObj [(''jti'', JStr jti), (''exp'', JInt ex)])
         (live_revocations issued revoked)))]
     @ (case te of None \<Rightarrow> []
        | Some (since, at_epoch) \<Rightarrow>
            [(''tokenEpochs'', JObj [(''since'', JInt since), (''epoch'', JInt at_epoch)])])"

text \<open>The body of the loop over \<open>claims["keys"]\<close>, and the loop.\<close>

abbreviation malformed :: token_error where
  "malformed \<equiv> BundleError ''malformed bundle''"

definition parse_key ::
  "('t, 'sk) crypto \<Rightarrow> (string \<times> trust_key) list \<Rightarrow> json \<Rightarrow> token_error + trust_key"
where
  "parse_key cr seen raw =
     and_then (from_option malformed (getitem raw ''publicKey'')) (\<lambda>pk.
     and_then (case load_public cr (str_of cr pk) of Inl _ \<Rightarrow> Inl malformed | Inr k \<Rightarrow> Inr k) (\<lambda>pub.
     and_then (from_option malformed (getitem raw ''kid'')) (\<lambda>kd.
     and_then (require (thumbprint cr pub = str_of cr kd)
        (BundleError ''not the thumbprint of its public key'')) (\<lambda>_.
     and_then (require (str_of cr kd \<notin> fst ` set seen) (BundleError ''listed twice'')) (\<lambda>_.
     and_then (from_option malformed (getitem raw ''issuer'')) (\<lambda>iss.
     and_then (from_option malformed (Option.bind (getitem raw ''grants'') py_iter)) (\<lambda>gs.
       Inr \<lparr>kid = str_of cr kd, issuer = str_of cr iss, public = pub,
            grants = map (str_of cr) gs\<rparr>)))))))"

fun parse_keys ::
  "('t, 'sk) crypto \<Rightarrow> (string \<times> trust_key) list \<Rightarrow> json list \<Rightarrow> token_error + (string \<times> trust_key) list"
where
  "parse_keys cr seen [] = Inr seen"
| "parse_keys cr seen (raw # raws) =
     and_then (parse_key cr seen raw) (\<lambda>k. parse_keys cr (seen @ [(kid k, k)]) raws)"

definition parse_token_epochs :: "json \<Rightarrow> token_error + (int \<times> int) option" where
  "parse_token_epochs marked =
     (if marked = JNull then Inr None
      else case (getitem marked ''since'', getitem marked ''epoch'') of
             (Some (JInt since), Some (JInt at_epoch)) \<Rightarrow> Inr (Some (since, at_epoch))
           | _ \<Rightarrow> Inl malformed)"

text \<open>\<open>parse_bundle\<close>: the signature first, over the pinned key, then the shape.\<close>

definition parse_fields ::
  "('t, 'sk) crypto \<Rightarrow> 't \<Rightarrow> string \<Rightarrow> dict \<Rightarrow> token_error + 't trust_bundle"
where
  "parse_fields cr tok auth claims =
     (let field = (\<lambda>name. from_option malformed (map_of claims name));
          int_field = (\<lambda>name. and_then (field name) (\<lambda>v. from_option malformed (int_of cr v)))
      in and_then (field ''keys'') (\<lambda>raw_keys.
         and_then (from_option malformed (py_iter raw_keys)) (\<lambda>raws.
         and_then (parse_keys cr [] raws) (\<lambda>ks.
         and_then (field ''revokedSessions'') (\<lambda>raw_revoked.
         and_then (from_option malformed (py_iter raw_revoked)) (\<lambda>rs.
         and_then (collect (\<lambda>r. from_option malformed (map_option (str_of cr) (getitem r ''jti''))) rs)
           (\<lambda>jtis.
         and_then (parse_token_epochs (dget claims ''tokenEpochs'')) (\<lambda>te.
         and_then (int_field ''version'') (\<lambda>ver.
         and_then (int_field ''epoch'') (\<lambda>ep.
         and_then (int_field ''iat'') (\<lambda>at_time.
           Inr \<lparr>version = ver, epoch = ep, bundle_iat = at_time, authority = auth, keys = ks,
                revoked_sessions = jtis, jws = tok, token_epochs = te\<rparr>)))))))))))"

definition parse_bundle :: "('t, 'sk) crypto \<Rightarrow> 't \<Rightarrow> string \<Rightarrow> token_error + 't trust_bundle" where
  "parse_bundle cr tok auth =
     and_then (from_option (BundleError ''not a JWS'') (jws_header cr tok)) (\<lambda>header.
     and_then (require (dget header ''typ'' = JStr TYP_BUNDLE) (BundleError ''typ'')) (\<lambda>_.
     and_then (case load_public cr auth of
                 Inl _ \<Rightarrow> Inl (BundleError ''signature did not verify against the pinned authority'')
               | Inr pinned \<Rightarrow>
                   from_option (BundleError ''signature did not verify against the pinned authority'')
                     (decode_bundle cr tok pinned)) (\<lambda>claims.
     and_then (require (dget claims ''authority'' = JStr auth)
        (BundleError ''names a different authority'')) (\<lambda>_.
       parse_fields cr tok auth claims))))"

definition build_bundle ::
  "('t, 'sk) crypto \<Rightarrow> 'sk \<Rightarrow> int \<Rightarrow> int \<Rightarrow> trust_key list \<Rightarrow> (string \<times> int) list \<Rightarrow> int
     \<Rightarrow> (int \<times> int) option \<Rightarrow> token_error + 't trust_bundle"
where
  "build_bundle cr auth ver ep ks revoked issued te =
     (if \<not> distinct (map kid ks)
      then Inl (ValueError ''a trust bundle cannot list one key twice'')
      else parse_bundle cr
             (jws_encode cr (bundle_payload cr auth ver ep ks revoked issued te) auth
               [(''typ'', JStr TYP_BUNDLE)])
             (b64_encode cr (public_half cr auth)))"

text \<open>\<open>accepts_replacement\<close>: \<open>None\<close> when the offered bundle may replace the held one.\<close>

definition accepts_replacement :: "'t trust_bundle option \<Rightarrow> 't trust_bundle \<Rightarrow> string option" where
  "accepts_replacement held offered =
     (case held of
        None \<Rightarrow> None
      | Some h \<Rightarrow>
          if epoch offered < epoch h
          then Some (''epoch '' @ str_int (epoch offered) @ '' is below the '' @ str_int (epoch h) @
                 '' already held'')
          else if epoch offered > epoch h then None
          else if version offered < version h
          then Some (''version '' @ str_int (version offered) @ '' is below the '' @
                 str_int (version h) @ '' already held'')
          else None)"

subsection \<open>The bundle on disk\<close>

text \<open>
  \<open>BundleFile.get\<close>: \<open>now\<close> is the clock, \<open>stat\<close> the file's stamp (\<open>None\<close> an \<open>OSError\<close>)
  and \<open>offered\<close> what reading and parsing the document gives (\<open>Inl\<close> any of the errors the
  code catches).
\<close>

record ('t, 'stamp) bundle_file =
  held :: "'t trust_bundle option"
  stamp :: "'stamp option"
  checked :: rat
  file_error :: "string option"

definition bundle_get ::
  "rat \<Rightarrow> rat \<Rightarrow> 'stamp option \<Rightarrow> (string + 't trust_bundle) \<Rightarrow> ('t, 'stamp) bundle_file
     \<Rightarrow> 't trust_bundle option \<times> ('t, 'stamp) bundle_file"
where
  "bundle_get interval now stat offered f =
     (if held f \<noteq> None \<and> now - checked f < interval then (held f, f)
      else
        let f = f\<lparr>checked := now\<rparr>
        in case stat of
             None \<Rightarrow> (held f, f\<lparr>file_error := Some ''cannot read the trust bundle''\<rparr>)
           | Some st \<Rightarrow>
               if stamp f = Some st then (held f, f)
               else case offered of
                      Inl why \<Rightarrow> (held f, f\<lparr>file_error := Some (''the trust bundle was refused: '' @ why)\<rparr>)
                    | Inr b \<Rightarrow>
                        (case accepts_replacement (held f) b of
                           Some why \<Rightarrow>
                             (held f, f\<lparr>file_error := Some (''the trust bundle was refused: '' @ why)\<rparr>)
                         | None \<Rightarrow>
                             (Some b, f\<lparr>held := Some b, stamp := Some st, file_error := None\<rparr>)))"

definition new_bundle_file :: "('t, 'stamp) bundle_file" where
  "new_bundle_file = \<lparr>held = None, stamp = None, checked = 0, file_error = None\<rparr>"

subsection \<open>Minting\<close>

record 'sk signer =
  signing_key :: 'sk
  signer_issuer :: string
  signer_epoch :: "int option"

definition trust_key_of :: "('t, 'sk) crypto \<Rightarrow> 'sk signer \<Rightarrow> string list \<Rightarrow> trust_key" where
  "trust_key_of cr s gs =
     \<lparr>kid = thumbprint cr (public_half cr (signing_key s)), issuer = signer_issuer s,
      public = public_half cr (signing_key s), grants = gs\<rparr>"

text \<open>\<open>claims.update(extra)\<close>: an extra claim takes the place of one of the same name.\<close>

definition dict_update :: "dict \<Rightarrow> dict \<Rightarrow> dict" where
  "dict_update d extra = extra @ filter (\<lambda>e. fst e \<notin> fst ` set extra) d"

definition mint_claims ::
  "'sk signer \<Rightarrow> string \<Rightarrow> string \<Rightarrow> string list \<Rightarrow> int \<Rightarrow> int \<Rightarrow> string \<Rightarrow> dict \<Rightarrow> dict"
where
  "mint_claims s typ sub aud ttl issued jti extra =
     dict_update
       ([(''iss'', JStr (signer_issuer s)), (''sub'', JStr sub), (''aud'', JList (map JStr aud)),
         (''iat'', JInt issued), (''exp'', JInt (issued + ttl)), (''jti'', JStr jti)]
        @ (case signer_epoch s of
             Some ep \<Rightarrow> if typ \<noteq> TYP_CLIENT then [(''ep'', JInt ep)] else []
           | None \<Rightarrow> []))
       extra"

definition mint ::
  "('t, 'sk) crypto \<Rightarrow> 'sk signer \<Rightarrow> string \<Rightarrow> string \<Rightarrow> string list \<Rightarrow> int \<Rightarrow> int \<Rightarrow> string \<Rightarrow> dict
     \<Rightarrow> token_error + 't \<times> int"
where
  "mint cr s typ sub aud ttl issued jti extra =
     (if aud = [] then Inl (ValueError ''a token must name at least one recipient'')
      else if ttl \<le> 0 then Inl (ValueError ''ttl_seconds must be positive'')
      else Inr (jws_encode cr (mint_claims s typ sub aud ttl issued jti extra) (signing_key s)
                 [(''typ'', JStr typ), (''kid'', JStr (thumbprint cr (public_half cr (signing_key s))))],
               issued + ttl))"

subsection \<open>Verifying\<close>

record claims =
  c_typ :: string
  c_iss :: string
  c_sub :: string
  c_aud :: "string list"
  c_iat :: int
  c_exp :: int
  c_jti :: string
  c_act :: "string option"
  c_administration_version :: "int option"
  c_browser_session :: "string option"
  c_sid :: "string option"
  c_epoch :: "int option"

definition is_local_service :: "claims \<Rightarrow> string \<Rightarrow> bool" where
  "is_local_service c recipient \<longleftrightarrow>
     c_typ c = TYP_SERVICE \<and> c_iss c = recipient \<and> c_aud c = [recipient]"

definition require_str :: "dict \<Rightarrow> string \<Rightarrow> token_error + string" where
  "require_str d name =
     (case dget d name of
        JStr s \<Rightarrow> (if s = [] then Inl (TokenError (''the token has no '' @ name)) else Inr s)
      | _ \<Rightarrow> Inl (TokenError (''the token has no '' @ name)))"

fun all_strings :: "json list \<Rightarrow> string list option" where
  "all_strings [] = Some []"
| "all_strings (JStr s # vs) = map_option ((#) s) (all_strings vs)"
| "all_strings (_ # vs) = None"

definition aud_of :: "dict \<Rightarrow> token_error + string list" where
  "aud_of d =
     (let err = TokenError ''aud must be a non-empty list of recipients''
      in case dget d ''aud'' of
           JStr s \<Rightarrow> Inr [s]
         | JList vs \<Rightarrow> (if vs = [] then Inl err else from_option err (all_strings vs))
         | _ \<Rightarrow> Inl err)"

definition check_grants :: "trust_key \<Rightarrow> string \<Rightarrow> string \<Rightarrow> string list \<Rightarrow> token_error + unit" where
  "check_grants key typ sub aud =
     (if GRANT_AUTHORITY \<in> set (grants key) then Inr ()
      else if typ \<in> {TYP_SESSION, TYP_CLIENT, TYP_ADMINISTRATION}
      then Inl (TokenError (issuer key @ '' may not issue a '' @ typ @ '': only the authority mints one''))
      else if GRANT_NODE \<notin> set (grants key)
      then (if GRANT_FILES \<in> set (grants key)
            then (if list_all (\<lambda>a. a = issuer key) aud \<or>
                     sub = SUB_AGENT \<and> list_all (\<lambda>a. a \<in> {issuer key, RECIPIENT_CONTROL}) aud
                  then Inr ()
                  else Inl (TokenError (issuer key @ '' is a job site'')))
            else Inl (TokenError (issuer key @ '' holds no grant that issues a service token'')))
      else if list_all (\<lambda>a. a = issuer key) aud then Inr ()
      else if sub = SUB_AGENT then Inr ()
      else if sub = SUB_GATEWAY \<and> GRANT_GATEWAY \<in> set (grants key) then Inr ()
      else if sub = SUB_STANDBY \<and> GRANT_STANDBY \<in> set (grants key)
      then (if list_all (\<lambda>a. a = RECIPIENT_CONTROL) aud then Inr ()
            else Inl (TokenError (issuer key @ '' is the standby: its standby token reaches control only'')))
      else Inl (TokenError (issuer key @ '' may not send a service token off its own machine'')))"

definition lifetime_limit :: "string \<Rightarrow> string \<Rightarrow> string list \<Rightarrow> bool \<Rightarrow> int" where
  "lifetime_limit typ iss aud exchanged =
     (if typ = TYP_ADMINISTRATION then ADMINISTRATION_TTL_SECONDS
      else if typ = TYP_SESSION
      then (if exchanged then MAX_EXCHANGED_SECONDS else MAX_SESSION_SECONDS)
      else if typ = TYP_CLIENT then MAX_CLIENT_SECONDS
      else if list_all (\<lambda>a. a = iss) aud then MAX_LOCAL_SERVICE_SECONDS
      else MAX_REMOTE_SERVICE_SECONDS)"

definition check_lifetime ::
  "string \<Rightarrow> string \<Rightarrow> string list \<Rightarrow> int \<Rightarrow> json \<Rightarrow> token_error + unit"
where
  "check_lifetime typ iss aud lifetime act =
     require (\<not> lifetime > lifetime_limit typ iss aud (act \<noteq> JNull))
       (TokenError ''the token claims to live longer than its class may'')"

definition no_longer_followed :: "string \<Rightarrow> int \<Rightarrow> string" where
  "no_longer_followed minted follows =
     ''This command came from a root this machine no longer follows (epoch '' @ minted @
     ''; it follows epoch '' @ str_int follows @ '').''"

definition check_epoch ::
  "dict \<Rightarrow> 't trust_bundle \<Rightarrow> string \<Rightarrow> string \<Rightarrow> int \<Rightarrow> token_error + int option"
where
  "check_epoch d b typ iss iat =
     (if iss \<noteq> ISSUER_CONTROL \<or> typ = TYP_CLIENT then Inr None
      else case dget d ''ep'' of
             JNull \<Rightarrow>
               (case token_epochs b of
                  Some (since, at_epoch) \<Rightarrow>
                    (if iat \<ge> since \<or> epoch b > at_epoch
                     then Inl (TokenError (no_longer_followed ''unknown'' (epoch b)))
                     else Inr None)
                | None \<Rightarrow> Inr None)
           | JInt ep \<Rightarrow>
               (if ep < 0 then Inl (TokenError ''ep must be a whole number'')
                else if ep < epoch b then Inl (TokenError (no_longer_followed (str_int ep) (epoch b)))
                else Inr (Some ep))
           | _ \<Rightarrow> Inl (TokenError ''ep must be a whole number''))"

text \<open>The optional claims: \<open>act\<close>, \<open>sid\<close>, the browser binding, the administration version.\<close>

definition check_act :: "string \<Rightarrow> json \<Rightarrow> token_error + string option" where
  "check_act typ act =
     (case act of
        JNull \<Rightarrow> Inr None
      | JObj a \<Rightarrow>
          (if typ \<noteq> TYP_SESSION then Inl (TokenError ''act is only meaningful on an exchanged session'')
           else and_then (require_str a ''sub'') (\<lambda>s. Inr (Some s)))
      | _ \<Rightarrow> Inl (TokenError ''act is only meaningful on an exchanged session''))"

definition check_sid :: "json \<Rightarrow> token_error + string option" where
  "check_sid sid =
     (case sid of
        JNull \<Rightarrow> Inr None
      | JStr s \<Rightarrow> Inr (Some s)
      | _ \<Rightarrow> Inl (TokenError ''sid must be a string''))"

definition check_browser :: "string \<Rightarrow> json \<Rightarrow> token_error + string option" where
  "check_browser typ v =
     (case v of
        JNull \<Rightarrow> Inr None
      | JStr s \<Rightarrow>
          (if typ \<noteq> TYP_ADMINISTRATION \<or> length s \<noteq> 64 \<or> \<not> list_all (\<lambda>c. c \<in> set ''0123456789abcdef'') s
           then Inl (TokenError ''invalid browser sign-in binding'') else Inr (Some s))
      | _ \<Rightarrow> Inl (TokenError ''invalid browser sign-in binding''))"

definition check_administration ::
  "string \<Rightarrow> string \<Rightarrow> string list \<Rightarrow> string \<Rightarrow> json \<Rightarrow> string option \<Rightarrow> token_error + int option"
where
  "check_administration typ iss aud sub v sid =
     (if typ \<noteq> TYP_ADMINISTRATION then Inr None
      else case v of
             JInt n \<Rightarrow>
               (if iss \<noteq> ISSUER_CONTROL \<or> aud \<noteq> [RECIPIENT_CONTROL] \<or> sub = SUB_OPERATOR \<or> n < 0
                  \<or> sid \<noteq> None
                then Inl (TokenError ''invalid administration session'') else Inr (Some n))
           | _ \<Rightarrow> Inl (TokenError ''invalid administration session''))"

text \<open>Check 7: a signed-out session, and the machines a root session names.\<close>

definition named_machines :: "string list \<Rightarrow> string option \<Rightarrow> string list" where
  "named_machines aud act = List.map_filter node_of (aud @ (case act of None \<Rightarrow> [] | Some a \<Rightarrow> [a]))"

definition check_session ::
  "'t trust_bundle \<Rightarrow> trust_key \<Rightarrow> string \<Rightarrow> string \<Rightarrow> string list \<Rightarrow> string \<Rightarrow> string option
     \<Rightarrow> string option \<Rightarrow> token_error + unit"
where
  "check_session b key typ iss aud jti act sid =
     (if typ \<notin> {TYP_SESSION, TYP_ADMINISTRATION} then Inr ()
      else if jti \<in> set (revoked_sessions b) \<or>
              (case sid of None \<Rightarrow> False | Some s \<Rightarrow> s \<noteq> [] \<and> s \<in> set (revoked_sessions b))
      then Inl (TokenError ''this session was signed out'')
      else if GRANT_AUTHORITY \<in> set (grants key) \<and> iss = ISSUER_CONTROL \<and>
              \<not> set (named_machines aud act) \<subseteq> set (members b)
      then Inl (TokenError ''this session names machines no longer in the install'')
      else Inr ())"

definition verify ::
  "('t, 'sk) crypto \<Rightarrow> 't trust_bundle \<Rightarrow> string \<Rightarrow> string list \<Rightarrow> 't \<Rightarrow> token_error + claims"
where
  "verify cr b recipient classes token =
     and_then (from_option (TokenError ''not a JWT'') (jws_header cr token)) (\<lambda>header.
     and_then (case dget header ''typ'' of
                 JStr t \<Rightarrow> (if t \<in> set classes then Inr t else Inl (TokenError ''not accepted here''))
               | _ \<Rightarrow> Inl (TokenError ''not accepted here'')) (\<lambda>typ.
     and_then (from_option (TokenError ''the key that signed this token is not in the trust bundle'')
                (case dget header ''kid'' of JStr k \<Rightarrow> map_of (keys b) k | _ \<Rightarrow> None)) (\<lambda>key.
     and_then (from_option (TokenError ''jwt.decode'') (decode_token cr token (public key) LEEWAY_SECONDS))
       (\<lambda>d.
     and_then (require_str d ''iss'') (\<lambda>iss.
     and_then (require_str d ''sub'') (\<lambda>sub.
     and_then (require_str d ''jti'') (\<lambda>jti.
     and_then (aud_of d) (\<lambda>aud.
     and_then (require (iss = issuer key) (TokenError ''its key belongs to another issuer'')) (\<lambda>_.
     and_then (require ((if typ = TYP_CLIENT then RECIPIENT_GATEWAY else recipient) \<in> set aud)
        (TokenError ''the token is addressed to others'')) (\<lambda>_.
     and_then (from_option (TokenError ''iat and exp must be integers'') (int_of cr (dget d ''iat'')))
       (\<lambda>iat.
     and_then (from_option (TokenError ''iat and exp must be integers'') (int_of cr (dget d ''exp'')))
       (\<lambda>ex.
     and_then (check_act typ (dget d ''act'')) (\<lambda>act.
     and_then (check_sid (dget d ''sid'')) (\<lambda>sid.
     and_then (check_grants key typ sub aud) (\<lambda>_.
     and_then (check_lifetime typ iss aud (ex - iat) (dget d ''act'')) (\<lambda>_.
     and_then (check_epoch d b typ iss iat) (\<lambda>ep.
     and_then (check_browser typ (dget d ''eugene_browser_session'')) (\<lambda>browser.
     and_then (check_administration typ iss aud sub (dget d ''administration_version'') sid) (\<lambda>admin.
     and_then (check_session b key typ iss aud jti act sid) (\<lambda>_.
       Inr \<lparr>c_typ = typ, c_iss = iss, c_sub = sub, c_aud = aud, c_iat = iat, c_exp = ex, c_jti = jti,
            c_act = act, c_administration_version = admin, c_browser_session = browser,
            c_sid = sid, c_epoch = ep\<rparr>))))))))))))))))))))"

subsection \<open>What an accepted token has passed\<close>

lemma verify_passed:
  assumes "verify cr b r cl t = Inr c"
  obtains header k key d where
    "jws_header cr t = Some header" "dget header ''typ'' = JStr (c_typ c)" "c_typ c \<in> set cl"
    "dget header ''kid'' = JStr k" "map_of (keys b) k = Some key"
    "decode_token cr t (public key) LEEWAY_SECONDS = Some d"
    "require_str d ''iss'' = Inr (c_iss c)" "require_str d ''sub'' = Inr (c_sub c)"
    "require_str d ''jti'' = Inr (c_jti c)" "aud_of d = Inr (c_aud c)"
    "c_iss c = issuer key"
    "(if c_typ c = TYP_CLIENT then RECIPIENT_GATEWAY else r) \<in> set (c_aud c)"
    "int_of cr (dget d ''iat'') = Some (c_iat c)" "int_of cr (dget d ''exp'') = Some (c_exp c)"
    "check_act (c_typ c) (dget d ''act'') = Inr (c_act c)"
    "check_sid (dget d ''sid'') = Inr (c_sid c)"
    "check_grants key (c_typ c) (c_sub c) (c_aud c) = Inr ()"
    "check_lifetime (c_typ c) (c_iss c) (c_aud c) (c_exp c - c_iat c) (dget d ''act'') = Inr ()"
    "check_epoch d b (c_typ c) (c_iss c) (c_iat c) = Inr (c_epoch c)"
    "check_session b key (c_typ c) (c_iss c) (c_aud c) (c_jti c) (c_act c) (c_sid c) = Inr ()"
    "check_administration (c_typ c) (c_iss c) (c_aud c) (c_sub c)
       (dget d ''administration_version'') (c_sid c) = Inr (c_administration_version c)"
proof -
  from assms obtain header ty key d where
    h: "jws_header cr t = Some header"
    "(case dget header ''typ'' of JStr t \<Rightarrow> (if t \<in> set cl then Inr t
        else Inl (TokenError ''not accepted here''))
      | _ \<Rightarrow> Inl (TokenError ''not accepted here'')) = Inr ty"
    "(case dget header ''kid'' of JStr k \<Rightarrow> map_of (keys b) k | _ \<Rightarrow> None) = Some key"
    "decode_token cr t (public key) LEEWAY_SECONDS = Some d"
    and rest: "require_str d ''iss'' = Inr (c_iss c)" "require_str d ''sub'' = Inr (c_sub c)"
    "require_str d ''jti'' = Inr (c_jti c)" "aud_of d = Inr (c_aud c)"
    "c_iss c = issuer key"
    "(if ty = TYP_CLIENT then RECIPIENT_GATEWAY else r) \<in> set (c_aud c)"
    "int_of cr (dget d ''iat'') = Some (c_iat c)" "int_of cr (dget d ''exp'') = Some (c_exp c)"
    "check_act ty (dget d ''act'') = Inr (c_act c)"
    "check_sid (dget d ''sid'') = Inr (c_sid c)"
    "check_grants key ty (c_sub c) (c_aud c) = Inr ()"
    "check_lifetime ty (c_iss c) (c_aud c) (c_exp c - c_iat c) (dget d ''act'') = Inr ()"
    "check_epoch d b ty (c_iss c) (c_iat c) = Inr (c_epoch c)"
    "check_session b key ty (c_iss c) (c_aud c) (c_jti c) (c_act c) (c_sid c) = Inr ()"
    "check_administration ty (c_iss c) (c_aud c) (c_sub c)
       (dget d ''administration_version'') (c_sid c) = Inr (c_administration_version c)"
    "c_typ c = ty"
    unfolding verify_def by (clarsimp simp: result_simps simp del: One_nat_def)
  from h(2) have "dget header ''typ'' = JStr ty" "ty \<in> set cl"
    by (auto split: json.splits if_splits)
  moreover from h(3) obtain k where "dget header ''kid'' = JStr k" "map_of (keys b) k = Some key"
    by (auto split: json.splits)
  ultimately show thesis using that h rest by blast
qed

lemma check_grants_class:
  "check_grants key typ sub aud = Inr () \<Longrightarrow> typ \<in> {TYP_SESSION, TYP_CLIENT, TYP_ADMINISTRATION} \<Longrightarrow>
   GRANT_AUTHORITY \<in> set (grants key)"
  by (auto simp: check_grants_def split: if_splits)

lemma check_grants_site:
  "check_grants key typ sub aud = Inr () \<Longrightarrow> GRANT_AUTHORITY \<notin> set (grants key) \<Longrightarrow>
   GRANT_NODE \<notin> set (grants key) \<Longrightarrow>
   set aud \<subseteq> {issuer key} \<or> sub = SUB_AGENT \<and> set aud \<subseteq> {issuer key, RECIPIENT_CONTROL}"
  by (auto simp: check_grants_def list_all_iff split: if_splits)

lemma check_grants_node:
  "check_grants key typ sub aud = Inr () \<Longrightarrow> GRANT_AUTHORITY \<notin> set (grants key) \<Longrightarrow>
   set aud \<subseteq> {issuer key} \<or> sub = SUB_AGENT \<or> (sub = SUB_GATEWAY \<and> GRANT_GATEWAY \<in> set (grants key))
   \<or> (sub = SUB_STANDBY \<and> GRANT_STANDBY \<in> set (grants key) \<and> set aud \<subseteq> {RECIPIENT_CONTROL})"
  by (auto simp: check_grants_def list_all_iff split: if_splits)

subsection \<open>The bundle a process holds only moves forward\<close>

definition not_before :: "'t trust_bundle \<Rightarrow> 't trust_bundle \<Rightarrow> bool" where
  "not_before b b' \<longleftrightarrow> epoch b < epoch b' \<or> (epoch b = epoch b' \<and> version b \<le> version b')"

lemma accepts_replacement_iff:
  "accepts_replacement (Some h) b = None \<longleftrightarrow> not_before h b"
  by (auto simp: accepts_replacement_def not_before_def)

definition file_le :: "('t, 'stamp) bundle_file \<Rightarrow> ('t, 'stamp) bundle_file \<Rightarrow> bool" where
  "file_le f f' \<longleftrightarrow>
     (case held f of None \<Rightarrow> True
      | Some b \<Rightarrow> (case held f' of None \<Rightarrow> False | Some b' \<Rightarrow> not_before b b'))"

text \<open>One \<open>get\<close>, whatever the clock, the file system and the document say.\<close>

inductive file_step :: "('t, 'stamp) bundle_file \<Rightarrow> ('t, 'stamp) bundle_file \<Rightarrow> bool" where
  "file_step f (snd (bundle_get interval now stat offered f))"

lemma bundle_get_held:
  "held (snd (bundle_get interval now stat offered f)) = held f \<or>
   (\<exists>b. held (snd (bundle_get interval now stat offered f)) = Some b \<and>
      accepts_replacement (held f) b = None \<and> offered = Inr b)"
  by (auto simp: bundle_get_def Let_def split: option.splits sum.splits)

lemma bundle_get_returns:
  "fst (bundle_get interval now stat offered f) = held (snd (bundle_get interval now stat offered f))"
  by (auto simp: bundle_get_def Let_def split: option.splits sum.splits)

interpretation bf: monotone_system file_step "\<lambda>_. True" file_le
proof unfold_locales
  show "file_le f f" for f :: "('t, 'stamp) bundle_file"
    by (auto simp: file_le_def not_before_def split: option.split)
  show "file_le f h" if "file_le f g" "file_le g h" for f g h :: "('t, 'stamp) bundle_file"
    using that by (auto simp: file_le_def not_before_def split: option.splits)
  show "file_le f g" if "file_step f g" for f g :: "('t, 'stamp) bundle_file"
    using that
  proof (cases rule: file_step.cases)
    case (1 interval now stat offered)
    have self: "file_le f f" by (auto simp: file_le_def not_before_def split: option.split)
    show ?thesis
      using bundle_get_held [of interval now stat offered f] self
      unfolding 1 file_le_def
      by (cases "held f") (auto simp: accepts_replacement_iff)
  qed
qed simp_all

subsection \<open>What the code relies on\<close>

text \<open>PyJWT's documented checks at the time \<open>now\<close>: the payload it returns was signed with the key,
  is not expired, and is not issued in the future, up to the leeway.\<close>

definition jwt_documented ::
  "('t, 'sk) crypto \<Rightarrow> rat \<Rightarrow> ('t \<Rightarrow> pubkey \<Rightarrow> dict \<Rightarrow> bool) \<Rightarrow> bool"
where
  "jwt_documented cr now signed \<longleftrightarrow>
     (\<forall>t k leeway d. decode_token cr t k leeway = Some d \<longrightarrow> signed t k d \<and>
        (\<forall>ex. int_of cr (dget d ''exp'') = Some ex \<longrightarrow> now - of_int leeway < of_int ex))"

text \<open>An integer that Python writes out in decimal (up to 4300 digits), and a value that JSON carries over unchanged:
  no float, no key twice, and nested no deeper than \<open>n\<close>.\<close>

definition small :: "int \<Rightarrow> bool" where "small i \<longleftrightarrow> \<bar>i\<bar> < 10 ^ 4300"

fun plain :: "nat \<Rightarrow> json \<Rightarrow> bool" where
  "plain n (JInt i) = small i"
| "plain n (JFloat x) = False"
| "plain (Suc n) (JList vs) = list_all (plain n) vs"
| "plain 0 (JList vs) = False"
| "plain (Suc n) (JObj d) = (distinct (map fst d) \<and> list_all (\<lambda>v. plain n v) (map snd d))"
| "plain 0 (JObj d) = False"
| "plain n v = True"

text \<open>A payload for which PyJWT checks no registered claim when it is read as a bundle (\<open>exp\<close>, \<open>iat\<close> and \<open>aud\<close> are
  switched off there).\<close>

definition bundle_claims :: "dict \<Rightarrow> bool" where
  "bundle_claims d \<longleftrightarrow> plain 8 (JObj d) \<and> list_all (\<lambda>k. k \<notin> {''nbf'', ''sub'', ''jti'', ''iss''}) (map fst d)"

text \<open>The round trips: base64 decodes what it encoded; the header of a signature carries the type, and the key's id,
  it was given (PyJWT adds \<open>alg\<close>, and replaces the default type by a given one that is not empty); what was signed with a
  key verifies with its public half and reads back, when it is a bundle's kind of payload; integers and strings are
  themselves.\<close>

definition crypto_ideal :: "('t, 'sk) crypto \<Rightarrow> bool" where
  "crypto_ideal cr \<longleftrightarrow>
     (\<forall>s. b64_decode cr (b64_encode cr s) = Some s) \<and>
     (\<forall>sk. length (public_half cr sk) = 32) \<and>
     (\<forall>d sk typ k. typ \<noteq> [] \<longrightarrow>
        (\<exists>h'. jws_header cr (jws_encode cr d sk [(''typ'', JStr typ)]) = Some h' \<and> dget h' ''typ'' = JStr typ) \<and>
        (\<exists>h'. jws_header cr (jws_encode cr d sk [(''typ'', JStr typ), (''kid'', JStr k)]) = Some h' \<and>
           dget h' ''typ'' = JStr typ \<and> dget h' ''kid'' = JStr k)) \<and>
     (\<forall>d sk typ. bundle_claims d \<longrightarrow>
        decode_bundle cr (jws_encode cr d sk [(''typ'', JStr typ)]) (public_half cr sk) = Some d) \<and>
     (\<forall>i. int_of cr (JInt i) = Some i) \<and> (\<forall>s. str_of cr (JStr s) = s)"

lemma ideal_header:
  "crypto_ideal cr \<Longrightarrow> typ \<noteq> [] \<Longrightarrow>
    \<exists>h'. jws_header cr (jws_encode cr d sk [(''typ'', JStr typ)]) = Some h' \<and> dget h' ''typ'' = JStr typ"
  by (simp add: crypto_ideal_def)

lemma ideal_key_header:
  "crypto_ideal cr \<Longrightarrow> typ \<noteq> [] \<Longrightarrow>
    \<exists>h'. jws_header cr (jws_encode cr d sk [(''typ'', JStr typ), (''kid'', JStr k)]) = Some h' \<and>
      dget h' ''typ'' = JStr typ \<and> dget h' ''kid'' = JStr k"
  by (simp add: crypto_ideal_def)

lemma ideal_bundle:
  "crypto_ideal cr \<Longrightarrow> bundle_claims d \<Longrightarrow>
    decode_bundle cr (jws_encode cr d sk [(''typ'', JStr typ)]) (public_half cr sk) = Some d"
  by (simp add: crypto_ideal_def)

lemma ideal_length: "crypto_ideal cr \<Longrightarrow> length (public_half cr sk) = 32"
  by (simp add: crypto_ideal_def)

lemma small_below: "\<bar>i\<bar> < 10 ^ 9 \<Longrightarrow> small i"
  unfolding small_def by (rule order.strict_trans2) (assumption, rule power_increasing, simp_all)

definition normal_key :: "trust_key \<Rightarrow> trust_key" where
  "normal_key k = k\<lparr>grants := sort (remdups (grants k))\<rparr>"

lemma parse_key_dict:
  assumes "crypto_ideal cr" and "kid k = thumbprint cr (public k)" and "length (public k) = 32"
    and "kid k \<notin> fst ` set seen"
  shows "parse_key cr seen (key_to_dict cr k) = Inr (normal_key k)"
  using assms unfolding crypto_ideal_def
  by (simp add: parse_key_def key_to_dict_def load_public_def normal_key_def comp_def)

lemma parse_keys_dicts:
  assumes "crypto_ideal cr"
    and "\<forall>k \<in> set ks. kid k = thumbprint cr (public k) \<and> length (public k) = 32"
    and "distinct (map fst seen @ map kid ks)"
  shows "parse_keys cr seen (map (key_to_dict cr) ks) =
    Inr (seen @ map (\<lambda>k. (kid k, normal_key k)) ks)"
  using assms(2,3)
proof (induction ks arbitrary: seen)
  case (Cons k ks)
  have "kid k \<notin> fst ` set seen" using Cons.prems(2) by auto
  then have "parse_key cr seen (key_to_dict cr k) = Inr (normal_key k)"
    using parse_key_dict [OF assms(1)] Cons.prems(1) by simp
  moreover have "kid (normal_key k) = kid k" by (simp add: normal_key_def)
  ultimately show ?case using Cons.IH [of "seen @ [(kid k, normal_key k)]"] Cons.prems by simp
qed simp

lemma load_public_encoded:
  "crypto_ideal cr \<Longrightarrow> length k = 32 \<Longrightarrow> load_public cr (b64_encode cr k) = Inr k"
  by (simp add: crypto_ideal_def load_public_def)

text \<open>The payload of a bundle is of that kind.\<close>

lemma payload_claims:
  assumes "list_all small ([ver, ep, issued] @ map snd revoked @ (case te of None \<Rightarrow> [] | Some (since, at_epoch) \<Rightarrow> [since, at_epoch]))"
  shows "bundle_claims (bundle_payload cr auth ver ep ks revoked issued te)"
proof -
  have n: "(8::nat) = Suc (Suc (Suc (Suc (Suc (Suc (Suc (Suc 0)))))))" by simp
  have "plain 6 (key_to_dict cr k)" for k
    by (simp add: key_to_dict_def list_all_iff eval_nat_numeral)
  then have keys_plain: "plain 7 (JList (map (key_to_dict cr) xs))" for xs
    by (simp add: list_all_iff eval_nat_numeral)
  have "small ex" if "(jti, ex) \<in> set (live_revocations issued revoked)" for jti ex
    using that assms by (force simp: live_revocations_def list_all_iff)
  then have gone_plain: "plain 7 (JList (map (\<lambda>(jti, ex). JObj [(''jti'', JStr jti), (''exp'', JInt ex)]) (live_revocations issued revoked)))"
    by (auto simp: list_all_iff eval_nat_numeral)
  show ?thesis
    using assms keys_plain gone_plain
    by (cases te) (auto simp: bundle_claims_def bundle_payload_def eval_nat_numeral simp del: plain.simps(3))
qed

lemma build_bundle_parses:
  assumes ideal: "crypto_ideal cr" and dist: "distinct (map kid ks)"
    and keys_ok: "\<forall>k \<in> set ks. kid k = thumbprint cr (public k) \<and> length (public k) = 32"
    and ints_ok: "list_all small ([ver, ep, issued] @ map snd revoked @ (case te of None \<Rightarrow> [] | Some (since, at_epoch) \<Rightarrow> [since, at_epoch]))"
  shows "\<exists>tok. build_bundle cr auth ver ep ks revoked issued te = Inr
    \<lparr>version = ver, epoch = ep, bundle_iat = issued,
     authority = b64_encode cr (public_half cr auth),
     keys = map (\<lambda>k. (kid k, normal_key k)) (sort_key kid ks),
     revoked_sessions = map fst (live_revocations issued revoked), jws = tok, token_epochs = te\<rparr>"
proof -
  let ?p = "bundle_payload cr auth ver ep ks revoked issued te"
  let ?h = "[(''typ'', JStr TYP_BUNDLE)]"
  let ?tok = "jws_encode cr ?p auth ?h" and ?a = "b64_encode cr (public_half cr auth)"
  have "TYP_BUNDLE \<noteq> []" by (simp add: typ_defs)
  from ideal_header [OF ideal this] obtain h' where h': "jws_header cr ?tok = Some h'" "dget h' ''typ'' = JStr TYP_BUNDLE"
    by blast
  have dec: "decode_bundle cr ?tok (public_half cr auth) = Some ?p"
    by (rule ideal_bundle [OF ideal payload_claims [OF ints_ok]])
  note len = ideal_length [OF ideal, of auth]
  have ks: "parse_keys cr [] (map (key_to_dict cr) (sort_key kid ks)) =
      Inr (map (\<lambda>k. (kid k, normal_key k)) (sort_key kid ks))"
    using parse_keys_dicts [OF ideal, of "sort_key kid ks" "[]"] keys_ok dist
    by (simp add: distinct_map)
  have rs: "collect (\<lambda>r. from_option malformed (map_option (str_of cr) (getitem r ''jti'')))
      (map (\<lambda>(jti, ex). JObj [(''jti'', JStr jti), (''exp'', JInt ex)]) xs) = Inr (map fst xs)"
    for xs :: "(string \<times> int) list"
    using ideal by (induction xs) (auto simp: crypto_ideal_def)
  have te: "parse_token_epochs (dget ?p ''tokenEpochs'') = Inr te"
    by (cases te) (auto simp: bundle_payload_def parse_token_epochs_def dget_def)
  have ints: "int_of cr (JInt i) = Some i" for i using ideal by (simp add: crypto_ideal_def)
  have "parse_bundle cr ?tok ?a = parse_fields cr ?tok ?a ?p"
    using h' dec load_public_encoded [OF ideal len]
    by (simp add: parse_bundle_def) (simp add: bundle_payload_def dget_def)
  also have "\<dots> = Inr \<lparr>version = ver, epoch = ep, bundle_iat = issued, authority = ?a,
     keys = map (\<lambda>k. (kid k, normal_key k)) (sort_key kid ks),
     revoked_sessions = map fst (live_revocations issued revoked), jws = ?tok, token_epochs = te\<rparr>"
    using te ks rs ints by (simp add: parse_fields_def Let_def) (simp add: bundle_payload_def)
  finally show ?thesis using dist by (auto simp: build_bundle_def)
qed

subsection \<open>A concrete outside, for the witnesses\<close>

text \<open>Tokens are their payload, their key and their header; encodings are the identity; it is
  always second 1000.\<close>

definition pad32 :: "string \<Rightarrow> string" where
  "pad32 s = take 32 (s @ replicate 32 CHR ''.'')"

definition demo_crypto :: "(dict \<times> string \<times> dict, string) crypto" where
  "demo_crypto =
     \<lparr>b64_decode = Some, b64_encode = id, b64_url = id, sha256 = id, public_half = pad32,
      jws_header = (\<lambda>(d, sk, h). Some h),
      decode_bundle = (\<lambda>(d, sk, h) k. if pad32 sk = k then Some d else None),
      decode_token = (\<lambda>(d, sk, h) k leeway.
        if pad32 sk = k \<and> (case dget d ''exp'' of JInt e \<Rightarrow> 1000 - leeway < e | _ \<Rightarrow> False)
        then Some d else None),
      jws_encode = (\<lambda>d sk h. (d, sk, h)),
      int_of = (\<lambda>v. case v of JInt i \<Rightarrow> Some i | _ \<Rightarrow> None),
      str_of = (\<lambda>v. case v of JStr s \<Rightarrow> s | _ \<Rightarrow> [])\<rparr>"

lemma demo_ideal: "crypto_ideal demo_crypto"
  by (auto simp: crypto_ideal_def demo_crypto_def pad32_def min_def)

definition demo_signer :: "string signer" where
  "demo_signer = \<lparr>signing_key = ''root'', signer_issuer = ''control'', signer_epoch = Some 3\<rparr>"

definition demo_key :: trust_key where
  "demo_key = trust_key_of demo_crypto demo_signer [''authority'']"

definition demo_bundle :: "(dict \<times> string \<times> dict) trust_bundle" where
  "demo_bundle = \<lparr>version = 1, epoch = 2, bundle_iat = 100, authority = ''a'',
     keys = [(kid demo_key, demo_key)], revoked_sessions = [''gone''],
     jws = ([], [], []), token_epochs = None\<rparr>"

definition demo_token :: "dict \<times> string \<times> dict" where
  "demo_token = (mint_claims demo_signer TYP_SESSION ''operator'' [''control''] 60 1000 ''j1'' [],
     ''root'', [(''typ'', JStr TYP_SESSION), (''kid'', JStr (kid demo_key))])"

subsection \<open>Minting what verifies\<close>

lemma all_strings_map [simp]: "all_strings (map JStr xs) = Some xs"
  by (induction xs) auto

lemma mint_claims_fields:
  fixes s ty sub aud ttl issued jti
  defines "d \<equiv> mint_claims s ty sub aud ttl issued jti []"
  shows "dget d ''iss'' = JStr (signer_issuer s)" "dget d ''sub'' = JStr sub"
    "dget d ''aud'' = JList (map JStr aud)" "dget d ''iat'' = JInt issued"
    "dget d ''exp'' = JInt (issued + ttl)" "dget d ''jti'' = JStr jti"
    "dget d ''act'' = JNull" "dget d ''sid'' = JNull"
    "dget d ''eugene_browser_session'' = JNull" "dget d ''administration_version'' = JNull"
    "dget d ''ep'' = (case signer_epoch s of
       Some ep \<Rightarrow> if ty \<noteq> TYP_CLIENT then JInt ep else JNull | None \<Rightarrow> JNull)"
  by (simp_all add: d_def mint_claims_def dict_update_def dget_def split: option.split)

lemma mint_verify:
  assumes ideal: "crypto_ideal cr"
    and mint: "mint cr s TYP_SESSION sub aud ttl issued jti [] = Inr (tok, ex)"
    and key: "map_of (keys b) (thumbprint cr (public_half cr (signing_key s))) =
      Some (trust_key_of cr s gs)" "GRANT_AUTHORITY \<in> set gs"
    and root: "signer_issuer s = ISSUER_CONTROL" "signer_epoch s = Some ep" "0 \<le> ep" "epoch b \<le> ep"
    and dec: "decode_token cr tok (public_half cr (signing_key s)) LEEWAY_SECONDS =
      Some (mint_claims s TYP_SESSION sub aud ttl issued jti [])"
    and args: "ttl \<le> MAX_SESSION_SECONDS" "recipient \<in> set aud" "TYP_SESSION \<in> set classes"
      "sub \<noteq> []" "jti \<noteq> []" "jti \<notin> set (revoked_sessions b)"
      "set (named_machines aud None) \<subseteq> set (members b)"
  shows "verify cr b recipient classes tok = Inr \<lparr>c_typ = TYP_SESSION, c_iss = ISSUER_CONTROL,
    c_sub = sub, c_aud = aud, c_iat = issued, c_exp = ex, c_jti = jti, c_act = None,
    c_administration_version = None, c_browser_session = None, c_sid = None, c_epoch = Some ep\<rparr>"
proof -
  let ?d = "mint_claims s TYP_SESSION sub aud ttl issued jti []"
  let ?kid = "thumbprint cr (public_half cr (signing_key s))"
  let ?h = "[(''typ'', JStr TYP_SESSION), (''kid'', JStr ?kid)]"
  have tok: "tok = jws_encode cr ?d (signing_key s) ?h" and ex: "ex = issued + ttl"
    using mint by (auto simp: mint_def split: if_splits)
  have "TYP_SESSION \<noteq> []" by (simp add: typ_defs)
  from ideal_key_header [OF ideal this, of ?d "signing_key s" ?kid] obtain h' where h1: "jws_header cr tok = Some h'"
    and h': "dget h' ''typ'' = JStr TYP_SESSION" "dget h' ''kid'' = JStr ?kid"
    unfolding tok by blast
  have ints: "int_of cr (JInt i) = Some i" for i using ideal by (simp add: crypto_ideal_def)
  note f = mint_claims_fields [of s TYP_SESSION sub aud ttl issued jti]
  have neq: "TYP_SESSION \<noteq> TYP_CLIENT" "TYP_SESSION \<noteq> TYP_ADMINISTRATION"
    by (simp_all add: typ_defs)
  have aud: "aud_of ?d = Inr aud" using args(2) by (auto simp: aud_of_def f Let_def)
  show ?thesis
    using h1 h' key root dec args aud neq ints
    by (simp add: verify_def f ex require_str_def trust_key_of_def check_act_def check_sid_def
        check_grants_def check_lifetime_def lifetime_limit_def check_epoch_def check_browser_def
        check_administration_def check_session_def ISSUER_CONTROL_def)
qed

text \<open>One accepted token, used by the witnesses below.\<close>

lemma demo_verifies:
  "verify demo_crypto demo_bundle ''control'' [TYP_SESSION] demo_token = Inr
     \<lparr>c_typ = TYP_SESSION, c_iss = ''control'', c_sub = ''operator'', c_aud = [''control''],
      c_iat = 1000, c_exp = 1060, c_jti = ''j1'', c_act = None, c_administration_version = None,
      c_browser_session = None, c_sid = None, c_epoch = Some 3\<rparr>"
proof -
  have "mint demo_crypto demo_signer TYP_SESSION ''operator'' [''control''] 60 1000 ''j1'' [] =
      Inr (demo_token, 1060)"
    by (simp add: mint_def demo_token_def demo_crypto_def demo_key_def trust_key_of_def demo_signer_def)
  moreover have "decode_token demo_crypto demo_token (public_half demo_crypto (signing_key demo_signer))
      LEEWAY_SECONDS = Some (mint_claims demo_signer TYP_SESSION ''operator'' [''control''] 60 1000 ''j1'' [])"
    by (simp add: demo_crypto_def demo_token_def demo_signer_def mint_claims_fields LEEWAY_SECONDS_def)
  moreover have "map_of (keys demo_bundle)
      (thumbprint demo_crypto (public_half demo_crypto (signing_key demo_signer))) =
      Some (trust_key_of demo_crypto demo_signer [''authority''])"
    by (simp add: demo_bundle_def demo_key_def trust_key_of_def)
  ultimately show ?thesis
    using mint_verify [OF demo_ideal, of demo_signer "''operator''" "[''control'']" 60 1000 "''j1''"
      demo_token 1060 demo_bundle "[''authority'']" 3 "''control''" "[TYP_SESSION]"]
    by (simp add: GRANT_AUTHORITY_def demo_signer_def ISSUER_CONTROL_def demo_bundle_def
        MAX_SESSION_SECONDS_def DAY_def named_machines_def node_of_def map_filter_def)
qed

subsection \<open>Properties\<close>

text \<open>C8. Only the authority issues sessions, client keys and administration tokens: one that
  verifies was signed by the key of the bundle its header names, which holds the authority grant and belongs to the
  issuer the token names; its class is the one its header says and one of those accepted, and it is addressed to the
  recipient, a client key to the gateway.\<close>

theorem token_authority_only:
  assumes "verify cr b r cl t = Inr c"
    and "c_typ c \<in> {TYP_SESSION, TYP_CLIENT, TYP_ADMINISTRATION}"
  shows "(\<exists>header k key d. jws_header cr t = Some header \<and> dget header ''kid'' = JStr k \<and> map_of (keys b) k = Some key \<and>
      GRANT_AUTHORITY \<in> set (grants key) \<and> issuer key = c_iss c \<and> dget header ''typ'' = JStr (c_typ c) \<and>
      decode_token cr t (public key) LEEWAY_SECONDS = Some d \<and>
      dget d ''iss'' = JStr (c_iss c) \<and> aud_of d = Inr (c_aud c)) \<and>
    c_typ c \<in> set cl \<and> (if c_typ c = TYP_CLIENT then RECIPIENT_GATEWAY else r) \<in> set (c_aud c)"
  using assms(1)
proof (rule verify_passed)
  fix header k key d
  assume h: "jws_header cr t = Some header" "dget header ''kid'' = JStr k" "map_of (keys b) k = Some key"
    "dget header ''typ'' = JStr (c_typ c)" "decode_token cr t (public key) LEEWAY_SECONDS = Some d"
    "c_iss c = issuer key" "check_grants key (c_typ c) (c_sub c) (c_aud c) = Inr ()" "require_str d ''iss'' = Inr (c_iss c)"
    "aud_of d = Inr (c_aud c)" "c_typ c \<in> set cl" "(if c_typ c = TYP_CLIENT then RECIPIENT_GATEWAY else r) \<in> set (c_aud c)"
  have "GRANT_AUTHORITY \<in> set (grants key)" using check_grants_class [OF h(7) assms(2)] .
  moreover have "dget d ''iss'' = JStr (c_iss c)"
    using h(8) by (cases "dget d ''iss''") (auto simp: require_str_def split: if_splits)
  ultimately show ?thesis using h by metis
qed

theorem token_authority_only_witness:
  "\<exists>k key d. map_of (keys demo_bundle) k = Some key \<and> GRANT_AUTHORITY \<in> set (grants key) \<and>
    issuer key = ''control'' \<and> decode_token demo_crypto demo_token (public key) LEEWAY_SECONDS = Some d"
  using token_authority_only [OF demo_verifies] by auto

text \<open>A job site stays in its place: where no key of an issuer holds more than the files grant,
  a token of that issuer is a service token and reaches its own machine alone, or, as the
  agent, its own machine and the control root.\<close>

lemma token_job_site_confined:
  assumes "verify cr b r cl t = Inr c"
    and "\<And>k key. map_of (keys b) k = Some key \<Longrightarrow> issuer key = c_iss c \<Longrightarrow>
      set (grants key) \<subseteq> {GRANT_FILES, GRANT_GATEWAY, GRANT_STANDBY}"
  shows "c_typ c \<notin> {TYP_SESSION, TYP_CLIENT, TYP_ADMINISTRATION} \<and>
    (set (c_aud c) \<subseteq> {c_iss c} \<or>
     c_sub c = SUB_AGENT \<and> set (c_aud c) \<subseteq> {c_iss c, RECIPIENT_CONTROL})"
  using assms(1)
proof (rule verify_passed)
  fix header k key d
  assume k: "map_of (keys b) k = Some key" "c_iss c = issuer key"
    and g: "check_grants key (c_typ c) (c_sub c) (c_aud c) = Inr ()"
  have "GRANT_AUTHORITY \<notin> set (grants key)" and "GRANT_NODE \<notin> set (grants key)"
    using assms(2) [OF k(1)] k(2)
    by (auto simp: GRANT_AUTHORITY_def GRANT_NODE_def GRANT_FILES_def GRANT_GATEWAY_def GRANT_STANDBY_def)
  then show ?thesis
    using check_grants_class [OF g] check_grants_site [OF g] k(2) by metis
qed

definition site_bundle :: "(dict \<times> string \<times> dict) trust_bundle" where
  "site_bundle = demo_bundle\<lparr>keys := [(''k'', \<lparr>kid = ''k'', issuer = ''node:j'',
     public = pad32 ''site'', grants = [''files'']\<rparr>)]\<rparr>"

definition site_token :: "dict \<times> string \<times> dict" where
  "site_token = ([(''iss'', JStr ''node:j''), (''sub'', JStr ''agent''),
      (''aud'', JList [JStr ''control'']), (''iat'', JInt 990), (''exp'', JInt 1020), (''jti'', JStr ''x'')],
     ''site'', [(''typ'', JStr TYP_SERVICE), (''kid'', JStr ''k'')])"

lemma site_verifies:
  "verify demo_crypto site_bundle ''control'' [TYP_SERVICE] site_token = Inr
     \<lparr>c_typ = TYP_SERVICE, c_iss = ''node:j'', c_sub = ''agent'', c_aud = [''control''],
      c_iat = 990, c_exp = 1020, c_jti = ''x'', c_act = None, c_administration_version = None,
      c_browser_session = None, c_sid = None, c_epoch = None\<rparr>"
  by (simp add: verify_def demo_crypto_def site_token_def site_bundle_def typ_defs require_str_def
      aud_of_def Let_def check_act_def check_sid_def check_grants_def check_lifetime_def
      lifetime_limit_def check_epoch_def check_browser_def check_administration_def
      check_session_def GRANT_AUTHORITY_def GRANT_NODE_def GRANT_FILES_def SUB_AGENT_def
      RECIPIENT_CONTROL_def ISSUER_CONTROL_def MAX_REMOTE_SERVICE_SECONDS_def LEEWAY_SECONDS_def)

lemma token_job_site_confined_witness:
  "set (c_aud \<lparr>c_typ = TYP_SERVICE, c_iss = ''node:j'', c_sub = ''agent'', c_aud = [''control''],
      c_iat = 990, c_exp = 1020, c_jti = ''x'', c_act = None, c_administration_version = None,
      c_browser_session = None, c_sid = None, c_epoch = None\<rparr>) \<subseteq> {''node:j'', ''control''}"
proof -
  have "set (grants key) \<subseteq> {GRANT_FILES, GRANT_GATEWAY, GRANT_STANDBY}"
    if "map_of (keys site_bundle) k = Some key" for k key
    using that by (auto simp: site_bundle_def GRANT_FILES_def split: if_splits)
  then show ?thesis
    using token_job_site_confined [OF site_verifies]
    by (auto simp: RECIPIENT_CONTROL_def)
qed

text \<open>C9. No token outlives its class: with PyJWT's documented expiry check, one that verifies now
  claims at most the lifetime of its class and was issued less than that lifetime and the
  clock leeway ago.\<close>

theorem token_lifetime_bounded:
  assumes "verify cr b r cl t = Inr c" and "jwt_documented cr now signed"
  shows "c_exp c - c_iat c \<le> lifetime_limit (c_typ c) (c_iss c) (c_aud c) (c_act c \<noteq> None) \<and>
    now < of_int (c_iat c + lifetime_limit (c_typ c) (c_iss c) (c_aud c) (c_act c \<noteq> None)
      + LEEWAY_SECONDS)"
  using assms(1)
proof (rule verify_passed)
  fix header k key d
  let ?l = "lifetime_limit (c_typ c) (c_iss c) (c_aud c) (c_act c \<noteq> None)"
  assume d: "decode_token cr t (public key) LEEWAY_SECONDS = Some d"
    and ex: "int_of cr (dget d ''exp'') = Some (c_exp c)"
    and act: "check_act (c_typ c) (dget d ''act'') = Inr (c_act c)"
    and l: "check_lifetime (c_typ c) (c_iss c) (c_aud c) (c_exp c - c_iat c) (dget d ''act'') = Inr ()"
  have "dget d ''act'' \<noteq> JNull \<longleftrightarrow> c_act c \<noteq> None"
    using act by (auto simp: check_act_def and_then_def split: json.splits if_splits sum.splits) (metis option.distinct(1))+
  then have limit: "c_exp c - c_iat c \<le> ?l"
    using l by (simp add: check_lifetime_def result_simps)
  have "now - of_int LEEWAY_SECONDS < of_int (c_exp c)"
    using assms(2) d ex by (simp add: jwt_documented_def)
  moreover have "(of_int (c_exp c) :: rat) \<le> of_int (c_iat c + ?l)"
    using limit by (simp only: of_int_le_iff)
  ultimately show ?thesis using limit by simp
qed

lemma demo_documented:
  "jwt_documented demo_crypto 1000 (\<lambda>(d, sk, h) k d'. pad32 sk = k \<and> d' = d)"
proof -
  have "(1000 :: rat) - of_int leeway < of_int e" if "1000 - leeway < e" for leeway e :: int
  proof -
    have "(of_int (1000 - leeway) :: rat) < of_int e" using that by (simp only: of_int_less_iff)
    then show ?thesis by simp
  qed
  then show ?thesis
    by (auto simp: jwt_documented_def demo_crypto_def split: if_splits json.splits)
qed

theorem token_lifetime_bounded_witness:
  "(1060 :: int) - 1000 \<le> 14 * 24 * 3600 \<and> (1000 :: rat) < of_int (1000 + 14 * 24 * 3600 + 300)"
  using token_lifetime_bounded [OF demo_verifies demo_documented]
  by (simp add: lifetime_limit_def typ_defs MAX_SESSION_SECONDS_def DAY_def LEEWAY_SECONDS_def)

text \<open>A session that was signed out, or was exchanged from one that was, does not verify, nor
  does a session or administration token of the root that names a machine no longer in the
  bundle.\<close>

lemma token_signed_out_refused:
  assumes "verify cr b r cl t = Inr c" and "c_typ c \<in> {TYP_SESSION, TYP_ADMINISTRATION}"
  shows "c_jti c \<notin> set (revoked_sessions b) \<and>
    (\<forall>s. c_sid c = Some s \<longrightarrow> s \<noteq> [] \<longrightarrow> s \<notin> set (revoked_sessions b)) \<and>
    (c_iss c = ISSUER_CONTROL \<longrightarrow> set (named_machines (c_aud c) (c_act c)) \<subseteq> set (members b))"
  using assms(1)
proof (rule verify_passed)
  fix header k key d
  assume g: "check_grants key (c_typ c) (c_sub c) (c_aud c) = Inr ()"
    and s: "check_session b key (c_typ c) (c_iss c) (c_aud c) (c_jti c) (c_act c) (c_sid c) = Inr ()"
  have "GRANT_AUTHORITY \<in> set (grants key)" using check_grants_class [OF g] assms(2) by blast
  then show ?thesis using s assms(2)
    by (auto simp: check_session_def split: if_splits option.splits)
qed

lemma token_signed_out_refused_witness: "''j1'' \<notin> set (revoked_sessions demo_bundle)"
  using token_signed_out_refused [OF demo_verifies] by simp



text \<open>C11. A bundle reads back as it was built, so long as its numbers have at most 4300 digits: the same version, epoch, keys (grants as a set, in
  the order of their ids) and marked epochs, and the sign-outs that have not expired.\<close>

theorem bundle_round_trip:
  assumes "crypto_ideal cr" and "distinct (map kid ks)"
    and "\<forall>k \<in> set ks. kid k = thumbprint cr (public k) \<and> length (public k) = 32"
    and "list_all small ([ver, ep, issued] @ map snd revoked @ (case te of None \<Rightarrow> [] | Some (since, at_epoch) \<Rightarrow> [since, at_epoch]))"
  shows "\<exists>b. build_bundle cr auth ver ep ks revoked issued te = Inr b \<and>
    version b = ver \<and> epoch b = ep \<and> bundle_iat b = issued \<and> token_epochs b = te \<and>
    (\<forall>k \<in> set ks. map_of (keys b) (kid k) = Some (normal_key k)) \<and>
    fst ` set (keys b) = kid ` set ks \<and>
    set (revoked_sessions b) = {jti. \<exists>ex. (jti, ex) \<in> set revoked \<and> issued \<le> ex + LEEWAY_SECONDS}"
proof -
  obtain tok where b: "build_bundle cr auth ver ep ks revoked issued te = Inr
    \<lparr>version = ver, epoch = ep, bundle_iat = issued,
     authority = b64_encode cr (public_half cr auth),
     keys = map (\<lambda>k. (kid k, normal_key k)) (sort_key kid ks),
     revoked_sessions = map fst (live_revocations issued revoked), jws = tok, token_epochs = te\<rparr>"
    using build_bundle_parses [OF assms] by blast
  have "distinct (map fst (map (\<lambda>k. (kid k, normal_key k)) (sort_key kid ks)))"
    using assms(2) by (simp add: comp_def distinct_map)
  then have "\<forall>k \<in> set ks. map_of (map (\<lambda>k. (kid k, normal_key k)) (sort_key kid ks)) (kid k) =
      Some (normal_key k)"
    by (auto intro!: map_of_is_SomeI)
  then show ?thesis unfolding b
    by (auto simp: live_revocations_def image_iff)
qed

theorem bundle_round_trip_witness:
  "\<exists>b. build_bundle demo_crypto ''root'' 7 2 [demo_key] [(''j'', 5), (''k'', 900)] 1000 None = Inr b \<and>
    map_of (keys b) (kid demo_key) = Some (normal_key demo_key) \<and>
    set (revoked_sessions b) = {jti. jti = ''k''}"
proof -
  have "\<forall>k \<in> set [demo_key]. kid k = thumbprint demo_crypto (public k) \<and> length (public k) = 32"
    by (simp add: demo_key_def trust_key_of_def demo_crypto_def pad32_def demo_signer_def)
  moreover have "list_all small ([7, 2, 1000] @ map snd [(''j'', 5), (''k'', 900)] @ [])"
    by (simp add: small_below)
  ultimately show ?thesis
    using bundle_round_trip [OF demo_ideal, of "[demo_key]" 7 2 1000 "[(''j'', 5), (''k'', 900)]" None "''root''"]
    by (auto simp: LEEWAY_SECONDS_def)
qed

text \<open>What the root mints, its installs accept: a session minted by a signer whose key the bundle
  lists with the authority grant, addressed to the recipient, within the lifetime and at an
  epoch not behind the bundle's, verifies and carries what was minted.\<close>

theorem minted_session_verifies:
  assumes "crypto_ideal cr"
    and "mint cr s TYP_SESSION sub aud ttl issued jti [] = Inr (tok, ex)"
    and "map_of (keys b) (thumbprint cr (public_half cr (signing_key s))) = Some (trust_key_of cr s gs)"
    and "GRANT_AUTHORITY \<in> set gs" and "signer_issuer s = ISSUER_CONTROL"
    and "signer_epoch s = Some ep" and "0 \<le> ep" and "epoch b \<le> ep"
    and "decode_token cr tok (public_half cr (signing_key s)) LEEWAY_SECONDS =
      Some (mint_claims s TYP_SESSION sub aud ttl issued jti [])"
    and "ttl \<le> MAX_SESSION_SECONDS" and "recipient \<in> set aud" and "TYP_SESSION \<in> set classes"
    and "sub \<noteq> []" and "jti \<noteq> []" and "jti \<notin> set (revoked_sessions b)"
    and "set (named_machines aud None) \<subseteq> set (members b)"
  shows "\<exists>c. verify cr b recipient classes tok = Inr c \<and> c_sub c = sub \<and> c_aud c = aud \<and>
    c_iat c = issued \<and> c_exp c = issued + ttl \<and> c_jti c = jti \<and> c_epoch c = Some ep"
proof -
  have "ex = issued + ttl" using assms(2) by (auto simp: mint_def split: if_splits)
  then show ?thesis
    using mint_verify [OF assms(1-9) assms(10-16)] by simp
qed

theorem minted_session_verifies_witness:
  "\<exists>c. verify demo_crypto demo_bundle ''control'' [TYP_SESSION] demo_token = Inr c \<and>
    c_sub c = ''operator'' \<and> c_exp c = 1060 \<and> c_epoch c = Some 3"
proof -
  have "mint demo_crypto demo_signer TYP_SESSION ''operator'' [''control''] 60 1000 ''j1'' [] =
      Inr (demo_token, 1060)"
    by (simp add: mint_def demo_token_def demo_crypto_def demo_key_def trust_key_of_def demo_signer_def)
  moreover have "decode_token demo_crypto demo_token (public_half demo_crypto (signing_key demo_signer))
      LEEWAY_SECONDS = Some (mint_claims demo_signer TYP_SESSION ''operator'' [''control''] 60 1000 ''j1'' [])"
    by (simp add: demo_crypto_def demo_token_def demo_signer_def mint_claims_fields LEEWAY_SECONDS_def)
  moreover have "map_of (keys demo_bundle)
      (thumbprint demo_crypto (public_half demo_crypto (signing_key demo_signer))) =
      Some (trust_key_of demo_crypto demo_signer [''authority''])"
    by (simp add: demo_bundle_def demo_key_def trust_key_of_def)
  moreover have "signer_issuer demo_signer = ISSUER_CONTROL" "signer_epoch demo_signer = Some 3"
      "GRANT_AUTHORITY \<in> set [''authority'']" "epoch demo_bundle \<le> 3"
      "''j1'' \<notin> set (revoked_sessions demo_bundle)"
      "set (named_machines [''control''] None) \<subseteq> set (members demo_bundle)"
    by (simp_all add: demo_signer_def ISSUER_CONTROL_def GRANT_AUTHORITY_def demo_bundle_def
        named_machines_def node_of_def map_filter_def)
  ultimately have "\<exists>c. verify demo_crypto demo_bundle ''control'' [TYP_SESSION] demo_token = Inr c \<and>
      c_sub c = ''operator'' \<and> c_aud c = [''control''] \<and> c_iat c = 1000 \<and> c_exp c = 1000 + 60 \<and>
      c_jti c = ''j1'' \<and> c_epoch c = Some 3"
    by (intro minted_session_verifies [OF demo_ideal]) (assumption | simp add: MAX_SESSION_SECONDS_def DAY_def)+
  then show ?thesis by auto
qed

end
