(* ===== verification/Machines.thy ===== *)
theory Machines
  imports Py_Prelude Step_Systems "HOL-Library.AList"
begin

text \<open>
  Between machines (\<open>_http.py\<close>): which client dials an address, the table of the machines of
  the install, how a request for another machine is carried to its TLS port, and the check of
  the key that port presents. httpx's URLs, \<open>urlsplit\<close>, \<open>ip_address\<close>, base64 with JSON,
  \<open>str\<close> of a JSON value and the hash of a certificate are parameters; the code's own decisions
  are definitions.
\<close>

subsection \<open>The outside\<close>

record url =
  scheme :: string
  host :: string
  port :: "nat option"
  raw_path :: string
  netloc :: string

record split_url =
  hostname :: "string option"
  split_port :: "unit + nat option"

record ip_kind =
  loopback :: bool
  private_range :: bool
  link_local :: bool

text \<open>\<open>parse_url\<close> is \<open>httpx.URL\<close> (\<open>None\<close>: \<open>InvalidURL\<close>), \<open>urlsplit\<close> and \<open>ip_address\<close> the
  functions of those names (\<open>None\<close>: \<open>ValueError\<close>, which a port out of range raises when it is
  read), \<open>jws_head\<close> is \<open>json.loads\<close> of the decoded head of a JWS, \<open>spki_pin\<close> the pin of a
  certificate.\<close>

record 'cert net =
  parse_url :: "string \<Rightarrow> url option"
  urlsplit :: "string \<Rightarrow> split_url option"
  ip_address :: "string \<Rightarrow> ip_kind option"
  jws_head :: "string \<Rightarrow> loaded"
  spki_pin :: "'cert \<Rightarrow> string"
  str_of :: "json \<Rightarrow> string"

datatype net_error =
    MachineRefused string
  | PinRefused string string "string option"
  | InvalidURL
  | ValueError
  | AttributeError
  | TypeError
  | RecursionError

subsection \<open>Which client dials an address\<close>

text \<open>\<open>is_internal\<close>: this machine, a private range, or a name with no dot.\<close>

definition is_internal :: "'cert net \<Rightarrow> string \<Rightarrow> net_error + bool" where
  "is_internal nt u =
     and_then (from_option ValueError (urlsplit nt u)) (\<lambda>s.
       Inr (case hostname s of
              None \<Rightarrow> False
            | Some h \<Rightarrow>
                if h = [] then False
                else if h = ''localhost'' then True
                else case ip_address nt h of
                       None \<Rightarrow> \<not> contains ''.'' h
                     | Some a \<Rightarrow> loopback a \<or> private_range a \<or> link_local a))"

text \<open>The keyword arguments the constructors look at, each absent or given; \<open>transport\<close> is the
  caller's own.\<close>

record options =
  opt_verify :: "string option"
  opt_trust_env :: "bool option"
  opt_limits :: "string option"
  opt_transport :: "string option"
  opt_mounts :: bool
  opt_proxy :: bool

datatype transport = OwnTransport string | MachineTransport | DefaultTransport

record client =
  verify :: string
  trust_env :: bool
  limits :: string
  transport :: transport

definition setdefault :: "'a option \<Rightarrow> 'a \<Rightarrow> 'a" where
  "setdefault o_v v = (case o_v of None \<Rightarrow> v | Some x \<Rightarrow> x)"

definition caller_transport :: "options \<Rightarrow> transport" where
  "caller_transport k =
     (case opt_transport k of None \<Rightarrow> DefaultTransport | Some t \<Rightarrow> OwnTransport t)"

text \<open>\<open>_machine_transport\<close>: the caller's transport, mounts or proxy win.\<close>

definition machine_transport :: "options \<Rightarrow> transport" where
  "machine_transport k =
     (if opt_transport k \<noteq> None \<or> opt_mounts k \<or> opt_proxy k then caller_transport k
      else MachineTransport)"

definition SSL_CONTEXT :: string where "SSL_CONTEXT = ''ssl_context()''"
definition KEEPALIVE :: string where "KEEPALIVE = ''keepalive_expiry=1.5''"

definition internal_client :: "options \<Rightarrow> client" where
  "internal_client k =
     \<lparr>verify = setdefault (opt_verify k) SSL_CONTEXT, trust_env = setdefault (opt_trust_env k) False,
      limits = setdefault (opt_limits k) KEEPALIVE, transport = machine_transport k\<rparr>"

definition egress_client :: "options \<Rightarrow> client" where
  "egress_client k =
     \<lparr>verify = setdefault (opt_verify k) SSL_CONTEXT, trust_env = setdefault (opt_trust_env k) True,
      limits = setdefault (opt_limits k) KEEPALIVE, transport = caller_transport k\<rparr>"

definition client_for :: "'cert net \<Rightarrow> string \<Rightarrow> options \<Rightarrow> net_error + client" where
  "client_for nt u k =
     and_then (is_internal nt u) (\<lambda>internal.
       let env = setdefault (opt_trust_env k) (\<not> internal)
       in Inr \<lparr>verify = setdefault (opt_verify k) SSL_CONTEXT, trust_env = env,
               limits = setdefault (opt_limits k) KEEPALIVE,
               transport = (if env then caller_transport k else machine_transport k)\<rparr>)"

subsection \<open>Process-wide clients\<close>

text \<open>Clients are numbered as they are built; \<open>is_closed\<close> holds those that were closed.\<close>

record shared =
  filed :: "(string \<times> nat) list"
  closed :: "nat set"
  built :: nat

definition shared_internal_client :: "string \<Rightarrow> shared \<Rightarrow> nat \<times> shared" where
  "shared_internal_client key s =
     (case map_of (filed s) key of
        Some c \<Rightarrow>
          if c \<notin> closed s then (c, s)
          else (built s, s\<lparr>filed := AList.update key (built s) (filed s), built := Suc (built s)\<rparr>)
      | None \<Rightarrow> (built s, s\<lparr>filed := AList.update key (built s) (filed s), built := Suc (built s)\<rparr>))"

definition aclose_shared :: "shared \<Rightarrow> shared" where
  "aclose_shared s = s\<lparr>filed := [], closed := closed s \<union> snd ` set (filed s)\<rparr>"

definition set_shared_client :: "string \<Rightarrow> nat option \<Rightarrow> shared \<Rightarrow> shared" where
  "set_shared_client key c s =
     (case c of
        None \<Rightarrow> s\<lparr>filed := AList.delete key (filed s)\<rparr>
      | Some n \<Rightarrow> s\<lparr>filed := AList.update key n (filed s)\<rparr>)"

subsection \<open>The machine table\<close>

definition hostport :: "string \<Rightarrow> nat \<Rightarrow> string" where
  "hostport h p =
     (let h = lower (strip_of ''[]'' (strip h))
      in if contains '':'' h then ''['' @ h @ '']:'' @ nat_digits p else h @ '':'' @ nat_digits p)"

text \<open>\<open>url.port or d\<close>: port 0 counts as none.\<close>

definition port_or :: "url \<Rightarrow> nat \<Rightarrow> nat" where
  "port_or u d = (case port u of Some p \<Rightarrow> if p = 0 then d else p | None \<Rightarrow> d)"

definition origin :: "url \<Rightarrow> string" where
  "origin u = scheme u @ ''://'' @
     hostport (host u) (port_or u (if scheme u = ''https'' then 443 else 80))"

record table =
  machines :: "(string \<times> string set) list"
  routes :: "(string \<times> string option) list"
  required :: bool
  names :: "(string \<times> string) list"
  local_origins :: "string set"

definition EMPTY_TABLE :: table where
  "EMPTY_TABLE = \<lparr>machines = [], routes = [], required = False, names = [], local_origins = {}\<rparr>"

definition table_empty :: "table \<Rightarrow> bool" where
  "table_empty t \<longleftrightarrow> machines t = [] \<and> routes t = []"

definition table_pins :: "table \<Rightarrow> url \<Rightarrow> string set option" where
  "table_pins t u =
     (if scheme u \<noteq> ''https'' then None
      else map_of (machines t) (hostport (host u) (port_or u 443)))"

definition is_loopback :: "'cert net \<Rightarrow> string \<Rightarrow> bool" where
  "is_loopback nt h =
     (let h = lower (strip_of ''[]'' h)
      in h = ''localhost'' \<or> (case ip_address nt h of None \<Rightarrow> False | Some a \<Rightarrow> loopback a))"

text \<open>\<open>MachineTable.carry\<close>.\<close>

definition carry :: "'cert net \<Rightarrow> table \<Rightarrow> url \<Rightarrow> net_error + url option" where
  "carry nt t u =
     (if scheme u \<noteq> ''http'' then Inr None
      else case map_of (routes t) (origin u) of
             None \<Rightarrow> Inr None
           | Some None \<Rightarrow>
               if required t \<and> \<not> is_loopback nt (host u)
               then Inl (MachineRefused
                 (case map_of (names t) (origin u) of
                    Some who \<Rightarrow> if who = [] then origin u else who
                  | None \<Rightarrow> origin u))
               else Inr None
           | Some (Some base) \<Rightarrow>
               (case parse_url nt (rstrip_of ''/'' base @ raw_path u) of
                  None \<Rightarrow> Inl InvalidURL
                | Some carried \<Rightarrow> Inr (Some carried)))"

text \<open>\<open>parse_machine_table\<close>, one group of entries at a time. \<open>document.get(name) or {}\<close> is read
  with \<open>.items()\<close>, which only a dict has.\<close>

definition items_of :: "json \<Rightarrow> net_error + dict" where
  "items_of v =
     (if \<not> truthy v then Inr []
      else case v of JObj d \<Rightarrow> Inr d | _ \<Rightarrow> Inl AttributeError)"

definition listed_pins :: "json \<Rightarrow> string set" where
  "listed_pins v =
     (case v of
        JList ps \<Rightarrow>
          set (List.map_filter (\<lambda>p. case p of JStr s \<Rightarrow> if s = [] then None else Some s | _ \<Rightarrow> None) ps)
      | _ \<Rightarrow> {})"

definition machine_key :: "'cert net \<Rightarrow> string \<Rightarrow> net_error + string option" where
  "machine_key nt key =
     and_then (from_option ValueError (urlsplit nt (''//'' @ key))) (\<lambda>parts.
       case hostname parts of
         None \<Rightarrow> Inr None
       | Some h \<Rightarrow>
           if h = [] then Inr None
           else (case split_port parts of
                   Inl _ \<Rightarrow> Inl ValueError
                 | Inr None \<Rightarrow> Inr None
                 | Inr (Some p) \<Rightarrow> Inr (if p = 0 then None else Some (hostport h p))))"

fun parse_machines ::
  "'cert net \<Rightarrow> dict \<Rightarrow> (string \<times> string set) list \<Rightarrow> net_error + (string \<times> string set) list"
where
  "parse_machines nt [] ms = Inr ms"
| "parse_machines nt ((key, ps) # rest) ms =
     (if listed_pins ps = {} then parse_machines nt rest ms
      else and_then (machine_key nt key) (\<lambda>k.
        case k of
          None \<Rightarrow> parse_machines nt rest ms
        | Some m \<Rightarrow> parse_machines nt rest (AList.update m (listed_pins ps) ms)))"

definition carried_base :: "'cert net \<Rightarrow> (string \<times> string set) list \<Rightarrow> json \<Rightarrow> string option" where
  "carried_base nt ms target =
     (case target of
        JStr s \<Rightarrow>
          (case parse_url nt s of
             None \<Rightarrow> None
           | Some p \<Rightarrow>
               if scheme p = ''https'' \<and> hostport (host p) (port_or p 443) \<in> fst ` set ms
               then Some (rstrip_of ''/'' s) else None)
      | _ \<Rightarrow> None)"

fun parse_routes ::
  "'cert net \<Rightarrow> (string \<times> string set) list \<Rightarrow> dict \<Rightarrow> (string \<times> string option) list
     \<Rightarrow> (string \<times> string option) list"
where
  "parse_routes nt ms [] rs = rs"
| "parse_routes nt ms ((key, target) # rest) rs =
     (case parse_url nt key of
        None \<Rightarrow> parse_routes nt ms rest rs
      | Some u \<Rightarrow>
          if starts_with ''http://'' (origin u)
          then parse_routes nt ms rest (AList.update (origin u) (carried_base nt ms target) rs)
          else parse_routes nt ms rest rs)"

fun parse_names :: "dict \<Rightarrow> (string \<times> string) list \<Rightarrow> (string \<times> string) list" where
  "parse_names [] ns = ns"
| "parse_names ((k, v) # rest) ns =
     (case v of JStr s \<Rightarrow> parse_names rest (AList.update k s ns) | _ \<Rightarrow> parse_names rest ns)"

definition parse_local :: "'cert net \<Rightarrow> json \<Rightarrow> net_error + string set" where
  "parse_local nt v =
     (if \<not> truthy v then Inr {}
      else case py_iter v of
             None \<Rightarrow> Inl TypeError
           | Some ks \<Rightarrow> Inr (origin ` set (List.map_filter (\<lambda>k. parse_url nt (str_of nt k)) ks)))"

definition parse_machine_table :: "'cert net \<Rightarrow> json \<Rightarrow> net_error + table" where
  "parse_machine_table nt document =
     (case document of
        JObj d \<Rightarrow>
          and_then (items_of (dget d ''machines'')) (\<lambda>raw_machines.
          and_then (parse_machines nt raw_machines []) (\<lambda>ms.
          and_then (items_of (dget d ''routes'')) (\<lambda>raw_routes.
          and_then (items_of (dget d ''names'')) (\<lambda>raw_names.
          and_then (parse_local nt (dget d ''local'')) (\<lambda>loc.
            Inr \<lparr>machines = ms, routes = parse_routes nt ms raw_routes [],
                 required = truthy (dget d ''required''), names = parse_names raw_names [],
                 local_origins = loc\<rparr>)))))
      | _ \<Rightarrow> Inl ValueError)"

subsection \<open>The table in effect\<close>

text \<open>
  The globals behind \<open>machine_table\<close>: the table installed in the process, the path, time and
  size last read (time and size 0 for a file that was not there), the table it held, when the
  file was last looked at. A look gives the environment's path, the clock, what \<open>os.stat\<close>
  says and what reading and parsing the file does.
\<close>

datatype stat_result = NotFound | StatError | Stat int int

record look =
  env_path :: "string option"
  clock :: rat
  stat :: stat_result
  content :: loaded
  read_fails :: bool

record table_state =
  override :: "table option"
  table_file :: "(string \<times> int \<times> int) option"
  from_file :: table
  table_checked :: rat

definition new_table_state :: table_state where
  "new_table_state =
     \<lparr>override = None, table_file = None, from_file = EMPTY_TABLE, table_checked = 0\<rparr>"

definition set_machine_table :: "table option \<Rightarrow> table_state \<Rightarrow> table_state" where
  "set_machine_table t s = s\<lparr>override := t\<rparr>"

definition read_table :: "'cert net \<Rightarrow> look \<Rightarrow> net_error + table" where
  "read_table nt l =
     (if read_fails l then Inl ValueError
      else case content l of
             LoadValueError \<Rightarrow> Inl ValueError
           | LoadRecursionError \<Rightarrow> Inl RecursionError
           | Loaded document \<Rightarrow> parse_machine_table nt document)"

text \<open>\<open>except (OSError, ValueError)\<close> keeps the last table; any other error leaves the function.\<close>

definition machine_table :: "'cert net \<Rightarrow> look \<Rightarrow> table_state \<Rightarrow> (net_error + table) \<times> table_state" where
  "machine_table nt l s =
     (case override s of
        Some t \<Rightarrow> (Inr t, s)
      | None \<Rightarrow>
        (case env_path l of
           None \<Rightarrow> (Inr EMPTY_TABLE, s)
         | Some path \<Rightarrow>
           if path = [] then (Inr EMPTY_TABLE, s)
           else if map_option fst (table_file s) = Some path \<and> clock l - table_checked s < 1
           then (Inr (from_file s), s)
           else
             let s = s\<lparr>table_checked := clock l\<rparr>
             in case stat l of
                  NotFound \<Rightarrow>
                    (Inr EMPTY_TABLE, s\<lparr>table_file := Some (path, 0, 0), from_file := EMPTY_TABLE\<rparr>)
                | StatError \<Rightarrow> (Inr (from_file s), s)
                | Stat mtime bytes \<Rightarrow>
                    if table_file s = Some (path, mtime, bytes) then (Inr (from_file s), s)
                    else case read_table nt l of
                           Inr t \<Rightarrow>
                             (Inr t, s\<lparr>table_file := Some (path, mtime, bytes), from_file := t\<rparr>)
                         | Inl e \<Rightarrow>
                             if e = ValueError then (Inr (from_file s), s) else (Inl e, s)))"

subsection \<open>A request on its way out\<close>

record request =
  rurl :: url
  header :: "string \<Rightarrow> string option"

definition before_first :: "char \<Rightarrow> string \<Rightarrow> string" where
  "before_first c s = takeWhile (\<lambda>d. d \<noteq> c) s"

text \<open>\<open>value.split(" ", 1)[-1]\<close>: what follows the first space, or all of it.\<close>

definition after_first_space :: "string \<Rightarrow> string" where
  "after_first_space s =
     (case dropWhile (\<lambda>c. c \<noteq> CHR '' '') s of [] \<Rightarrow> s | _ # rest \<Rightarrow> rest)"

definition is_eugene_jws :: "'cert net \<Rightarrow> string \<Rightarrow> net_error + bool" where
  "is_eugene_jws nt v =
     (let head = before_first CHR ''.'' (strip (after_first_space v))
      in if \<not> starts_with ''eyJ'' head then Inr False
         else case jws_head nt (head @ replicate (nat (- int (length head) mod 4)) CHR ''='') of
                LoadValueError \<Rightarrow> Inr False
              | LoadRecursionError \<Rightarrow> Inl RecursionError
              | Loaded (JObj d) \<Rightarrow>
                  Inr (case dget d ''typ'' of JStr t \<Rightarrow> starts_with ''ep-'' (lower t) | _ \<Rightarrow> False)
              | Loaded _ \<Rightarrow> Inr False)"

definition eugene_token :: "'cert net \<Rightarrow> (string \<Rightarrow> string option) \<Rightarrow> net_error + bool" where
  "eugene_token nt h =
     and_then (is_eugene_jws nt (setdefault (h ''authorization'') [])) (\<lambda>b.
       if b then Inr True else is_eugene_jws nt (setdefault (h ''x-api-key'') []))"

text \<open>\<open>_route\<close>: the request as it is sent.\<close>

definition route :: "'cert net \<Rightarrow> table \<Rightarrow> request \<Rightarrow> net_error + request" where
  "route nt t r =
     (if table_empty t \<and> \<not> required t then Inr r
      else and_then (carry nt t (rurl r)) (\<lambda>carried.
        case carried of
          Some u \<Rightarrow> Inr \<lparr>rurl = u, header = (header r)(''host'' \<mapsto> netloc u)\<rparr>
        | None \<Rightarrow>
            if required t \<and> scheme (rurl r) = ''http'' then
              and_then (eugene_token nt (header r)) (\<lambda>token.
                if token \<and> \<not> is_loopback nt (host (rurl r)) \<and> origin (rurl r) \<notin> local_origins t
                then Inl (MachineRefused (host (rurl r)))
                else Inr r)
            else Inr r))"

text \<open>\<open>_check_pin\<close>, with the table of the moment of the handshake and the times refusals were
  last logged; the third component says whether this one is. \<open>start_tls\<close> closes the stream on a
  refusal, so the refusal is all that comes of the request.\<close>

definition presented_pin :: "'cert net \<Rightarrow> 'cert option \<Rightarrow> string" where
  "presented_pin nt cert = (case cert of None \<Rightarrow> ''none'' | Some c \<Rightarrow> spki_pin nt c)"

definition check_pin_refuse ::
  "string \<Rightarrow> string \<Rightarrow> string option \<Rightarrow> rat \<Rightarrow> ((string \<times> string) \<times> rat) list
     \<Rightarrow> (net_error + unit) \<times> ((string \<times> string) \<times> rat) list \<times> bool"
where
  "check_pin_refuse machine pin name now logged =
     (let quiet = (case map_of logged (machine, pin) of None \<Rightarrow> False | Some at_time \<Rightarrow> now - at_time < 300)
      in (Inl (PinRefused machine pin name),
          if quiet then logged else AList.update (machine, pin) now logged, \<not> quiet))"

definition check_pin ::
  "'cert net \<Rightarrow> string \<Rightarrow> 'cert option \<Rightarrow> table \<Rightarrow> rat \<Rightarrow> ((string \<times> string) \<times> rat) list
     \<Rightarrow> (net_error + unit) \<times> ((string \<times> string) \<times> rat) list \<times> bool"
where
  "check_pin nt machine cert t now logged =
     (let pin = presented_pin nt cert
      in case map_of (machines t) machine of
           Some ps \<Rightarrow> if pin \<in> ps then (Inr (), logged, False)
                      else check_pin_refuse machine pin (map_of (names t) machine) now logged
         | None \<Rightarrow> check_pin_refuse machine pin (map_of (names t) machine) now logged)"

text \<open>
  \<open>handle_async_request\<close>: which transport the routed request goes to, and what becomes of it.
  A pinned request opens a connection, whose handshake presents \<open>cert\<close> and checks it against
  the table of that moment; \<open>Delivered\<close> is the request written to the connection.
\<close>

datatype path = Plain | PinnedTLS

definition handle_request :: "'cert net \<Rightarrow> table \<Rightarrow> request \<Rightarrow> net_error + path \<times> request" where
  "handle_request nt t r =
     and_then (route nt t r) (\<lambda>r'.
       Inr (if table_pins t (rurl r') \<noteq> None then PinnedTLS else Plain, r'))"

definition exchange ::
  "'cert net \<Rightarrow> table \<Rightarrow> request \<Rightarrow> table \<Rightarrow> 'cert option \<Rightarrow> rat \<Rightarrow> ((string \<times> string) \<times> rat) list
     \<Rightarrow> net_error + path \<times> request"
where
  "exchange nt t r t' cert now logged =
     and_then (handle_request nt t r) (\<lambda>(p, r').
       case p of
         Plain \<Rightarrow> Inr (Plain, r')
       | PinnedTLS \<Rightarrow>
           and_then
             (fst (check_pin nt (hostport (host (rurl r')) (port_or (rurl r') 443)) cert t' now logged))
             (\<lambda>_. Inr (PinnedTLS, r')))"

text \<open>\<open>machine_route\<close>, \<open>machine_pinned\<close> and \<open>refused_pin\<close>, which walks the chain of causes.\<close>

definition machine_route :: "'cert net \<Rightarrow> table \<Rightarrow> string \<Rightarrow> url option" where
  "machine_route nt t u =
     (case parse_url nt u of
        None \<Rightarrow> None
      | Some p \<Rightarrow> (case carry nt t p of Inr carried \<Rightarrow> carried | Inl _ \<Rightarrow> None))"

definition machine_pinned :: "'cert net \<Rightarrow> table \<Rightarrow> string \<Rightarrow> bool" where
  "machine_pinned nt t u =
     (case parse_url nt u of None \<Rightarrow> False | Some p \<Rightarrow> table_pins t p \<noteq> None)"

datatype exn_chain =
  Raised (refused: "string option") (exn_cause: "exn_chain option") (exn_context: "exn_chain option")

fun refused_pin :: "exn_chain \<Rightarrow> string option" where
  "refused_pin (Raised p c x) =
     (case p of
        Some pin \<Rightarrow> Some pin
      | None \<Rightarrow>
          (case c of
             Some e \<Rightarrow> refused_pin e
           | None \<Rightarrow> (case x of Some e \<Rightarrow> refused_pin e | None \<Rightarrow> None)))"

subsection \<open>What parsing promises of a table\<close>

text \<open>Every machine of a table has a key, every route starts from a plain origin and is carried,
  when it is, by an https address of a machine the table pins.\<close>

definition table_ok :: "'cert net \<Rightarrow> table \<Rightarrow> bool" where
  "table_ok nt t \<longleftrightarrow>
     (\<forall>m ps. map_of (machines t) m = Some ps \<longrightarrow> ps \<noteq> {}) \<and>
     (\<forall>org base. map_of (routes t) org = Some (Some base) \<longrightarrow> starts_with ''http://'' org \<and>
        (\<exists>target p. base = rstrip_of ''/'' target \<and> parse_url nt target = Some p \<and>
          scheme p = ''https'' \<and>
          map_of (machines t) (hostport (host p) (port_or p 443)) \<noteq> None))"

lemma parse_machines_pins:
  "parse_machines nt d ms = Inr ms' \<Longrightarrow> {} \<notin> ran (map_of ms) \<Longrightarrow> {} \<notin> ran (map_of ms')"
proof (induction nt d ms arbitrary: ms' rule: parse_machines.induct)
  case (2 nt key qs rest ms)
  show ?case
  proof (cases "listed_pins qs = {}")
    case True
    then show ?thesis using 2 by simp
  next
    case False
    then obtain k where k: "machine_key nt key = Inr k"
      using "2.prems"(1) by (auto simp: and_then_eq_Inr)
    have "{} \<notin> ran (map_of (AList.update m (listed_pins qs) ms))" for m
      using "2.prems"(2) False by (auto simp: update_conv' ran_def)
    then show ?thesis using 2 False k by (cases k) simp_all
  qed
qed simp

lemma parse_routes_carried:
  "\<forall>org base. map_of rs org = Some (Some base) \<longrightarrow>
      starts_with ''http://'' org \<and> (\<exists>v. carried_base nt ms v = Some base) \<Longrightarrow>
    map_of (parse_routes nt ms d rs) org = Some (Some base) \<Longrightarrow>
    starts_with ''http://'' org \<and> (\<exists>v. carried_base nt ms v = Some base)"
proof (induction nt ms d rs rule: parse_routes.induct)
  case (2 nt ms key target rest rs)
  show ?case
  proof (cases "parse_url nt key")
    case (Some u)
    have "starts_with ''http://'' (origin u) \<Longrightarrow>
      \<forall>org base. map_of (AList.update (origin u) (carried_base nt ms target) rs) org = Some (Some base)
        \<longrightarrow> starts_with ''http://'' org \<and> (\<exists>v. carried_base nt ms v = Some base)"
      using "2.prems"(1) by (auto simp: update_conv' split: if_splits)
    then show ?thesis using 2 Some by (simp split: if_splits)
  qed (use 2 in simp)
qed simp

lemma parse_table_ok:
  assumes "parse_machine_table nt doc = Inr t"
  shows "table_ok nt t"
proof -
  obtain ms d rs where ms: "parse_machines nt d [] = Inr ms" "machines t = ms"
    and rs: "routes t = parse_routes nt ms rs []"
    using assms by (auto simp: parse_machine_table_def result_simps split: json.splits)
  have "\<exists>target p. base = rstrip_of ''/'' target \<and> parse_url nt target = Some p \<and>
      scheme p = ''https'' \<and> map_of ms (hostport (host p) (port_or p 443)) \<noteq> None"
    if "carried_base nt ms v = Some base" for base v
    using that by (auto simp: carried_base_def map_of_eq_None_iff split: json.splits option.splits if_splits)
  then show ?thesis
    using parse_machines_pins [OF ms(1)] parse_routes_carried [of "[]" nt ms rs]
    unfolding table_ok_def ms(2) rs by (simp add: ran_def) blast
qed

lemma EMPTY_TABLE_ok [simp]: "table_ok nt EMPTY_TABLE"
  by (simp add: table_ok_def EMPTY_TABLE_def)

text \<open>The documented part of \<open>httpx.URL\<close> the carried address rests on: a path put after an https
  address that names a host leaves its scheme, host and port as they were.\<close>

definition url_joins :: "'cert net \<Rightarrow> bool" where
  "url_joins nt \<longleftrightarrow>
     (\<forall>base p path u. parse_url nt base = Some p \<longrightarrow> scheme p = ''https'' \<longrightarrow> host p \<noteq> [] \<longrightarrow>
        starts_with ''/'' path \<longrightarrow>
        parse_url nt (rstrip_of ''/'' (rstrip_of ''/'' base) @ path) = Some u \<longrightarrow>
        scheme u = scheme p \<and> host u = host p \<and> port u = port p)"

text \<open>Every machine key names a host, and the path of the request is absolute.\<close>

definition machines_named :: "table \<Rightarrow> bool" where
  "machines_named t \<longleftrightarrow> (\<forall>m \<in> fst ` set (machines t). \<not> starts_with '':'' m)"

lemma hostport_named: "\<not> starts_with '':'' (hostport h p) \<Longrightarrow> h \<noteq> []"
  by (auto simp: hostport_def strip_def lstrip_def rstrip_def strip_of_def lstrip_of_def
      rstrip_of_def lower_def contains_def starts_with_def)

lemma carry_https:
  assumes "table_ok nt t" and "machines_named t" and "url_joins nt"
    and "starts_with ''/'' (raw_path u)" and "carry nt t u = Inr (Some c)"
  shows "scheme c = ''https'' \<and> table_pins t c \<noteq> None"
proof -
  obtain base where base: "map_of (routes t) (origin u) = Some (Some base)"
    and c: "parse_url nt (rstrip_of ''/'' base @ raw_path u) = Some c"
    using assms(5) by (auto simp: carry_def split: if_splits option.splits)
  obtain target p where p: "base = rstrip_of ''/'' target" "parse_url nt target = Some p"
    "scheme p = ''https''" "map_of (machines t) (hostport (host p) (port_or p 443)) \<noteq> None"
    using assms(1) base unfolding table_ok_def by blast
  then have "host p \<noteq> []"
    using assms(2) hostport_named [of "host p" "port_or p 443"]
    by (auto simp: machines_named_def map_of_eq_None_iff)
  then have "scheme c = scheme p \<and> host c = host p \<and> port c = port p"
    using assms(3,4) p(1,2,3) c unfolding url_joins_def by blast
  then show ?thesis using p by (simp add: table_pins_def port_or_def)
qed

lemma route_cases:
  assumes "route nt t r = Inr r'"
  obtains (unchanged) "r' = r" "carry nt t (rurl r) = Inr None"
      "required t \<Longrightarrow> scheme (rurl r) = ''http'' \<Longrightarrow> eugene_token nt (header r) = Inr True \<Longrightarrow>
        is_loopback nt (host (rurl r)) \<or> origin (rurl r) \<in> local_origins t"
  | (carried) u where "carry nt t (rurl r) = Inr (Some u)" "rurl r' = u"
      "header r' = (header r)(''host'' \<mapsto> netloc u)"
proof (cases "table_empty t \<and> \<not> required t")
  case True
  then show ?thesis using assms
    by (intro unchanged) (auto simp: route_def carry_def table_empty_def)
next
  case False
  then obtain c where c: "carry nt t (rurl r) = Inr c"
    using assms by (auto simp: route_def result_simps)
  show ?thesis
  proof (cases c)
    case None
    then show ?thesis using assms False c
      by (intro unchanged) (auto simp: route_def result_simps split: if_splits)
  next
    case (Some u)
    then show ?thesis using assms False c by (intro carried) (auto simp: route_def)
  qed
qed

lemma carry_None_plain:
  "carry nt t u = Inr None \<Longrightarrow> scheme u = ''http'' \<Longrightarrow> map_of (routes t) (origin u) \<noteq> None \<Longrightarrow>
    required t \<Longrightarrow> is_loopback nt (host u)"
  by (auto simp: carry_def split: option.splits if_splits)

lemma check_pin_ok:
  "fst (check_pin nt m cert t now logged) = Inr u \<longleftrightarrow>
     (\<exists>ps. map_of (machines t) m = Some ps \<and> presented_pin nt cert \<in> ps)"
  by (auto simp: check_pin_def check_pin_refuse_def Let_def split: option.splits)

subsection \<open>Every table in effect holds together\<close>

inductive table_step :: "'cert net \<Rightarrow> table_state \<Rightarrow> table_state \<Rightarrow> bool" for nt where
  looked: "table_step nt s (snd (machine_table nt l s))"
| installed: "(\<And>t. ot = Some t \<Longrightarrow> table_ok nt t) \<Longrightarrow> table_step nt s (set_machine_table ot s)"

definition tables_ok :: "'cert net \<Rightarrow> table_state \<Rightarrow> bool" where
  "tables_ok nt s \<longleftrightarrow>
     table_ok nt (from_file s) \<and> (case override s of None \<Rightarrow> True | Some t \<Rightarrow> table_ok nt t)"

lemma read_table_ok: "read_table nt l = Inr t \<Longrightarrow> table_ok nt t"
  by (auto simp: read_table_def intro: parse_table_ok split: loaded.splits if_splits)

text \<open>What a look comes to: the installed table, none, the one kept, or the one just read.\<close>

lemma machine_table_cases:
  assumes "machine_table nt l s = (r, s')"
  shows "override s' = override s \<and>
    (from_file s' = from_file s \<or> from_file s' = EMPTY_TABLE \<or> read_table nt l = Inr (from_file s')) \<and>
    (\<forall>t. r = Inr t \<longrightarrow> override s = Some t \<or> t = EMPTY_TABLE \<or> t = from_file s \<or> read_table nt l = Inr t)"
proof (cases "override s")
  case None
  note N = None
  show ?thesis
  proof (cases "env_path l")
    case (Some path)
    show ?thesis
    proof (cases "stat l")
      case (Stat m b)
      then show ?thesis using assms N Some
        by (cases "read_table nt l") (auto simp: machine_table_def Let_def split: if_splits)
    qed (use assms N Some in \<open>auto simp: machine_table_def Let_def split: if_splits\<close>)
  qed (use assms N in \<open>auto simp: machine_table_def\<close>)
qed (use assms in \<open>auto simp: machine_table_def\<close>)

lemma machine_table_ok:
  assumes "tables_ok nt s" and "machine_table nt l s = (r, s')"
  shows "tables_ok nt s' \<and> (\<forall>t. r = Inr t \<longrightarrow> table_ok nt t)"
proof -
  note c = machine_table_cases [OF assms(2)]
  have kept: "table_ok nt (from_file s)" and own: "\<And>t. override s = Some t \<Longrightarrow> table_ok nt t"
    using assms(1) by (simp_all add: tables_ok_def)
  have "table_ok nt (from_file s')" using c kept read_table_ok EMPTY_TABLE_ok by metis
  then have "tables_ok nt s'" using c own by (simp add: tables_ok_def split: option.split)
  moreover have "table_ok nt t" if "r = Inr t" for t
    using c that kept own read_table_ok EMPTY_TABLE_ok by metis
  ultimately show ?thesis by blast
qed

interpretation mt: step_system "table_step nt" "tables_ok nt" for nt
proof
  show "table_step nt s t \<Longrightarrow> tables_ok nt s \<Longrightarrow> tables_ok nt t" for s t
  proof (induction rule: table_step.induct)
    case (looked s l)
    then show ?case using machine_table_ok by (metis prod.collapse)
  next
    case (installed ot s)
    then show ?case by (simp add: set_machine_table_def tables_ok_def split: option.split)
  qed
qed

lemma table_in_effect_ok:
  assumes "reaches (table_step nt) new_table_state s" and "fst (machine_table nt l s) = Inr t"
  shows "table_ok nt t"
proof -
  have "tables_ok nt s"
    using mt.reaches_inv [OF assms(1)] by (simp add: tables_ok_def new_table_state_def)
  then show ?thesis
    using machine_table_ok [of nt s l] assms(2) by (metis prod.collapse)
qed

subsection \<open>Single steps\<close>

text \<open>An unreadable table file never drops the pins already held.\<close>

lemma unreadable_table_kept:
  assumes "override s = None" and "env_path l = Some (c # cs)" and "stat l \<noteq> NotFound"
    and "stat l = StatError \<or> read_table nt l = Inl ValueError"
  shows "fst (machine_table nt l s) = Inr (from_file s) \<and>
    from_file (snd (machine_table nt l s)) = from_file s \<and>
    table_file (snd (machine_table nt l s)) = table_file s"
  using assms by (cases "stat l") (auto simp: machine_table_def Let_def)

text \<open>A machine entry whose port cannot be read refuses the whole table: it is not dropped.\<close>

lemma bad_machine_port_refuses_table:
  assumes "dget d ''machines'' = JObj ((key, ps) # rest)" and "listed_pins ps \<noteq> {}"
    and "urlsplit nt (''//'' @ key) = Some \<lparr>hostname = Some (c # cs), split_port = Inl ()\<rparr>"
  shows "parse_machine_table nt (JObj d) = Inl ValueError"
  using assms by (simp add: parse_machine_table_def items_of_def truthy_def machine_key_def)

text \<open>An address of this machine or its LAN is dialled past the user's proxy, over the machine
  transport, unless the caller brought its own.\<close>

lemma client_for_internal:
  assumes "is_internal nt u = Inr True" and "opt_trust_env k = None" and "opt_transport k = None"
    and "\<not> opt_mounts k" and "\<not> opt_proxy k"
  shows "\<exists>c. client_for nt u k = Inr c \<and> \<not> trust_env c \<and> transport c = MachineTransport"
  using assms by (simp add: client_for_def setdefault_def machine_transport_def)

text \<open>The shared client handed out is open, and asking again hands out the same one.\<close>

definition shared_ok :: "shared \<Rightarrow> bool" where
  "shared_ok s \<longleftrightarrow> (\<forall>c \<in> closed s \<union> snd ` set (filed s). c < built s)"

lemma set_update_subset: "set (AList.update k v xs) \<subseteq> insert (k, v) (set xs)"
  by (induction xs) auto

lemma shared_client_open:
  assumes "shared_ok s" and "shared_internal_client key s = (c, s')"
  shows "shared_ok s' \<and> c \<notin> closed s' \<and> shared_internal_client key s' = (c, s')"
proof (cases "map_of (filed s) key = Some c \<and> c \<notin> closed s")
  case True
  then show ?thesis using assms by (auto simp: shared_internal_client_def split: if_splits)
next
  case False
  then have c: "c = built s" "s' = s\<lparr>filed := AList.update key c (filed s), built := Suc c\<rparr>"
    using assms(2) by (auto simp: shared_internal_client_def split: option.splits if_splits)
  have "\<forall>x \<in> set (AList.update key (built s) (filed s)). snd x < Suc (built s)"
  proof
    fix x assume "x \<in> set (AList.update key (built s) (filed s))"
    then have "x = (key, built s) \<or> x \<in> set (filed s)" using subsetD [OF set_update_subset] by fastforce
    then show "snd x < Suc (built s)" using assms(1) by (auto simp: shared_ok_def less_Suc_eq)
  qed
  then show ?thesis using assms(1) c
    by (force simp: shared_ok_def shared_internal_client_def update_conv' less_Suc_eq)
qed

subsection \<open>A concrete outside, for the witnesses\<close>

text \<open>One machine \<open>m\<close>: its plain port is 8079, its TLS port 8083; a certificate is its pin.\<close>

definition demo_net :: "string net" where
  "demo_net =
     \<lparr>parse_url = (\<lambda>s.
        if starts_with ''https://m'' s
        then Some \<lparr>scheme = ''https'', host = ''m'', port = Some 8083, raw_path = ''/'' @ drop 9 s, netloc = ''m:8083''\<rparr>
        else if starts_with ''http://m'' s
        then Some \<lparr>scheme = ''http'', host = ''m'', port = Some 8079, raw_path = ''/'' @ drop 8 s, netloc = ''m:8079''\<rparr>
        else None),
      urlsplit = (\<lambda>s. Some \<lparr>hostname = Some ''m'', split_port = Inr (Some 8083)\<rparr>),
      ip_address = (\<lambda>_. None),
      jws_head = (\<lambda>_. Loaded (JObj [(''typ'', JStr ''ep-session+jwt'')])),
      spki_pin = (\<lambda>c. c), str_of = (\<lambda>_. [])\<rparr>"

definition demo_document :: json where
  "demo_document = JObj
     [(''machines'', JObj [(''m:8083'', JList [JStr ''key'', JInt 1])]),
      (''routes'', JObj [(''http://m:8079'', JStr ''https://m:8083/agent/'')]), (''required'', JBool True)]"

definition demo_table :: table where
  "demo_table =
     \<lparr>machines = [(''m:8083'', {''key''})],
      routes = [(''http://m:8079'', Some ''https://m:8083/agent'')], required = True, names = [],
      local_origins = {}\<rparr>"

definition demo_request :: request where
  "demo_request = \<lparr>rurl = \<lparr>scheme = ''http'', host = ''m'', port = Some 8079, raw_path = ''/v1'',
     netloc = ''m:8079''\<rparr>, header = (\<lambda>_. None)\<rparr>"

lemma starts_with_rstrip_of:
  "starts_with (p @ [c]) s \<Longrightarrow> c \<notin> set chars \<Longrightarrow> starts_with (p @ [c]) (rstrip_of chars s)"
proof (induction s rule: rev_induct)
  case (snoc x s)
  then show ?case
  proof (cases "length s < length (p @ [c])")
    case True
    then have "s @ [x] = p @ [c]" using snoc.prems(1) by (auto simp: starts_with_def)
    then show ?thesis using snoc.prems by (simp add: rstrip_of_def lstrip_of_def starts_with_def)
  next
    case False
    then show ?thesis using snoc by (auto simp: starts_with_def rstrip_of_def lstrip_of_def)
  qed
qed (simp add: starts_with_def)

lemma demo_joins: "url_joins demo_net"
proof -
  have "starts_with ''https://m'' (rstrip_of ''/'' (rstrip_of ''/'' base) @ path)"
    if "starts_with ''https://m'' base" for base path
    using that starts_with_rstrip_of [of "''https://''" "CHR ''m''" _ "''/''"]
    by (simp add: starts_with_append)
  then show ?thesis by (auto simp: url_joins_def demo_net_def split: if_splits)
qed

lemma demo_hostport [simp]: "hostport ''m'' 8083 = ''m:8083''" "hostport ''m'' 8079 = ''m:8079''"
  by (simp_all add: hostport_def strip_of_def lstrip_of_def rstrip_of_def strip_def lstrip_def
      rstrip_def is_space_def lower_def lower_char_def contains_def starts_with_def nat_digits.simps, code_simp+)

lemma demo_parses: "parse_machine_table demo_net demo_document = Inr demo_table"
  by (simp add: parse_machine_table_def demo_document_def items_of_def truthy_def machine_key_def
      listed_pins_def map_filter_def demo_net_def origin_def port_or_def starts_with_def
      carried_base_def parse_local_def demo_table_def rstrip_of_def lstrip_of_def)


text \<open>C12. In an install that requires encryption no token of the install crosses to another machine
  in the clear, and no request goes in the clear to a machine the table names: under the table
  in effect, whatever the file has been through, a request that leaves in plain HTTP is sent as
  it was, to an address the table does not route or to this machine, and if it carries a token
  it goes to this machine.\<close>

theorem required_encryption_respected:
  assumes "reaches (table_step nt) new_table_state s" and "fst (machine_table nt l s) = Inr t"
    and "url_joins nt" and "machines_named t" and "required t"
    and "starts_with ''/'' (raw_path (rurl r))"
    and "handle_request nt t r = Inr (p, r')" and "scheme (rurl r') = ''http''"
  shows "p = Plain \<and> r' = r \<and>
    (map_of (routes t) (origin (rurl r)) \<noteq> None \<longrightarrow> is_loopback nt (host (rurl r))) \<and>
    (eugene_token nt (header r) = Inr True \<longrightarrow>
       is_loopback nt (host (rurl r)) \<or> origin (rurl r) \<in> local_origins t)"
proof -
  have ok: "table_ok nt t" using assms(1,2) by (rule table_in_effect_ok)
  have "route nt t r = Inr r'" using assms(7) by (auto simp: handle_request_def result_simps)
  then show ?thesis
  proof (cases rule: route_cases)
    case unchanged
    then show ?thesis using assms(5,7,8) carry_None_plain [OF unchanged(2)]
      by (auto simp: handle_request_def result_simps table_pins_def)
  next
    case (carried u)
    then show ?thesis using carry_https [OF ok assms(4,3,6) carried(1)] assms(8) by simp
  qed
qed

lemma demo_in_effect:
  "fst (machine_table demo_net \<lparr>env_path = Some ''f'', clock = 0, stat = Stat 1 2,
     content = Loaded demo_document, read_fails = False\<rparr> new_table_state) = Inr demo_table"
  by (simp add: machine_table_def new_table_state_def read_table_def demo_parses)

definition demo_loopback :: request where
  "demo_loopback = \<lparr>rurl = \<lparr>scheme = ''http'', host = ''localhost'', port = Some 80, raw_path = ''/'',
     netloc = ''localhost''\<rparr>, header = [''authorization'' \<mapsto> ''Bearer eyJx.y'']\<rparr>"

lemma demo_token: "eugene_token demo_net (header demo_loopback) = Inr True"
  by (simp add: eugene_token_def is_eugene_jws_def setdefault_def demo_loopback_def demo_net_def
      after_first_space_def before_first_def strip_def lstrip_def rstrip_def is_space_def
      starts_with_def Let_def lower_def lower_char_def)

lemma demo_routed: "handle_request demo_net demo_table demo_loopback = Inr (Plain, demo_loopback)"
proof -
  have "is_loopback demo_net ''localhost''"
    by (simp add: is_loopback_def strip_of_def lstrip_of_def rstrip_of_def lower_def lower_char_def
        Let_def)
  moreover have "origin (rurl demo_loopback) \<noteq> ''http://m:8079''"
    by (simp add: origin_def demo_loopback_def hostport_def port_or_def strip_def lstrip_def
        rstrip_def is_space_def strip_of_def lstrip_of_def rstrip_of_def lower_def lower_char_def
        Let_def contains_def starts_with_def)
  ultimately show ?thesis using demo_token
    by (simp add: handle_request_def route_def carry_def demo_table_def table_empty_def
        table_pins_def) (simp add: demo_loopback_def)
qed

theorem required_encryption_respected_witness:
  "is_loopback demo_net ''localhost'' \<or> origin (rurl demo_loopback) \<in> local_origins demo_table"
  using required_encryption_respected [OF reaches_refl demo_in_effect demo_joins _ _ _ demo_routed]
    demo_token
  by (simp add: machines_named_def demo_table_def demo_loopback_def starts_with_def)

text \<open>C13. A request for another machine goes out, if it goes at all, over TLS to the port the table
  carries it on, and only once that port has presented one of the keys listed for it at the time
  of the handshake.\<close>

theorem carried_request_pinned:
  assumes "reaches (table_step nt) new_table_state s" and "fst (machine_table nt l s) = Inr t"
    and "url_joins nt" and "machines_named t" and "starts_with ''/'' (raw_path (rurl r))"
    and "scheme (rurl r) = ''http''" and "map_of (routes t) (origin (rurl r)) = Some (Some base)"
    and "exchange nt t r t' cert now logged = Inr (p, r')"
  shows "p = PinnedTLS \<and> scheme (rurl r') = ''https'' \<and>
    parse_url nt (rstrip_of ''/'' base @ raw_path (rurl r)) = Some (rurl r') \<and>
    (\<exists>ps. map_of (machines t') (hostport (host (rurl r')) (port_or (rurl r') 443)) = Some ps \<and>
       presented_pin nt cert \<in> ps)"
proof -
  have ok: "table_ok nt t" using assms(1,2) by (rule table_in_effect_ok)
  have "route nt t r = Inr r'" using assms(8)
    by (auto simp: exchange_def handle_request_def result_simps split: path.splits if_splits)
  then show ?thesis
  proof (cases rule: route_cases)
    case unchanged
    then show ?thesis using assms(6,7) by (simp add: carry_def split: option.splits)
  next
    case (carried u)
    have "scheme u = ''https'' \<and> table_pins t u \<noteq> None"
      using carry_https [OF ok assms(4,3,5) carried(1)] .
    moreover have "parse_url nt (rstrip_of ''/'' base @ raw_path (rurl r)) = Some u"
      using carried(1) assms(6,7) by (auto simp: carry_def split: option.splits)
    ultimately show ?thesis using assms(8) carried(2) check_pin_ok [of nt _ cert t' now logged]
      by (auto simp: exchange_def handle_request_def result_simps split: path.splits if_splits)
  qed
qed

lemma demo_exchange:
  "exchange demo_net demo_table demo_request demo_table (Some ''key'') 0 [] =
     Inr (PinnedTLS, \<lparr>rurl = \<lparr>scheme = ''https'', host = ''m'', port = Some 8083,
       raw_path = ''/:8083/agent/v1'', netloc = ''m:8083''\<rparr>, header = [''host'' \<mapsto> ''m:8083'']\<rparr>)"
  by (simp add: exchange_def handle_request_def route_def table_empty_def demo_table_def
      demo_request_def carry_def origin_def port_or_def demo_net_def starts_with_def rstrip_of_def
      lstrip_of_def table_pins_def check_pin_def presented_pin_def)

theorem carried_request_pinned_witness:
  "\<exists>ps. map_of (machines demo_table) ''m:8083'' = Some ps \<and> ''key'' \<in> ps"
proof -
  have "presented_pin demo_net (Some ''key'') = ''key''" by (simp add: presented_pin_def demo_net_def)
  then show ?thesis
    using carried_request_pinned [OF reaches_refl demo_in_effect demo_joins _ _ _ _ demo_exchange,
        of "''https://m:8083/agent''"]
    by (simp add: machines_named_def demo_table_def demo_request_def starts_with_def origin_def
        port_or_def)
qed

end
