(* ===== verification/Config_Schema.thy ===== *)
theory Config_Schema
  imports Py_Prelude
begin

text \<open>
  The registry of providers (\<open>providers.py\<close>) and the schema of the driver's settings built from
  it (\<open>config.py\<close>, with each engine's \<open>field_specs\<close>). Labels, descriptions and categories are
  texts for a reader and are left out; every condition, default, bound and flag is kept.
\<close>

subsection \<open>Providers\<close>

datatype engine_class =
    ClaudeCodeCliEngine | CodexCliEngine | OpenAiCompatibleHttpEngine | SystemOneHttpEngine
  | ElevenLabsHttpEngine | GeminiApiEngine | StrataHttpEngine

datatype value_type =
    VString | VUrl | VFilePath | VRuntimeName | VSecret | VInteger | VNumber | VDuration | VBoolean
  | VEnum | VStringList | VOther string

record config_field =
  fkey :: string
  value_type :: value_type
  default :: json
  enum_values :: "string list"
  sensitive :: bool
  minimum :: "rat option"
  maximum :: "rat option"
  pattern :: "string option"
  requires_restart :: bool
  show_when :: "(string \<times> string list) option"

text \<open>A field with nothing but its key, its type and what most fields share.\<close>

definition plain_field :: "string \<Rightarrow> value_type \<Rightarrow> config_field" where
  "plain_field k vt =
     \<lparr>fkey = k, value_type = vt, default = JNull, enum_values = [], sensitive = False,
      minimum = None, maximum = None, pattern = None, requires_restart = True, show_when = None\<rparr>"

record provider =
  pkey :: string
  engine_class :: engine_class
  default_base_url :: "string option"
  auth_required :: bool
  filter_models :: bool
  dialect :: "string option"
  catalogue_source :: "string option"
  extra_field_specs :: "config_field list"

definition shown_for :: "string list \<Rightarrow> (string \<times> string list) option" where
  "shown_for ps = Some (''provider'', ps)"

text \<open>\<open>_custom_backend_fields\<close>.\<close>

definition custom_backend_fields :: "config_field list" where
  "custom_backend_fields =
     (let only_custom = shown_for [''openai_compat_custom'', ''systemone_custom'']
      in [(plain_field ''wireDialect'' VEnum)
            \<lparr>default := JStr ''auto'',
             enum_values := [''auto'', ''compatible'', ''openai'', ''openrouter'', ''ollama'', ''lmstudio''],
             show_when := shown_for [''openai_compat_custom'']\<rparr>,
          (plain_field ''runtimeName'' VRuntimeName)\<lparr>show_when := only_custom\<rparr>,
          (plain_field ''baseUrl'' VUrl)\<lparr>show_when := only_custom\<rparr>])"

text \<open>An absent keyword argument of the engine is written as the engine reads it: a key is required,
  the names are filtered.\<close>

definition plain_provider :: "string \<Rightarrow> engine_class \<Rightarrow> provider" where
  "plain_provider k e =
     \<lparr>pkey = k, engine_class = e, default_base_url = None, auth_required = True, filter_models = True,
      dialect = None, catalogue_source = None, extra_field_specs = []\<rparr>"

definition PROVIDERS :: "provider list" where
  "PROVIDERS =
     [(plain_provider ''strata_local'' StrataHttpEngine)
        \<lparr>dialect := Some ''compatible'', auth_required := False, filter_models := False,
         extra_field_specs := custom_backend_fields\<rparr>,
      plain_provider ''claude_subscription'' ClaudeCodeCliEngine,
      plain_provider ''chatgpt_subscription'' CodexCliEngine,
      (plain_provider ''openai'' OpenAiCompatibleHttpEngine)
        \<lparr>dialect := Some ''openai'', default_base_url := Some ''https://api.openai.com'',
         catalogue_source := Some ''openai''\<rparr>,
      (plain_provider ''xai'' OpenAiCompatibleHttpEngine)
        \<lparr>dialect := Some ''compatible'', default_base_url := Some ''https://api.x.ai'',
         catalogue_source := Some ''openai''\<rparr>,
      (plain_provider ''openrouter'' OpenAiCompatibleHttpEngine)
        \<lparr>dialect := Some ''openrouter'', default_base_url := Some ''https://openrouter.ai/api'',
         filter_models := False, catalogue_source := Some ''openrouter''\<rparr>,
      (plain_provider ''minimax'' OpenAiCompatibleHttpEngine)
        \<lparr>dialect := Some ''compatible'', default_base_url := Some ''https://api.minimax.io'',
         catalogue_source := Some ''openai''\<rparr>,
      (plain_provider ''ollama_local'' OpenAiCompatibleHttpEngine)
        \<lparr>dialect := Some ''ollama'', default_base_url := Some ''http://127.0.0.1:11434'',
         auth_required := False, filter_models := False, catalogue_source := Some ''ollama''\<rparr>,
      (plain_provider ''lmstudio_local'' OpenAiCompatibleHttpEngine)
        \<lparr>dialect := Some ''lmstudio'', default_base_url := Some ''http://127.0.0.1:1234'',
         auth_required := False, filter_models := False, catalogue_source := Some ''lmstudio''\<rparr>,
      (plain_provider ''openai_compat_custom'' OpenAiCompatibleHttpEngine)
        \<lparr>dialect := Some ''auto'', auth_required := False, filter_models := False,
         catalogue_source := Some ''openai'', extra_field_specs := custom_backend_fields\<rparr>,
      (plain_provider ''elevenlabs'' ElevenLabsHttpEngine)
        \<lparr>default_base_url := Some ''https://api.elevenlabs.io''\<rparr>,
      (plain_provider ''gemini'' GeminiApiEngine)
        \<lparr>default_base_url := Some ''https://generativelanguage.googleapis.com/v1beta''\<rparr>,
      (plain_provider ''typesafe'' SystemOneHttpEngine)
        \<lparr>default_base_url := Some ''https://api.typesafe.ai''\<rparr>,
      (plain_provider ''openrouter_systemone'' SystemOneHttpEngine)
        \<lparr>default_base_url := Some ''https://openrouter.ai/api''\<rparr>,
      (plain_provider ''systemone_custom'' SystemOneHttpEngine)\<lparr>auth_required := False\<rparr>]"

definition providers_using :: "engine_class \<Rightarrow> string list" where
  "providers_using e = map pkey (filter (\<lambda>p. engine_class p = e) PROVIDERS)"

definition collect_extra_field_specs :: "config_field list" where
  "collect_extra_field_specs = concat (map extra_field_specs PROVIDERS)"

definition get_provider :: "string \<Rightarrow> string list + provider" where
  "get_provider k =
     (case List.find (\<lambda>p. pkey p = k) PROVIDERS of
        Some p \<Rightarrow> Inr p
      | None \<Rightarrow> Inl (map pkey PROVIDERS))"

subsection \<open>Fields of the engines\<close>

definition api_key_field :: "string list \<Rightarrow> config_field" where
  "api_key_field ps =
     (plain_field ''apiKey'' VSecret)\<lparr>sensitive := True, show_when := shown_for ps\<rparr>"

definition catalogue_fields :: "string list \<Rightarrow> config_field list" where
  "catalogue_fields ps =
     [(plain_field ''catalogueInclude'' VStringList)
        \<lparr>default := JList [JStr ''*''], requires_restart := False, show_when := shown_for ps\<rparr>,
      (plain_field ''catalogueExclude'' VStringList)
        \<lparr>default := JList [], requires_restart := False, show_when := shown_for ps\<rparr>]"

definition claude_field_specs :: "string list \<Rightarrow> config_field list" where
  "claude_field_specs ps =
     [(plain_field ''claudeCodeCliPath'' VFilePath)
        \<lparr>default := JStr ''claude'', show_when := shown_for ps\<rparr>]"

definition codex_field_specs :: "string list \<Rightarrow> config_field list" where
  "codex_field_specs ps =
     [(plain_field ''codexCliPath'' VFilePath)
        \<lparr>default := JStr ''codex'', show_when := shown_for ps\<rparr>]"

definition openai_field_specs :: "string list \<Rightarrow> config_field list" where
  "openai_field_specs ps =
     [api_key_field ps,
      (plain_field ''streamStallSeconds'' VDuration)
        \<lparr>default := JFloat (Finite 30), minimum := Some 0, maximum := Some 600,
         show_when := shown_for ps\<rparr>,
      (plain_field ''slotPinning'' VBoolean)\<lparr>default := JBool False, show_when := shown_for ps\<rparr>]
     @ catalogue_fields ps @
     [(plain_field ''catalogueRefreshMinutes'' VInteger)
        \<lparr>default := JInt 60, minimum := Some 1, maximum := Some 1440, requires_restart := False,
         show_when := shown_for ps\<rparr>]"

definition systemone_field_specs :: "string list \<Rightarrow> config_field list" where
  "systemone_field_specs ps =
     [(plain_field ''decisionMaxConcurrent'' VInteger)
        \<lparr>minimum := Some 1, show_when := shown_for ps\<rparr>]"

definition elevenlabs_field_specs :: "string list \<Rightarrow> config_field list" where
  "elevenlabs_field_specs ps = api_key_field ps # catalogue_fields ps"

definition gemini_field_specs :: "string list \<Rightarrow> config_field list" where
  "gemini_field_specs ps = api_key_field ps # catalogue_fields ps"

definition field_specs :: "engine_class \<Rightarrow> string list \<Rightarrow> config_field list" where
  "field_specs e ps =
     (case e of
        ClaudeCodeCliEngine \<Rightarrow> claude_field_specs ps
      | CodexCliEngine \<Rightarrow> codex_field_specs ps
      | OpenAiCompatibleHttpEngine \<Rightarrow> openai_field_specs ps
      | SystemOneHttpEngine \<Rightarrow> systemone_field_specs ps
      | ElevenLabsHttpEngine \<Rightarrow> elevenlabs_field_specs ps
      | GeminiApiEngine \<Rightarrow> gemini_field_specs ps
      | StrataHttpEngine \<Rightarrow> openai_field_specs ps)"

subsection \<open>The schema\<close>

definition provider_field :: config_field where
  "provider_field =
     (plain_field ''provider'' VEnum)
       \<lparr>default := JStr ''claude_subscription'', enum_values := map pkey PROVIDERS\<rparr>"

definition modelid_field :: config_field where
  "modelid_field = plain_field ''modelId'' VString"

definition upstream_modelid_field :: config_field where
  "upstream_modelid_field = plain_field ''upstreamModelId'' VString"

definition common_fields :: "config_field list" where
  "common_fields =
     [(plain_field ''backendLocality'' VEnum)
        \<lparr>default := JStr ''unknown'', enum_values := [''unknown'', ''local'', ''external'']\<rparr>,
      (plain_field ''thinkingMode'' VEnum)
        \<lparr>default := JStr ''auto'', enum_values := [''auto'', ''off'', ''low'', ''medium'', ''high'']\<rparr>,
      (plain_field ''logLevel'' VEnum)
        \<lparr>default := JStr ''INFO'', enum_values := [''DEBUG'', ''INFO'', ''WARNING'', ''ERROR'']\<rparr>,
      (plain_field ''requestTimeoutSeconds'' VDuration)
        \<lparr>default := JFloat (Finite 660), minimum := Some 5, maximum := Some 3600\<rparr>]"

text \<open>\<open>list(dict.fromkeys(xs))\<close>: the first of each, in order.\<close>

definition firsts :: "string list \<Rightarrow> string list" where
  "firsts xs = foldl (\<lambda>ys x. if x \<in> set ys then ys else ys @ [x]) [] xs"

text \<open>\<open>_add_field\<close>: one field per key; two engines that share a key share the field.\<close>

fun add_field :: "config_field list \<Rightarrow> config_field \<Rightarrow> config_field list" where
  "add_field [] f = [f]"
| "add_field (e # es) f =
     (if fkey e \<noteq> fkey f then e # add_field es f
      else (case (show_when e, show_when f) of
              (Some (k, shown), Some (_, added)) \<Rightarrow> e\<lparr>show_when := Some (k, firsts (shown @ added))\<rparr>
            | _ \<Rightarrow> e) # es)"

definition engine_order :: "engine_class list" where
  "engine_order =
     [ClaudeCodeCliEngine, CodexCliEngine, OpenAiCompatibleHttpEngine, SystemOneHttpEngine,
      ElevenLabsHttpEngine, GeminiApiEngine]"

text \<open>\<open>_read_by\<close>: the providers that read each key.\<close>

definition read_by :: "(string \<times> string list) list" where
  "read_by =
     (let using = (\<lambda>es. concat (map providers_using es));
          http = using [OpenAiCompatibleHttpEngine, ElevenLabsHttpEngine, SystemOneHttpEngine, GeminiApiEngine];
          everything_but_speech =
            filter (\<lambda>p. p \<notin> set (providers_using ElevenLabsHttpEngine)) (map pkey PROVIDERS)
      in [(''baseUrl'', http),
          (''runtimeName'', using [OpenAiCompatibleHttpEngine, SystemOneHttpEngine]),
          (''apiKey'', http),
          (''catalogueRefreshMinutes'', using [OpenAiCompatibleHttpEngine, ElevenLabsHttpEngine, GeminiApiEngine]),
          (''streamStallSeconds'', using [OpenAiCompatibleHttpEngine, GeminiApiEngine]),
          (''modelId'', everything_but_speech),
          (''upstreamModelId'', filter (\<lambda>p. p \<notin> set (providers_using GeminiApiEngine)) everything_but_speech),
          (''thinkingMode'', using [ClaudeCodeCliEngine, CodexCliEngine, OpenAiCompatibleHttpEngine]),
          (''backendLocality'', [''strata_local'', ''ollama_local'', ''lmstudio_local'',
             ''openai_compat_custom'', ''systemone_custom''])])"

definition shown_where_read :: "config_field \<Rightarrow> config_field" where
  "shown_where_read f =
     (case map_of read_by (fkey f) of
        None \<Rightarrow> f
      | Some ps \<Rightarrow> f\<lparr>show_when := shown_for (filter (\<lambda>p. p \<in> set ps) (map pkey PROVIDERS))\<rparr>)"

definition FIELDS :: "config_field list" where
  "FIELDS =
     (let engines = filter (\<lambda>e. providers_using e \<noteq> []) engine_order;
          own = foldl add_field [provider_field]
                  (concat (map (\<lambda>e. field_specs e (providers_using e)) engines))
      in map shown_where_read
           (own @ collect_extra_field_specs @ [modelid_field, upstream_modelid_field] @ common_fields))"

text \<open>\<open>_FIELDS_BY_KEY\<close>: of fields with one key the last is in force.\<close>

definition field_of :: "config_field list \<Rightarrow> string \<Rightarrow> config_field option" where
  "field_of fs k = List.find (\<lambda>f. fkey f = k) (rev fs)"

subsection \<open>The driver's own schema\<close>

text \<open>The schema as it comes out: twenty-two entries, in the order they are shown.\<close>

lemma FIELDS_eq:
  "FIELDS =
     (let compat = [''openai'', ''xai'', ''openrouter'', ''minimax'', ''ollama_local'',
            ''lmstudio_local'', ''openai_compat_custom''];
          systemone = [''typesafe'', ''openrouter_systemone'', ''systemone_custom''];
          clis = [''claude_subscription'', ''chatgpt_subscription''];
          http = shown_for (compat @ [''elevenlabs'', ''gemini''] @ systemone);
          listed = shown_for (compat @ [''elevenlabs'', ''gemini'']);
          custom = [(plain_field ''wireDialect'' VEnum)
               \<lparr>default := JStr ''auto'',
                enum_values := [''auto'', ''compatible'', ''openai'', ''openrouter'', ''ollama'', ''lmstudio''],
                show_when := shown_for [''openai_compat_custom'']\<rparr>,
             (plain_field ''runtimeName'' VRuntimeName)\<lparr>show_when := shown_for (compat @ systemone)\<rparr>,
             (plain_field ''baseUrl'' VUrl)\<lparr>show_when := http\<rparr>]
      in [provider_field,
          (plain_field ''claudeCodeCliPath'' VFilePath)
            \<lparr>default := JStr ''claude'', show_when := shown_for [''claude_subscription'']\<rparr>,
          (plain_field ''codexCliPath'' VFilePath)
            \<lparr>default := JStr ''codex'', show_when := shown_for [''chatgpt_subscription'']\<rparr>,
          (plain_field ''apiKey'' VSecret)\<lparr>sensitive := True, show_when := http\<rparr>,
          (plain_field ''streamStallSeconds'' VDuration)
            \<lparr>default := JFloat (Finite 30), minimum := Some 0, maximum := Some 600,
             show_when := shown_for (compat @ [''gemini''])\<rparr>,
          (plain_field ''slotPinning'' VBoolean)
            \<lparr>default := JBool False, show_when := shown_for compat\<rparr>,
          (plain_field ''catalogueInclude'' VStringList)
            \<lparr>default := JList [JStr ''*''], requires_restart := False, show_when := listed\<rparr>,
          (plain_field ''catalogueExclude'' VStringList)
            \<lparr>default := JList [], requires_restart := False, show_when := listed\<rparr>,
          (plain_field ''catalogueRefreshMinutes'' VInteger)
            \<lparr>default := JInt 60, minimum := Some 1, maximum := Some 1440, requires_restart := False,
             show_when := listed\<rparr>,
          (plain_field ''decisionMaxConcurrent'' VInteger)
            \<lparr>minimum := Some 1, show_when := shown_for systemone\<rparr>]
         @ custom @ custom @
         [(plain_field ''modelId'' VString)
            \<lparr>show_when := shown_for (''strata_local'' # clis @ compat @ ''gemini'' # systemone)\<rparr>,
          (plain_field ''upstreamModelId'' VString)
            \<lparr>show_when := shown_for (''strata_local'' # clis @ compat @ systemone)\<rparr>,
          (plain_field ''backendLocality'' VEnum)
            \<lparr>default := JStr ''unknown'', enum_values := [''unknown'', ''local'', ''external''],
             show_when := shown_for [''strata_local'', ''ollama_local'', ''lmstudio_local'',
               ''openai_compat_custom'', ''systemone_custom'']\<rparr>,
          (plain_field ''thinkingMode'' VEnum)
            \<lparr>default := JStr ''auto'', enum_values := [''auto'', ''off'', ''low'', ''medium'', ''high''],
             show_when := shown_for (clis @ compat)\<rparr>,
          (plain_field ''logLevel'' VEnum)
            \<lparr>default := JStr ''INFO'', enum_values := [''DEBUG'', ''INFO'', ''WARNING'', ''ERROR'']\<rparr>,
          (plain_field ''requestTimeoutSeconds'' VDuration)
            \<lparr>default := JFloat (Finite 660), minimum := Some 5, maximum := Some 3600\<rparr>])"
  by code_simp

lemma FIELDS_keys:
  "map fkey FIELDS =
     [''provider'', ''claudeCodeCliPath'', ''codexCliPath'', ''apiKey'', ''streamStallSeconds'',
      ''slotPinning'', ''catalogueInclude'', ''catalogueExclude'', ''catalogueRefreshMinutes'',
      ''decisionMaxConcurrent'', ''wireDialect'', ''runtimeName'', ''baseUrl'', ''wireDialect'',
      ''runtimeName'', ''baseUrl'', ''modelId'', ''upstreamModelId'', ''backendLocality'',
      ''thinkingMode'', ''logLevel'', ''requestTimeoutSeconds'']"
  by (simp add: FIELDS_eq Let_def plain_field_def provider_field_def)

lemma strata_fields_hidden:
  "\<forall>f \<in> set FIELDS. fkey f \<in> {''baseUrl'', ''runtimeName'', ''apiKey'', ''thinkingMode''} \<longrightarrow>
     (\<exists>ps. show_when f = Some (''provider'', ps) \<and> ''strata_local'' \<notin> set ps)"
  by (simp add: FIELDS_eq Let_def plain_field_def shown_for_def provider_field_def)

text \<open>The page of settings says less, and more, than the driver reads: the three fields of a
  custom backend, and only they, are listed twice, because two providers declare them, and the
  address, the runtime, the key and the thinking mode are not shown for the Strata provider,
  whose engine reads all four as the engine it extends does.\<close>

lemma schema_faults:
  "(\<forall>k \<in> set (map fkey FIELDS). count_list (map fkey FIELDS) k =
      (if k \<in> {''wireDialect'', ''runtimeName'', ''baseUrl''} then 2 else 1)) \<and>
    (\<forall>k \<in> {''baseUrl'', ''runtimeName'', ''apiKey'', ''thinkingMode''}. \<exists>f \<in> set FIELDS. fkey f = k) \<and>
    list_all (\<lambda>f. fkey f \<notin> {''baseUrl'', ''runtimeName'', ''apiKey'', ''thinkingMode''} \<or>
       (\<exists>ps. show_when f = Some (''provider'', ps) \<and> ''strata_local'' \<notin> set ps)) FIELDS"
proof (intro conjI)
  show "\<forall>k \<in> set (map fkey FIELDS). count_list (map fkey FIELDS) k =
      (if k \<in> {''wireDialect'', ''runtimeName'', ''baseUrl''} then 2 else 1)"
    unfolding FIELDS_keys by simp
  have "{''baseUrl'', ''runtimeName'', ''apiKey'', ''thinkingMode''} \<subseteq> fkey ` set FIELDS"
    unfolding set_map [symmetric] FIELDS_keys by simp
  then show "\<forall>k \<in> {''baseUrl'', ''runtimeName'', ''apiKey'', ''thinkingMode''}.
      \<exists>f \<in> set FIELDS. fkey f = k"
    by fastforce
  show "list_all (\<lambda>f. fkey f \<notin> {''baseUrl'', ''runtimeName'', ''apiKey'', ''thinkingMode''} \<or>
       (\<exists>ps. show_when f = Some (''provider'', ps) \<and> ''strata_local'' \<notin> set ps)) FIELDS"
    using strata_fields_hidden unfolding list_all_iff by blast
qed

lemma schema_faults_witness:
  "\<exists>f \<in> set FIELDS. fkey f = ''baseUrl''"
  using schema_faults by blast

end
