(* ===== verification/Config_Store.thy ===== *)
theory Config_Store
  imports Config_Schema Step_Systems "HOL-Library.AList"
begin

text \<open>
  The driver's saved settings (\<open>ConfigStore\<close> of \<open>config.py\<close>, envelopes of \<open>security.py\<close>): checking
  a value, loading the file, applying a PATCH, what is written back and what is shown. The
  secretbox and \<open>re.search\<close> are parameters. The file is the mapping YAML holds: dumping a mapping
  and loading it gives the mapping back. The environment's list of managed keys is an argument.
\<close>

subsection \<open>Envelopes\<close>

definition ENVELOPE_ALG :: string where
  "ENVELOPE_ALG = ''secretbox-xsalsa20poly1305''"

record envelope =
  alg :: string
  nonce :: string
  ciphertext :: string

text \<open>\<open>box_seal key nonce plaintext\<close> is the base64 of the ciphertext, \<open>box_open\<close> undoes it
  (\<open>None\<close>: bad base64, wrong key, tampered text).\<close>

record crypto_box =
  box_seal :: "string \<Rightarrow> string \<Rightarrow> string \<Rightarrow> string"
  box_open :: "string \<Rightarrow> string \<Rightarrow> string \<Rightarrow> string option"

datatype store_error = ValueError | OverflowError

definition to_dict :: "envelope \<Rightarrow> json" where
  "to_dict e = JObj [(''alg'', JStr (alg e)), (''nonce'', JStr (nonce e)),
     (''ciphertext'', JStr (ciphertext e))]"

definition from_dict :: "dict \<Rightarrow> store_error + envelope" where
  "from_dict raw =
     (if dget raw ''alg'' \<noteq> JStr ENVELOPE_ALG then Inl ValueError
      else case (dget raw ''nonce'', dget raw ''ciphertext'') of
             (JStr n, JStr c) \<Rightarrow> Inr \<lparr>alg = ENVELOPE_ALG, nonce = n, ciphertext = c\<rparr>
           | _ \<Rightarrow> Inl ValueError)"

definition is_envelope :: "json \<Rightarrow> bool" where
  "is_envelope v =
     (case v of
        JObj d \<Rightarrow> dget d ''alg'' = JStr ENVELOPE_ALG \<and> map_of d ''nonce'' \<noteq> None \<and>
                  map_of d ''ciphertext'' \<noteq> None
      | _ \<Rightarrow> False)"

definition seal :: "crypto_box \<Rightarrow> string \<Rightarrow> string \<Rightarrow> string \<Rightarrow> store_error + envelope" where
  "seal cb n plain key =
     (if length key \<noteq> 32 then Inl ValueError
      else Inr \<lparr>alg = ENVELOPE_ALG, nonce = n, ciphertext = box_seal cb key n plain\<rparr>)"

definition open_envelope :: "crypto_box \<Rightarrow> envelope \<Rightarrow> string \<Rightarrow> store_error + string" where
  "open_envelope cb e key =
     (if length key \<noteq> 32 then Inl ValueError
      else from_option ValueError (box_open cb key (nonce e) (ciphertext e)))"

subsection \<open>Checking a value\<close>

definition REDACTED :: string where "REDACTED = ''<redacted>''"

datatype refusal =
    ExpectedType | PatternMismatch | RedactedValue | BelowMinimum | AboveMaximum | NotFinite
  | NotAllowed | EmptyEntry nat | LongEntry nat | TooManyEntries | Unsupported
  | UnknownField | ManagedField

text \<open>\<open>_is_unset\<close>: no value, or a blank secret.\<close>

definition is_unset :: "config_field \<Rightarrow> json \<Rightarrow> bool" where
  "is_unset f v =
     (v = JNull \<or> (value_type f = VSecret \<and> (case v of JStr s \<Rightarrow> strip s = [] | _ \<Rightarrow> False)))"

definition out_of_range :: "config_field \<Rightarrow> rat \<Rightarrow> refusal option" where
  "out_of_range f x =
     (case minimum f of
        Some m \<Rightarrow> if x < m then Some BelowMinimum
                  else (case maximum f of Some m' \<Rightarrow> if m' < x then Some AboveMaximum else None | None \<Rightarrow> None)
      | None \<Rightarrow> (case maximum f of Some m' \<Rightarrow> if m' < x then Some AboveMaximum else None | None \<Rightarrow> None))"

fun check_entries :: "nat \<Rightarrow> json list \<Rightarrow> refusal option" where
  "check_entries i [] = None"
| "check_entries i (x # xs) =
     (case x of
        JStr s \<Rightarrow>
          if strip s = [] then Some (EmptyEntry i)
          else if 256 < length s then Some (LongEntry i)
          else check_entries (Suc i) xs
      | _ \<Rightarrow> Some (EmptyEntry i))"

text \<open>\<open>_validate_value\<close>: \<open>Inr None\<close> accepts, \<open>Inr (Some r)\<close> refuses, \<open>Inl\<close> is a raise. \<open>search\<close> is
  \<open>re.search\<close>, whether the pattern is found.\<close>

definition validate_value ::
  "(string \<Rightarrow> string \<Rightarrow> bool) \<Rightarrow> config_field \<Rightarrow> json \<Rightarrow> store_error + refusal option"
where
  "validate_value search f v =
     (if v = JNull then Inr None
      else case value_type f of
        VSecret \<Rightarrow>
          (case v of
             JStr s \<Rightarrow> Inr (if s = REDACTED then Some RedactedValue else None)
           | _ \<Rightarrow> Inr (Some ExpectedType))
      | VInteger \<Rightarrow>
          (case v of
             JInt i \<Rightarrow> Inr (out_of_range f (of_int i))
           | _ \<Rightarrow> Inr (Some ExpectedType))
      | VBoolean \<Rightarrow> (case v of JBool _ \<Rightarrow> Inr None | _ \<Rightarrow> Inr (Some ExpectedType))
      | VEnum \<Rightarrow>
          (case v of
             JStr s \<Rightarrow> Inr (if s \<in> set (enum_values f) then None else Some NotAllowed)
           | _ \<Rightarrow> Inr (Some ExpectedType))
      | VStringList \<Rightarrow>
          (case v of
             JList xs \<Rightarrow>
               Inr (case check_entries 0 xs of
                      Some r \<Rightarrow> Some r
                    | None \<Rightarrow> if 100 < length xs then Some TooManyEntries else None)
           | _ \<Rightarrow> Inr (Some ExpectedType))
      | VOther _ \<Rightarrow> Inr (Some Unsupported)
      | vt \<Rightarrow>
          if vt = VNumber \<or> vt = VDuration then
            (case v of
               JInt i \<Rightarrow> if int_overflows i then Inl OverflowError else Inr (out_of_range f (of_int i))
             | JFloat (Finite x) \<Rightarrow> Inr (out_of_range f x)
             | JFloat _ \<Rightarrow> Inr (Some NotFinite)
             | _ \<Rightarrow> Inr (Some ExpectedType))
          else
            (case v of
               JStr s \<Rightarrow>
                 Inr (case pattern f of
                        Some p \<Rightarrow> if search p s then None else Some PatternMismatch
                      | None \<Rightarrow> None)
             | _ \<Rightarrow> Inr (Some ExpectedType)))"

subsection \<open>The store\<close>

text \<open>\<open>_values\<close>, \<open>_started\<close> and \<open>_master_key\<close>, with the file on disk.\<close>

record store =
  saved :: dict
  started :: dict
  master_key :: "string option"
  disk :: "json option"

definition defaults :: "config_field list \<Rightarrow> dict" where
  "defaults fs =
     foldl (\<lambda>d f. if default f = JNull then d else AList.update (fkey f) (default f) d) [] fs"

definition new_store :: "config_field list \<Rightarrow> string option \<Rightarrow> json option \<Rightarrow> store" where
  "new_store fs key doc =
     \<lparr>saved = defaults fs, started = defaults fs, master_key = key, disk = doc\<rparr>"

text \<open>\<open>_write_locked\<close>: the mapping written; \<open>fresh k\<close> is the nonce drawn for the key.\<close>

definition write_value ::
  "config_field list \<Rightarrow> crypto_box \<Rightarrow> (string \<Rightarrow> string) \<Rightarrow> string option \<Rightarrow> string \<times> json
     \<Rightarrow> store_error + string \<times> json"
where
  "write_value fs cb fresh key kv =
     (case kv of
        (k, JStr s) \<Rightarrow>
          (case (field_of fs k, key) of
             (Some f, Some mk) \<Rightarrow>
               if sensitive f \<and> s \<noteq> []
               then and_then (seal cb (fresh k) s mk) (\<lambda>e. Inr (k, to_dict e))
               else Inr (k, JStr s)
           | _ \<Rightarrow> Inr (k, JStr s))
      | _ \<Rightarrow> Inr kv)"

definition written ::
  "config_field list \<Rightarrow> crypto_box \<Rightarrow> (string \<Rightarrow> string) \<Rightarrow> string option \<Rightarrow> dict \<Rightarrow> store_error + dict"
where
  "written fs cb fresh key vals = collect (write_value fs cb fresh key) vals"

definition write_locked ::
  "config_field list \<Rightarrow> crypto_box \<Rightarrow> (string \<Rightarrow> string) \<Rightarrow> store \<Rightarrow> (store_error + unit) \<times> store"
where
  "write_locked fs cb fresh s =
     (case written fs cb fresh (master_key s) (saved s) of
        Inl e \<Rightarrow> (Inl e, s)
      | Inr d \<Rightarrow> (Inr (), s\<lparr>disk := Some (JObj d)\<rparr>))"

definition decrypt_loaded :: "crypto_box \<Rightarrow> string option \<Rightarrow> json \<Rightarrow> json" where
  "decrypt_loaded cb key v =
     (case v of
        JObj d \<Rightarrow>
          if \<not> is_envelope v then v
          else (case key of
                  None \<Rightarrow> JNull
                | Some k \<Rightarrow>
                    (case and_then (from_dict d) (\<lambda>e. open_envelope cb e k) of
                       Inl _ \<Rightarrow> JNull
                     | Inr s \<Rightarrow> JStr s))
      | _ \<Rightarrow> v)"

text \<open>The loop of \<open>load\<close> over the mapping in the file.\<close>

fun merge_loaded ::
  "config_field list \<Rightarrow> crypto_box \<Rightarrow> string option \<Rightarrow> dict \<Rightarrow> dict \<Rightarrow> dict"
where
  "merge_loaded fs cb key [] merged = merged"
| "merge_loaded fs cb key ((k, v) # rest) merged =
     (case field_of fs k of
        None \<Rightarrow> merge_loaded fs cb key rest merged
      | Some f \<Rightarrow>
          let value = decrypt_loaded cb key v
          in merge_loaded fs cb key rest
               (AList.update k (if is_unset f value then default f else value) merged))"

definition load ::
  "config_field list \<Rightarrow> crypto_box \<Rightarrow> (string \<Rightarrow> string) \<Rightarrow> store \<Rightarrow> (store_error + unit) \<times> store"
where
  "load fs cb fresh s =
     (case disk s of
        None \<Rightarrow>
          (case write_locked fs cb fresh (s\<lparr>saved := defaults fs\<rparr>) of
             (Inl e, s') \<Rightarrow> (Inl e, s')
           | (Inr u, s') \<Rightarrow> (Inr u, s'\<lparr>started := saved s'\<rparr>))
      | Some raw \<Rightarrow>
          (case (if truthy raw then raw else JObj []) of
             JObj d \<Rightarrow>
               let merged = merge_loaded fs cb (master_key s) d (defaults fs)
               in (Inr (), s\<lparr>saved := merged, started := merged\<rparr>)
           | _ \<Rightarrow> (Inl ValueError, s)))"

definition as_document :: "config_field list \<Rightarrow> store \<Rightarrow> dict" where
  "as_document fs s =
     map (\<lambda>(k, v).
       (k, case field_of fs k of
             Some f \<Rightarrow> if sensitive f \<and> v \<noteq> JNull then JStr REDACTED else v
           | None \<Rightarrow> v)) (saved s)"

subsection \<open>PATCH\<close>

record update_result =
  applied :: "string list"
  rejected :: "(string \<times> refusal) list"
  pending :: "string list"

text \<open>One key of the patch: what it is refused for, or the value stored.\<close>

definition check_patch ::
  "config_field list \<Rightarrow> (string \<Rightarrow> string \<Rightarrow> bool) \<Rightarrow> string set \<Rightarrow> string \<Rightarrow> json
     \<Rightarrow> store_error + (refusal + config_field \<times> json)"
where
  "check_patch fs search managed k v =
     (case field_of fs k of
        None \<Rightarrow> Inr (Inl UnknownField)
      | Some f \<Rightarrow>
          and_then (validate_value search f v) (\<lambda>err.
            case err of
              Some r \<Rightarrow> Inr (Inl r)
            | None \<Rightarrow>
                if k \<in> managed then Inr (Inl ManagedField)
                else Inr (Inr (f, if is_unset f v then default f else v))))"

fun patch_loop ::
  "config_field list \<Rightarrow> (string \<Rightarrow> string \<Rightarrow> bool) \<Rightarrow> string set \<Rightarrow> dict \<Rightarrow> store \<Rightarrow> update_result
     \<Rightarrow> (store_error + update_result) \<times> store"
where
  "patch_loop fs search managed [] s r = (Inr r, s)"
| "patch_loop fs search managed ((k, v) # rest) s r =
     (case check_patch fs search managed k v of
        Inl e \<Rightarrow> (Inl e, s)
      | Inr (Inl why) \<Rightarrow>
          patch_loop fs search managed rest s (r\<lparr>rejected := rejected r @ [(k, why)]\<rparr>)
      | Inr (Inr (f, value)) \<Rightarrow>
          patch_loop fs search managed rest
            (s\<lparr>saved := AList.update k value (saved s)\<rparr>)
            (r\<lparr>applied := applied r @ [k],
               pending := pending r @
                 (if requires_restart f \<and> \<not> py_eq value (dget (started s) k) then [k] else [])\<rparr>))"

definition apply_patch ::
  "config_field list \<Rightarrow> crypto_box \<Rightarrow> (string \<Rightarrow> string) \<Rightarrow> (string \<Rightarrow> string \<Rightarrow> bool) \<Rightarrow> string set
     \<Rightarrow> dict \<Rightarrow> store \<Rightarrow> (store_error + update_result) \<times> store"
where
  "apply_patch fs cb fresh search managed patch s =
     (case patch_loop fs search managed patch s \<lparr>applied = [], rejected = [], pending = []\<rparr> of
        (Inl e, s') \<Rightarrow> (Inl e, s')
      | (Inr r, s') \<Rightarrow>
          if applied r = [] then (Inr r, s')
          else (case write_locked fs cb fresh s' of
                  (Inl e, s'') \<Rightarrow> (Inl e, s'')
                | (Inr _, s'') \<Rightarrow> (Inr r, s'')))"

definition pending_restart :: "config_field list \<Rightarrow> store \<Rightarrow> (string \<times> json) list" where
  "pending_restart fs s =
     map (\<lambda>f. (fkey f, dget (started s) (fkey f)))
       (filter (\<lambda>f. requires_restart f \<and> \<not> py_eq (dget (saved s) (fkey f)) (dget (started s) (fkey f))) fs)"

text \<open>\<open>managed_keys\<close>: the comma-separated names in the environment.\<close>

fun split_on :: "char \<Rightarrow> string \<Rightarrow> string list" where
  "split_on c [] = [[]]"
| "split_on c (x # xs) =
     (if x = c then [] # split_on c xs
      else case split_on c xs of [] \<Rightarrow> [[x]] | w # ws \<Rightarrow> (x # w) # ws)"

definition managed_keys :: "string \<Rightarrow> string set" where
  "managed_keys raw = set (filter (\<lambda>k. k \<noteq> []) (map strip (split_on CHR '','' raw)))"

subsection \<open>What the store keeps\<close>

text \<open>Fields that share a key are one and the same, and a default is a value its field takes.\<close>

definition schema_ok :: "(string \<Rightarrow> string \<Rightarrow> bool) \<Rightarrow> config_field list \<Rightarrow> bool" where
  "schema_ok search fs \<longleftrightarrow>
     (\<forall>f \<in> set fs. field_of fs (fkey f) = Some f \<and> validate_value search f (default f) = Inr None)"

definition value_ok :: "(string \<Rightarrow> string \<Rightarrow> bool) \<Rightarrow> config_field \<Rightarrow> json \<Rightarrow> bool" where
  "value_ok search f v \<longleftrightarrow>
     validate_value search f v = Inr None \<and> (is_unset f v \<longrightarrow> v = default f)"

definition saved_ok :: "(string \<Rightarrow> string \<Rightarrow> bool) \<Rightarrow> config_field list \<Rightarrow> dict \<Rightarrow> bool" where
  "saved_ok search fs d \<longleftrightarrow>
     distinct (map fst d) \<and> (\<forall>k. map_of d k \<noteq> None \<longrightarrow> field_of fs k \<noteq> None) \<and>
     (\<forall>k f. field_of fs k = Some f \<longrightarrow> value_ok search f (dget d k))"

definition box_ideal :: "crypto_box \<Rightarrow> bool" where
  "box_ideal cb \<longleftrightarrow> (\<forall>key n s. box_open cb key n (box_seal cb key n s) = Some s)"

lemma field_ofD: "field_of fs k = Some f \<Longrightarrow> f \<in> set fs \<and> fkey f = k"
  by (auto simp: field_of_def find_Some_iff) (metis nth_mem set_rev length_rev)

lemma value_ok_default: "schema_ok search fs \<Longrightarrow> f \<in> set fs \<Longrightarrow> value_ok search f (default f)"
  by (simp add: schema_ok_def value_ok_def)

lemma map_of_defaults:
  assumes "schema_ok search fs"
  shows "map_of (defaults fs) k =
    (case field_of fs k of
       Some f \<Rightarrow> if default f = JNull then None else Some (default f)
     | None \<Rightarrow> None)"
proof -
  have fold: "map_of (foldl (\<lambda>d f. if default f = JNull then d
      else AList.update (fkey f) (default f) d) [] gs) k =
    map_option default (List.find (\<lambda>f. fkey f = k \<and> default f \<noteq> JNull) (rev gs))" for gs
    by (induction gs rule: rev_induct) (auto simp: update_conv')
  show ?thesis
  proof (cases "List.find (\<lambda>f. fkey f = k \<and> default f \<noteq> JNull) (rev fs)")
    case None
    then have "default f = JNull" if "field_of fs k = Some f" for f
      using field_ofD [OF that] by (auto simp: find_None_iff)
    then show ?thesis unfolding defaults_def fold None by (auto split: option.split)
  next
    case (Some f)
    then have "f \<in> set fs" "fkey f = k" "default f \<noteq> JNull"
      by (auto simp: find_Some_iff) (metis nth_mem set_rev length_rev)
    then have "field_of fs k = Some f" using assms by (auto simp: schema_ok_def)
    then show ?thesis unfolding defaults_def fold Some using \<open>default f \<noteq> JNull\<close> by simp
  qed
qed

lemma distinct_defaults: "distinct (map fst (defaults fs))"
proof -
  have "distinct (map fst d) \<Longrightarrow> distinct (map fst (foldl (\<lambda>d f. if default f = JNull then d
      else AList.update (fkey f) (default f) d) d fs))" for d
    by (induction fs arbitrary: d) (auto simp: distinct_update)
  then show ?thesis by (simp add: defaults_def)
qed

lemma defaults_ok:
  assumes "schema_ok search fs"
  shows "saved_ok search fs (defaults fs)"
proof -
  have "dget (defaults fs) k = default f" if "field_of fs k = Some f" for k f
    using that by (simp add: dget_def map_of_defaults [OF assms])
  moreover have "field_of fs k \<noteq> None" if "map_of (defaults fs) k \<noteq> None" for k
    using that map_of_defaults [OF assms, of k] by (auto split: option.splits)
  ultimately show ?thesis
    using distinct_defaults value_ok_default [OF assms] field_ofD
    by (auto simp: saved_ok_def)
qed

lemma dget_update: "dget (AList.update k v d) k' = (if k' = k then v else dget d k')"
  by (simp add: dget_def update_conv')

lemma saved_ok_update:
  assumes "saved_ok search fs d" and "field_of fs k = Some f" and "value_ok search f v"
  shows "saved_ok search fs (AList.update k v d)"
  using assms by (auto simp: saved_ok_def dget_update distinct_update update_conv')


subsection \<open>What is written reads back\<close>

lemma written_value_reads_back:
  assumes "box_ideal cb" and "field_of fs k = Some f" and "value_ok search f v"
    and "write_value fs cb fresh key (k, v) = Inr (k', w)"
  shows "k' = k \<and> decrypt_loaded cb key w = v"
proof (cases v)
  case (JStr s)
  show ?thesis
  proof (cases "key \<noteq> None \<and> sensitive f \<and> s \<noteq> []")
    case True
    then obtain mk where mk: "key = Some mk" by auto
    then have "length mk = 32" "k' = k" and w: "w = to_dict \<lparr>alg = ENVELOPE_ALG, nonce = fresh k,
        ciphertext = box_seal cb mk (fresh k) s\<rparr>"
      using assms(2,4) True JStr by (auto simp: write_value_def seal_def result_simps split: if_splits)
    then show ?thesis using assms(1) mk JStr
      by (simp add: decrypt_loaded_def to_dict_def is_envelope_def from_dict_def open_envelope_def
          box_ideal_def)
  qed (use assms(2,4) JStr in \<open>auto simp: write_value_def decrypt_loaded_def split: option.splits\<close>)
next
  case (JObj d)
  then show ?thesis using assms(3)
    by (auto simp: value_ok_def validate_value_def split: value_type.splits)
qed (use assms in \<open>auto simp: write_value_def decrypt_loaded_def\<close>)

lemma map_of_merge_loaded:
  assumes "distinct (map fst d)"
  shows "map_of (merge_loaded fs cb key d merged) k =
    (case field_of fs k of
       None \<Rightarrow> map_of merged k
     | Some f \<Rightarrow>
         (case map_of d k of
            None \<Rightarrow> map_of merged k
          | Some w \<Rightarrow>
              Some (if is_unset f (decrypt_loaded cb key w) then default f else decrypt_loaded cb key w)))"
  using assms
proof (induction fs cb key d merged rule: merge_loaded.induct)
  case (2 fs cb key k' v rest merged)
  have fresh: "map_of rest k' = None" using "2.prems" by (simp add: map_of_eq_None_iff)
  show ?case
  proof (cases "field_of fs k'")
    case None
    then show ?thesis using 2 by (cases "k = k'"; cases "field_of fs k"; cases "map_of rest k") simp_all
  next
    case (Some f)
    then show ?thesis using 2 fresh
      by (cases "k = k'"; cases "field_of fs k"; cases "map_of rest k") (simp_all add: Let_def update_conv')
  qed
qed (simp split: option.split)

lemma written_map_of:
  "written fs cb fresh key vals = Inr d \<Longrightarrow>
    map fst d = map fst vals \<and>
    (case map_of vals k of
       None \<Rightarrow> map_of d k = None
     | Some v \<Rightarrow> \<exists>w. map_of d k = Some w \<and> write_value fs cb fresh key (k, v) = Inr (k, w))"
proof (induction vals arbitrary: d)
  case (Cons kv vals)
  obtain k' v where kv: "kv = (k', v)" by force
  obtain kw d' where d: "write_value fs cb fresh key (k', v) = Inr kw" "d = kw # d'"
      "written fs cb fresh key vals = Inr d'"
    using Cons.prems by (auto simp: written_def result_simps kv)
  moreover have "fst kw = k'" using d(1)
    by (auto simp: write_value_def result_simps split: json.splits option.splits if_splits)
  ultimately show ?case using Cons.IH [OF d(3)] kv
    by (cases kw; cases "map_of vals k") auto
qed (simp add: written_def)

lemma read_back:
  assumes "box_ideal cb" and "schema_ok search fs" and "saved_ok search fs vals"
    and "written fs cb fresh key vals = Inr d"
  shows "map_of (merge_loaded fs cb key d (defaults fs)) = map_of vals"
proof
  fix k
  have dist: "distinct (map fst d)"
    using written_map_of [OF assms(4)] assms(3) by (simp add: saved_ok_def)
  show "map_of (merge_loaded fs cb key d (defaults fs)) k = map_of vals k"
  proof (cases "field_of fs k")
    case None
    moreover from this have "map_of vals k = None"
      using assms(3) unfolding saved_ok_def by blast
    ultimately show ?thesis using map_of_defaults [OF assms(2), of k]
      by (simp add: map_of_merge_loaded [OF dist])
  next
    case (Some f)
    then have ok: "value_ok search f (dget vals k)" using assms(3) by (simp add: saved_ok_def)
    show ?thesis
    proof (cases "map_of vals k")
      case None
      then have "default f = JNull" using ok by (auto simp: value_ok_def dget_def is_unset_def)
      then show ?thesis using None Some written_map_of [OF assms(4), of k]
        by (simp add: map_of_merge_loaded [OF dist] map_of_defaults [OF assms(2)])
    next
      case v: (Some v)
      then obtain w where w: "map_of d k = Some w" "write_value fs cb fresh key (k, v) = Inr (k, w)"
        using written_map_of [OF assms(4), of k] by auto
      have "value_ok search f v" using ok v by (simp add: dget_def)
      moreover from written_value_reads_back [OF assms(1) Some this w(2)]
      have "decrypt_loaded cb key w = v" by simp
      ultimately show ?thesis using v w Some
        by (auto simp: map_of_merge_loaded [OF dist] value_ok_def)
    qed
  qed
qed

lemma distinct_merge_loaded:
  "distinct (map fst merged) \<Longrightarrow> distinct (map fst (merge_loaded fs cb key d merged))"
  by (induction fs cb key d merged rule: merge_loaded.induct)
    (auto simp: Let_def distinct_update split: option.split)

lemma saved_ok_cong:
  "map_of d = map_of d' \<Longrightarrow> distinct (map fst d) \<Longrightarrow> saved_ok search fs d' \<Longrightarrow> saved_ok search fs d"
  by (simp add: saved_ok_def dget_def)


subsection \<open>Runs of the store\<close>

lemma patch_loop_ok:
  assumes "schema_ok search fs" and "saved_ok search fs (saved s)"
    and "patch_loop fs search managed patch s r = (res, s')"
  shows "saved_ok search fs (saved s') \<and> s' = s\<lparr>saved := saved s'\<rparr>"
  using assms
proof (induction fs search managed patch s r rule: patch_loop.induct)
  case (2 fs search managed k v rest s r)
  show ?case
  proof (cases "check_patch fs search managed k v")
    case (Inr c)
    show ?thesis
    proof (cases c)
      case (Inr fv)
      obtain f w where fv: "fv = (f, w)" by force
      have f: "field_of fs k = Some f" and v: "validate_value search f v = Inr None"
          "w = (if is_unset f v then default f else v)"
        using \<open>check_patch fs search managed k v = Inr c\<close> Inr fv
        by (auto simp: check_patch_def result_simps split: option.splits if_splits)
      then have "value_ok search f w"
        using value_ok_default [OF "2.prems"(1) conjunct1 [OF field_ofD [OF f]]]
        by (cases "is_unset f v") (simp_all add: value_ok_def)
      with f show ?thesis
        using 2 Inr fv \<open>check_patch fs search managed k v = Inr c\<close> saved_ok_update by fastforce
    qed (use 2 Inr in simp)
  qed (use 2 in simp)
qed simp


definition disk_ok ::
  "(string \<Rightarrow> string \<Rightarrow> bool) \<Rightarrow> config_field list \<Rightarrow> crypto_box \<Rightarrow> string option \<Rightarrow> json option \<Rightarrow> bool"
where
  "disk_ok search fs cb key doc \<longleftrightarrow>
     (\<forall>j. doc = Some j \<longrightarrow>
        (\<exists>fresh vals d. saved_ok search fs vals \<and> written fs cb fresh key vals = Inr d \<and> j = JObj d))"

definition store_ok :: "(string \<Rightarrow> string \<Rightarrow> bool) \<Rightarrow> config_field list \<Rightarrow> crypto_box \<Rightarrow> store \<Rightarrow> bool" where
  "store_ok search fs cb s \<longleftrightarrow>
     saved_ok search fs (saved s) \<and> disk_ok search fs cb (master_key s) (disk s)"

text \<open>A PATCH, with whatever keys are managed then, and a restart of the process on its own file
  and key.\<close>

inductive store_step ::
  "(string \<Rightarrow> string \<Rightarrow> bool) \<Rightarrow> config_field list \<Rightarrow> crypto_box \<Rightarrow> store \<Rightarrow> store \<Rightarrow> bool"
for search fs cb where
  patched: "store_step search fs cb s (snd (apply_patch fs cb fresh search managed patch s))"
| restarted: "store_step search fs cb s
    (snd (load fs cb fresh (new_store fs (master_key s) (disk s))))"

lemma write_locked_ok:
  "saved_ok search fs (saved s) \<Longrightarrow> disk_ok search fs cb (master_key s) (disk s) \<Longrightarrow>
    write_locked fs cb fresh s = (res, s') \<Longrightarrow>
    store_ok search fs cb s' \<and> saved s' = saved s \<and> master_key s' = master_key s"
  by (cases "written fs cb fresh (master_key s) (saved s)")
    (simp_all add: write_locked_def store_ok_def, unfold disk_ok_def, force)

lemma apply_patch_ok:
  assumes "schema_ok search fs" and "store_ok search fs cb s"
    and "apply_patch fs cb fresh search managed patch s = (res, s')"
  shows "store_ok search fs cb s'"
proof -
  obtain lr ls where loop: "patch_loop fs search managed patch s
      \<lparr>applied = [], rejected = [], pending = []\<rparr> = (lr, ls)"
    by force
  then have ls: "saved_ok search fs (saved ls)" "ls = s\<lparr>saved := saved ls\<rparr>"
    using patch_loop_ok [OF assms(1)] assms(2) by (auto simp: store_ok_def)
  have "master_key ls = master_key s" "disk ls = disk s" by (subst ls(2), simp)+
  then have ok: "disk_ok search fs cb (master_key ls) (disk ls)"
    using assms(2) by (simp add: store_ok_def)
  obtain wr ws where w: "write_locked fs cb fresh ls = (wr, ws)" by force
  have "s' = ls \<or> s' = ws"
    using assms(3) loop w by (auto simp: apply_patch_def split: sum.splits if_splits)
  then show ?thesis using write_locked_ok [OF ls(1) ok w] ls(1) ok by (auto simp: store_ok_def)
qed

lemma load_ok:
  assumes "box_ideal cb" and "schema_ok search fs" and "store_ok search fs cb s"
    and "load fs cb fresh s = (res, s')"
  shows "store_ok search fs cb s' \<and> master_key s' = master_key s"
proof (cases "disk s")
  case None
  let ?s = "s\<lparr>saved := defaults fs\<rparr>"
  obtain wr ws where w: "write_locked fs cb fresh ?s = (wr, ws)" by force
  have "store_ok search fs cb ws \<and> saved ws = saved ?s \<and> master_key ws = master_key ?s"
    using w defaults_ok [OF assms(2)] assms(3) None
    by (intro write_locked_ok) (auto simp: store_ok_def)
  then show ?thesis using assms(4) None w
    by (auto simp: load_def store_ok_def split: sum.splits)
next
  case (Some j)
  then obtain fr vals d where d: "saved_ok search fs vals" "j = JObj d"
      "written fs cb fr (master_key s) vals = Inr d"
    using assms(3) by (auto simp: store_ok_def disk_ok_def)
  let ?m = "merge_loaded fs cb (master_key s) d (defaults fs)"
  have "saved_ok search fs ?m"
    using read_back [OF assms(1,2) d(1,3)] distinct_merge_loaded [OF distinct_defaults] d(1)
    by (rule saved_ok_cong)
  moreover have "s' = s\<lparr>saved := ?m, started := ?m\<rparr>"
    using assms(4) Some d(2) by (cases "d = []") (auto simp: load_def truthy_def Let_def)
  ultimately show ?thesis using assms(3) by (simp add: store_ok_def)
qed

interpretation cs: step_system "store_step search fs cb"
  "\<lambda>s. schema_ok search fs \<and> box_ideal cb \<and> store_ok search fs cb s" for search fs cb
proof
  fix s t
  assume "store_step search fs cb s t"
    and "schema_ok search fs \<and> box_ideal cb \<and> store_ok search fs cb s"
  then show "schema_ok search fs \<and> box_ideal cb \<and> store_ok search fs cb t"
  proof (induction rule: store_step.induct)
    case (patched s fresh managed patch)
    then show ?case using apply_patch_ok by (metis prod.collapse)
  next
    case (restarted s fresh)
    then have "store_ok search fs cb (new_store fs (master_key s) (disk s))"
      using defaults_ok by (simp add: new_store_def store_ok_def)
    then show ?case using restarted load_ok by (metis prod.collapse)
  qed
qed

lemma FIELDS_ok: "schema_ok search FIELDS"
  by (simp add: schema_ok_def FIELDS_eq Let_def plain_field_def shown_for_def field_of_def
      validate_value_def out_of_range_def provider_field_def PROVIDERS_def plain_provider_def
      strip_def lstrip_def rstrip_def is_space_def)

subsection \<open>Properties\<close>

definition first_start :: "crypto_box \<Rightarrow> (string \<Rightarrow> string) \<Rightarrow> string option \<Rightarrow> store" where
  "first_start cb fresh key = snd (load FIELDS cb fresh (new_store FIELDS key None))"

lemma first_start_ok: "box_ideal cb \<Longrightarrow> store_ok search FIELDS cb (first_start cb fresh key)"
proof -
  assume "box_ideal cb"
  moreover have "store_ok search FIELDS cb (new_store FIELDS key None)"
    using defaults_ok [OF FIELDS_ok] by (simp add: new_store_def store_ok_def disk_ok_def)
  ultimately show ?thesis
    using load_ok [OF _ FIELDS_ok] unfolding first_start_def by (metis prod.collapse)
qed

lemma reachable_store_ok:
  "box_ideal cb \<Longrightarrow> reaches (store_step search FIELDS cb) (first_start cb fresh key) s \<Longrightarrow>
    store_ok search FIELDS cb s"
  using cs.reaches_inv [of search FIELDS cb] FIELDS_ok first_start_ok by blast

text \<open>C14. Whatever PATCHes a driver is sent, accepted, refused or cut short by an error, and however
  often it restarts on its file, every setting it runs on is one its field accepts, and an
  unset one is its default.\<close>

theorem settings_always_valid:
  assumes "box_ideal cb" and "reaches (store_step search FIELDS cb) (first_start cb fresh key) s"
    and "field_of FIELDS k = Some f"
  shows "validate_value search f (dget (saved s) k) = Inr None \<and>
    (is_unset f (dget (saved s) k) \<longrightarrow> dget (saved s) k = default f)"
  using reachable_store_ok [OF assms(1,2)] assms(3)
  by (simp add: store_ok_def saved_ok_def value_ok_def)

text \<open>C15. A PATCH that reports a key applied is on disk: a restart on the file comes back to the same
  settings, the secrets among them, sealed on disk or not.\<close>

theorem config_round_trip:
  assumes "box_ideal cb" and "reaches (store_step search FIELDS cb) (first_start cb fresh key) s"
    and "apply_patch FIELDS cb fr search managed patch s = (Inr r, s')" and "applied r \<noteq> []"
  shows "fst (load FIELDS cb fr' (new_store FIELDS (master_key s') (disk s'))) = Inr () \<and>
    map_of (saved (snd (load FIELDS cb fr' (new_store FIELDS (master_key s') (disk s'))))) =
      map_of (saved s')"
proof -
  have "store_ok search FIELDS cb s'"
    using apply_patch_ok [OF FIELDS_ok reachable_store_ok [OF assms(1,2)] assms(3)] .
  then have ok: "saved_ok search FIELDS (saved s')" by (simp add: store_ok_def)
  obtain ls where "write_locked FIELDS cb fr ls = (Inr (), s')"
    using assms(3,4) by (auto simp: apply_patch_def split: prod.splits sum.splits if_splits)
  then obtain d where d: "disk s' = Some (JObj d)"
      "written FIELDS cb fr (master_key s') (saved s') = Inr d"
    by (auto simp: write_locked_def split: sum.splits)
  show ?thesis
    using read_back [OF assms(1) FIELDS_ok ok d(2)] d(1)
    by (cases "d = []") (simp_all add: load_def new_store_def truthy_def Let_def)
qed

definition same_but_secret :: "string \<times> json \<Rightarrow> string \<times> json \<Rightarrow> bool" where
  "same_but_secret e e' \<longleftrightarrow>
     fst e = fst e' \<and>
     (snd e = snd e' \<or>
      (snd e \<noteq> JNull \<and> snd e' \<noteq> JNull \<and>
       (case field_of FIELDS (fst e) of Some f \<Rightarrow> sensitive f | None \<Rightarrow> False)))"

text \<open>C16. What \<open>GET\<close> shows does not depend on a secret: two stores that differ only in the value of
  secrets that are set give the same document.\<close>

theorem secrets_not_shown:
  assumes "list_all2 same_but_secret (saved s) (saved s')"
  shows "as_document FIELDS s = as_document FIELDS s'"
  using assms unfolding as_document_def
  by (induction rule: list_all2_induct) (auto simp: same_but_secret_def split: option.splits)

text \<open>A PATCH with an integer too large for a float raises on it, and the keys before it are then
  in effect in the process though the file was not written: after a restart they are gone.\<close>

theorem failed_patch_not_saved:
  assumes "field_of FIELDS k = Some f" and "validate_value search f v = Inr None"
    and "k \<notin> managed" and "\<not> is_unset f v" and "int_overflows i"
  shows "\<exists>s'. apply_patch FIELDS cb fresh search managed
      [(k, v), (''requestTimeoutSeconds'', JInt i)] s = (Inl OverflowError, s') \<and>
    dget (saved s') k = v \<and> disk s' = disk s"
proof -
  obtain g where g: "field_of FIELDS ''requestTimeoutSeconds'' = Some g" "value_type g = VDuration"
    by (simp add: FIELDS_eq Let_def plain_field_def shown_for_def provider_field_def field_of_def)
  have "check_patch FIELDS search managed ''requestTimeoutSeconds'' (JInt i) = Inl OverflowError"
    using g assms(5) by (simp add: check_patch_def validate_value_def)
  moreover have "check_patch FIELDS search managed k v = Inr (Inr (f, v))"
    using assms(1-4) by (simp add: check_patch_def)
  ultimately show ?thesis by (simp add: apply_patch_def dget_update)
qed

subsection \<open>Instances\<close>

text \<open>A box that keeps the text as it is, for the witnesses.\<close>

definition demo_box :: crypto_box where
  "demo_box = \<lparr>box_seal = (\<lambda>_ _ s. s), box_open = (\<lambda>_ _ c. Some c)\<rparr>"

lemma settings_demo_ideal: "box_ideal demo_box"
  by (simp add: box_ideal_def demo_box_def)

lemma logLevel_field:
  "\<exists>f. field_of FIELDS ''logLevel'' = Some f \<and> value_type f = VEnum \<and> default f = JStr ''INFO'' \<and>
    enum_values f = [''DEBUG'', ''INFO'', ''WARNING'', ''ERROR''] \<and> \<not> sensitive f"
  by (simp add: FIELDS_eq Let_def plain_field_def shown_for_def provider_field_def field_of_def)

theorem settings_always_valid_witness:
  "validate_value (\<lambda>_ _. False) (the (field_of FIELDS ''logLevel''))
    (dget (saved (first_start demo_box id None)) ''logLevel'') = Inr None"
  using settings_always_valid [OF settings_demo_ideal reaches_refl] logLevel_field by (metis option.sel)

lemma written_plain: "written fs cb fresh None vals = Inr vals"
  by (induction vals)
    (auto simp: written_def write_value_def split: json.splits option.splits)

lemma load_key: "master_key (snd (load fs cb fresh s)) = master_key s"
  by (auto simp: load_def write_locked_def Let_def split: option.splits sum.splits json.splits)

lemma demo_key: "master_key (first_start demo_box id None) = None"
  by (simp add: first_start_def load_key new_store_def)

lemma demo_patch:
  assumes "master_key s = None"
  shows "\<exists>r s'. apply_patch FIELDS demo_box id (\<lambda>_ _. False) {} [(''logLevel'', JStr ''DEBUG'')] s =
    (Inr r, s') \<and> applied r \<noteq> [] \<and> map_of (saved s') ''logLevel'' = Some (JStr ''DEBUG'')"
proof -
  obtain f where f: "field_of FIELDS ''logLevel'' = Some f" "value_type f = VEnum"
      "enum_values f = [''DEBUG'', ''INFO'', ''WARNING'', ''ERROR'']"
    using logLevel_field by blast
  then have "check_patch FIELDS (\<lambda>_ _. False) {} ''logLevel'' (JStr ''DEBUG'') =
      Inr (Inr (f, JStr ''DEBUG''))"
    by (simp add: check_patch_def validate_value_def is_unset_def)
  then show ?thesis using assms
    by (simp add: apply_patch_def write_locked_def written_plain update_conv')
qed

definition demo_after :: store where
  "demo_after = snd (apply_patch FIELDS demo_box id (\<lambda>_ _. False) {} [(''logLevel'', JStr ''DEBUG'')]
     (first_start demo_box id None))"

theorem config_round_trip_witness:
  "map_of (saved (snd (load FIELDS demo_box id (new_store FIELDS (master_key demo_after) (disk demo_after)))))
    ''logLevel'' = Some (JStr ''DEBUG'')"
proof -
  obtain r where p: "apply_patch FIELDS demo_box id (\<lambda>_ _. False) {} [(''logLevel'', JStr ''DEBUG'')]
      (first_start demo_box id None) = (Inr r, demo_after)" "applied r \<noteq> []"
    "map_of (saved demo_after) ''logLevel'' = Some (JStr ''DEBUG'')"
    using demo_patch [OF demo_key] by (auto simp: demo_after_def)
  show ?thesis
    using config_round_trip [OF settings_demo_ideal reaches_refl p(1,2), THEN conjunct2, of id] p(3) by simp
qed

theorem secrets_not_shown_witness:
  "as_document FIELDS (new_store FIELDS None None\<lparr>saved := [(''apiKey'', JStr ''a'')]\<rparr>) =
   as_document FIELDS (new_store FIELDS None None\<lparr>saved := [(''apiKey'', JStr ''b'')]\<rparr>)"
proof (rule secrets_not_shown)
  have "\<exists>f. field_of FIELDS ''apiKey'' = Some f \<and> sensitive f"
    by (simp add: FIELDS_eq Let_def plain_field_def shown_for_def provider_field_def field_of_def)
  then show "list_all2 same_but_secret
      (saved (new_store FIELDS None None\<lparr>saved := [(''apiKey'', JStr ''a'')]\<rparr>))
      (saved (new_store FIELDS None None\<lparr>saved := [(''apiKey'', JStr ''b'')]\<rparr>))"
    by (auto simp: same_but_secret_def)
qed

theorem failed_patch_not_saved_witness:
  "\<exists>s'. apply_patch FIELDS demo_box id (\<lambda>_ _. False) {}
      [(''logLevel'', JStr ''DEBUG''), (''requestTimeoutSeconds'', JInt (2 ^ 1024))]
      (first_start demo_box id None) = (Inl OverflowError, s') \<and>
    dget (saved s') ''logLevel'' = JStr ''DEBUG'' \<and>
    disk s' = disk (first_start demo_box id None)"
proof -
  obtain f where f: "field_of FIELDS ''logLevel'' = Some f" "value_type f = VEnum"
      "enum_values f = [''DEBUG'', ''INFO'', ''WARNING'', ''ERROR'']"
    using logLevel_field by blast
  show ?thesis
    using f by (intro failed_patch_not_saved [OF f(1)])
      (simp_all add: validate_value_def is_unset_def int_overflows_def)
qed

end
