(* ===== verification/Openai_Wire.thy ===== *)
theory Openai_Wire
  imports Py_Prelude "HOL-Library.AList" "HOL-Library.Multiset"
begin

text \<open>
  The OpenAI wire format (the functions at the end of \<open>engines/openai_compat_http.py\<close>): messages
  going up, tool calls in both directions, embeddings, rerank scores and usage coming back.
  Documents are \<^typ>\<open>json\<close> values. \<open>str\<close> and \<open>float\<close> of a value and the random ids are
  parameters.
\<close>

record outside =
  str_of :: "json \<Rightarrow> string"
  float_of :: "json \<Rightarrow> pyfloat option"

text \<open>\<open>str(v)\<close>, which is the string itself for a string.\<close>

definition text_of :: "outside \<Rightarrow> json \<Rightarrow> string" where
  "text_of ou v = (case v of JStr s \<Rightarrow> s | _ \<Rightarrow> str_of ou v)"

datatype wire_error = CliError string | ValidationError | TypeError | OverflowError | AttributeError | ValueError

subsection \<open>Messages going up\<close>

datatype role = System | User | Assistant | Tool | OtherRole

record message =
  msg_role :: role
  content :: json
  tool_calls :: "dict list option"
  tool_call_id :: "string option"
  reasoning :: "string option"

definition or_empty :: "json \<Rightarrow> json" where
  "or_empty v = (if truthy v then v else JStr [])"

definition as_dict :: "json \<Rightarrow> dict" where
  "as_dict v = (case v of JObj d \<Rightarrow> d | _ \<Rightarrow> [])"

text \<open>\<open>_tool_call_to_wire\<close> of a dict, the one form \<open>Message.toolCalls\<close> holds.\<close>

definition tool_call_to_wire :: "dict \<Rightarrow> json" where
  "tool_call_to_wire call =
     (let fn = as_dict (dget call ''function'')
      in JObj [(''id'', or_empty (dget call ''id'')), (''type'', JStr ''function''),
               (''function'', JObj [(''name'', or_empty (dget fn ''name'')),
                                   (''arguments'', or_empty (dget fn ''arguments''))])])"

text \<open>One message, before the results are put in order.\<close>

definition message_to_wire :: "bool \<Rightarrow> string \<Rightarrow> message \<Rightarrow> dict" where
  "message_to_wire send_reasoning reasoning_key m =
     (case msg_role m of
        System \<Rightarrow> [(''role'', JStr ''system''), (''content'', or_empty (content m))]
      | Assistant \<Rightarrow>
          [(''role'', JStr ''assistant''), (''content'', content m)]
          @ (case tool_calls m of
               Some (c # cs) \<Rightarrow> [(''tool_calls'', JList (map tool_call_to_wire (c # cs)))]
             | _ \<Rightarrow> [])
          @ (case reasoning m of
               Some (r # rs) \<Rightarrow> if send_reasoning then [(reasoning_key, JStr (r # rs))] else []
             | _ \<Rightarrow> [])
      | Tool \<Rightarrow>
          [(''role'', JStr ''tool''), (''content'', or_empty (content m)),
           (''tool_call_id'', JStr (case tool_call_id m of None \<Rightarrow> [] | Some i \<Rightarrow> i))]
      | _ \<Rightarrow> [(''role'', JStr ''user''), (''content'', or_empty (content m))])"

text \<open>\<open>position\<close>: the place of each id among an assistant's calls.\<close>

fun put :: "json \<Rightarrow> nat \<Rightarrow> (json \<times> nat) list \<Rightarrow> (json \<times> nat) list" where
  "put k n [] = [(k, n)]"
| "put k n ((k', m) # ps) = (if py_eq k' k then (k', n) # ps else (k', m) # put k n ps)"

fun positions :: "nat \<Rightarrow> json list \<Rightarrow> (json \<times> nat) list \<Rightarrow> wire_error + (json \<times> nat) list" where
  "positions n [] ps = Inr ps"
| "positions n (c # cs) ps =
     (let i = dget (as_dict c) ''id''
      in if \<not> truthy i then positions (Suc n) cs ps
         else if \<not> hashable i then Inl TypeError
         else positions (Suc n) cs (put i n ps))"

definition rank :: "(json \<times> nat) list \<Rightarrow> dict \<Rightarrow> nat" where
  "rank ps m =
     (case List.find (\<lambda>(k, _). py_eq k (dget m ''tool_call_id'')) ps of
        Some (_, n) \<Rightarrow> n
      | None \<Rightarrow> length ps)"

definition is_tool :: "dict \<Rightarrow> bool" where
  "is_tool m \<longleftrightarrow> dget m ''role'' = JStr ''tool''"

text \<open>The calls an assistant message carries, empty for any other message.\<close>

definition calls_of :: "dict \<Rightarrow> json list" where
  "calls_of m =
     (if dget m ''role'' = JStr ''assistant''
      then case dget m ''tool_calls'' of JList cs \<Rightarrow> cs | _ \<Rightarrow> []
      else [])"

function results_in_call_order :: "dict list \<Rightarrow> wire_error + dict list" where
  "results_in_call_order [] = Inr []"
| "results_in_call_order (m # rest) =
     (if calls_of m = [] then
        and_then (results_in_call_order rest) (\<lambda>out. Inr (m # out))
      else
        and_then (positions 0 (calls_of m) []) (\<lambda>ps.
        and_then (results_in_call_order (dropWhile is_tool rest)) (\<lambda>out.
          Inr (m # sort_key (rank ps) (takeWhile is_tool rest) @ out))))"
  by pat_completeness auto
termination
  by (relation "measure length") (auto simp: le_imp_less_Suc length_dropWhile_le)

definition to_openai_messages ::
  "bool \<Rightarrow> string \<Rightarrow> bool \<Rightarrow> message list \<Rightarrow> wire_error + dict list"
where
  "to_openai_messages send_reasoning reasoning_key in_order messages =
     (let out = map (message_to_wire send_reasoning reasoning_key) messages
      in if in_order then results_in_call_order out else Inr out)"

subsection \<open>Tool calls coming back\<close>

record function_call =
  fn_name :: string
  arguments :: string

record tool_call =
  call_id :: string
  call_function :: function_call

record call_delta =
  delta_index :: int
  delta_id :: "string option"
  delta_function :: "(string option \<times> string option) option"

text \<open>The index of a fragment: its own when it is an integer, else its place in the frame.\<close>

definition index_of :: "nat \<Rightarrow> dict \<Rightarrow> int" where
  "index_of position item =
     (case dget item ''index'' of
        JInt i \<Rightarrow> i
      | JBool b \<Rightarrow> (if b then 1 else 0)
      | _ \<Rightarrow> int position)"

text \<open>A field the contract types as a string or nothing.\<close>

definition opt_str :: "json \<Rightarrow> wire_error + string option" where
  "opt_str v = (case v of JNull \<Rightarrow> Inr None | JStr s \<Rightarrow> Inr (Some s) | _ \<Rightarrow> Inl ValidationError)"

definition delta_from :: "nat \<Rightarrow> dict \<Rightarrow> wire_error + call_delta" where
  "delta_from position item =
     (let fn = as_dict (dget item ''function'')
      in and_then (if fn = [] then Inr None
                   else and_then (opt_str (dget fn ''name'')) (\<lambda>n.
                        and_then (opt_str (dget fn ''arguments'')) (\<lambda>a. Inr (Some (n, a))))) (\<lambda>f.
         and_then (opt_str (dget item ''id'')) (\<lambda>i.
           Inr \<lparr>delta_index = index_of position item, delta_id = i, delta_function = f\<rparr>)))"

fun deltas_from :: "nat \<Rightarrow> json list \<Rightarrow> wire_error + call_delta list" where
  "deltas_from n [] = Inr []"
| "deltas_from n (JObj item # rest) =
     and_then (delta_from n item) (\<lambda>d. and_then (deltas_from (Suc n) rest) (\<lambda>ds. Inr (d # ds)))"
| "deltas_from n (_ # rest) = deltas_from (Suc n) rest"

definition tool_call_deltas_from_wire :: "json \<Rightarrow> wire_error + call_delta list" where
  "tool_call_deltas_from_wire raw = (case raw of JList items \<Rightarrow> deltas_from 0 items | _ \<Rightarrow> Inr [])"

text \<open>\<open>model_dump(mode="json", exclude_none=True)\<close> of a fragment.\<close>

definition dump_delta :: "call_delta \<Rightarrow> json" where
  "dump_delta d =
     JObj ([(''index'', JInt (delta_index d))]
       @ (case delta_id d of None \<Rightarrow> [] | Some i \<Rightarrow> [(''id'', JStr i)])
       @ [(''type'', JStr ''function'')]
       @ (case delta_function d of
            None \<Rightarrow> []
          | Some (n, a) \<Rightarrow>
              [(''function'', JObj ((case n of None \<Rightarrow> [] | Some s \<Rightarrow> [(''name'', JStr s)])
                 @ (case a of None \<Rightarrow> [] | Some s \<Rightarrow> [(''arguments'', JStr s)])))]))"

text \<open>A call being assembled.\<close>

record slot =
  slot_id :: string
  slot_name :: string
  slot_args :: string

definition empty_slot :: slot where
  "empty_slot = \<lparr>slot_id = [], slot_name = [], slot_args = []\<rparr>"

definition slot_at :: "(int \<times> slot) list \<Rightarrow> int \<Rightarrow> slot" where
  "slot_at parts k = (case map_of parts k of Some s \<Rightarrow> s | None \<Rightarrow> empty_slot)"

definition fold_item :: "outside \<Rightarrow> dict \<Rightarrow> slot \<Rightarrow> slot" where
  "fold_item ou item s =
     (let i = dget item ''id'';
          s = (if truthy i then s\<lparr>slot_id := text_of ou i\<rparr> else s);
          fn = as_dict (dget item ''function'');
          s = (if truthy (dget fn ''name'') then s\<lparr>slot_name := text_of ou (dget fn ''name'')\<rparr> else s)
      in if truthy (dget fn ''arguments'')
         then s\<lparr>slot_args := slot_args s @ text_of ou (dget fn ''arguments'')\<rparr> else s)"

fun accumulate_items :: "outside \<Rightarrow> nat \<Rightarrow> json list \<Rightarrow> (int \<times> slot) list \<Rightarrow> (int \<times> slot) list" where
  "accumulate_items ou n [] parts = parts"
| "accumulate_items ou n (JObj item # rest) parts =
     accumulate_items ou (Suc n) rest
       (AList.update (index_of n item) (fold_item ou item (slot_at parts (index_of n item))) parts)"
| "accumulate_items ou n (_ # rest) parts = accumulate_items ou (Suc n) rest parts"

definition accumulate_tool_calls :: "outside \<Rightarrow> json \<Rightarrow> (int \<times> slot) list \<Rightarrow> (int \<times> slot) list" where
  "accumulate_tool_calls ou raw parts =
     (case raw of JList items \<Rightarrow> accumulate_items ou 0 items parts | _ \<Rightarrow> parts)"

text \<open>\<open>new_id\<close> names a call the backend sent without an id.\<close>

definition finish_tool_calls :: "(int \<Rightarrow> string) \<Rightarrow> (int \<times> slot) list \<Rightarrow> tool_call list" where
  "finish_tool_calls new_id parts =
     map (\<lambda>(k, s). \<lparr>call_id = (if slot_id s = [] then new_id k else slot_id s),
            call_function = \<lparr>fn_name = slot_name s, arguments = slot_args s\<rparr>\<rparr>)
       (filter (\<lambda>(_, s). slot_name s \<noteq> []) (sort_key fst parts))"

text \<open>\<open>_tool_calls_from_wire\<close>: the calls of an answer that came whole.\<close>

definition call_from :: "outside \<Rightarrow> string \<Rightarrow> json \<Rightarrow> tool_call option" where
  "call_from ou new_id item =
     (case item of
        JObj d \<Rightarrow>
          let fn = as_dict (dget d ''function'');
              i = dget d ''id''; a = dget fn ''arguments''
          in if \<not> truthy (dget fn ''name'') then None
             else Some \<lparr>call_id = (if truthy i then text_of ou i else new_id),
                    call_function = \<lparr>fn_name = text_of ou (dget fn ''name''),
                      arguments = (if truthy a then text_of ou a else [])\<rparr>\<rparr>
      | _ \<Rightarrow> None)"

definition tool_calls_from_wire :: "outside \<Rightarrow> (nat \<Rightarrow> string) \<Rightarrow> json \<Rightarrow> tool_call list" where
  "tool_calls_from_wire ou new_id raw =
     (case raw of
        JList items \<Rightarrow>
          List.map_filter (\<lambda>(n, item). call_from ou (new_id n) item) (enumerate 0 items)
      | _ \<Rightarrow> [])"

subsection \<open>One tool forced by a schema\<close>

record tool =
  tool_name :: string
  description :: string
  parameters :: dict

definition without :: "string list \<Rightarrow> dict \<Rightarrow> dict" where
  "without ks d = filter (\<lambda>e. fst e \<notin> set ks) d"

definition forced_line :: "tool \<Rightarrow> string" where
  "forced_line t =
     ''Call the function `'' @ tool_name t @ ''` now'' @
     (if description t = [] then [] else '': '' @ description t) @
     ''. Reply with its arguments only, as a JSON object.''"

text \<open>The line joins the first system message, or becomes one.\<close>

definition with_line :: "string \<Rightarrow> json list \<Rightarrow> json list" where
  "with_line line messages =
     (case messages of
        JObj first # rest \<Rightarrow>
          if dget first ''role'' = JStr ''system'' then
            JObj (AList.update ''content''
              (case dget first ''content'' of
                 JList parts \<Rightarrow>
                   JList (parts @ [JObj [(''type'', JStr ''text''), (''text'', JStr line)]])
               | JStr (c # cs) \<Rightarrow> JStr (c # cs @ ''\<newline>\<newline>'' @ line)
               | _ \<Rightarrow> JStr line) first) # rest
          else JObj [(''role'', JStr ''system''), (''content'', JStr line)] # messages
      | _ \<Rightarrow> JObj [(''role'', JStr ''system''), (''content'', JStr line)] # messages)"

definition force_by_schema :: "dict \<Rightarrow> tool \<Rightarrow> dict" where
  "force_by_schema payload t =
     (let p = without [''tools'', ''tool_choice'', ''parallel_tool_calls''] payload;
          schema = (if parameters t = [] then [(''type'', JStr ''object'')] else parameters t);
          p = AList.update ''response_format''
            (JObj [(''type'', JStr ''json_schema''),
                   (''json_schema'', JObj [(''name'', JStr (tool_name t)), (''schema'', JObj schema)])]) p
      in case dget p ''messages'' of
           JList ms \<Rightarrow> AList.update ''messages'' (JList (with_line (forced_line t) ms)) p
         | _ \<Rightarrow> p)"

text \<open>\<open>loads\<close> is \<open>json.loads\<close>.\<close>

definition forced_call ::
  "(string \<Rightarrow> loaded) \<Rightarrow> string \<Rightarrow> tool \<Rightarrow> string option \<Rightarrow> string option \<Rightarrow> tool_call option"
where
  "forced_call loads new_id t text finish =
     (if finish = Some ''length'' then None
      else case text of
             None \<Rightarrow> None
           | Some c \<Rightarrow>
               (case loads c of
                  Loaded (JObj _) \<Rightarrow>
                    Some \<lparr>call_id = new_id, call_function = \<lparr>fn_name = tool_name t, arguments = strip c\<rparr>\<rparr>
                | _ \<Rightarrow> None))"

subsection \<open>Embeddings\<close>

text \<open>\<open>float(x)\<close> and what it raises.\<close>

definition to_float :: "outside \<Rightarrow> json \<Rightarrow> wire_error + pyfloat" where
  "to_float ou v =
     (let read = from_option (case v of JStr _ \<Rightarrow> ValueError | _ \<Rightarrow> TypeError) (float_of ou v)
      in case v of JInt i \<Rightarrow> if int_overflows i then Inl OverflowError else read | _ \<Rightarrow> read)"

fun floats :: "outside \<Rightarrow> json list \<Rightarrow> wire_error + pyfloat list" where
  "floats ou [] = Inr []"
| "floats ou (x # xs) = and_then (to_float ou x) (\<lambda>q. and_then (floats ou xs) (\<lambda>qs. Inr (q # qs)))"

definition embedding_row :: "outside \<Rightarrow> nat \<Rightarrow> json \<Rightarrow> wire_error + int \<times> pyfloat list" where
  "embedding_row ou position entry =
     (case entry of
        JObj d \<Rightarrow>
          (case dget d ''embedding'' of
             JStr _ \<Rightarrow> Inl (CliError ''base64 embedding'')
           | JList (x # xs) \<Rightarrow>
               and_then (floats ou (x # xs)) (\<lambda>v. Inr (index_of position d, v))
           | _ \<Rightarrow> Inl (CliError ''malformed embedding''))
      | _ \<Rightarrow> Inl (CliError ''malformed embedding entry''))"

definition vectors_from_envelope ::
  "outside \<Rightarrow> json \<Rightarrow> nat \<Rightarrow> wire_error + pyfloat list list"
where
  "vectors_from_envelope ou body expected =
     (case dget (as_dict body) ''data'' of
        JList (x # xs) \<Rightarrow>
          and_then (collect (\<lambda>(n, entry). embedding_row ou n entry) (enumerate 0 (x # xs))) (\<lambda>rows.
            if length rows \<noteq> expected then Inl (CliError ''wrong number of embeddings'')
            else Inr (map snd (sort_key fst rows)))
      | _ \<Rightarrow> Inl (CliError ''no embeddings''))"

subsection \<open>Rerank scores\<close>

text \<open>\<open>_number\<close>; \<open>math.isfinite\<close> of an integer past the float range raises.\<close>

definition number :: "outside \<Rightarrow> json \<Rightarrow> wire_error + pyfloat option" where
  "number ou v =
     (case v of
        JInt i \<Rightarrow> if int_overflows i then Inl OverflowError else Inr (float_of ou v)
      | JFloat (Finite x) \<Rightarrow> Inr (Some (Finite x))
      | _ \<Rightarrow> Inr None)"

definition probe_scores :: "outside \<Rightarrow> json \<Rightarrow> wire_error + pyfloat list" where
  "probe_scores ou body =
     (case dget (as_dict body) ''results'' of
        JList rs \<Rightarrow>
          and_then (collect (\<lambda>r. number ou (dget (as_dict r) ''relevance_score''))
            (filter (\<lambda>r. case r of JObj _ \<Rightarrow> True | _ \<Rightarrow> False) rs)) (\<lambda>xs.
              Inr (List.map_filter id xs))
      | _ \<Rightarrow> Inr [])"

definition malformed_result :: wire_error where
  "malformed_result = CliError ''malformed rerank result''"

fun score_entries ::
  "outside \<Rightarrow> nat \<Rightarrow> json list \<Rightarrow> (int \<times> pyfloat) list \<Rightarrow> wire_error + (int \<times> pyfloat) list"
where
  "score_entries ou passages [] scored = Inr scored"
| "score_entries ou passages (entry # rest) scored =
     and_then (number ou (dget (as_dict entry) ''relevance_score'')) (\<lambda>raw.
       case (dget (as_dict entry) ''index'', raw) of
         (JInt i, Some x) \<Rightarrow>
           if 0 \<le> i \<and> i < int passages \<and> i \<notin> fst ` set scored
           then score_entries ou passages rest (scored @ [(i, x)])
           else Inl malformed_result
       | _ \<Rightarrow> Inl malformed_result)"

definition rerank_scores ::
  "outside \<Rightarrow> json \<Rightarrow> nat \<Rightarrow> nat \<Rightarrow> wire_error + (int \<times> pyfloat) list"
where
  "rerank_scores ou body passages owed =
     (case dget (as_dict body) ''results'' of
        JList (r # rs) \<Rightarrow>
          and_then (score_entries ou passages (r # rs) []) (\<lambda>scored.
            if length scored < owed then Inl (CliError ''missing rerank scores'') else Inr scored)
      | _ \<Rightarrow> Inl (CliError ''no rerank results''))"

subsection \<open>Usage\<close>

record usage =
  prompt_tokens :: "int option"
  completion_tokens :: "int option"
  total_tokens :: "int option"
  cached_prompt_tokens :: "int option"
  reasoning_tokens :: "int option"

definition count :: "json \<Rightarrow> int option" where
  "count v = (case v of JInt i \<Rightarrow> if 0 \<le> i then Some i else None | _ \<Rightarrow> None)"

definition rerank_usage :: "json \<Rightarrow> usage option" where
  "rerank_usage u =
     (case u of
        JObj d \<Rightarrow>
          let p = count (dget d ''prompt_tokens''); t = count (dget d ''total_tokens'')
          in if p = None \<and> t = None then None
             else Some \<lparr>prompt_tokens = p, completion_tokens = None, total_tokens = t,
                    cached_prompt_tokens = None, reasoning_tokens = None\<rparr>
      | _ \<Rightarrow> None)"

definition detail :: "dict \<Rightarrow> string \<Rightarrow> string \<Rightarrow> int option" where
  "detail u part key = count (dget (as_dict (dget u part)) key)"

subsection \<open>Fragments of a call\<close>

text \<open>The fragments of a frame with the index each is for.\<close>

fun indexed :: "nat \<Rightarrow> json list \<Rightarrow> (int \<times> dict) list" where
  "indexed n [] = []"
| "indexed n (JObj item # rest) = (index_of n item, item) # indexed (Suc n) rest"
| "indexed n (_ # rest) = indexed (Suc n) rest"

definition fragments :: "json list \<Rightarrow> (int \<times> dict) list" where
  "fragments frames =
     concat (map (\<lambda>f. case f of JList items \<Rightarrow> indexed 0 items | _ \<Rightarrow> []) frames)"

definition fragments_at :: "json list \<Rightarrow> int \<Rightarrow> dict list" where
  "fragments_at frames k = map snd (filter (\<lambda>e. fst e = k) (fragments frames))"

definition assembled :: "outside \<Rightarrow> json list \<Rightarrow> (int \<times> slot) list" where
  "assembled ou frames = foldl (\<lambda>parts f. accumulate_tool_calls ou f parts) [] frames"

definition add_fragment :: "outside \<Rightarrow> (int \<times> slot) list \<Rightarrow> int \<times> dict \<Rightarrow> (int \<times> slot) list" where
  "add_fragment ou parts e = AList.update (fst e) (fold_item ou (snd e) (slot_at parts (fst e))) parts"

lemma accumulate_items_indexed:
  "accumulate_items ou n items parts = foldl (add_fragment ou) parts (indexed n items)"
  by (induction ou n items parts rule: accumulate_items.induct) (simp_all add: add_fragment_def)

lemma assembled_fragments: "assembled ou frames = foldl (add_fragment ou) [] (fragments frames)"
proof -
  have "foldl (\<lambda>parts f. accumulate_tool_calls ou f parts) ps frames =
      foldl (add_fragment ou) ps (fragments frames)" for ps
    by (induction frames arbitrary: ps)
      (simp_all add: fragments_def accumulate_tool_calls_def accumulate_items_indexed split: json.split)
  then show ?thesis by (simp add: assembled_def)
qed

lemma slot_at_add_fragments:
  "slot_at (foldl (add_fragment ou) parts es) k =
    foldl (\<lambda>s d. fold_item ou d s) (slot_at parts k) (map snd (filter (\<lambda>e. fst e = k) es))"
  by (induction es arbitrary: parts) (auto simp: add_fragment_def slot_at_def update_conv')

lemma slot_at_assembled:
  "slot_at (assembled ou frames) k = foldl (\<lambda>s d. fold_item ou d s) empty_slot (fragments_at frames k)"
  by (simp add: assembled_fragments slot_at_add_fragments fragments_at_def)
    (simp add: slot_at_def)

lemma keys_assembled: "distinct (map fst (assembled ou frames))"
proof -
  have "distinct (map fst ps) \<Longrightarrow> distinct (map fst (foldl (add_fragment ou) ps es))" for ps es
    by (induction es arbitrary: ps) (simp_all add: add_fragment_def distinct_update)
  then show ?thesis by (simp add: assembled_fragments)
qed

text \<open>What a fragment says: each of its three texts, empty when it is not there.\<close>

definition said :: "outside \<Rightarrow> json \<Rightarrow> string" where
  "said ou v = (if truthy v then text_of ou v else [])"

definition frag_id :: "outside \<Rightarrow> dict \<Rightarrow> string" where
  "frag_id ou d = said ou (dget d ''id'')"
definition frag_name :: "outside \<Rightarrow> dict \<Rightarrow> string" where
  "frag_name ou d = said ou (dget (as_dict (dget d ''function'')) ''name'')"
definition frag_args :: "outside \<Rightarrow> dict \<Rightarrow> string" where
  "frag_args ou d = said ou (dget (as_dict (dget d ''function'')) ''arguments'')"

text \<open>The fragments of one call, however it was cut: its id and its name where they are said at all,
  each at least once, and its arguments in pieces.\<close>

definition cuts_call :: "outside \<Rightarrow> tool_call \<Rightarrow> dict list \<Rightarrow> bool" where
  "cuts_call ou c ds \<longleftrightarrow>
     (\<forall>d \<in> set ds. frag_id ou d \<in> {[], call_id c} \<and> frag_name ou d \<in> {[], fn_name (call_function c)}) \<and>
     (\<exists>d \<in> set ds. frag_id ou d = call_id c) \<and>
     (\<exists>d \<in> set ds. frag_name ou d = fn_name (call_function c)) \<and>
     concat (map (frag_args ou) ds) = arguments (call_function c)"

text \<open>\<open>str\<close> of a value that counts as true is not empty.\<close>

definition str_ok :: "outside \<Rightarrow> bool" where
  "str_ok ou \<longleftrightarrow> (\<forall>v. truthy v \<longrightarrow> text_of ou v \<noteq> [])"

lemma fold_item_said:
  assumes "str_ok ou"
  shows "fold_item ou item s =
    \<lparr>slot_id = (if frag_id ou item = [] then slot_id s else frag_id ou item),
     slot_name = (if frag_name ou item = [] then slot_name s else frag_name ou item),
     slot_args = slot_args s @ frag_args ou item\<rparr>"
  using assms
  by (cases s) (auto simp: str_ok_def fold_item_def frag_id_def frag_name_def frag_args_def said_def Let_def)

lemma fold_call:
  assumes "str_ok ou"
    and "\<forall>d \<in> set ds. frag_id ou d \<in> {[], i} \<and> frag_name ou d \<in> {[], n}"
  shows "foldl (\<lambda>s d. fold_item ou d s) s ds =
    \<lparr>slot_id = (if \<exists>d \<in> set ds. frag_id ou d \<noteq> [] then i else slot_id s),
     slot_name = (if \<exists>d \<in> set ds. frag_name ou d \<noteq> [] then n else slot_name s),
     slot_args = slot_args s @ concat (map (frag_args ou) ds)\<rparr>"
  using assms(2)
  by (induction ds arbitrary: s) (simp, simp add: fold_item_said [OF assms(1)], fastforce)

text \<open>The finished calls depend on the assembled slots alone.\<close>

definition finished :: "(int \<Rightarrow> string) \<Rightarrow> int \<Rightarrow> slot \<Rightarrow> tool_call" where
  "finished new_id k s =
     \<lparr>call_id = (if slot_id s = [] then new_id k else slot_id s),
      call_function = \<lparr>fn_name = slot_name s, arguments = slot_args s\<rparr>\<rparr>"

lemma finish_named:
  assumes "distinct (map fst parts)" and "sorted_wrt (<) ks"
    and "\<And>k. k \<in> set ks \<longleftrightarrow> slot_name (slot_at parts k) \<noteq> []"
  shows "finish_tool_calls new_id parts = map (\<lambda>k. finished new_id k (slot_at parts k)) ks"
proof -
  let ?named = "filter (\<lambda>(_, s). slot_name s \<noteq> []) (sort_key fst parts)"
  have at: "slot_at parts k = s" if "(k, s) \<in> set ?named" for k s
    using that assms(1) by (auto simp: slot_at_def map_of_is_SomeI)
  have named: "k \<in> fst ` set ?named \<longleftrightarrow> slot_name (slot_at parts k) \<noteq> []" for k
  proof
    assume "slot_name (slot_at parts k) \<noteq> []"
    then obtain s where "map_of parts k = Some s" "slot_name s \<noteq> []"
      by (auto simp: slot_at_def empty_slot_def split: option.splits)
    then show "k \<in> fst ` set ?named" by (force dest: map_of_SomeD)
  next
    assume "k \<in> fst ` set ?named"
    then obtain s where "(k, s) \<in> set ?named" by force
    then show "slot_name (slot_at parts k) \<noteq> []" using at [of k s] by auto
  qed
  have "sorted (map fst ?named)" "distinct (map fst ?named)"
    using assms(1) by (auto simp: sorted_filter distinct_map intro: inj_on_subset)
  then have ks: "map fst ?named = ks"
    using assms(2,3) named by (intro sorted_distinct_set_unique)
      (auto simp: strict_sorted_iff)
  have "map (\<lambda>k. finished new_id k (slot_at parts k)) ks =
      map (\<lambda>e. finished new_id (fst e) (slot_at parts (fst e))) ?named"
    unfolding ks [symmetric] map_map by (simp only: comp_def)
  also have "\<dots> = finish_tool_calls new_id parts"
    unfolding finish_tool_calls_def
    by (rule map_cong [OF refl]) (use at in \<open>auto simp: finished_def\<close>)
  finally show ?thesis by simp
qed

lemma slot_of_cut_call:
  assumes "str_ok ou" and "cuts_call ou c (fragments_at frames k)"
    and "call_id c \<noteq> []" and "fn_name (call_function c) \<noteq> []"
  shows "slot_at (assembled ou frames) k = \<lparr>slot_id = call_id c,
    slot_name = fn_name (call_function c), slot_args = arguments (call_function c)\<rparr>"
proof -
  have "\<exists>d \<in> set (fragments_at frames k). frag_id ou d \<noteq> []"
    "\<exists>d \<in> set (fragments_at frames k). frag_name ou d \<noteq> []"
    using assms(2-4) by (metis cuts_call_def)+
  then show ?thesis
    using assms(2) fold_call [OF assms(1), of "fragments_at frames k" "call_id c"
        "fn_name (call_function c)" empty_slot]
    by (simp add: slot_at_assembled cuts_call_def empty_slot_def)
qed

text \<open>The list of calls of a whole answer says the calls as they are.\<close>

definition whole_item :: "tool_call \<Rightarrow> json" where
  "whole_item c = JObj [(''id'', JStr (call_id c)),
     (''function'', JObj [(''name'', JStr (fn_name (call_function c))), (''arguments'', JStr (arguments (call_function c)))])]"

lemma whole_items_read:
  assumes "\<And>c. c \<in> set cs \<Longrightarrow> call_id c \<noteq> [] \<and> fn_name (call_function c) \<noteq> []"
  shows "tool_calls_from_wire ou new_id (JList (map whole_item cs)) = cs"
proof -
  have "List.map_filter (\<lambda>(n, item). call_from ou (new_id n) item) (enumerate m (map whole_item cs)) = cs" for m
    using assms
    by (induction cs arbitrary: m)
      (auto simp: List.map_filter_simps call_from_def whole_item_def as_dict_def truthy_def text_of_def)
  then show ?thesis by (simp add: tool_calls_from_wire_def)
qed

lemma cut_calls_finished:
  assumes "str_ok ou"
    and "\<And>k. k < length cs \<Longrightarrow> cuts_call ou (cs ! k) (fragments_at frames (int k))"
    and "\<And>i. i < 0 \<or> int (length cs) \<le> i \<Longrightarrow> fragments_at frames i = []"
    and "\<And>c. c \<in> set cs \<Longrightarrow> call_id c \<noteq> [] \<and> fn_name (call_function c) \<noteq> []"
  shows "finish_tool_calls new_id (assembled ou frames) = cs"
proof -
  let ?parts = "assembled ou frames"
  have slot: "slot_at ?parts (int k) = \<lparr>slot_id = call_id (cs ! k),
      slot_name = fn_name (call_function (cs ! k)), slot_args = arguments (call_function (cs ! k))\<rparr>"
    if "k < length cs" for k
    using slot_of_cut_call [OF assms(1) assms(2) [OF that]] assms(4) that by simp
  have "i \<in> set (map int [0..<length cs]) \<longleftrightarrow> slot_name (slot_at ?parts i) \<noteq> []" for i
  proof (cases "i < 0 \<or> int (length cs) \<le> i")
    case True
    then show ?thesis using assms(3) [OF True] by (auto simp: slot_at_assembled empty_slot_def)
  next
    case False
    then obtain k where k: "i = int k" "k < length cs"
      by (metis not_le_imp_less of_nat_less_iff zero_le_imp_eq_int linorder_not_less)
    then show ?thesis using slot [OF k(2)] assms(4) by auto
  qed
  moreover have "sorted_wrt (<) (map int [0..<length cs])" by (simp add: sorted_wrt_map)
  ultimately have "finish_tool_calls new_id ?parts =
      map (\<lambda>k. finished new_id k (slot_at ?parts k)) (map int [0..<length cs])"
    by (intro finish_named keys_assembled)
  also have "\<dots> = map (\<lambda>k. cs ! k) [0..<length cs]"
    using slot assms(4) by (simp add: finished_def)
  also have "\<dots> = cs" by (rule map_nth)
  finally show ?thesis .
qed

text \<open>C17. A stream of tool calls is put back together whatever way the backend cut it: when the
  fragments of index \<open>k\<close>, taken from the frames in order, are a cut of the \<open>k\<close>-th call, and no
  other index occurs, the calls come out whole and in order.\<close>

theorem fragments_reassembled:
  assumes "str_ok ou"
    and "\<And>k. k < length cs \<Longrightarrow> cuts_call ou (cs ! k) (fragments_at frames (int k))"
    and "\<And>i. i < 0 \<or> int (length cs) \<le> i \<Longrightarrow> fragments_at frames i = []"
    and "\<And>c. c \<in> set cs \<Longrightarrow> call_id c \<noteq> [] \<and> fn_name (call_function c) \<noteq> []"
  shows "finish_tool_calls new_id (assembled ou frames) = cs"
  by (rule cut_calls_finished [OF assms])

definition demo_out :: outside where
  "demo_out = \<lparr>str_of = (\<lambda>_. ''x''), float_of = (\<lambda>v. case v of JFloat x \<Rightarrow> Some x | _ \<Rightarrow> None)\<rparr>"

lemma demo_str: "str_ok demo_out"
  by (auto simp: str_ok_def text_of_def demo_out_def truthy_def split: json.split)

definition demo_frames :: "json list" where
  "demo_frames =
     [JList [JObj [(''index'', JInt 0), (''id'', JStr ''a''), (''function'', JObj [(''name'', JStr ''f'')])],
             JObj [(''index'', JInt 1), (''id'', JStr ''b''), (''function'', JObj [(''name'', JStr ''g'')])]],
      JList [JObj [(''index'', JInt 1), (''function'', JObj [(''arguments'', JStr ''{'')])]],
      JList [JObj [(''index'', JInt 0), (''function'', JObj [(''arguments'', JStr ''{}'')])]],
      JList [JObj [(''index'', JInt 1), (''function'', JObj [(''arguments'', JStr ''}'')])]]]"

theorem fragments_reassembled_witness:
  "finish_tool_calls (\<lambda>_. ''new'') (assembled demo_out demo_frames) =
    [\<lparr>call_id = ''a'', call_function = \<lparr>fn_name = ''f'', arguments = ''{}''\<rparr>\<rparr>,
     \<lparr>call_id = ''b'', call_function = \<lparr>fn_name = ''g'', arguments = ''{}''\<rparr>\<rparr>]"
proof (rule fragments_reassembled [OF demo_str])
  let ?cs = "[\<lparr>call_id = ''a'', call_function = \<lparr>fn_name = ''f'', arguments = ''{}''\<rparr>\<rparr>,
     \<lparr>call_id = ''b'', call_function = \<lparr>fn_name = ''g'', arguments = ''{}''\<rparr>\<rparr>]"
  show "cuts_call demo_out (?cs ! k) (fragments_at demo_frames (int k))" if "k < length ?cs" for k
    using that by (auto simp: less_Suc_eq cuts_call_def fragments_at_def fragments_def demo_frames_def
        index_of_def frag_id_def frag_name_def frag_args_def said_def truthy_def text_of_def as_dict_def)
  show "fragments_at demo_frames i = []" if "i < 0 \<or> int (length ?cs) \<le> i" for i
    using that by (auto simp: fragments_at_def fragments_def demo_frames_def index_of_def)
qed auto

text \<open>Folding the fragments as they are forwarded is folding them as they came.\<close>

lemma opt_str_Inr:
  "opt_str v = Inr x \<longleftrightarrow> (v = JNull \<and> x = None) \<or> (\<exists>s. v = JStr s \<and> x = Some s)"
  by (auto simp: opt_str_def split: json.splits)

lemma fold_dumped:
  assumes "delta_from n item = Inr d"
  shows "\<exists>e. dump_delta d = JObj e \<and> index_of m e = index_of n item \<and> fold_item ou e s = fold_item ou item s"
proof -
  let ?fn = "as_dict (dget item ''function'')"
  obtain i f where i: "opt_str (dget item ''id'') = Inr i"
    and f: "?fn = [] \<and> f = None \<or>
      (\<exists>n a. opt_str (dget ?fn ''name'') = Inr n \<and> opt_str (dget ?fn ''arguments'') = Inr a \<and> f = Some (n, a))"
    and d: "d = \<lparr>delta_index = index_of n item, delta_id = i, delta_function = f\<rparr>"
    using assms by (auto simp: delta_from_def Let_def and_then_eq_Inr split: if_splits)
  define e where "e = (case dump_delta d of JObj e \<Rightarrow> e | _ \<Rightarrow> [])"
  have e: "dump_delta d = JObj e" by (simp add: e_def dump_delta_def)
  have "dget e ''index'' = JInt (index_of n item)"
    by (simp add: e_def dump_delta_def d)
  moreover have "dget e ''id'' = dget item ''id''"
    using i by (auto simp: e_def dump_delta_def d opt_str_Inr split: option.split)
  moreover have "dget (as_dict (dget e ''function'')) k = dget ?fn k"
    if "k = ''name'' \<or> k = ''arguments''" for k
  proof (cases f)
    case None
    then have "?fn = []" using f by auto
    moreover have "dget e ''function'' = JNull"
      using None by (simp add: e_def dump_delta_def d split: option.split)
    ultimately show ?thesis by (simp add: as_dict_def)
  next
    case (Some na)
    then obtain x a where "na = (x, a)" "opt_str (dget ?fn ''name'') = Inr x"
        "opt_str (dget ?fn ''arguments'') = Inr a"
      using f by auto
    then show ?thesis using Some that
      by (auto simp: e_def dump_delta_def d opt_str_Inr as_dict_def split: option.split)
  qed
  ultimately have "index_of m e = index_of n item \<and> fold_item ou e s = fold_item ou item s"
    by (simp add: index_of_def fold_item_def Let_def)
  then show ?thesis using e by blast
qed

lemma accumulate_deltas:
  "deltas_from n items = Inr ds \<Longrightarrow>
    accumulate_items ou m (map dump_delta ds) parts = accumulate_items ou n items parts"
proof (induction n items arbitrary: ds m parts rule: deltas_from.induct)
  case (2 n item rest)
  then obtain d ds' where d: "delta_from n item = Inr d" "deltas_from (Suc n) rest = Inr ds'" "ds = d # ds'"
    by (auto simp: result_simps)
  obtain e where e: "dump_delta d = JObj e" "index_of m e = index_of n item"
      "fold_item ou e (slot_at parts (index_of n item)) = fold_item ou item (slot_at parts (index_of n item))"
    using fold_dumped [OF d(1)] by blast
  show ?case using 2(1) [OF d(2)] d(3) e by simp
qed (auto simp: result_simps)

lemma forwarded_deltas_assemble:
  "tool_call_deltas_from_wire raw = Inr ds \<Longrightarrow>
    accumulate_tool_calls ou (JList (map dump_delta ds)) parts = accumulate_tool_calls ou raw parts"
  by (auto simp: tool_call_deltas_from_wire_def accumulate_tool_calls_def accumulate_deltas split: json.splits)

subsection \<open>Results in the order of the calls\<close>

lemma order_only_moves_tools:
  "results_in_call_order ws = Inr out \<Longrightarrow>
    mset out = mset ws \<and> map (\<lambda>m. if is_tool m then None else Some m) out =
      map (\<lambda>m. if is_tool m then None else Some m) ws"
proof (induction ws arbitrary: out rule: results_in_call_order.induct)
  case (2 m rest)
  show ?case
  proof (cases "calls_of m = []")
    case True
    then show ?thesis using 2 by (auto simp: result_simps)
  next
    case False
    then obtain ps out' where o: "positions 0 (calls_of m) [] = Inr ps"
        "results_in_call_order (dropWhile is_tool rest) = Inr out'"
        "out = m # sort_key (rank ps) (takeWhile is_tool rest) @ out'"
      using 2(3) by (auto simp: result_simps)
    have ih: "mset out' = mset (dropWhile is_tool rest)"
      "map (\<lambda>m. if is_tool m then None else Some m) out' =
       map (\<lambda>m. if is_tool m then None else Some m) (dropWhile is_tool rest)"
      using 2(2) [OF False o(2)] by simp_all
    let ?run = "takeWhile is_tool rest"
    have "map (\<lambda>m. if is_tool m then None else Some m) xs = replicate (length xs) None"
      if "set xs \<subseteq> set ?run" for xs
      using that by (intro replicate_eqI) (auto dest: set_takeWhileD)
    then have "map (\<lambda>m. if is_tool m then None else Some m) (sort_key (rank ps) ?run) =
        map (\<lambda>m. if is_tool m then None else Some m) ?run"
      by simp
    moreover have "mset ?run + mset (dropWhile is_tool rest) = mset rest"
      by (metis mset_append takeWhile_dropWhile_id)
    moreover have "map f ?run @ map f (dropWhile is_tool rest) = map f rest" for f :: "dict \<Rightarrow> dict option"
      by (metis map_append takeWhile_dropWhile_id)
    ultimately show ?thesis using ih o(3) by simp
  qed
qed simp

text \<open>With distinct ids, the place of a result is that of its call, and of one that answers no call
  the place after all of them.\<close>

definition call_place :: "string list \<Rightarrow> dict \<Rightarrow> nat" where
  "call_place ids m =
     (case dget m ''tool_call_id'' of
        JStr i \<Rightarrow> length (takeWhile (\<lambda>j. j \<noteq> i) ids)
      | _ \<Rightarrow> length ids)"

lemma put_new:
  "\<forall>k \<in> fst ` set ps. \<exists>s. k = JStr s \<Longrightarrow> JStr i \<notin> fst ` set ps \<Longrightarrow> put (JStr i) n ps = ps @ [(JStr i, n)]"
  by (induction ps) auto

lemma positions_ids:
  "distinct (map JStr ids @ map fst ps) \<Longrightarrow> [] \<notin> set ids \<Longrightarrow>
    list_all2 (\<lambda>c i. dget (as_dict c) ''id'' = JStr i) cs ids \<Longrightarrow>
    \<forall>k \<in> fst ` set ps. \<exists>s. k = JStr s \<Longrightarrow>
    positions n cs ps = Inr (ps @ zip (map JStr ids) [n..<n + length ids])"
proof (induction cs arbitrary: n ids ps)
  case (Cons c cs)
  obtain i js where ids: "ids = i # js" "dget (as_dict c) ''id'' = JStr i"
      "list_all2 (\<lambda>c i. dget (as_dict c) ''id'' = JStr i) cs js"
    using Cons.prems(3) by (auto simp: list_all2_Cons1)
  have "put (JStr i) n ps = ps @ [(JStr i, n)]"
    using Cons.prems(1,4) ids(1) by (intro put_new) auto
  moreover have "positions (Suc n) cs (ps @ [(JStr i, n)]) =
      Inr ((ps @ [(JStr i, n)]) @ zip (map JStr js) [Suc n..<Suc n + length js])"
    using Cons.prems ids by (intro Cons.IH) auto
  moreover have "[n..<n + length ids] = n # [Suc n..<Suc n + length js]"
    using ids(1) upt_conv_Cons [of n "n + length ids"] by (simp del: upt_Suc)
  moreover have "truthy (JStr i)" "hashable (JStr i)"
    using Cons.prems(2) ids(1) by (auto simp: truthy_def hashable_def)
  ultimately show ?case using ids by (simp del: upt_Suc)
qed simp

lemma rank_ids:
  "rank (zip (map JStr ids) [0..<length ids]) m = call_place ids m"
proof -
  have "List.find (\<lambda>(k, _). py_eq k v) (zip (map JStr ids) [n..<n + length ids]) =
      (case v of
         JStr i \<Rightarrow> if i \<in> set ids then Some (JStr i, n + length (takeWhile (\<lambda>j. j \<noteq> i) ids)) else None
       | _ \<Rightarrow> None)" for v n
  proof (induction ids arbitrary: n)
    case (Cons j js)
    have "[n..<n + length (j # js)] = n # [Suc n..<Suc n + length js]"
      using upt_conv_Cons [of n "n + length (j # js)"] by (simp del: upt_Suc)
    then show ?case using Cons.IH [of "Suc n"]
      by (cases v) (auto simp del: upt_Suc py_eq.simps)
  qed (simp split: json.split)
  from this [where n = 0 and v = "dget m ''tool_call_id''"]
  have "rank (zip (map JStr ids) [0..<length ids]) m =
      (case dget m ''tool_call_id'' of
         JStr i \<Rightarrow> if i \<in> set ids then length (takeWhile (\<lambda>j. j \<noteq> i) ids) else length ids
       | _ \<Rightarrow> length ids)"
    by (simp add: rank_def split: json.split)
  moreover have "length (takeWhile (\<lambda>j. j \<noteq> i) ids) = length ids" if "i \<notin> set ids" for i
    using that by (induction ids) auto
  ultimately show ?thesis by (simp add: call_place_def split: json.split)
qed

lemma order_append:
  "\<not> is_tool m \<Longrightarrow> results_in_call_order (pre @ m # ws) =
    and_then (results_in_call_order pre) (\<lambda>a. and_then (results_in_call_order (m # ws)) (\<lambda>b. Inr (a @ b)))"
proof (induction pre rule: results_in_call_order.induct)
  case (2 c pre)
  have take: "takeWhile is_tool (pre @ m # ws) = takeWhile is_tool pre"
    "dropWhile is_tool (pre @ m # ws) = dropWhile is_tool pre @ m # ws"
    using 2(3) by (induction pre) auto
  show ?case
  proof (cases "calls_of c = []")
    case True
    have "results_in_call_order (c # xs) = and_then (results_in_call_order xs) (\<lambda>out. Inr (c # out))" for xs
      using True by simp
    then show ?thesis using 2(1) [OF True 2(3)]
      by (simp add: and_then_def del: results_in_call_order.simps(2) split: sum.splits)
  next
    case False
    then show ?thesis using 2(2,3) take
      by (simp add: and_then_def split: sum.splits)
  qed
qed (simp add: and_then_def split: sum.splits)

lemma order_without_calls:
  "list_all (\<lambda>m. calls_of m = []) ws \<Longrightarrow> results_in_call_order ws = Inr ws"
  by (induction ws) auto

lemma caller_is_no_tool: "calls_of m \<noteq> [] \<Longrightarrow> \<not> is_tool m"
  by (auto simp: calls_of_def is_tool_def split: if_splits)

lemma order_after_calls:
  assumes "calls_of m \<noteq> []" and "list_all is_tool run" and "rest = [] \<or> \<not> is_tool (hd rest)"
    and "list_all2 (\<lambda>c i. dget (as_dict c) ''id'' = JStr i) (calls_of m) ids"
    and "distinct ids" and "[] \<notin> set ids"
  shows "results_in_call_order (m # run @ rest) =
    and_then (results_in_call_order rest) (\<lambda>out. Inr (m # sort_key (call_place ids) run @ out))"
proof -
  have "takeWhile is_tool (run @ rest) = run" "dropWhile is_tool (run @ rest) = rest"
    using assms(2,3) by (induction run) (cases rest; simp)+
  moreover have "positions 0 (calls_of m) [] = Inr (zip (map JStr ids) [0..<length ids])"
    using positions_ids [of ids "[]" "calls_of m" 0] assms(4-6) by (simp add: distinct_map inj_on_def)
  moreover have "rank (zip (map JStr ids) [0..<length ids]) = call_place ids"
    by (rule ext) (rule rank_ids)
  ultimately show ?thesis using assms(1) by simp
qed

text \<open>C18. Results of tool calls reach a backend that matches them by position in the order of the
  calls. Wherever in the conversation an assistant calls tools with distinct ids, the run of
  results directly after it is put in the order of its calls, those of no call last, in the
  order they had; what comes before it and what comes after the run are ordered each by
  itself, the messages that are no results keep their places, a conversation without calls is
  left as it is, and nothing is lost.\<close>

theorem results_follow_calls:
  assumes "results_in_call_order ws = Inr out"
  shows "mset out = mset ws \<and>
    map (\<lambda>m. if is_tool m then None else Some m) out = map (\<lambda>m. if is_tool m then None else Some m) ws \<and>
    (list_all (\<lambda>m. calls_of m = []) ws \<longrightarrow> out = ws) \<and>
    (\<forall>pre m run rest ids. ws = pre @ m # run @ rest \<longrightarrow> calls_of m \<noteq> [] \<longrightarrow> list_all is_tool run \<longrightarrow>
       (rest = [] \<or> \<not> is_tool (hd rest)) \<longrightarrow>
       list_all2 (\<lambda>c i. dget (as_dict c) ''id'' = JStr i) (calls_of m) ids \<longrightarrow>
       distinct ids \<longrightarrow> [] \<notin> set ids \<longrightarrow>
       (\<exists>before after. results_in_call_order pre = Inr before \<and> results_in_call_order rest = Inr after \<and>
          out = before @ m # sort_key (call_place ids) run @ after))"
proof (intro conjI allI impI)
  show "mset out = mset ws" "map (\<lambda>m. if is_tool m then None else Some m) out =
      map (\<lambda>m. if is_tool m then None else Some m) ws"
    using order_only_moves_tools [OF assms] by simp_all
  show "out = ws" if "list_all (\<lambda>m. calls_of m = []) ws"
    using order_without_calls [OF that] assms by simp
next
  fix pre m run rest ids
  assume ws: "ws = pre @ m # run @ rest" and calls: "calls_of m \<noteq> []" and run: "list_all is_tool run"
    and rest: "rest = [] \<or> \<not> is_tool (hd rest)"
    and ids: "list_all2 (\<lambda>c i. dget (as_dict c) ''id'' = JStr i) (calls_of m) ids"
      "distinct ids" "[] \<notin> set ids"
  have "results_in_call_order ws = and_then (results_in_call_order pre) (\<lambda>a.
      and_then (results_in_call_order rest) (\<lambda>b. Inr (a @ m # sort_key (call_place ids) run @ b)))"
      (is "_ = ?out")
    unfolding ws order_append [OF caller_is_no_tool [OF calls]] order_after_calls [OF calls run rest ids]
    by (simp add: and_then_def split: sum.splits)
  then have "?out = Inr out" using assms by (rule trans [OF sym])
  then show "\<exists>before after. results_in_call_order pre = Inr before \<and>
      results_in_call_order rest = Inr after \<and>
      out = before @ m # sort_key (call_place ids) run @ after"
    by (auto simp: and_then_eq_Inr)
qed

definition demo_wire :: "dict list" where
  "demo_wire =
     [[(''role'', JStr ''user'')],
      [(''role'', JStr ''assistant''),
       (''tool_calls'', JList [JObj [(''id'', JStr ''a'')], JObj [(''id'', JStr ''b'')]])],
      [(''role'', JStr ''tool''), (''tool_call_id'', JStr ''b'')],
      [(''role'', JStr ''tool''), (''tool_call_id'', JStr ''a'')]]"

lemma demo_wire_order:
  "results_in_call_order demo_wire = Inr [demo_wire ! 0, demo_wire ! 1, demo_wire ! 3, demo_wire ! 2]"
  by (simp add: demo_wire_def calls_of_def as_dict_def truthy_def hashable_def is_tool_def rank_def)

theorem results_follow_calls_witness:
  "[demo_wire ! 3, demo_wire ! 2] = sort_key (call_place [''a'', ''b'']) [demo_wire ! 2, demo_wire ! 3]"
proof -
  have "demo_wire = [demo_wire ! 0] @ demo_wire ! 1 # [demo_wire ! 2, demo_wire ! 3] @ []"
    by (simp add: demo_wire_def)
  then obtain bef aft where "results_in_call_order [demo_wire ! 0] = Inr bef"
    "results_in_call_order [] = Inr aft"
    "[demo_wire ! 0, demo_wire ! 1, demo_wire ! 3, demo_wire ! 2] =
      bef @ demo_wire ! 1 # sort_key (call_place [''a'', ''b'']) [demo_wire ! 2, demo_wire ! 3] @ aft"
    using results_follow_calls [OF demo_wire_order, THEN conjunct2, THEN conjunct2, THEN conjunct2,
        rule_format, of "[demo_wire ! 0]" "demo_wire ! 1" "[demo_wire ! 2, demo_wire ! 3]" "[]" "[''a'', ''b'']"]
    by (auto simp: demo_wire_def calls_of_def is_tool_def as_dict_def)
  moreover have "results_in_call_order [demo_wire ! 0] = Inr [demo_wire ! 0]"
    by (simp add: demo_wire_def calls_of_def)
  ultimately have "[demo_wire ! 0, demo_wire ! 1, demo_wire ! 3, demo_wire ! 2] =
      [demo_wire ! 0, demo_wire ! 1] @ sort_key (call_place [''a'', ''b'']) [demo_wire ! 2, demo_wire ! 3]"
    by (simp del: sort_key_simps)
  then show ?thesis by (simp only: append.simps list.inject)
qed

text \<open>With calls that have no id, a result that answers no call is not kept after the rest: it
  takes the place of a call, here before the result of the last one, though it came after it
  in the calls' order.\<close>

theorem unmatched_result_first:
  "let answer = (\<lambda>i. [(''role'', JStr ''tool''), (''tool_call_id'', JStr i)]);
       calls = [(''role'', JStr ''assistant''),
                (''tool_calls'', JList [JObj [], JObj [], JObj [(''id'', JStr ''c'')]])]
   in results_in_call_order [calls, answer ''c'', answer ''x''] =
      Inr [calls, answer ''x'', answer ''c'']"
  by (simp add: calls_of_def as_dict_def truthy_def hashable_def is_tool_def rank_def Let_def)

subsection \<open>Vectors and scores\<close>

lemma collect_enumerate:
  "collect (\<lambda>(n, x). f n x) (enumerate m xs) = Inr ys \<longleftrightarrow>
    length ys = length xs \<and> (\<forall>i < length xs. f (m + i) (xs ! i) = Inr (ys ! i))"
  by (auto simp: collect_eq_Inr list_all2_conv_all_nth nth_enumerate_eq)

lemma sort_key_unique:
  assumes "distinct (map fst rows)" and "set (map fst rows) = int ` {..<length rows}"
    and "j < length rows"
  shows "fst (sort_key fst rows ! j) = int j \<and> sort_key fst rows ! j \<in> set rows"
proof -
  have "sorted_wrt (<) (map fst (sort_key fst rows))"
    using assms(1) by (simp add: strict_sorted_iff distinct_map)
  moreover have "set (map fst (sort_key fst rows)) = set (map int [0..<length rows])"
    using assms(2) by (simp add: lessThan_atLeast0)
  moreover have "sorted_wrt (<) (map int [0..<length rows])" by (simp add: sorted_wrt_map)
  ultimately have "map fst (sort_key fst rows) = map int [0..<length rows]"
    by (metis strict_sorted_equal)
  then have "fst (sort_key fst rows ! j) = int j"
    using assms(3) by (metis add_0 diff_zero length_map length_sort length_upt nth_map nth_upt)
  moreover have "sort_key fst rows ! j \<in> set rows"
    using assms(3) by (metis length_sort nth_mem set_sort)
  ultimately show ?thesis by simp
qed

text \<open>Vectors are matched to their texts by index, in whatever order the backend sends them: an
  answer that is accepted has one vector per input, and when its indexes are those of the
  inputs the \<open>j\<close>-th vector is the one the backend sent for input \<open>j\<close>. Indexes that repeat are
  accepted as well, and then a text gets the vector of another.\<close>

lemma vectors_matched:
  "(\<forall>body expected vs. vectors_from_envelope ou body expected = Inr vs \<longrightarrow>
      length vs = expected \<and>
      (\<exists>entries rows. dget (as_dict body) ''data'' = JList entries \<and> length rows = expected \<and>
         length entries = expected \<and>
         (\<forall>i < expected. embedding_row ou i (entries ! i) = Inr (rows ! i)) \<and>
         (set (map fst rows) = int ` {..<expected} \<longrightarrow>
            (\<forall>j < expected. (int j, vs ! j) \<in> set rows)))) \<and>
    (\<forall>x y. float_of ou (JFloat x) = Some x \<longrightarrow> float_of ou (JFloat y) = Some y \<longrightarrow>
       vectors_from_envelope ou
         (JObj [(''data'', JList
            [JObj [(''index'', JInt 1), (''embedding'', JList [JFloat x])],
             JObj [(''index'', JInt 1), (''embedding'', JList [JFloat y])]])]) 2 = Inr [[x], [y]])"
proof (intro conjI allI impI)
  fix body expected vs
  assume "vectors_from_envelope ou body expected = Inr vs"
  then obtain e es rows where data: "dget (as_dict body) ''data'' = JList (e # es)"
    and rows: "collect (\<lambda>(n, entry). embedding_row ou n entry) (enumerate 0 (e # es)) = Inr rows"
    and len: "length rows = expected" and vs: "vs = map snd (sort_key fst rows)"
    by (auto simp: vectors_from_envelope_def and_then_eq_Inr split: json.splits list.splits if_splits)
  have r: "length rows = length (e # es)" "\<forall>i < length (e # es). embedding_row ou i ((e # es) ! i) = Inr (rows ! i)"
    using rows unfolding collect_enumerate by simp_all
  have "(int j, vs ! j) \<in> set rows" if "set (map fst rows) = int ` {..<expected}" "j < expected" for j
  proof -
    have "card (set (map fst rows)) = length (map fst rows)"
      using that(1) len by (simp add: card_image)
    then have "distinct (map fst rows)" by (rule card_distinct)
    from sort_key_unique [OF this] that len
    have "fst (sort_key fst rows ! j) = int j" "sort_key fst rows ! j \<in> set rows" by simp_all
    then show ?thesis using that(2) len vs by (metis length_sort nth_map prod.collapse)
  qed
  then show "length vs = expected" and "\<exists>entries rows. dget (as_dict body) ''data'' = JList entries \<and>
      length rows = expected \<and> length entries = expected \<and>
      (\<forall>i < expected. embedding_row ou i (entries ! i) = Inr (rows ! i)) \<and>
      (set (map fst rows) = int ` {..<expected} \<longrightarrow> (\<forall>j < expected. (int j, vs ! j) \<in> set rows))"
    using data r len vs by (simp, intro exI [of _ "e # es"] exI [of _ rows]) auto
next
  fix x y
  assume "float_of ou (JFloat x) = Some x" "float_of ou (JFloat y) = Some y"
  then show "vectors_from_envelope ou
         (JObj [(''data'', JList
            [JObj [(''index'', JInt 1), (''embedding'', JList [JFloat x])],
             JObj [(''index'', JInt 1), (''embedding'', JList [JFloat y])]])]) 2 = Inr [[x], [y]]"
    by (simp add: vectors_from_envelope_def as_dict_def embedding_row_def index_of_def to_float_def from_option_def)
qed

lemma vectors_matched_witness:
  "vectors_from_envelope demo_out
     (JObj [(''data'', JList
        [JObj [(''index'', JInt 1), (''embedding'', JList [JFloat (Finite 1)])],
         JObj [(''index'', JInt 1), (''embedding'', JList [JFloat (Finite 2)])]])]) 2 =
   Inr [[Finite 1], [Finite 2]]"
  using vectors_matched [of demo_out, THEN conjunct2, rule_format, of "Finite 1" "Finite 2"]
  by (simp add: demo_out_def)

lemma score_entries_ok:
  "score_entries ou n es scored = Inr out \<Longrightarrow> distinct (map fst scored) \<Longrightarrow>
    \<forall>i \<in> fst ` set scored. 0 \<le> i \<and> i < int n \<Longrightarrow>
    distinct (map fst out) \<and> (\<forall>i \<in> fst ` set out. 0 \<le> i \<and> i < int n) \<and>
    length out = length scored + length es \<and>
    (\<forall>x \<in> set out. x \<in> set scored \<or>
       (\<exists>e \<in> set es. dget (as_dict e) ''index'' = JInt (fst x) \<and>
          number ou (dget (as_dict e) ''relevance_score'') = Inr (Some (snd x))))"
proof (induction ou n es scored arbitrary: out rule: score_entries.induct)
  case (2 ou n e es scored)
  from "2.prems"(1) obtain raw where raw: "number ou (dget (as_dict e) ''relevance_score'') = Inr raw"
    and go: "(case (dget (as_dict e) ''index'', raw) of
         (JInt i, Some x) \<Rightarrow>
           if 0 \<le> i \<and> i < int n \<and> i \<notin> fst ` set scored
           then score_entries ou n es (scored @ [(i, x)]) else Inl malformed_result
       | _ \<Rightarrow> Inl malformed_result) = Inr out"
    unfolding score_entries.simps and_then_eq_Inr by blast
  obtain i where i: "dget (as_dict e) ''index'' = JInt i"
    using go by (cases "dget (as_dict e) ''index''") simp_all
  obtain x where x: "raw = Some x" using go i by (cases raw) simp_all
  have e: "number ou (dget (as_dict e) ''relevance_score'') = Inr (Some x)"
      "dget (as_dict e) ''index'' = JInt i" "0 \<le> i \<and> i < int n \<and> i \<notin> fst ` set scored"
      "score_entries ou n es (scored @ [(i, x)]) = Inr out"
    using raw go i x by (simp_all split: if_splits)
  have new: "distinct (map fst (scored @ [(i, x)]))"
      "\<forall>i \<in> fst ` set (scored @ [(i, x)]). 0 \<le> i \<and> i < int n"
    using e(3) "2.prems"(2,3) by simp_all
  note ih = 2(1) [OF refl i x e(3) e(4) new]
  have "\<exists>e' \<in> set (e # es). dget (as_dict e') ''index'' = JInt (fst y) \<and>
      number ou (dget (as_dict e') ''relevance_score'') = Inr (Some (snd y))"
    if "y \<in> set out" "y \<notin> set scored" for y
    using ih that e(1,2) by (cases "y = (i, x)") auto
  then show ?case using ih by (simp add: disj_imp)
qed auto

text \<open>A reranking that is accepted scores each passage at most once and only passages of the
  request, every score is one the backend gave for that index, and when as many scores are
  owed as there are passages each passage has exactly one.\<close>

lemma rerank_sound:
  assumes "rerank_scores ou body passages owed = Inr scored"
  shows "distinct (map fst scored) \<and> fst ` set scored \<subseteq> {0..<int passages} \<and> owed \<le> length scored \<and>
    (\<forall>x \<in> set scored. \<exists>entries e. dget (as_dict body) ''results'' = JList entries \<and> e \<in> set entries \<and>
       dget (as_dict e) ''index'' = JInt (fst x) \<and>
       number ou (dget (as_dict e) ''relevance_score'') = Inr (Some (snd x))) \<and>
    (owed = passages \<longrightarrow> fst ` set scored = {0..<int passages})"
proof -
  obtain r rs where rs: "dget (as_dict body) ''results'' = JList (r # rs)"
    and s: "score_entries ou passages (r # rs) [] = Inr scored" and owed: "owed \<le> length scored"
    using assms by (auto simp: rerank_scores_def and_then_eq_Inr not_less simp del: score_entries.simps
      split: json.splits list.splits if_splits)
  have ok: "distinct (map fst scored)" "\<forall>i \<in> fst ` set scored. 0 \<le> i \<and> i < int passages"
    "\<forall>x \<in> set scored. \<exists>e \<in> set (r # rs). dget (as_dict e) ''index'' = JInt (fst x) \<and>
          number ou (dget (as_dict e) ''relevance_score'') = Inr (Some (snd x))"
    using score_entries_ok [OF s] by auto
  have sub: "fst ` set scored \<subseteq> {0..<int passages}" using ok(2) by auto
  have "fst ` set scored = {0..<int passages}" if "owed = passages"
  proof (rule card_subset_eq [OF _ sub])
    have "card (fst ` set scored) = length scored"
      using ok(1) distinct_card by (metis length_map set_map)
    moreover have "card (fst ` set scored) \<le> card {0..<int passages}"
      using sub by (intro card_mono) auto
    ultimately show "card (fst ` set scored) = card {0..<int passages}"
      using that owed by simp
  qed simp
  then show ?thesis using ok sub owed rs by blast
qed

lemma rerank_sound_witness:
  "fst ` set [(1 :: int, Finite 2), (0, Finite 1)] = {0..<int 2}"
proof -
  have "rerank_scores demo_out (JObj [(''results'', JList
      [JObj [(''index'', JInt 1), (''relevance_score'', JFloat (Finite 2))],
       JObj [(''index'', JInt 0), (''relevance_score'', JFloat (Finite 1))]])]) 2 2 =
      Inr [(1, Finite 2), (0, Finite 1)]"
    by (simp add: rerank_scores_def as_dict_def number_def)
  from rerank_sound [OF this] show ?thesis by blast
qed

end
