(* ===== verification/Py_Bytes.thy ===== *)
theory Py_Bytes
  imports Py_Prelude "HOL-Library.Word"
begin

unbundle bit_operations_syntax

text \<open>
  Bytes and what the standard library does with them: base64 both ways (\<open>b64encode\<close>, and
  \<open>b64decode\<close> with \<open>validate=True\<close>, which takes no character outside the alphabet and padding only
  where it belongs), and \<open>struct.pack\<close> of little-endian integers.
\<close>

type_synonym byte = "8 word"
type_synonym bytes = "byte list"

subsection \<open>Base64\<close>

definition B64 :: string where
  "B64 = ''ABCDEFGHIJKLMNOPQRSTUVWXYZabcdefghijklmnopqrstuvwxyz0123456789+/''"

definition b64_digit :: "nat \<Rightarrow> char" where
  "b64_digit n = B64 ! n"

text \<open>The place of a character in the alphabet.\<close>

fun place_in :: "char \<Rightarrow> string \<Rightarrow> nat option" where
  "place_in c [] = None"
| "place_in c (d # ds) = (if c = d then Some 0 else map_option Suc (place_in c ds))"

definition b64_value :: "char \<Rightarrow> nat option" where
  "b64_value c = place_in c B64"

fun b64encode :: "bytes \<Rightarrow> string" where
  "b64encode [] = []"
| "b64encode [a] = [b64_digit (unat a div 4), b64_digit (unat a mod 4 * 16), CHR ''='', CHR ''='']"
| "b64encode [a, b] =
     [b64_digit (unat a div 4), b64_digit (unat a mod 4 * 16 + unat b div 16),
      b64_digit (unat b mod 16 * 4), CHR ''='']"
| "b64encode (a # b # c # rest) =
     [b64_digit (unat a div 4), b64_digit (unat a mod 4 * 16 + unat b div 16),
      b64_digit (unat b mod 16 * 4 + unat c div 64), b64_digit (unat c mod 64)] @ b64encode rest"

text \<open>The bytes of the first two, three and four digits of a group.\<close>

definition byte1 :: "nat \<Rightarrow> nat \<Rightarrow> byte" where "byte1 x y = of_nat (x * 4 + y div 16)"
definition byte2 :: "nat \<Rightarrow> nat \<Rightarrow> byte" where "byte2 y z = of_nat (y mod 16 * 16 + z div 4)"
definition byte3 :: "nat \<Rightarrow> nat \<Rightarrow> byte" where "byte3 z w = of_nat (z mod 4 * 64 + w)"

fun b64decode :: "string \<Rightarrow> bytes option" where
  "b64decode [] = Some []"
| "b64decode (a # b # c # d # rest) =
     (case (b64_value a, b64_value b) of
        (Some x, Some y) \<Rightarrow>
          if c = CHR ''='' then (if d = CHR ''='' \<and> rest = [] then Some [byte1 x y] else None)
          else (case b64_value c of
                  None \<Rightarrow> None
                | Some z \<Rightarrow>
                    if d = CHR ''='' then (if rest = [] then Some [byte1 x y, byte2 y z] else None)
                    else (case b64_value d of
                            None \<Rightarrow> None
                          | Some w \<Rightarrow> map_option (\<lambda>bs. byte1 x y # byte2 y z # byte3 z w # bs) (b64decode rest)))
      | _ \<Rightarrow> None)"
| "b64decode _ = None"

subsection \<open>Little-endian integers\<close>

fun le_bytes :: "nat \<Rightarrow> nat \<Rightarrow> bytes" where
  "le_bytes 0 n = []"
| "le_bytes (Suc k) n = of_nat (n mod 256) # le_bytes k (n div 256)"

fun le_value :: "bytes \<Rightarrow> nat" where
  "le_value [] = 0"
| "le_value (b # bs) = unat b + 256 * le_value bs"

text \<open>\<open>struct.pack("<I", n)\<close> and \<open>"<H"\<close>, \<open>None\<close> where they raise \<open>struct.error\<close>.\<close>

definition pack_I :: "nat \<Rightarrow> bytes option" where
  "pack_I n = (if n < 2 ^ 32 then Some (le_bytes 4 n) else None)"

definition pack_H :: "nat \<Rightarrow> bytes option" where
  "pack_H n = (if n < 2 ^ 16 then Some (le_bytes 2 n) else None)"

text \<open>Bytes written as ASCII, \<open>b"..."\<close>.\<close>

definition ascii :: "string \<Rightarrow> bytes" where
  "ascii s = map of_char s"

subsection \<open>Facts\<close>

lemma b64_value_digit: "n < 64 \<Longrightarrow> b64_value (b64_digit n) = Some n"
proof -
  have "list_all (\<lambda>n. b64_value (b64_digit n) = Some n) [0..<64]" by code_simp
  then show "n < 64 \<Longrightarrow> b64_value (b64_digit n) = Some n" by (simp add: list_all_iff)
qed

lemma b64_digit_no_pad: "n < 64 \<Longrightarrow> b64_digit n \<noteq> CHR ''=''"
proof -
  have "list_all (\<lambda>n. b64_digit n \<noteq> CHR ''='') [0..<64]" by code_simp
  then show "n < 64 \<Longrightarrow> b64_digit n \<noteq> CHR ''=''" by (simp add: list_all_iff)
qed

lemma unat_byte: "unat (b :: byte) < 256"
  using unsigned_less [of b] by simp

lemma byte_of: "n = unat b \<Longrightarrow> (of_nat n :: byte) = b"
  by simp

lemma group_parts:
  fixes a b c :: nat
  assumes "b < 256" and "c < 256"
  shows "a div 4 * 4 + (a mod 4 * 16 + b div 16) div 16 = a"
    and "a div 4 * 4 + a mod 4 * 16 div 16 = a"
    and "(a mod 4 * 16 + b div 16) mod 16 * 16 + (b mod 16 * 4 + c div 64) div 4 = b"
    and "(a mod 4 * 16 + b div 16) mod 16 * 16 + b mod 16 * 4 div 4 = b"
    and "(b mod 16 * 4 + c div 64) mod 4 * 64 + c mod 64 = c"
proof -
  have d: "b div 16 < 16" "c div 64 < 4" using assms by simp_all
  then have "(a mod 4 * 16 + b div 16) mod 16 = b div 16" "(b mod 16 * 4 + c div 64) mod 4 = c div 64"
    "(a mod 4 * 16 + b div 16) div 16 = a mod 4" "(b mod 16 * 4 + c div 64) div 4 = b mod 16"
    by simp_all
  then show "a div 4 * 4 + (a mod 4 * 16 + b div 16) div 16 = a"
    "(a mod 4 * 16 + b div 16) mod 16 * 16 + (b mod 16 * 4 + c div 64) div 4 = b"
    "(a mod 4 * 16 + b div 16) mod 16 * 16 + b mod 16 * 4 div 4 = b"
    "(b mod 16 * 4 + c div 64) mod 4 * 64 + c mod 64 = c"
    "a div 4 * 4 + a mod 4 * 16 div 16 = a"
    by simp_all
qed

lemma byte_parts:
  "byte1 (unat a div 4) (unat a mod 4 * 16 + unat b div 16) = a"
  "byte1 (unat a div 4) (unat a mod 4 * 16) = a"
  "byte2 (unat a mod 4 * 16 + unat b div 16) (unat b mod 16 * 4 + unat c div 64) = b"
  "byte2 (unat a mod 4 * 16 + unat b div 16) (unat b mod 16 * 4) = b"
  "byte3 (unat b mod 16 * 4 + unat c div 64) (unat c mod 64) = c"
  unfolding byte1_def byte2_def byte3_def
  by (rule byte_of, rule group_parts, rule unat_byte, rule unat_byte)+

lemma digit_bounds:
  "unat (a :: byte) div 4 < 64" "unat a mod 4 * 16 + unat (b :: byte) div 16 < 64"
  "unat b mod 16 * 4 + unat (c :: byte) div 64 < 64" "unat a mod 4 * 16 < 64" "unat b mod 16 * 4 < 64"
proof -
  have "unat a div 4 < 64" "unat b div 16 < 16" "unat c div 64 < 4"
    using unat_byte [of a] unat_byte [of b] unat_byte [of c] by simp_all
  moreover have "unat a mod 4 < 4" "unat b mod 16 < 16" by simp_all
  ultimately show "unat a div 4 < 64" "unat a mod 4 * 16 + unat b div 16 < 64"
    "unat b mod 16 * 4 + unat c div 64 < 64" "unat a mod 4 * 16 < 64" "unat b mod 16 * 4 < 64"
    by linarith+
qed

lemma b64_round_trip [simp]: "b64decode (b64encode bs) = Some bs"
  by (induction bs rule: b64encode.induct)
    (simp_all add: b64_value_digit b64_digit_no_pad digit_bounds byte_parts)

lemma le_round_trip: "n < 256 ^ k \<Longrightarrow> le_value (le_bytes k n) = n"
proof (induction k arbitrary: n)
  case (Suc k)
  have "n div 256 < 256 ^ k" using Suc.prems by (simp add: less_mult_imp_div_less mult.commute)
  moreover have "unat (of_nat (n mod 256) :: byte) = n mod 256" by (simp add: unat_of_nat take_bit_eq_mod)
  ultimately show ?case using Suc.IH by simp
qed simp

lemma length_le_bytes [simp]: "length (le_bytes k n) = k"
  by (induction k arbitrary: n) simp_all

lemma pack_lengths: "pack_I n = Some bs \<Longrightarrow> length bs = 4 \<and> le_value bs = n"
    "pack_H n = Some bs \<Longrightarrow> length bs = 2 \<and> le_value bs = n"
  by (auto simp: pack_I_def pack_H_def le_round_trip split: if_splits)

lemma length_b64decode: "b64decode s = Some bs \<Longrightarrow> 4 * length bs \<le> 3 * length s"
  by (induction s arbitrary: bs rule: b64decode.induct) (auto split: option.splits if_splits)

end
