(* ===== verification/Attachments.thy ===== *)
theory Attachments
  imports Py_Bytes
begin

text \<open>
  Attachments of a request (\<open>images.py\<close>): images, audio and PDFs come inline, and each is decoded,
  measured and recognised before anything is sent. A message's content is text or a list of typed
  parts. What the image library sees in a picture is a parameter.
\<close>

definition MAX_IMAGES :: nat where "MAX_IMAGES = 64"
definition MAX_IMAGE_BYTES :: nat where "MAX_IMAGE_BYTES = 5 * 1024 * 1024"
definition MAX_TOTAL_BYTES :: nat where "MAX_TOTAL_BYTES = 10 * 1024 * 1024"
definition MAX_PIXELS :: nat where "MAX_PIXELS = 16000000"
definition MAX_DIMENSION :: nat where "MAX_DIMENSION = 8192"
definition MAX_ATTACHMENT_BYTES :: nat where "MAX_ATTACHMENT_BYTES = 10 * 1024 * 1024"
definition MAX_ATTACHMENTS_TOTAL :: nat where "MAX_ATTACHMENTS_TOTAL = 11 * 1024 * 1024"

definition PDF_DATA_URL :: string where
  "PDF_DATA_URL = ''data:application/pdf;base64,''"

datatype part =
    TextPart string
  | ImagePart string
  | AudioPart string string
  | FilePart "string option" "string option"

datatype msg_content = NoContent | PlainText string | Parts "part list"

record amessage =
  from_user :: bool
  body :: msg_content

text \<open>\<open>PART_KINDS\<close>, and the name of a part's type.\<close>

definition kind_of :: "part \<Rightarrow> string option" where
  "kind_of p =
     (case p of
        TextPart _ \<Rightarrow> None | ImagePart _ \<Rightarrow> Some ''image'' | AudioPart _ _ \<Rightarrow> Some ''audio''
      | FilePart _ _ \<Rightarrow> Some ''file'')"

definition type_name :: "part \<Rightarrow> string" where
  "type_name p =
     (case p of
        TextPart _ \<Rightarrow> ''text'' | ImagePart _ \<Rightarrow> ''image_url'' | AudioPart _ _ \<Rightarrow> ''input_audio''
      | FilePart _ _ \<Rightarrow> ''file'')"

definition parts_of :: "amessage list \<Rightarrow> part list" where
  "parts_of ms = concat (map (\<lambda>m. case body m of Parts ps \<Rightarrow> ps | _ \<Rightarrow> []) ms)"

definition attachment_kinds :: "amessage list \<Rightarrow> string set" where
  "attachment_kinds ms = set (List.map_filter kind_of (parts_of ms))"

text \<open>What the image library makes of data declared as a format: \<open>None\<close> when it does not open, else its
  width, height and whether it is animated; \<open>sound\<close> says that it verifies and decodes.\<close>

record imaging =
  picture :: "string \<Rightarrow> bytes \<Rightarrow> (nat \<times> nat \<times> bool) option"
  sound :: "string \<Rightarrow> bytes \<Rightarrow> bool"

text \<open>A refusal names a field and a reason.\<close>

type_synonym image_refusal = "string \<times> string"

definition long_for :: "nat \<Rightarrow> string \<Rightarrow> bool" where
  "long_for limit encoded \<longleftrightarrow> length encoded > 4 * ((limit + 2) div 3)"

definition validate_audio :: "string \<Rightarrow> string \<Rightarrow> string \<Rightarrow> image_refusal + nat" where
  "validate_audio encoded fmt field =
     (if long_for MAX_ATTACHMENT_BYTES encoded then Inl (field, ''audio exceeds the 10 MiB decoded limit'')
      else case b64decode encoded of
             None \<Rightarrow> Inl (field, ''audio has invalid base64; send it without a data: prefix'')
           | Some raw \<Rightarrow>
               if raw = [] \<or> length raw > MAX_ATTACHMENT_BYTES
               then Inl (field, ''audio is empty or exceeds the 10 MiB decoded limit'')
               else if (if fmt = ''wav''
                        then take 4 raw = ascii ''RIFF'' \<and> take 4 (drop 8 raw) = ascii ''WAVE''
                        else take 3 raw = ascii ''ID3'' \<or>
                          (length raw > 1 \<and> raw ! 0 = 0xFF \<and> raw ! 1 AND 0xE0 = 0xE0))
               then Inr (length raw)
               else Inl (field, ''audio does not match its declared '' @ fmt @ '' format''))"

text \<open>The PDF as a data URL, and its decoded size.\<close>

definition validate_file :: "string option \<Rightarrow> string option \<Rightarrow> string \<Rightarrow> image_refusal + string \<times> nat" where
  "validate_file file_id file_data field =
     (if file_id \<noteq> None \<and> file_id \<noteq> Some []
      then Inl (field @ ''.file_id'', ''names an uploaded file, and this install has no file store; send file_data'')
      else if file_data = None \<or> file_data = Some []
      then Inl (field @ ''.file_data'', ''is required: send the PDF inline'')
      else
        let d = the file_data in
        and_then
          (if starts_with ''data:'' d then
             (case partition_at '','' d of
                Some (header, encoded) \<Rightarrow>
                  if header @ '','' = PDF_DATA_URL then Inr encoded
                  else Inl (field @ ''.file_data'',
                    ''use a base64 PDF data URL (data:application/pdf;base64,...); other file types are not supported'')
              | None \<Rightarrow>
                  Inl (field @ ''.file_data'',
                    ''use a base64 PDF data URL (data:application/pdf;base64,...); other file types are not supported''))
           else Inr d) (\<lambda>encoded.
        if long_for MAX_ATTACHMENT_BYTES encoded
        then Inl (field @ ''.file_data'', ''file exceeds the 10 MiB decoded limit'')
        else case b64decode encoded of
               None \<Rightarrow> Inl (field @ ''.file_data'', ''is neither a PDF data URL nor base64; URLs are not fetched'')
             | Some raw \<Rightarrow>
                 if take 5 raw = ascii ''%PDF-'' then Inr (PDF_DATA_URL @ encoded, length raw)
                 else Inl (field @ ''.file_data'', ''is not a PDF'')))"

definition image_formats :: "(string \<times> string) list" where
  "image_formats = [(''data:image/png;base64'', ''PNG''), (''data:image/jpeg;base64'', ''JPEG'')]"

definition validate_image :: "imaging \<Rightarrow> string \<Rightarrow> string \<Rightarrow> image_refusal + nat" where
  "validate_image im url field =
     (case Option.bind (partition_at '','' url)
             (\<lambda>(header, encoded). map_option (\<lambda>f. (f, encoded)) (map_of image_formats header)) of
        None \<Rightarrow> Inl (field, ''use an inline base64 PNG or JPEG; URLs are not fetched'')
      | Some (fmt, encoded) \<Rightarrow>
          if long_for MAX_IMAGE_BYTES encoded then Inl (field, ''image exceeds the 5 MiB decoded limit'')
          else case b64decode encoded of
            None \<Rightarrow> Inl (field, ''image has invalid base64'')
          | Some raw \<Rightarrow>
              if raw = [] \<or> length raw > MAX_IMAGE_BYTES
              then Inl (field, ''image is empty or exceeds the 5 MiB decoded limit'')
              else case picture im fmt raw of
                None \<Rightarrow> Inl (field, ''image is invalid or does not match its PNG/JPEG type'')
              | Some (width, height, animated) \<Rightarrow>
                  if max width height > MAX_DIMENSION \<or> width * height > MAX_PIXELS \<or> min width height < 1
                  then Inl (field, ''image exceeds 8192 pixels per side or 16 million pixels'')
                  else if animated then Inl (field, ''animated images are not supported'')
                  else if sound im fmt raw then Inr (length raw)
                  else Inl (field, ''image is invalid or does not match its PNG/JPEG type''))"

subsection \<open>A request's messages\<close>

record tally =
  images :: nat
  image_total :: nat
  total :: nat

definition field_name :: "nat \<Rightarrow> nat \<Rightarrow> part \<Rightarrow> string" where
  "field_name i j p =
     ''messages['' @ str_int (int i) @ ''].content['' @ str_int (int j) @ ''].'' @ type_name p"

text \<open>One attachment: its size counted, and a PDF rewritten as a data URL.\<close>

definition add_total :: "string \<Rightarrow> nat \<Rightarrow> tally \<Rightarrow> image_refusal + tally" where
  "add_total field n t =
     (if total t + n > MAX_ATTACHMENTS_TOTAL
      then Inl (field, ''attachments exceed the 11 MiB decoded request limit'')
      else Inr (t\<lparr>total := total t + n\<rparr>))"

definition validate_part ::
  "imaging \<Rightarrow> bool \<Rightarrow> string \<Rightarrow> part \<Rightarrow> tally \<Rightarrow> image_refusal + part \<times> tally"
where
  "validate_part im user field p t =
     (case kind_of p of
        None \<Rightarrow> Inr (p, t)
      | Some k \<Rightarrow>
          if \<not> user
          then Inl (field, if k = ''image'' then ''images are supported only on user messages''
                 else ''attachments are supported only on user messages'')
          else case p of
            ImagePart url \<Rightarrow>
              if images t + 1 > MAX_IMAGES then Inl (field, ''at most 64 images are allowed per request'')
              else and_then (validate_image im url field) (\<lambda>n.
                if image_total t + n > MAX_TOTAL_BYTES
                then Inl (field, ''images exceed the 10 MiB decoded request limit'')
                else and_then (add_total field n (t\<lparr>images := images t + 1, image_total := image_total t + n\<rparr>))
                       (\<lambda>t'. Inr (p, t')))
          | AudioPart d f \<Rightarrow>
              and_then (validate_audio d f field) (\<lambda>n. and_then (add_total field n t) (\<lambda>t'. Inr (p, t')))
          | FilePart fid d \<Rightarrow>
              and_then (validate_file fid d field) (\<lambda>(url, n).
                and_then (add_total field n t) (\<lambda>t'. Inr (FilePart fid (Some url), t')))
          | TextPart s \<Rightarrow> Inr (p, t))"

fun validate_parts ::
  "imaging \<Rightarrow> bool \<Rightarrow> nat \<Rightarrow> nat \<Rightarrow> part list \<Rightarrow> tally \<Rightarrow> image_refusal + part list \<times> tally"
where
  "validate_parts im user i j [] t = Inr ([], t)"
| "validate_parts im user i j (p # ps) t =
     and_then (validate_part im user (field_name i j p) p t) (\<lambda>(p', t').
     and_then (validate_parts im user i (Suc j) ps t') (\<lambda>(ps', t''). Inr (p' # ps', t'')))"

text \<open>A list of text parts alone becomes plain text.\<close>

definition part_text :: "part \<Rightarrow> string" where
  "part_text p = (case p of TextPart s \<Rightarrow> s | _ \<Rightarrow> [])"

definition flatten :: "part list \<Rightarrow> msg_content" where
  "flatten ps =
     (if list_all (\<lambda>p. kind_of p = None) ps then PlainText (concat (map part_text ps)) else Parts ps)"

definition validate_message :: "imaging \<Rightarrow> nat \<Rightarrow> amessage \<Rightarrow> tally \<Rightarrow> image_refusal + amessage \<times> tally" where
  "validate_message im i m t =
     (case body m of
        Parts ps \<Rightarrow>
          and_then (validate_parts im (from_user m) i 0 ps t) (\<lambda>(ps', t'). Inr (m\<lparr>body := flatten ps'\<rparr>, t'))
      | _ \<Rightarrow> Inr (m, t))"

fun validate_from ::
  "imaging \<Rightarrow> nat \<Rightarrow> amessage list \<Rightarrow> tally \<Rightarrow> image_refusal + amessage list \<times> tally"
where
  "validate_from im i [] t = Inr ([], t)"
| "validate_from im i (m # ms) t =
     and_then (validate_message im i m t) (\<lambda>(m', t').
     and_then (validate_from im (Suc i) ms t') (\<lambda>(ms', t''). Inr (m' # ms', t'')))"

definition validate_messages :: "imaging \<Rightarrow> amessage list \<Rightarrow> image_refusal + amessage list" where
  "validate_messages im ms =
     and_then (validate_from im 0 ms \<lparr>images = 0, image_total = 0, total = 0\<rparr>) (\<lambda>(ms', _). Inr ms')"

subsection \<open>What passes\<close>

definition sound_image :: "imaging \<Rightarrow> string \<Rightarrow> bytes \<Rightarrow> bool" where
  "sound_image im url raw \<longleftrightarrow>
     (\<exists>header fmt encoded w h. url = header @ '','' @ encoded \<and> map_of image_formats header = Some fmt \<and>
        b64decode encoded = Some raw \<and> raw \<noteq> [] \<and> length raw \<le> MAX_IMAGE_BYTES \<and>
        picture im fmt raw = Some (w, h, False) \<and> sound im fmt raw \<and>
        1 \<le> w \<and> w \<le> MAX_DIMENSION \<and> 1 \<le> h \<and> h \<le> MAX_DIMENSION \<and> w * h \<le> MAX_PIXELS)"

definition sound_audio :: "string \<Rightarrow> string \<Rightarrow> bytes \<Rightarrow> bool" where
  "sound_audio d fmt raw \<longleftrightarrow>
     b64decode d = Some raw \<and> raw \<noteq> [] \<and> length raw \<le> MAX_ATTACHMENT_BYTES \<and>
     (if fmt = ''wav'' then \<exists>size rest. length size = 4 \<and> raw = ascii ''RIFF'' @ size @ ascii ''WAVE'' @ rest
      else (\<exists>rest. raw = ascii ''ID3'' @ rest) \<or> (\<exists>b rest. raw = 0xFF # b # rest \<and> b AND 0xE0 = 0xE0))"

definition sound_pdf :: "string option \<Rightarrow> string option \<Rightarrow> bytes \<Rightarrow> bool" where
  "sound_pdf fid d raw \<longleftrightarrow>
     (fid = None \<or> fid = Some []) \<and>
     (\<exists>encoded. d = Some (PDF_DATA_URL @ encoded) \<and> \<not> long_for MAX_ATTACHMENT_BYTES encoded \<and>
        b64decode encoded = Some raw \<and> take 5 raw = ascii ''%PDF-'')"

text \<open>An attachment that may be sent, with the bytes it carries.\<close>

definition carries :: "imaging \<Rightarrow> part \<Rightarrow> bytes \<Rightarrow> bool" where
  "carries im p raw \<longleftrightarrow>
     (case p of
        TextPart _ \<Rightarrow> False
      | ImagePart url \<Rightarrow> sound_image im url raw
      | AudioPart d fmt \<Rightarrow> sound_audio d fmt raw
      | FilePart fid d \<Rightarrow> sound_pdf fid d raw)"

lemma partition_at_append: "partition_at sep s = Some (a, b) \<Longrightarrow> s = a @ sep @ b"
proof -
  assume "partition_at sep s = Some (a, b)"
  then obtain i where i: "find_sub sep s = Some i" "a = take i s" "b = drop (i + length sep) s"
    by (auto simp: partition_at_def)
  have "take (length sep) (drop i s) = sep"
    using find_sub_Some_match [OF i(1)] by (simp add: starts_with_def)
  then have "drop i s = sep @ b" using i(3) by (metis append_take_drop_id drop_drop add.commute)
  then show "s = a @ sep @ b" using i(2) by (metis append_take_drop_id)
qed

lemma validate_image_sound:
  assumes "validate_image im url field = Inr n"
  shows "\<exists>raw. sound_image im url raw \<and> n = length raw"
proof -
  obtain header encoded where h0: "partition_at '','' url = Some (header, encoded)"
    using assms by (cases "partition_at '','' url") (auto simp: validate_image_def)
  obtain fmt where h1: "map_of image_formats header = Some fmt"
    using assms h0 by (cases "map_of image_formats header") (auto simp: validate_image_def)
  have h2: "\<not> long_for MAX_IMAGE_BYTES encoded"
    using assms h0 h1 by (auto simp: validate_image_def)
  note h = h0 h1 h2
  obtain raw where r: "b64decode encoded = Some raw" "raw \<noteq> []" "length raw \<le> MAX_IMAGE_BYTES"
    using assms h by (auto simp: validate_image_def split: option.splits if_splits)
  obtain w ht where p: "picture im fmt raw = Some (w, ht, False)" "sound im fmt raw" "n = length raw"
      "max w ht \<le> MAX_DIMENSION" "w * ht \<le> MAX_PIXELS" "\<not> min w ht < 1"
    using assms h r by (auto simp: validate_image_def not_less split: option.splits if_splits)
  have "1 \<le> w \<and> w \<le> MAX_DIMENSION \<and> 1 \<le> ht \<and> ht \<le> MAX_DIMENSION" using p(4,6) by (auto simp: min_def split: if_splits)
  then show ?thesis
    using partition_at_append [OF h(1)] h(2) r p(1-3,5) unfolding sound_image_def by blast
qed

lemma id3_bytes: "take 3 raw = ascii ''ID3'' \<Longrightarrow> \<exists>rest. raw = ascii ''ID3'' @ rest"
  by (metis append_take_drop_id)

lemma wav_bytes:
  assumes "take 4 raw = ascii ''RIFF''" and "take 4 (drop 8 raw) = ascii ''WAVE''"
  shows "\<exists>size rest. length size = 4 \<and> raw = ascii ''RIFF'' @ size @ ascii ''WAVE'' @ rest"
proof -
  have "drop 8 raw \<noteq> []" using assms(2) by (auto simp: ascii_def)
  then have "length (take 4 (drop 4 raw)) = 4" by simp
  moreover have "raw = take 4 raw @ take 4 (drop 4 raw) @ take 4 (drop 8 raw) @ drop 12 raw"
  proof -
    have "drop 4 raw = take 4 (drop 4 raw) @ drop 8 raw" "drop 8 raw = take 4 (drop 8 raw) @ drop 12 raw"
      using append_take_drop_id [of 4 "drop 4 raw"] append_take_drop_id [of 4 "drop 8 raw"] by simp_all
    then show ?thesis by (metis append_take_drop_id)
  qed
  ultimately show ?thesis unfolding assms by blast
qed

lemma frame_bytes:
  fixes raw :: bytes
  assumes "1 < length raw" and "raw ! 0 = 0xFF" and "raw ! 1 AND 0xE0 = 0xE0"
  shows "\<exists>b rest. raw = 0xFF # b # rest \<and> b AND 0xE0 = 0xE0"
  using assms by (cases raw; cases "tl raw") auto

lemma validate_audio_sound:
  assumes "validate_audio d fmt field = Inr n"
  shows "\<exists>raw. sound_audio d fmt raw \<and> n = length raw"
proof -
  obtain raw where raw: "b64decode d = Some raw" "raw \<noteq> []" "length raw \<le> MAX_ATTACHMENT_BYTES" "n = length raw"
      "if fmt = ''wav'' then take 4 raw = ascii ''RIFF'' \<and> take 4 (drop 8 raw) = ascii ''WAVE''
       else take 3 raw = ascii ''ID3'' \<or> (length raw > 1 \<and> raw ! 0 = 0xFF \<and> raw ! 1 AND 0xE0 = 0xE0)"
    using assms by (auto simp: validate_audio_def not_less split: option.splits if_splits)
  then show ?thesis
    using wav_bytes [of raw] frame_bytes [of raw] id3_bytes [of raw]
    unfolding sound_audio_def by (cases "fmt = ''wav''") auto
qed

lemma validate_file_sound:
  "validate_file fid d field = Inr (url, n) \<Longrightarrow> \<exists>raw. sound_pdf fid (Some url) raw \<and> n = length raw"
  by (auto simp: validate_file_def sound_pdf_def and_then_eq_Inr Let_def split: option.splits if_splits)

text \<open>The length check bounds a PDF, with two bytes of slack: its decoded size is not compared.\<close>

lemma pdf_size: "sound_pdf fid d raw \<Longrightarrow> length raw \<le> MAX_ATTACHMENT_BYTES + 2"
  using length_b64decode by (fastforce simp: sound_pdf_def long_for_def MAX_ATTACHMENT_BYTES_def not_less)

text \<open>The tally after some parts, with the bytes each carries.\<close>

definition is_image :: "part \<Rightarrow> bool" where
  "is_image p \<longleftrightarrow> kind_of p = Some ''image''"

definition attached :: "part list \<Rightarrow> part list" where
  "attached ps = filter (\<lambda>p. kind_of p \<noteq> None) ps"

definition counted_up :: "part list \<Rightarrow> bytes list \<Rightarrow> tally \<Rightarrow> tally \<Rightarrow> bool" where
  "counted_up ps raws t t' \<longleftrightarrow>
     images t' = images t + length (filter is_image ps) \<and>
     image_total t' = image_total t + sum_list (map (length \<circ> snd) (filter (is_image \<circ> fst) (zip ps raws))) \<and>
     total t' = total t + sum_list (map length raws)"

definition within_limits :: "tally \<Rightarrow> bool" where
  "within_limits t \<longleftrightarrow> images t \<le> MAX_IMAGES \<and> image_total t \<le> MAX_TOTAL_BYTES \<and> total t \<le> MAX_ATTACHMENTS_TOTAL"

lemma validate_part_sound:
  assumes "validate_part im user field p t = Inr (p', t')" and "within_limits t"
  shows "within_limits t' \<and> kind_of p' = kind_of p \<and> (kind_of p \<noteq> None \<longrightarrow> user) \<and>
    (\<exists>raws. list_all2 (carries im) (attached [p']) raws \<and> counted_up (attached [p']) raws t t')"
proof (cases p)
  case (TextPart s)
  then show ?thesis using assms
    by (auto simp: validate_part_def kind_of_def carries_def attached_def counted_up_def is_image_def)
next
  case (ImagePart url)
  then obtain n where n: "user" "validate_image im url field = Inr n" "p' = p" "images t + 1 \<le> MAX_IMAGES"
      "image_total t + n \<le> MAX_TOTAL_BYTES" "total t + n \<le> MAX_ATTACHMENTS_TOTAL"
      "t' = t\<lparr>images := images t + 1, image_total := image_total t + n, total := total t + n\<rparr>"
    using assms(1)
    by (auto simp: validate_part_def kind_of_def add_total_def and_then_eq_Inr not_less split: if_splits)
  then show ?thesis using validate_image_sound [OF n(2)] ImagePart
    by (auto simp: list_all2_Cons1 within_limits_def carries_def attached_def counted_up_def is_image_def kind_of_def)
next
  case (AudioPart d f)
  then obtain n where n: "user" "validate_audio d f field = Inr n" "p' = p"
      "total t + n \<le> MAX_ATTACHMENTS_TOTAL" "t' = t\<lparr>total := total t + n\<rparr>"
    using assms(1)
    by (auto simp: validate_part_def kind_of_def add_total_def and_then_eq_Inr not_less split: if_splits)
  then show ?thesis using validate_audio_sound [OF n(2)] AudioPart assms(2)
    by (auto simp: list_all2_Cons1 within_limits_def carries_def attached_def counted_up_def is_image_def kind_of_def)
next
  case (FilePart fid d)
  then obtain url n where n: "user" "validate_file fid d field = Inr (url, n)" "p' = FilePart fid (Some url)"
      "total t + n \<le> MAX_ATTACHMENTS_TOTAL" "t' = t\<lparr>total := total t + n\<rparr>"
    using assms(1)
    by (auto simp: validate_part_def kind_of_def add_total_def and_then_eq_Inr not_less split: if_splits)
  then show ?thesis using validate_file_sound [OF n(2)] FilePart assms(2)
    by (auto simp: list_all2_Cons1 within_limits_def carries_def attached_def counted_up_def is_image_def kind_of_def)
qed


lemma counted_up_append:
  assumes "counted_up ps raws t t'" and "counted_up qs raws' t' t''" and "length ps = length raws"
  shows "counted_up (ps @ qs) (raws @ raws') t t''"
  using assms by (simp add: counted_up_def)

lemma counted_up_Nil [simp]: "counted_up [] [] t t"
  by (simp add: counted_up_def)

lemma attached_append: "attached (ps @ qs) = attached ps @ attached qs"
  and attached_Nil [simp]: "attached [] = []"
  by (simp_all add: attached_def)

text \<open>Some parts after others, what each carries counted.\<close>

definition sent :: "imaging \<Rightarrow> part list \<Rightarrow> tally \<Rightarrow> tally \<Rightarrow> bool" where
  "sent im ps t t' \<longleftrightarrow>
     within_limits t' \<and> (\<exists>raws. list_all2 (carries im) (attached ps) raws \<and> counted_up (attached ps) raws t t')"

lemma sent_append:
  assumes "sent im ps t t'" and "sent im qs t' t''"
  shows "sent im (ps @ qs) t t''"
proof -
  obtain raws raws' where "list_all2 (carries im) (attached ps) raws" "counted_up (attached ps) raws t t'"
      "list_all2 (carries im) (attached qs) raws'" "counted_up (attached qs) raws' t' t''"
    using assms unfolding sent_def by blast
  then have "list_all2 (carries im) (attached (ps @ qs)) (raws @ raws') \<and>
      counted_up (attached (ps @ qs)) (raws @ raws') t t''"
    using counted_up_append list_all2_appendI list_all2_lengthD unfolding attached_append by metis
  then show ?thesis using assms(2) unfolding sent_def by blast
qed

lemma sent_limits: "sent im ps t t' \<Longrightarrow> within_limits t'"
  by (simp add: sent_def)

lemma validate_parts_sound:
  assumes "validate_parts im user i j ps t = Inr (ps', t')" and "within_limits t"
  shows "sent im ps' t t' \<and> map kind_of ps' = map kind_of ps \<and> (user \<or> (\<forall>p \<in> set ps. kind_of p = None))"
  using assms
proof (induction im user i j ps t arbitrary: ps' t' rule: validate_parts.induct)
  case (1 im user i j t)
  then show ?case by (simp add: sent_def)
next
  case (2 im user i j p ps t)
  obtain p' t1 qs where s: "validate_part im user (field_name i j p) p t = Inr (p', t1)"
      "validate_parts im user i (Suc j) ps t1 = Inr (qs, t')" "ps' = p' # qs"
    using "2.prems"(1) by (auto simp: and_then_eq_Inr)
  have one: "sent im [p'] t t1" "kind_of p' = kind_of p" "kind_of p \<noteq> None \<longrightarrow> user"
    using validate_part_sound [OF s(1) "2.prems"(2)] unfolding sent_def by blast+
  have more: "sent im qs t1 t'" "map kind_of qs = map kind_of ps" "user \<or> (\<forall>p \<in> set ps. kind_of p = None)"
    using "2.IH" s(1,2) sent_limits [OF one(1)] by blast+
  then show ?case using sent_append [OF one(1) more(1)] one(2,3) s(3) by auto
qed

text \<open>The same for messages.\<close>

definition parts_in :: "amessage \<Rightarrow> part list" where
  "parts_in m = (case body m of Parts ps \<Rightarrow> ps | _ \<Rightarrow> [])"

definition from_users :: "amessage list \<Rightarrow> bool" where
  "from_users ms \<longleftrightarrow> (\<forall>m \<in> set ms. attached (parts_in m) \<noteq> [] \<longrightarrow> from_user m)"

lemma parts_of_Cons: "parts_of (m # ms) = parts_in m @ parts_of ms"
  and parts_of_Nil [simp]: "parts_of [] = []"
  by (simp_all add: parts_of_def parts_in_def)

lemma attached_kinds: "map kind_of ps' = map kind_of ps \<Longrightarrow> attached ps' = [] \<longleftrightarrow> attached ps = []"
  unfolding attached_def filter_empty_conv by (metis (no_types, lifting) image_iff list.set_map)

lemma attached_flatten:
  "attached (parts_in (m\<lparr>body := flatten ps\<rparr>)) = attached ps"
  by (auto simp: flatten_def parts_in_def attached_def list_all_iff filter_empty_conv)

definition kinds_in :: "part list \<Rightarrow> string set" where
  "kinds_in ps = set (List.map_filter kind_of ps)"

lemma kinds_in_map: "kinds_in ps = {k. Some k \<in> set (map kind_of ps)}"
  unfolding kinds_in_def by (induction ps) (auto simp: List.map_filter_simps split: option.splits)

lemma kinds_in_flatten: "kinds_in (parts_in (m\<lparr>body := flatten ps\<rparr>)) = kinds_in ps"
  by (auto simp: kinds_in_map flatten_def parts_in_def list_all_iff image_iff)

lemma attachment_kinds_Cons:
  "attachment_kinds (m # ms) = kinds_in (parts_in m) \<union> attachment_kinds ms"
  by (auto simp: attachment_kinds_def kinds_in_map kinds_in_def [symmetric] parts_of_Cons)

lemma sent_attached: "attached ps = attached qs \<Longrightarrow> sent im ps t t' = sent im qs t t'"
  by (simp add: sent_def)

lemma validate_message_sound:
  assumes "validate_message im i m t = Inr (m', t')" and "within_limits t"
  shows "sent im (parts_in m') t t' \<and> kinds_in (parts_in m') = kinds_in (parts_in m) \<and> from_users [m']"
proof (cases "body m")
  case (Parts ps)
  then obtain ps' where p: "validate_parts im (from_user m) i 0 ps t = Inr (ps', t')"
      "m' = m\<lparr>body := flatten ps'\<rparr>"
    using assms(1) by (auto simp: validate_message_def and_then_eq_Inr)
  have q: "sent im ps' t t'" "map kind_of ps' = map kind_of ps"
      "from_user m \<or> (\<forall>p \<in> set ps. kind_of p = None)"
    using validate_parts_sound [OF p(1) assms(2)] by blast+
  have "kinds_in (parts_in m') = kinds_in (parts_in m)"
    using q(2) Parts by (simp add: p(2) kinds_in_flatten) (simp add: kinds_in_map parts_in_def)
  moreover have "from_users [m']"
    using q(2,3) attached_kinds [OF q(2)] attached_flatten [where m = m and ps = ps']
    by (auto simp: from_users_def p(2) attached_def filter_empty_conv)
  moreover have "sent im (parts_in m') t t'"
    using q(1) sent_attached [OF attached_flatten] p(2) by simp
  ultimately show ?thesis by blast
qed (use assms in \<open>auto simp: validate_message_def parts_in_def sent_def from_users_def\<close>)

lemma validate_from_sound:
  assumes "validate_from im i ms t = Inr (ms', t')" and "within_limits t"
  shows "sent im (parts_of ms') t t' \<and> attachment_kinds ms' = attachment_kinds ms \<and> from_users ms'"
  using assms
proof (induction im i ms t arbitrary: ms' t' rule: validate_from.induct)
  case (1 im i t)
  then show ?case by (simp add: sent_def from_users_def)
next
  case (2 im i m ms t)
  obtain m' t1 ns where s: "validate_message im i m t = Inr (m', t1)"
      "validate_from im (Suc i) ms t1 = Inr (ns, t')" "ms' = m' # ns"
    using "2.prems"(1) by (auto simp: and_then_eq_Inr)
  have one: "sent im (parts_in m') t t1 \<and> kinds_in (parts_in m') = kinds_in (parts_in m) \<and> from_users [m']"
    using validate_message_sound [OF s(1) "2.prems"(2)] .
  have "sent im (parts_of ns) t1 t' \<and> attachment_kinds ns = attachment_kinds ms \<and> from_users ns"
    using "2.IH" s(1,2) sent_limits one by blast
  then show ?case using one sent_append unfolding s(3) parts_of_Cons attachment_kinds_Cons
    by (auto simp: from_users_def)
qed

subsection \<open>Validating twice\<close>

lemma pdf_url_partition:
  "partition_at '','' (PDF_DATA_URL @ encoded) = Some (''data:application/pdf;base64'', encoded)"
  using partition_at_first_char [of "CHR '',''" "''data:application/pdf;base64''" "[]" encoded]
  by (simp add: PDF_DATA_URL_def)

lemma validate_file_again:
  assumes "validate_file fid d field = Inr (url, n)"
  shows "validate_file fid (Some url) field = Inr (url, n)"
proof -
  obtain encoded raw where e: "url = PDF_DATA_URL @ encoded" "\<not> long_for MAX_ATTACHMENT_BYTES encoded"
      "b64decode encoded = Some raw" "take 5 raw = ascii ''%PDF-''" "n = length raw" "fid = None \<or> fid = Some []"
    using assms by (auto simp: validate_file_def and_then_eq_Inr Let_def split: option.splits if_splits)
  have "starts_with ''data:'' url" "url \<noteq> []" "''data:application/pdf;base64'' @ '','' = PDF_DATA_URL"
    by (simp_all add: e(1) PDF_DATA_URL_def starts_with_def)
  then show ?thesis
    using e(2-6) pdf_url_partition [of encoded] unfolding e(1) by (auto simp: validate_file_def Let_def)
qed

lemma validate_part_again:
  assumes "validate_part im user field p t = Inr (p', t')"
  shows "validate_part im user field p' t = Inr (p', t') \<and> type_name p' = type_name p"
proof (cases p)
  case (FilePart fid d)
  then obtain url n where n: "user" "validate_file fid d field = Inr (url, n)" "p' = FilePart fid (Some url)"
      "add_total field n t = Inr t'"
    using assms by (auto simp: validate_part_def kind_of_def and_then_eq_Inr split: if_splits)
  then show ?thesis using validate_file_again [OF n(2)] FilePart
    by (simp add: validate_part_def kind_of_def type_name_def)
qed (use assms in \<open>auto simp: validate_part_def kind_of_def and_then_eq_Inr split: if_splits\<close>)

lemma validate_parts_again:
  "validate_parts im user i j ps t = Inr (ps', t') \<Longrightarrow> validate_parts im user i j ps' t = Inr (ps', t')"
proof (induction im user i j ps t arbitrary: ps' t' rule: validate_parts.induct)
  case (2 im user i j p ps t)
  obtain p' t1 qs where s: "validate_part im user (field_name i j p) p t = Inr (p', t1)"
      "validate_parts im user i (Suc j) ps t1 = Inr (qs, t')" "ps' = p' # qs"
    using "2.prems" by (auto simp: and_then_eq_Inr)
  have "field_name i j p' = field_name i j p" using validate_part_again [OF s(1)] by (simp add: field_name_def)
  have "validate_parts im user i (Suc j) qs t1 = Inr (qs, t')" using "2.IH" s(1,2) by blast
  then show ?case by (simp add: s(3) \<open>field_name i j p' = field_name i j p\<close> conjunct1 [OF validate_part_again [OF s(1)]])
qed simp

lemma validate_parts_texts:
  "validate_parts im user i j ps t = Inr (ps', t') \<Longrightarrow> list_all (\<lambda>p. kind_of p = None) ps \<Longrightarrow> ps' = ps \<and> t' = t"
proof (induction im user i j ps t arbitrary: ps' t' rule: validate_parts.induct)
  case (2 im user i j p ps t)
  then show ?case by (auto simp: and_then_eq_Inr validate_part_def)
qed simp

lemma validate_message_again:
  assumes "validate_message im i m t = Inr (m', t')"
  shows "validate_message im i m' t = Inr (m', t')"
proof (cases "body m")
  case (Parts ps)
  then obtain ps' where p: "validate_parts im (from_user m) i 0 ps t = Inr (ps', t')"
      "m' = m\<lparr>body := flatten ps'\<rparr>"
    using assms by (auto simp: validate_message_def and_then_eq_Inr)
  have t: "t' = t" if "list_all (\<lambda>p. kind_of p = None) ps'"
    using validate_parts_texts [OF validate_parts_again [OF p(1)] that] by blast
  show ?thesis
    using validate_parts_again [OF p(1)] t unfolding p(2) validate_message_def flatten_def by simp
qed (use assms in \<open>auto simp: validate_message_def\<close>)

lemma validate_from_again:
  "validate_from im i ms t = Inr (ms', t') \<Longrightarrow> validate_from im i ms' t = Inr (ms', t')"
proof (induction im i ms t arbitrary: ms' t' rule: validate_from.induct)
  case (2 im i m ms t)
  obtain m' t1 ns where s: "validate_message im i m t = Inr (m', t1)"
      "validate_from im (Suc i) ms t1 = Inr (ns, t')" "ms' = m' # ns"
    using "2.prems" by (auto simp: and_then_eq_Inr)
  have "validate_from im (Suc i) ns t1 = Inr (ns, t')" using "2.IH" s(1,2) by blast
  then show ?case by (simp add: s(3) validate_message_again [OF s(1)])
qed simp

text \<open>A run of parts after which the request's images and attachments are within the limits.\<close>

lemma sent_all:
  assumes "sent im ps \<lparr>images = 0, image_total = 0, total = 0\<rparr> t"
  shows "\<exists>raws. list_all2 (carries im) (attached ps) raws \<and>
    length (filter is_image (attached ps)) \<le> MAX_IMAGES \<and>
    sum_list (map (length \<circ> snd) (filter (is_image \<circ> fst) (zip (attached ps) raws))) \<le> MAX_TOTAL_BYTES \<and>
    sum_list (map length raws) \<le> MAX_ATTACHMENTS_TOTAL"
  using assms by (auto simp: sent_def counted_up_def within_limits_def)

text \<open>C19. What validation lets through: attachments stand on user messages only; each one carries bytes that are
  what it says (\<open>carries\<close>: an inline PNG or JPEG of an allowed size that decodes, a clip of its format, a PDF
  written as a data URL); no more than 64 images of 10 MiB together, no more than 11 MiB in all. What the
  request asks of its model is unchanged, and validating the result again changes nothing.\<close>

theorem validated_attachments:
  assumes "validate_messages im ms = Inr ms'"
  shows "(\<forall>m \<in> set ms'. attached (parts_in m) \<noteq> [] \<longrightarrow> from_user m) \<and>
    attachment_kinds ms' = attachment_kinds ms \<and>
    (\<exists>raws. list_all2 (carries im) (attached (parts_of ms')) raws \<and>
       length (filter is_image (attached (parts_of ms'))) \<le> MAX_IMAGES \<and>
       sum_list (map (length \<circ> snd) (filter (is_image \<circ> fst) (zip (attached (parts_of ms')) raws))) \<le> MAX_TOTAL_BYTES \<and>
       sum_list (map length raws) \<le> MAX_ATTACHMENTS_TOTAL) \<and>
    validate_messages im ms' = Inr ms'"
proof -
  obtain t where t: "validate_from im 0 ms \<lparr>images = 0, image_total = 0, total = 0\<rparr> = Inr (ms', t)"
    using assms by (auto simp: validate_messages_def and_then_eq_Inr)
  have s: "sent im (parts_of ms') \<lparr>images = 0, image_total = 0, total = 0\<rparr> t"
      "attachment_kinds ms' = attachment_kinds ms" "from_users ms'"
    using validate_from_sound [OF t] by (simp_all add: within_limits_def)
  have "validate_messages im ms' = Inr ms'"
    using validate_from_again [OF t] by (simp add: validate_messages_def)
  then show ?thesis using sent_all [OF s(1)] s(2,3) unfolding from_users_def by blast
qed

definition demo_imaging :: imaging where
  "demo_imaging = \<lparr>picture = (\<lambda>_ bs. if length bs = 3 then Some (2, 2, False) else None), sound = (\<lambda>_ _. True)\<rparr>"

definition demo_messages :: "amessage list" where
  "demo_messages =
     [\<lparr>from_user = False, body = Parts [TextPart ''a'', TextPart ''b'']\<rparr>,
      \<lparr>from_user = True, body = Parts [TextPart ''see'', ImagePart ''data:image/png;base64,AAAA'',
         FilePart None (Some ''JVBERi0x'')]\<rparr>]"

lemma demo_validates:
  "validate_messages demo_imaging demo_messages =
     Inr [\<lparr>from_user = False, body = PlainText ''ab''\<rparr>,
      \<lparr>from_user = True, body = Parts [TextPart ''see'', ImagePart ''data:image/png;base64,AAAA'',
         FilePart None (Some ''data:application/pdf;base64,JVBERi0x'')]\<rparr>]"
proof -
  have dec: "b64decode ''AAAA'' = Some [0, 0, 0]" "b64decode ''JVBERi0x'' = Some (ascii ''%PDF-1'')"
    by code_simp+
  have img: "validate_image demo_imaging ''data:image/png;base64,AAAA'' field = Inr 3" for field
  proof -
    have "partition_at '','' ''data:image/png;base64,AAAA'' = Some (''data:image/png;base64'', ''AAAA'')"
      by code_simp
    then show ?thesis using dec
      by (simp add: validate_image_def image_formats_def long_for_def demo_imaging_def MAX_IMAGE_BYTES_def
          MAX_DIMENSION_def MAX_PIXELS_def)
  qed
  have pdf: "validate_file None (Some ''JVBERi0x'') field = Inr (''data:application/pdf;base64,JVBERi0x'', 6)" for field
    using dec by (simp add: validate_file_def starts_with_def long_for_def MAX_ATTACHMENT_BYTES_def ascii_def
        PDF_DATA_URL_def)
  show ?thesis
    by (simp add: validate_messages_def demo_messages_def validate_message_def validate_part_def kind_of_def
        img pdf add_total_def flatten_def part_text_def MAX_IMAGES_def MAX_TOTAL_BYTES_def
        MAX_ATTACHMENTS_TOTAL_def)
qed

theorem validated_attachments_witness:
  "attachment_kinds [\<lparr>from_user = False, body = PlainText ''ab''\<rparr>,
      \<lparr>from_user = True, body = Parts [TextPart ''see'', ImagePart ''data:image/png;base64,AAAA'',
         FilePart None (Some ''data:application/pdf;base64,JVBERi0x'')]\<rparr>] = attachment_kinds demo_messages"
  using validated_attachments [OF demo_validates] by (rule conjunct1 [OF conjunct2])

end
