(* ===== verification/Decisions.thy ===== *)
theory Decisions
  imports Failures "HOL-Library.List_Lexorder"
begin

text \<open>
  Typed decisions (\<open>engines/systemone_http.py\<close>): the questions a request may ask, what is sent, and
  the check of what comes back. Every answer is checked against the question it answers before it
  is handed on. Documents are \<^typ>\<open>json\<close> values; \<open>repr\<close>, the formats of floats, the sum of a list
  of floats and the validation of a \<open>DecisionAnswer\<close> by its generated class are parameters. A
  violation is worded by the first clause of the code's words.
\<close>

record python =
  py_repr :: "json \<Rightarrow> string"
  py_str :: "json \<Rightarrow> string"
  fixed3 :: "rat \<Rightarrow> string"
  fsum :: "json list \<Rightarrow> rat"
  answer_model :: "dict \<Rightarrow> bool"

datatype raised = AttributeError | TypeError | OverflowError | ValidationError

text \<open>A failure is a \<open>CliError\<close>, which the routes answer, or an exception they do not expect.\<close>

datatype fault = Failed exn | Raised raised

definition cli_error :: "string \<Rightarrow> int option \<Rightarrow> exn" where
  "cli_error m st =
     \<lparr>exn_class = CliError, message = m, upstream_status = st, retry_after_seconds = None, cause = NoCause\<rparr>"

subsection \<open>Questions\<close>

definition MAX_CHOICE_OPTIONS :: nat where "MAX_CHOICE_OPTIONS = 255"
definition MIN_SCORE_LEVELS :: nat where "MIN_SCORE_LEVELS = 2"
definition MAX_SCORE_LEVELS :: nat where "MAX_SCORE_LEVELS = 10"

definition QUESTION_FIELDS :: "string list" where
  "QUESTION_FIELDS = [''type'', ''instructions'', ''criteria'']"

text \<open>\<open>sorted(set(d) - set(ks))\<close>.\<close>

definition keys_not_in :: "dict \<Rightarrow> string list \<Rightarrow> string list" where
  "keys_not_in d ks = sort (remdups (filter (\<lambda>k. k \<notin> set ks) (map fst d)))"

definition criteria_problems :: "string \<Rightarrow> string \<Rightarrow> json \<Rightarrow> string list" where
  "criteria_problems place kind criteria =
     (if kind = ''noul'' then
        (case criteria of
           JNull \<Rightarrow> []
         | JObj d \<Rightarrow>
             (if keys_not_in d [''true'', ''false''] = [] then []
              else [place @ ''.criteria for noul is an optional object''])
         | _ \<Rightarrow> [place @ ''.criteria for noul is an optional object''])
      else if kind = ''choice'' then
        (case criteria of
           JObj (c # cs) \<Rightarrow>
             (if length (c # cs) > MAX_CHOICE_OPTIONS
              then [place @ ''.criteria has '' @ str_int (int (length (c # cs))) @ '' options'']
              else [])
         | _ \<Rightarrow> [place @ ''.criteria for choice must map option names to rubrics''])
      else
        (case criteria of
           JList cs \<Rightarrow>
             (if \<not> list_all is_str cs
              then [place @ ''.criteria for score must be an array of level strings'']
              else if \<not> (MIN_SCORE_LEVELS \<le> length cs \<and> length cs \<le> MAX_SCORE_LEVELS)
              then [place @ ''.criteria has '' @ str_int (int (length cs)) @ '' levels'']
              else [])
         | _ \<Rightarrow> [place @ ''.criteria for score must be an array of level strings'']))"

definition question_problems :: "python \<Rightarrow> string \<Rightarrow> json \<Rightarrow> string list" where
  "question_problems py name q =
     (let place = ''questions['' @ py_repr py (JStr name) @ '']''
      in case q of
           JObj d \<Rightarrow>
             (let unknown = keys_not_in d QUESTION_FIELDS
              in (if unknown = [] then []
                  else [place @ '' carries fields the pinned protocol does not define: '' @
                        py_join '', '' unknown]) @
                 (case dget d ''type'' of
                    JStr kind \<Rightarrow>
                      (if kind \<in> {''noul'', ''choice'', ''score''}
                       then (if dget d ''instructions'' \<in> {JNull, JStr []}
                             then [place @ ''.instructions is required''] else []) @
                            criteria_problems place kind (dget d ''criteria'')
                       else [place @ ''.type must be one of noul, choice, score''])
                  | _ \<Rightarrow> [place @ ''.type must be one of noul, choice, score'']))
         | _ \<Rightarrow> [place @ '' must be an object''])"

definition validate_questions :: "python \<Rightarrow> json \<Rightarrow> string list" where
  "validate_questions py raw =
     (case raw of
        JObj (q # qs) \<Rightarrow> concat (map (\<lambda>(name, v). question_problems py name v) (q # qs))
      | _ \<Rightarrow> [''`questions` must be a non-empty object of named questions''])"

subsection \<open>Answers\<close>

text \<open>\<open>_finite\<close>: \<open>math.isfinite\<close> raises on an integer past the range of a float.\<close>

definition finite_number :: "json \<Rightarrow> raised + bool" where
  "finite_number v =
     (case v of
        JInt i \<Rightarrow> if int_overflows i then Inl OverflowError else Inr True
      | JFloat (Finite _) \<Rightarrow> Inr True
      | _ \<Rightarrow> Inr False)"

definition in_range :: "rat \<Rightarrow> rat \<Rightarrow> json \<Rightarrow> bool" where
  "in_range lo hi v = (case number_of v of Some x \<Rightarrow> lo \<le> x \<and> x \<le> hi | None \<Rightarrow> False)"

definition finite_within :: "rat \<Rightarrow> rat \<Rightarrow> json \<Rightarrow> raised + bool" where
  "finite_within lo hi v = and_then (finite_number v) (\<lambda>b. Inr (b \<and> in_range lo hi v))"

text \<open>\<open>all(...)\<close> stops at the first value that fails.\<close>

fun all_unit :: "json list \<Rightarrow> raised + bool" where
  "all_unit [] = Inr True"
| "all_unit (v # vs) = and_then (finite_within 0 1 v) (\<lambda>b. if b then all_unit vs else Inr False)"

text \<open>\<open>set(v)\<close>.\<close>

definition set_of :: "json \<Rightarrow> raised + json list" where
  "set_of v =
     and_then (from_option TypeError (py_iter v)) (\<lambda>xs.
       if list_all hashable xs then Inr xs else Inl TypeError)"

definition or_default :: "json \<Rightarrow> json \<Rightarrow> json" where
  "or_default v w = (if truthy v then v else w)"

text \<open>The float 0.05.\<close>

definition DISTRIBUTION_TOLERANCE :: rat where
  "DISTRIBUTION_TOLERANCE = 3602879701896397 / 2 ^ 56"

definition choice_problem :: "python \<Rightarrow> dict \<Rightarrow> dict \<Rightarrow> dict \<Rightarrow> raised + string option" where
  "choice_problem py q a probs =
     and_then (set_of (or_default (dget q ''criteria'') (JObj []))) (\<lambda>legal.
       let choice = dget a ''choice''
       in if \<not> hashable choice then Inl TypeError
          else if \<not> list_ex (py_eq choice) legal
          then Inr (Some (''choice '' @ py_repr py choice @ '' is not one of the request's options''))
          else if \<not> list_all (\<lambda>(k, _). list_ex (py_eq (JStr k)) legal) probs
          then Inr (Some ''probabilities name options the request never offered'')
          else Inr None)"

definition level_names :: "nat \<Rightarrow> string list" where
  "level_names n = map (\<lambda>i. str_int (int i)) [0..<n]"

definition score_problem :: "dict \<Rightarrow> dict \<Rightarrow> dict \<Rightarrow> raised + string option" where
  "score_problem q a probs =
     and_then (from_option TypeError (py_len (or_default (dget q ''criteria'') (JList [])))) (\<lambda>n.
     and_then (finite_within 0 (rat_of_nat (n - 1)) (dget a ''score'')) (\<lambda>ok.
       if \<not> ok
       then Inr (Some (''score is not a finite number within the '' @ str_int (int n) @ ''-level scale''))
       else if keys_not_in probs (level_names n) \<noteq> []
       then Inr (Some ''probabilities name levels outside the request's scale'')
       else (case dget a ''legend'' of
               JNull \<Rightarrow> Inr None
             | JObj l \<Rightarrow>
                 (if keys_not_in l (level_names n) = [] then Inr None
                  else Inr (Some ''legend names levels outside the request's scale''))
             | _ \<Rightarrow> Inr (Some ''legend names levels outside the request's scale''))))"

definition distribution_problem ::
  "python \<Rightarrow> json \<Rightarrow> (dict \<Rightarrow> raised + string option) \<Rightarrow> raised + string option"
where
  "distribution_problem py probs further =
     (case probs of
        JObj (p # ps) \<Rightarrow>
          and_then (all_unit (map snd (p # ps))) (\<lambda>ok.
            if \<not> ok then Inr (Some ''probabilities carry a value outside [0, 1] or not finite'')
            else let s = fsum py (map snd (p # ps))
                 in if \<bar>s - 1\<bar> > DISTRIBUTION_TOLERANCE
                    then Inr (Some (''probabilities sum to '' @ fixed3 py s @ '', not 1''))
                    else further (p # ps))
      | _ \<Rightarrow> Inr (Some ''probabilities missing''))"

definition answer_problem :: "python \<Rightarrow> dict \<Rightarrow> json \<Rightarrow> raised + string option" where
  "answer_problem py q answer =
     (case answer of
        JObj a \<Rightarrow>
          if \<not> py_eq (dget a ''type'') (dget q ''type'')
          then Inr (Some (''type '' @ py_repr py (dget a ''type'') @ '' does not match the question's '' @
                 py_repr py (dget q ''type'')))
          else and_then (if dget a ''confidence'' = JNull then Inr True
                         else finite_within 0 1 (dget a ''confidence'')) (\<lambda>ok.
            if \<not> ok then Inr (Some ''confidence is not a finite number in [0, 1]'')
            else if dget q ''type'' = JStr ''noul'' then
              and_then (finite_within 0 1 (dget a ''noul'')) (\<lambda>ok.
                Inr (if ok then None else Some ''noul is not a finite probability in [0, 1]''))
            else distribution_problem py (dget a ''probabilities'')
                   (if dget q ''type'' = JStr ''choice'' then choice_problem py q a
                    else score_problem q a))
      | _ \<Rightarrow> Inr (Some ''not an object''))"

fun answers_in_order ::
  "python \<Rightarrow> (string \<times> dict) list \<Rightarrow> dict \<Rightarrow> fault + (string \<times> dict) list"
where
  "answers_in_order py [] raw = Inr []"
| "answers_in_order py ((name, q) # qs) raw =
     (case answer_problem py q (dget raw name) of
        Inl e \<Rightarrow> Inl (Raised e)
      | Inr (Some p) \<Rightarrow>
          Inl (Failed (cli_error (''systemone_http backend answer for '' @ py_repr py (JStr name) @
            '' is malformed: '' @ p) None))
      | Inr None \<Rightarrow>
          (case dget raw name of
             JObj a \<Rightarrow>
               if answer_model py a
               then and_then (answers_in_order py qs raw) (\<lambda>out. Inr ((name, a) # out))
               else Inl (Raised ValidationError)
           | _ \<Rightarrow> Inl (Raised ValidationError)))"

definition validated_answers ::
  "python \<Rightarrow> (string \<times> dict) list \<Rightarrow> json \<Rightarrow> fault + (string \<times> dict) list"
where
  "validated_answers py questions body =
     (case body of
        JObj b \<Rightarrow>
          (case dget b ''answers'' of
             JObj raw \<Rightarrow>
               let missing = sort (filter (\<lambda>k. k \<notin> fst ` set raw) (map fst questions));
                   extra = keys_not_in raw (map fst questions)
               in if missing \<noteq> []
                  then Inl (Failed (cli_error (''systemone_http backend left questions unanswered: '' @
                         py_join '', '' missing) None))
                  else if extra \<noteq> []
                  then Inl (Failed (cli_error (''systemone_http backend answered questions nobody asked: '' @
                         py_join '', '' extra) None))
                  else answers_in_order py questions raw
           | _ \<Rightarrow> Inl (Failed (cli_error ''systemone_http backend answered without an `answers` object'' None)))
      | _ \<Rightarrow> Inl (Raised AttributeError))"

subsection \<open>A decision\<close>

record question =
  qtype :: string
  instructions :: json
  criteria :: json

text \<open>\<open>model_dump(exclude_none=True)\<close>.\<close>

definition dump_question :: "question \<Rightarrow> dict" where
  "dump_question q =
     [(''type'', JStr (qtype q)), (''instructions'', instructions q)] @
     (if criteria q = JNull then [] else [(''criteria'', criteria q)])"

record systemone =
  api_key :: "string option"
  model_id :: "string option"
  upstream_model_id :: "string option"
  provider_preferences :: dict

text \<open>\<open>__init__\<close>: the backend's name for the model is the public one unless it is set.\<close>

definition new_systemone ::
  "string option \<Rightarrow> bool \<Rightarrow> string option \<Rightarrow> string option \<Rightarrow> dict \<Rightarrow> fault + systemone"
where
  "new_systemone key auth_required mid upstream prefs =
     (if auth_required \<and> (key = None \<or> key = Some [])
      then Inl (Failed (cli_error ''systemone_http engine has no API key'' None))
      else Inr \<lparr>api_key = key, model_id = mid,
             upstream_model_id = (if upstream = None \<or> upstream = Some [] then mid else upstream),
             provider_preferences = prefs\<rparr>)"

definition set_str :: "string option \<Rightarrow> bool" where
  "set_str v \<longleftrightarrow> v \<noteq> None \<and> v \<noteq> Some []"

definition headers :: "systemone \<Rightarrow> string option \<Rightarrow> (string \<times> string) list" where
  "headers en request_id =
     [(''Accept'', ''application/json'')] @
     (if set_str (api_key en) then [(''Authorization'', ''Bearer '' @ the (api_key en))] else []) @
     (if set_str request_id then [(''X-Request-ID'', the request_id)] else [])"

definition payload :: "systemone \<Rightarrow> json \<Rightarrow> (string \<times> dict) list \<Rightarrow> dict" where
  "payload en state questions =
     [(''model'', JStr (if set_str (upstream_model_id en) then the (upstream_model_id en)
                        else ''kev-latest'')),
      (''state'', state),
      (''questions'', JObj (map (\<lambda>(name, q). (name, JObj q)) questions))] @
     (if provider_preferences en = [] then [] else [(''provider'', JObj (provider_preferences en))])"

text \<open>What \<open>post\<close> comes back with: it could not connect, it got no answer in time, it failed
  otherwise, or there is a response: its status, text, \<open>Retry-After\<close> as \<open>failures.retry_after\<close>
  reads it, and its body when that is JSON. The words of an exception come with it.\<close>

datatype posted =
    CannotConnect exn_cause string
  | NoAnswer string
  | TransportFailed string
  | Response int string "rat option" "json option"

record decision_usage =
  prompt_tokens :: "int option"
  completion_tokens :: "int option"
  total_tokens :: "int option"

definition plain_int :: "json \<Rightarrow> int option" where
  "plain_int v = (case v of JInt i \<Rightarrow> Some i | _ \<Rightarrow> None)"

text \<open>\<open>_usage_from\<close>; the generated \<open>Usage\<close> takes no negative count.\<close>

definition usage_from :: "json \<Rightarrow> fault + decision_usage option" where
  "usage_from usage =
     (case usage of
        JObj u \<Rightarrow>
          (let p = plain_int (dget u ''input_tokens''); c = plain_int (dget u ''output_tokens'');
               n = (\<lambda>x. case x of None \<Rightarrow> 0 | Some i \<Rightarrow> i)
           in if p = None \<and> c = None then Inr None
              else if n p < 0 \<or> n c < 0 \<or> n p + n c < 0 then Inl (Raised ValidationError)
              else Inr (Some \<lparr>prompt_tokens = p, completion_tokens = c, total_tokens = Some (n p + n c)\<rparr>))
      | _ \<Rightarrow> Inl (Raised AttributeError))"

definition public_model_id :: "python \<Rightarrow> systemone \<Rightarrow> json \<Rightarrow> string option" where
  "public_model_id py en reported =
     (if set_str (model_id en) \<and> upstream_model_id en \<noteq> model_id en then model_id en
      else if truthy reported then Some (py_str py reported) else model_id en)"

record decision =
  answers :: "(string \<times> dict) list"
  answered_by :: "string option"
  reported_model :: "string option"
  decision_use :: "decision_usage option"

definition read_decision ::
  "python \<Rightarrow> systemone \<Rightarrow> (string \<times> dict) list \<Rightarrow> json \<Rightarrow> fault + decision"
where
  "read_decision py en questions body =
     and_then (validated_answers py questions body) (\<lambda>ans.
       let b = (case body of JObj b \<Rightarrow> b | _ \<Rightarrow> []) in
       and_then (usage_from (or_default (dget b ''usage'') (JObj []))) (\<lambda>u.
         Inr \<lparr>answers = ans, answered_by = public_model_id py en (dget b ''model''),
              reported_model = (if truthy (dget b ''model'') then Some (py_str py (dget b ''model'')) else None),
              decision_use = u\<rparr>))"

definition read_posted ::
  "python \<Rightarrow> systemone \<Rightarrow> (string \<times> dict) list \<Rightarrow> posted \<Rightarrow> fault + decision"
where
  "read_posted py en questions posted =
     (case posted of
        CannotConnect c e \<Rightarrow>
          Inl (Failed ((cli_error (''systemone_http could not connect: '' @ e) None)\<lparr>cause := c\<rparr>))
      | NoAnswer limit \<Rightarrow>
          Inl (Failed ((cli_error (''systemone_http got no answer within '' @ limit @
            ''s (`requestTimeoutSeconds`); the backend may still be computing this decision'')
            None)\<lparr>exn_class := BackendTimeout, cause := OtherCause\<rparr>))
      | TransportFailed e \<Rightarrow>
          Inl (Failed ((cli_error (''systemone_http request failed: '' @ e) None)\<lparr>cause := OtherCause\<rparr>))
      | Response st text wait body \<Rightarrow>
          if 400 \<le> st
          then Inl (Failed ((cli_error (''systemone_http returned '' @ str_int st @ '': '' @
                 take 500 text) (Some st))\<lparr>retry_after_seconds := wait\<rparr>))
          else (case body of
                  None \<Rightarrow> Inl (Failed ((cli_error ''systemone_http returned non-JSON'' None)
                            \<lparr>cause := OtherCause\<rparr>))
                | Some b \<Rightarrow> read_decision py en questions b))"

text \<open>\<open>decide\<close>: \<open>post\<close> is the call to the backend with its headers and its payload.\<close>

definition questions_of :: "(string \<times> question) list \<Rightarrow> (string \<times> dict) list" where
  "questions_of qs = map (\<lambda>(name, q). (name, dump_question q)) qs"

definition decide ::
  "python \<Rightarrow> systemone \<Rightarrow> ((string \<times> string) list \<Rightarrow> dict \<Rightarrow> posted) \<Rightarrow> string option \<Rightarrow> json
     \<Rightarrow> (string \<times> question) list \<Rightarrow> fault + decision"
where
  "decide py en post request_id state qs =
     (let questions = questions_of qs;
          violations = validate_questions py (JObj (map (\<lambda>(name, q). (name, JObj q)) questions))
      in if violations \<noteq> []
         then Inl (Failed (cli_error (''decision request violates the pinned protocol: '' @
                py_join ''; '' violations) (Some 400)))
         else read_posted py en questions (post (headers en request_id) (payload en state questions)))"

subsection \<open>Which questions may be asked\<close>

definition well_formed_question :: "dict \<Rightarrow> bool" where
  "well_formed_question d \<longleftrightarrow>
     fst ` set d \<subseteq> set QUESTION_FIELDS \<and> dget d ''instructions'' \<notin> {JNull, JStr []} \<and>
     (let c = dget d ''criteria''
      in dget d ''type'' = JStr ''noul'' \<and>
           (c = JNull \<or> (\<exists>opts. c = JObj opts \<and> fst ` set opts \<subseteq> {''true'', ''false''})) \<or>
         dget d ''type'' = JStr ''choice'' \<and> (\<exists>opts. c = JObj opts \<and> 1 \<le> length opts \<and> length opts \<le> 255) \<or>
         dget d ''type'' = JStr ''score'' \<and>
           (\<exists>ls. c = JList (map JStr ls) \<and> 2 \<le> length ls \<and> length ls \<le> 10))"

lemma set_keys_not_in: "set (keys_not_in d ks) = fst ` set d - set ks"
  by (auto simp: keys_not_in_def)

lemma keys_not_in_Nil: "keys_not_in d ks = [] \<longleftrightarrow> fst ` set d \<subseteq> set ks"
  using set_keys_not_in [of d ks] by (metis Diff_eq_empty_iff set_empty)

lemma all_strings: "list_all is_str xs \<longleftrightarrow> (\<exists>ls. xs = map JStr ls)"
proof (induction xs)
  case (Cons x xs)
  then show ?case by (cases x) (auto simp: is_str_def Cons_eq_map_conv)
qed simp

lemma noul_criteria: "criteria_problems p ''noul'' c = [] \<longleftrightarrow>
    c = JNull \<or> (\<exists>opts. c = JObj opts \<and> fst ` set opts \<subseteq> {''true'', ''false''})"
  by (cases c) (simp_all add: criteria_problems_def keys_not_in_Nil)

lemma choice_criteria: "criteria_problems p ''choice'' c = [] \<longleftrightarrow>
    (\<exists>opts. c = JObj opts \<and> 1 \<le> length opts \<and> length opts \<le> 255)"
proof (cases c)
  case (JObj d)
  then show ?thesis by (cases d) (auto simp: criteria_problems_def MAX_CHOICE_OPTIONS_def)
qed (simp_all add: criteria_problems_def)

lemma score_criteria: "criteria_problems p ''score'' c = [] \<longleftrightarrow>
    (\<exists>ls. c = JList (map JStr ls) \<and> 2 \<le> length ls \<and> length ls \<le> 10)"
proof (cases c)
  case (JList cs)
  then show ?thesis
    by (auto simp: criteria_problems_def all_strings MIN_SCORE_LEVELS_def MAX_SCORE_LEVELS_def)
qed (simp_all add: criteria_problems_def)

lemma question_problems_Nil:
  "question_problems py name v = [] \<longleftrightarrow> (\<exists>d. v = JObj d \<and> well_formed_question d)"
proof (cases v)
  case (JObj d)
  show ?thesis
  proof (cases "dget d ''type''")
    case (JStr kind)
    consider "kind = ''noul''" | "kind = ''choice''" | "kind = ''score''"
      | "kind \<notin> {''noul'', ''choice'', ''score''}" by blast
    then show ?thesis
      by cases (simp_all add: question_problems_def JObj JStr well_formed_question_def keys_not_in_Nil
          noul_criteria choice_criteria score_criteria Let_def)
  qed (simp_all add: question_problems_def JObj well_formed_question_def Let_def)
qed (simp_all add: question_problems_def)

lemma validate_questions_Nil:
  "validate_questions py raw = [] \<longleftrightarrow>
     (\<exists>qs. raw = JObj qs \<and> qs \<noteq> [] \<and> (\<forall>(n, v) \<in> set qs. \<exists>d. v = JObj d \<and> well_formed_question d))"
proof (cases raw)
  case (JObj qs)
  then show ?thesis
    by (cases qs) (auto simp: validate_questions_def question_problems_Nil)
qed (simp_all add: validate_questions_def)

lemma caller_mistake_is_400:
  assumes "upstream_status e = Some 400" and "cause e = NoCause" and "exn_class e = CliError"
  shows "status_code (backend_error loads e kind) = 400 \<and>
    retry_disposition (problem (backend_error loads e kind)) = Some Terminal"
proof -
  have "credential_refused e = None" using assms(1) by (simp add: credential_refused_def)
  moreover have "\<not> capacity_refused e" using capacity_not_4xx assms(1) by force
  moreover have "\<not> loading_refused loads e" using loading_is_503 assms(1) by force
  ultimately show ?thesis using assms by (simp add: backend_error_def disposition_def Let_def)
qed

definition well_formed_questions :: "(string \<times> question) list \<Rightarrow> bool" where
  "well_formed_questions qs \<longleftrightarrow>
     qs \<noteq> [] \<and> list_all (\<lambda>(_, q). well_formed_question (dump_question q)) qs"

lemma well_formed_validate:
  "well_formed_questions qs \<longleftrightarrow>
     validate_questions py (JObj (map (\<lambda>(name, q). (name, JObj q)) (questions_of qs))) = []"
  by (auto simp: validate_questions_Nil well_formed_questions_def questions_of_def list_all_iff)

text \<open>C20. The questions a decision asks are exactly those of the protocol: with these the backend is asked
  and its response read, and with any other the request is refused as the caller's mistake
  whatever the backend would have said.\<close>

theorem questions_typed:
  "if well_formed_questions qs
   then decide py en post rid state qs =
      read_posted py en (questions_of qs) (post (headers en rid) (payload en state (questions_of qs)))
   else \<exists>e. (\<forall>p. decide py en p rid state qs = Inl (Failed e)) \<and>
      status_code (backend_error loads e kind) = 400 \<and>
      retry_disposition (problem (backend_error loads e kind)) = Some Terminal"
proof (cases "well_formed_questions qs")
  case True
  then show ?thesis using well_formed_validate [of qs py] by (simp add: decide_def Let_def)
next
  case False
  then have v: "validate_questions py (JObj (map (\<lambda>(name, q). (name, JObj q)) (questions_of qs))) \<noteq> []"
    using well_formed_validate by blast
  define e where "e = cli_error (''decision request violates the pinned protocol: '' @ py_join ''; ''
      (validate_questions py (JObj (map (\<lambda>(name, q). (name, JObj q)) (questions_of qs))))) (Some 400)"
  have "decide py en p rid state qs = Inl (Failed e)" for p
    using v by (simp add: decide_def Let_def e_def)
  moreover have "upstream_status e = Some 400" "cause e = NoCause" "exn_class e = CliError"
    by (simp_all add: e_def cli_error_def)
  ultimately show ?thesis using False caller_mistake_is_400 [of e loads kind] by auto
qed

subsection \<open>Which answers are handed on\<close>

definition plain_number :: "json \<Rightarrow> rat option" where
  "plain_number v =
     (case v of JInt i \<Rightarrow> Some (of_int i) | JFloat (Finite x) \<Rightarrow> Some x | _ \<Rightarrow> None)"

definition number_in :: "rat \<Rightarrow> rat \<Rightarrow> json \<Rightarrow> bool" where
  "number_in lo hi v \<longleftrightarrow> (\<exists>x. plain_number v = Some x \<and> lo \<le> x \<and> x \<le> hi)"

definition distribution :: "python \<Rightarrow> string set \<Rightarrow> json \<Rightarrow> bool" where
  "distribution py names v \<longleftrightarrow>
     (\<exists>d. v = JObj d \<and> d \<noteq> [] \<and> fst ` set d \<subseteq> names \<and> (\<forall>p \<in> snd ` set d. number_in 0 1 p) \<and>
        \<bar>fsum py (map snd d) - 1\<bar> \<le> DISTRIBUTION_TOLERANCE)"

definition legal_answer :: "python \<Rightarrow> question \<Rightarrow> dict \<Rightarrow> bool" where
  "legal_answer py q a \<longleftrightarrow>
     dget a ''type'' = JStr (qtype q) \<and>
     (dget a ''confidence'' = JNull \<or> number_in 0 1 (dget a ''confidence'')) \<and>
     (if qtype q = ''noul'' then number_in 0 1 (dget a ''noul'')
      else if qtype q = ''choice'' then
        (\<exists>opts c. criteria q = JObj opts \<and> dget a ''choice'' = JStr c \<and> c \<in> fst ` set opts \<and>
           distribution py (fst ` set opts) (dget a ''probabilities''))
      else
        (\<exists>ls. criteria q = JList ls \<and>
           number_in 0 (rat_of_nat (length ls - 1)) (dget a ''score'') \<and>
           distribution py (set (level_names (length ls))) (dget a ''probabilities'') \<and>
           (dget a ''legend'' = JNull \<or>
              (\<exists>l. dget a ''legend'' = JObj l \<and> fst ` set l \<subseteq> set (level_names (length ls))))))"

lemma small_no_overflow: "0 \<le> i \<Longrightarrow> i \<le> 255 \<Longrightarrow> \<not> int_overflows i"
  by (simp add: int_overflows_def)

lemma finite_within_True:
  assumes "hi \<le> 255"
  shows "finite_within 0 hi v = Inr True \<longleftrightarrow> number_in 0 hi v"
proof (cases v)
  case (JInt i)
  have "\<not> int_overflows i" if "0 \<le> i" "rat_of_int i \<le> hi"
    using that assms by (intro small_no_overflow) linarith+
  then show ?thesis
    by (auto simp: JInt finite_within_def finite_number_def in_range_def number_in_def plain_number_def)
qed (auto simp: finite_within_def finite_number_def in_range_def number_in_def plain_number_def
      split: pyfloat.splits)

lemma all_unit_True: "all_unit vs = Inr True \<longleftrightarrow> (\<forall>v \<in> set vs. number_in 0 1 v)"
proof (induction vs)
  case (Cons v vs)
  show ?case
  proof (cases "finite_within 0 1 v = Inr True")
    case True
    then have "number_in 0 1 v" by (simp add: finite_within_True)
    then show ?thesis using Cons True by simp
  next
    case False
    then have "\<not> number_in 0 1 v" by (simp add: finite_within_True)
    moreover have "all_unit (v # vs) \<noteq> Inr True"
      using False by (auto simp: and_then_eq_Inr split: if_splits)
    ultimately show ?thesis by simp
  qed
qed simp

lemma distribution_problem_None:
  "distribution_problem py v further = Inr None \<longleftrightarrow>
     (\<exists>d. v = JObj d \<and> d \<noteq> [] \<and> (\<forall>p \<in> snd ` set d. number_in 0 1 p) \<and>
        \<bar>fsum py (map snd d) - 1\<bar> \<le> DISTRIBUTION_TOLERANCE \<and> further d = Inr None)"
proof (cases "\<exists>p ps. v = JObj (p # ps)")
  case True
  then obtain p ps where v: "v = JObj (p # ps)" by blast
  have unit: "(\<forall>x \<in> snd ` set (p # ps). number_in 0 1 x) \<longleftrightarrow> all_unit (map snd (p # ps)) = Inr True"
    unfolding all_unit_True by simp
  show ?thesis
  proof (cases "all_unit (map snd (p # ps)) = Inr True")
    case t: True
    then show ?thesis unfolding v distribution_problem_def using unit
      by (simp add: Let_def not_less del: all_unit.simps)
  next
    case False
    then show ?thesis unfolding v distribution_problem_def using unit
      by (auto simp: and_then_eq_Inr simp del: all_unit.simps)
  qed
next
  case False
  then show ?thesis by (cases v) (auto simp: distribution_problem_def neq_Nil_conv split: list.splits)
qed

lemma py_eq_JStr_right [simp]: "py_eq v (JStr s) \<longleftrightarrow> v = JStr s"
proof (cases v)
  case (JFloat x)
  then show ?thesis by (cases x) simp_all
qed auto

lemma set_of_options: "set_of (or_default (JObj opts) (JObj [])) = Inr (map (JStr \<circ> fst) opts)"
  by (cases opts) (auto simp: set_of_def or_default_def truthy_def py_iter_def hashable_def list_all_iff)

lemma keys_all: "list_all (\<lambda>(k, _). k \<in> A) d \<longleftrightarrow> fst ` set d \<subseteq> A"
  by (induction d) auto

lemma choice_problem_None:
  assumes "dget q ''criteria'' = JObj opts"
  shows "choice_problem py q a probs = Inr None \<longleftrightarrow>
     (\<exists>c. dget a ''choice'' = JStr c \<and> c \<in> fst ` set opts) \<and> fst ` set probs \<subseteq> fst ` set opts"
proof -
  have mem: "list_ex (py_eq v) (map (JStr \<circ> fst) opts) \<longleftrightarrow> (\<exists>c. v = JStr c \<and> c \<in> fst ` set opts)" for v
    by (force simp: list_ex_iff simp del: py_eq.simps)
  have keys: "list_all (\<lambda>(k, _). list_ex (py_eq (JStr k)) (map (JStr \<circ> fst) opts)) probs \<longleftrightarrow>
      fst ` set probs \<subseteq> fst ` set opts"
    using keys_all [of "fst ` set opts" probs] unfolding mem by simp
  show ?thesis
    unfolding choice_problem_def assms set_of_options and_then_Inr Let_def mem keys
    by (auto simp: keys_all hashable_def split: json.splits)
qed

lemma score_problem_None:
  assumes "dget q ''criteria'' = JList ls" and "length ls \<le> 10"
  shows "score_problem q a probs = Inr None \<longleftrightarrow>
     number_in 0 (rat_of_nat (length ls - 1)) (dget a ''score'') \<and>
     fst ` set probs \<subseteq> set (level_names (length ls)) \<and>
     (dget a ''legend'' = JNull \<or>
        (\<exists>l. dget a ''legend'' = JObj l \<and> fst ` set l \<subseteq> set (level_names (length ls))))"
proof -
  let ?n = "length ls"
  have len: "py_len (or_default (JList ls) (JList [])) = Some ?n"
    by (cases ls) (simp_all add: py_len_def or_default_def truthy_def)
  define hi where "hi = rat_of_nat (?n - 1)"
  have "hi \<le> 255" using assms(2) unfolding hi_def by linarith
  note fin = finite_within_True [OF this]
  have "score_problem q a probs = Inr None \<longleftrightarrow>
     number_in 0 hi (dget a ''score'') \<and> fst ` set probs \<subseteq> set (level_names ?n) \<and>
     (dget a ''legend'' = JNull \<or>
        (\<exists>l. dget a ''legend'' = JObj l \<and> fst ` set l \<subseteq> set (level_names ?n)))"
  proof (cases "finite_within 0 hi (dget a ''score'') = Inr True")
    case True
    then show ?thesis
      unfolding score_problem_def assms(1) len from_option_simps and_then_Inr hi_def [symmetric]
      by (cases "dget a ''legend''") (simp_all add: fin [symmetric] keys_not_in_Nil)
  next
    case False
    then show ?thesis
      unfolding score_problem_def assms(1) len from_option_simps and_then_Inr hi_def [symmetric]
      by (auto simp: fin [symmetric] and_then_eq_Inr split: if_splits)
  qed
  then show ?thesis unfolding hi_def .
qed

lemma level_names_of: "dget (dump_question q) ''type'' = JStr (qtype q)"
    "dget (dump_question q) ''criteria'' = criteria q"
  by (simp_all add: dump_question_def)

text \<open>The check of an answer accepts the legal ones and no other.\<close>

lemma answer_problem_None:
  assumes "well_formed_question (dump_question q)"
  shows "answer_problem py (dump_question q) v = Inr None \<longleftrightarrow> (\<exists>a. v = JObj a \<and> legal_answer py q a)"
proof (cases v)
  case (JObj a)
  let ?c = "if dget a ''confidence'' = JNull then Inr True else finite_within 0 1 (dget a ''confidence'')"
  have conf: "?c = Inr True \<longleftrightarrow> dget a ''confidence'' = JNull \<or> number_in 0 1 (dget a ''confidence'')"
    by (simp add: finite_within_True)
  have kinds: "qtype q = ''noul'' \<or> (qtype q = ''choice'' \<and> (\<exists>opts. criteria q = JObj opts)) \<or>
      (qtype q = ''score'' \<and> (\<exists>ls. criteria q = JList ls \<and> length ls \<le> 10))"
    using assms by (auto simp: well_formed_question_def level_names_of Let_def)
  show ?thesis
  proof (cases "dget a ''type'' = JStr (qtype q) \<and> ?c = Inr True")
    case False
    then show ?thesis
      using conf by (auto simp: JObj answer_problem_def legal_answer_def level_names_of and_then_eq_Inr
          simp del: py_eq.simps)
  next
    case True
    from kinds show ?thesis
    proof (elim disjE conjE exE)
      assume "qtype q = ''noul''"
      then show ?thesis
        using True conf unfolding JObj answer_problem_def legal_answer_def level_names_of
        by (auto simp: and_then_eq_Inr finite_within_True [symmetric] simp del: py_eq.simps)
    next
      fix opts assume "qtype q = ''choice''" "criteria q = JObj opts"
      then show ?thesis
        using True conf unfolding JObj answer_problem_def legal_answer_def level_names_of
        by (auto simp: distribution_problem_None choice_problem_None level_names_of distribution_def
            simp del: py_eq.simps)
    next
      fix ls assume "qtype q = ''score''" "criteria q = JList ls" "length ls \<le> 10"
      then show ?thesis
        using True conf unfolding JObj answer_problem_def legal_answer_def level_names_of
        by (auto simp: distribution_problem_None score_problem_None level_names_of distribution_def
            simp del: py_eq.simps)
    qed
  qed
qed (simp_all add: answer_problem_def)

lemma answers_in_order_Inr:
  assumes "list_all (\<lambda>(_, q). well_formed_question (dump_question q)) qs"
  shows "answers_in_order py (questions_of qs) raw = Inr out \<longleftrightarrow>
    list_all2 (\<lambda>(n, q) (n', a). n' = n \<and> dget raw n = JObj a \<and> legal_answer py q a \<and> answer_model py a)
      qs out"
  using assms
proof (induction qs arbitrary: out)
  case Nil
  then show ?case by (auto simp: questions_of_def)
next
  case (Cons nq qs)
  obtain n q where nq: "nq = (n, q)" by force
  have wf: "well_formed_question (dump_question q)"
    and rest: "list_all (\<lambda>(_, q). well_formed_question (dump_question q)) qs"
    using Cons.prems by (simp_all add: nq)
  note none = answer_problem_None [OF wf, of py "dget raw n"]
  show ?case
  proof (cases "answer_problem py (dump_question q) (dget raw n)")
    case (Inl e)
    then show ?thesis using none by (auto simp: nq questions_of_def list_all2_Cons1)
  next
    case (Inr p)
    show ?thesis
    proof (cases p)
      case None
      with Inr none obtain a where a: "dget raw n = JObj a" "legal_answer py q a" by auto
      show ?thesis
        using Cons.IH [OF rest] a Inr None
        by (auto simp: nq questions_of_def list_all2_Cons1 and_then_eq_Inr)
    next
      case (Some m)
      then show ?thesis using Inr none by (auto simp: nq questions_of_def list_all2_Cons1)
    qed
  qed
qed

lemma validated_answers_Inr:
  assumes "list_all (\<lambda>(_, q). well_formed_question (dump_question q)) qs"
  shows "validated_answers py (questions_of qs) body = Inr out \<longleftrightarrow>
    (\<exists>b raw. body = JObj b \<and> dget b ''answers'' = JObj raw \<and> fst ` set raw = fst ` set qs \<and>
      list_all2 (\<lambda>(n, q) (n', a). n' = n \<and> dget raw n = JObj a \<and> legal_answer py q a \<and> answer_model py a)
        qs out)"
proof (cases "\<exists>b raw. body = JObj b \<and> dget b ''answers'' = JObj raw")
  case True
  then obtain b raw where raw: "body = JObj b" "dget b ''answers'' = JObj raw" by blast
  have names: "map fst (questions_of qs) = map fst qs"
    by (auto simp: questions_of_def)
  have missing: "sort (filter (\<lambda>k. k \<notin> fst ` set raw) (map fst qs)) = [] \<longleftrightarrow> fst ` set qs \<subseteq> fst ` set raw"
  proof -
    have "set (sort (filter (\<lambda>k. k \<notin> fst ` set raw) (map fst qs))) = fst ` set qs - fst ` set raw"
      by auto
    then show ?thesis by (metis Diff_eq_empty_iff set_empty)
  qed
  have extra: "keys_not_in raw (map fst qs) = [] \<longleftrightarrow> fst ` set raw \<subseteq> fst ` set qs"
    by (simp add: keys_not_in_Nil)
  show ?thesis
  proof (cases "fst ` set raw = fst ` set qs")
    case eq: True
    then have "validated_answers py (questions_of qs) body = answers_in_order py (questions_of qs) raw"
      using missing extra by (simp add: validated_answers_def raw names Let_def)
    then show ?thesis using raw eq by (simp add: answers_in_order_Inr [OF assms])
  next
    case neq: False
    then have "sort (filter (\<lambda>k. k \<notin> fst ` set raw) (map fst qs)) \<noteq> [] \<or> keys_not_in raw (map fst qs) \<noteq> []"
      unfolding missing extra by blast
    then have "validated_answers py (questions_of qs) body \<noteq> Inr out"
      unfolding validated_answers_def raw(1) json.case raw(2) names Let_def by (simp split: if_splits)
    then show ?thesis using neq raw by simp
  qed
next
  case False
  then show ?thesis by (cases body) (auto simp: validated_answers_def split: json.splits)
qed

lemma read_decision_answers:
  "(\<exists>d. read_decision py en questions (JObj b) = Inr d \<and> answers d = out) \<longleftrightarrow>
     validated_answers py questions (JObj b) = Inr out \<and>
     (\<exists>u. usage_from (or_default (dget b ''usage'') (JObj [])) = Inr u)"
proof (cases "validated_answers py questions (JObj b)")
  case v: (Inr ans)
  show ?thesis
    by (cases "usage_from (or_default (dget b ''usage'') (JObj []))")
      (auto simp: read_decision_def v Let_def)
qed (simp add: read_decision_def)

text \<open>C21. A decision that is handed on answers each question asked, in order and nothing else, each with
  a legal answer of its kind and the one the backend gave; whatever else the backend says is an
  error and never a decision. A legal answer to every question is accepted.\<close>

theorem decisions_legal:
  assumes "well_formed_questions qs"
    and "post (headers en rid) (payload en state (questions_of qs)) = Response st text wait (Some body)"
    and "st < 400"
  shows "(\<exists>d. decide py en post rid state qs = Inr d \<and> answers d = out) \<longleftrightarrow>
    (\<exists>b raw u. body = JObj b \<and> usage_from (or_default (dget b ''usage'') (JObj [])) = Inr u \<and>
      dget b ''answers'' = JObj raw \<and> fst ` set raw = fst ` set qs \<and>
      list_all2 (\<lambda>(n, q) (n', a). n' = n \<and> dget raw n = JObj a \<and> legal_answer py q a \<and> answer_model py a)
        qs out)"
proof -
  have wf: "list_all (\<lambda>(_, q). well_formed_question (dump_question q)) qs"
    using assms(1) by (simp add: well_formed_questions_def)
  have "decide py en post rid state qs = read_decision py en (questions_of qs) body"
    using questions_typed [of qs] assms by (simp add: read_posted_def)
  then have d: "(\<exists>d. decide py en post rid state qs = Inr d \<and> answers d = out) \<longleftrightarrow>
      (\<exists>d. read_decision py en (questions_of qs) body = Inr d \<and> answers d = out)" by simp
  show ?thesis
  proof (cases body)
    case (JObj b)
    show ?thesis
      unfolding d unfolding JObj read_decision_answers validated_answers_Inr [OF wf] by simp blast
  qed (simp_all add: d read_decision_def validated_answers_def)
qed

lemma number_in_finite: "number_in lo hi (JFloat (Finite x)) \<longleftrightarrow> lo \<le> x \<and> x \<le> hi"
  by (auto simp: number_in_def plain_number_def)

definition demo_python :: python where
  "demo_python = \<lparr>py_repr = (\<lambda>_. ''?''), py_str = (\<lambda>_. ''?''), fixed3 = (\<lambda>_. ''?''),
     fsum = (\<lambda>vs. sum_list (map (\<lambda>v. case number_of v of Some x \<Rightarrow> x | None \<Rightarrow> 0) vs)),
     answer_model = (\<lambda>_. True)\<rparr>"

definition demo_engine :: systemone where
  "demo_engine = \<lparr>api_key = None, model_id = Some ''m'', upstream_model_id = Some ''m'',
     provider_preferences = []\<rparr>"

definition demo_questions :: "(string \<times> question) list" where
  "demo_questions =
     [(''spam'', \<lparr>qtype = ''noul'', instructions = JStr ''Is it spam?'', criteria = JNull\<rparr>),
      (''queue'', \<lparr>qtype = ''choice'', instructions = JStr ''Which?'',
         criteria = JObj [(''a'', JNull), (''b'', JNull)]\<rparr>)]"

definition demo_answers :: "(string \<times> dict) list" where
  "demo_answers =
     [(''spam'', [(''type'', JStr ''noul''), (''noul'', JFloat (Finite (3/4)))]),
      (''queue'', [(''type'', JStr ''choice''), (''choice'', JStr ''b''),
         (''probabilities'', JObj [(''a'', JFloat (Finite (1/4))), (''b'', JFloat (Finite (3/4)))])])]"

definition demo_body :: json where
  "demo_body = JObj [(''answers'', JObj (rev (map (\<lambda>(n, a). (n, JObj a)) demo_answers)))]"

lemma demo_well_formed: "well_formed_questions demo_questions"
  by (simp add: well_formed_questions_def demo_questions_def well_formed_question_def dump_question_def
      QUESTION_FIELDS_def)

theorem decisions_legal_witness:
  "\<exists>d. decide demo_python demo_engine (\<lambda>h p. Response 200 [] None (Some demo_body)) None (JStr ''s'')
      demo_questions = Inr d \<and> answers d = demo_answers"
proof -
  have "legal_answer demo_python (snd (demo_questions ! 0)) (snd (demo_answers ! 0))"
    "legal_answer demo_python (snd (demo_questions ! 1)) (snd (demo_answers ! 1))"
    by (simp_all add: legal_answer_def demo_questions_def demo_answers_def number_in_finite
        distribution_def demo_python_def DISTRIBUTION_TOLERANCE_def)
  moreover have "answer_model demo_python a" for a by (simp add: demo_python_def)
  ultimately show ?thesis
    by (subst decisions_legal [OF demo_well_formed refl])
      (auto simp: demo_body_def demo_questions_def demo_answers_def or_default_def truthy_def usage_from_def
        plain_int_def)
qed

text \<open>An answer that chooses with a list is not reported as malformed: looking it up among the options
  raises, and the exception is not a \<open>CliError\<close>.\<close>

lemma unhashable_choice_raises:
  "validated_answers demo_python
     [(''q'', [(''type'', JStr ''choice''), (''instructions'', JStr ''i''), (''criteria'', JObj [(''a'', JNull)])])]
     (JObj [(''answers'', JObj [(''q'', JObj [(''type'', JStr ''choice''), (''choice'', JList []),
        (''probabilities'', JObj [(''a'', JInt 1)])])])]) = Inl (Raised TypeError)"
  by (simp add: validated_answers_def answer_problem_def distribution_problem_def choice_problem_def
      finite_within_def finite_number_def in_range_def int_overflows_def set_of_def or_default_def truthy_def
      py_iter_def hashable_def demo_python_def DISTRIBUTION_TOLERANCE_def keys_not_in_def)

text \<open>An answer of one kind may carry the fields of another.\<close>

lemma mixed_fields_accepted:
  "validated_answers demo_python
     [(''q'', [(''type'', JStr ''noul''), (''instructions'', JStr ''i'')])]
     (JObj [(''answers'', JObj [(''q'', JObj [(''type'', JStr ''noul''), (''noul'', JInt 1),
        (''choice'', JStr ''z'')])])]) =
   Inr [(''q'', [(''type'', JStr ''noul''), (''noul'', JInt 1), (''choice'', JStr ''z'')])]"
  by (simp add: validated_answers_def answer_problem_def finite_within_def finite_number_def in_range_def
      int_overflows_def demo_python_def keys_not_in_def)

end
