(* ===== verification/Engine_Base.thy ===== *)
theory Engine_Base
  imports Openai_Wire
begin

text \<open>
  What every engine shares (\<open>engines/base.py\<close>): the request and the chunks of an answer as the code
  reads them, the rule for a driver of one model, and the two ways a setting the backend cannot
  carry is met. A setting the caller named is refused; one that came from a default is dropped and
  said once.
\<close>

subsection \<open>Requests and chunks\<close>

record gen_request =
  asked_model :: "string option"
  stop :: "string list option"
  seed :: "int option"
  top_p :: "rat option"
  reasoning_effort :: "string option"
  tools :: "dict list option"
  tool_choice :: json
  parallel_tool_calls :: "bool option"
  caller_settings :: "string list option"
  local_only :: "bool option"
  audio_output :: "string option"
  completion_prompt :: "json option"

text \<open>\<open>rest\<close> holds the fields of a result nothing here looks at.\<close>

record gen_result =
  content :: "string option"
  reasoning_text :: "string option"
  calls :: "tool_call list option"
  finish_reason :: string
  stop_sequence :: "string option"
  rest :: dict

record chunk =
  ctext :: string
  creasoning :: string
  ctool_calls :: "call_delta list option"
  clogprobs :: "json option"
  cannotations :: "json list option"
  caudio :: "json option"
  cprogress :: "json option"
  cdone :: bool
  cresult :: "gen_result option"

definition plain_chunk :: chunk where
  "plain_chunk = \<lparr>ctext = [], creasoning = [], ctool_calls = None, clogprobs = None,
     cannotations = None, caudio = None, cprogress = None, cdone = False, cresult = None\<rparr>"

text \<open>\<open>bool(xs)\<close> of an optional list.\<close>

definition given :: "'a list option \<Rightarrow> bool" where
  "given v \<longleftrightarrow> v \<noteq> None \<and> v \<noteq> Some []"

subsection \<open>A driver of one model\<close>

text \<open>\<open>ModelNotServed\<close> holds the number of models served here.\<close>

datatype model_refusal = ModelNotServed string nat | ModelRequired

definition resolve_single_model ::
  "string option \<Rightarrow> string option \<Rightarrow> model_refusal + string option"
where
  "resolve_single_model model_id requested =
     (case requested of
        None \<Rightarrow> Inr model_id
      | Some r \<Rightarrow>
          if requested = model_id then Inr model_id
          else Inl (ModelNotServed r (if given model_id then 1 else 0)))"

definition model_refusal_words :: "(string \<Rightarrow> string) \<Rightarrow> model_refusal \<Rightarrow> string" where
  "model_refusal_words py_repr e =
     (case e of
        ModelNotServed r n \<Rightarrow>
          ''This driver does not serve '' @ py_repr r @ '' ('' @ str_int (int n) @ '' model'' @
          (if n = 1 then [] else ''s'') @ '' served here). GET /v1/info lists them.''
      | ModelRequired \<Rightarrow> [])"

subsection \<open>Settings a backend cannot carry\<close>

definition TOOL_COMPANION_SETTINGS :: "string list" where
  "TOOL_COMPANION_SETTINGS = [''toolChoice'', ''parallelToolCalls'']"

definition setting_names :: "(string \<times> string) list" where
  "setting_names =
     [(''maxTokens'', ''max_tokens/max_completion_tokens''), (''topP'', ''top_p''),
      (''toolChoice'', ''tool_choice''), (''responseFormat'', ''response_format''),
      (''topK'', ''top_k''), (''minP'', ''min_p''), (''frequencyPenalty'', ''frequency_penalty''),
      (''presencePenalty'', ''presence_penalty''), (''parallelToolCalls'', ''parallel_tool_calls''),
      (''logitBias'', ''logit_bias''), (''reasoningEffort'', ''reasoning_effort''),
      (''webSearchOptions'', ''web_search_options'')]"

text \<open>The words of the \<open>CliError\<close>, whose upstream status is 400.\<close>

definition setting_refusal :: "string \<Rightarrow> string option \<Rightarrow> string" where
  "setting_refusal field because =
     (case map_of setting_names field of Some n \<Rightarrow> n | None \<Rightarrow> field) @
     '': this engine cannot honor this explicit setting'' @
     (if given because then '' because '' @ the because else []) @
     ''; remove it or select a backend that supports it.''"

definition explicit_settings :: "gen_request \<Rightarrow> string list" where
  "explicit_settings r = (case caller_settings r of None \<Rightarrow> [] | Some fs \<Rightarrow> fs)"

definition refuse_unsupported_settings ::
  "gen_request \<Rightarrow> string list \<Rightarrow> string option \<Rightarrow> string + unit"
where
  "refuse_unsupported_settings r unsupported because =
     (case List.find (\<lambda>f. f \<in> set unsupported \<and> f \<noteq> ''reasoningEffort'') (explicit_settings r) of
        Some field \<Rightarrow> Inl (setting_refusal field because)
      | None \<Rightarrow> Inr ())"

definition CLI_UNSUPPORTED :: "string list" where
  "CLI_UNSUPPORTED =
     [''maxTokens'', ''temperature'', ''topP'', ''seed'', ''stop'', ''tools'', ''toolChoice'',
      ''responseFormat'', ''topK'', ''minP'', ''frequencyPenalty'', ''presencePenalty'',
      ''parallelToolCalls'', ''logprobs'', ''logitBias'', ''reasoningEffort'', ''verbosity'',
      ''prediction'', ''webSearchOptions'']"

text \<open>Which of the dropped settings a request carries, in the order they are warned of.\<close>

definition sampling_carried :: "gen_request \<Rightarrow> string list" where
  "sampling_carried r =
     (if top_p r \<noteq> None then [''topP''] else []) @
     (if seed r \<noteq> None then [''seed''] else []) @
     (if reasoning_effort r \<noteq> None then [''reasoningEffort''] else [])"

definition companions_carried :: "gen_request \<Rightarrow> string list" where
  "companions_carried r =
     (if tool_choice r \<noteq> JNull then [''toolChoice''] else []) @
     (if parallel_tool_calls r \<noteq> None then [''parallelToolCalls''] else [])"

text \<open>The warnings of a request, and what has been warned of after it. \<open>warned\<close> lives as long as
  the engine.\<close>

definition warn_dropped_sampling ::
  "gen_request \<Rightarrow> string \<Rightarrow> string list \<Rightarrow> string + string list \<times> string list"
where
  "warn_dropped_sampling r engine warned =
     and_then
       (if given (tools r)
        then and_then (refuse_unsupported_settings r (''tools'' # TOOL_COMPANION_SETTINGS)
               (Some (''Eugene has no way to carry tools to '' @ engine @
                  '' (the harness on the other side of the pipe runs its own tools)'')))
               (\<lambda>_. Inr CLI_UNSUPPORTED)
        else Inr (filter (\<lambda>f. f \<notin> set TOOL_COMPANION_SETTINGS) CLI_UNSUPPORTED)) (\<lambda>unsupported.
     and_then (refuse_unsupported_settings r unsupported None) (\<lambda>_.
       let named = filter (\<lambda>f. f \<notin> set warned)
             (sampling_carried r @ (if given (tools r) then [] else companions_carried r))
       in Inr (named, warned @ named)))"

text \<open>A run of requests through one engine: what was said for each that was let through, and the
  warned set at the end. \<open>accepted\<close> are the requests let through.\<close>

fun warn_run :: "string \<Rightarrow> string list \<Rightarrow> gen_request list \<Rightarrow> string list \<times> gen_request list \<times> string list"
where
  "warn_run engine warned [] = ([], [], warned)"
| "warn_run engine warned (r # rs) =
     (case warn_dropped_sampling r engine warned of
        Inl _ \<Rightarrow> warn_run engine warned rs
      | Inr (named, w) \<Rightarrow>
          (case warn_run engine w rs of (more_named, accepted, w') \<Rightarrow>
             (named @ more_named, r # accepted, w')))"

subsection \<open>Nothing is dropped in silence\<close>

lemma refuse_unsupported_ok:
  "refuse_unsupported_settings r unsupported because = Inr u \<longleftrightarrow>
     (\<forall>f \<in> set (explicit_settings r).
        f \<in> set unsupported \<longrightarrow> f = ''reasoningEffort'')"
proof (cases "List.find (\<lambda>f. f \<in> set unsupported \<and> f \<noteq> ''reasoningEffort'')
    (explicit_settings r)")
  case None
  then have "refuse_unsupported_settings r unsupported because = Inr u"
    by (simp add: refuse_unsupported_settings_def)
  then show ?thesis using None by (auto simp: find_None_iff)
next
  case (Some f)
  then have "\<exists>f \<in> set (explicit_settings r).
      f \<in> set unsupported \<and> f \<noteq> ''reasoningEffort''"
    by (auto simp: find_Some_iff)
  then show ?thesis using Some by (auto simp: refuse_unsupported_settings_def)
qed

text \<open>What a request loses: the settings it carries and the backend does not take.\<close>

definition loses :: "gen_request \<Rightarrow> string set" where
  "loses r = set (sampling_carried r) \<union> (if given (tools r) then {} else set (companions_carried r))"

lemma warned_once:
  assumes "warn_dropped_sampling r engine warned = Inr (named, w)"
  shows "w = warned @ named" and "distinct named" and "set named = loses r - set warned"
    and "\<forall>f \<in> set (explicit_settings r).
      f \<in> set CLI_UNSUPPORTED \<longrightarrow>
      f = ''reasoningEffort'' \<or> (f \<in> set TOOL_COMPANION_SETTINGS \<and> \<not> given (tools r))"
proof -
  have "distinct (sampling_carried r)" "distinct (companions_carried r)"
    "set (sampling_carried r) \<inter> set (companions_carried r) = {}"
    by (auto simp: sampling_carried_def companions_carried_def)
  then show "w = warned @ named" "distinct named" "set named = loses r - set warned"
    using assms by (auto simp: warn_dropped_sampling_def and_then_eq_Inr Let_def loses_def disjoint_iff)
  show "\<forall>f \<in> set (explicit_settings r).
      f \<in> set CLI_UNSUPPORTED \<longrightarrow>
      f = ''reasoningEffort'' \<or> (f \<in> set TOOL_COMPANION_SETTINGS \<and> \<not> given (tools r))"
    using assms
    by (auto simp: warn_dropped_sampling_def and_then_eq_Inr refuse_unsupported_ok split: if_splits)
qed

lemma warn_run_said:
  "warn_run engine warned rs = (named, accepted, w) \<Longrightarrow>
    w = warned @ named \<and> distinct named \<and> set named = \<Union> (loses ` set accepted) - set warned"
proof (induction rs arbitrary: warned named accepted w)
  case (Cons r rs)
  show ?case
  proof (cases "warn_dropped_sampling r engine warned")
    case (Inr res)
    obtain named1 w1 where res: "res = (named1, w1)" by force
    obtain named2 acc2 where run: "warn_run engine w1 rs = (named2, acc2, w)"
        "named = named1 @ named2" "accepted = r # acc2"
      using Cons.prems Inr res by (auto split: prod.splits)
    show ?thesis
      using Cons.IH [OF run(1)] warned_once [of r engine warned named1 w1] Inr res run(2,3) by auto
  qed (use Cons in auto)
qed simp

lemma warn_run_explicit:
  "warn_run engine warned rs = (named, accepted, w) \<Longrightarrow> r \<in> set accepted \<Longrightarrow>
    f \<in> set (explicit_settings r) \<Longrightarrow> f \<in> set CLI_UNSUPPORTED \<Longrightarrow>
    f = ''reasoningEffort'' \<or> (f \<in> set TOOL_COMPANION_SETTINGS \<and> \<not> given (tools r))"
proof (induction rs arbitrary: warned named accepted w)
  case (Cons q rs)
  show ?case
  proof (cases "warn_dropped_sampling q engine warned")
    case (Inr res)
    obtain named1 w1 where res: "res = (named1, w1)" by force
    obtain named2 acc2 where run: "warn_run engine w1 rs = (named2, acc2, w)" "accepted = q # acc2"
      using Cons.prems(1) Inr res by (auto split: prod.splits)
    show ?thesis
      using Cons.IH [OF run(1)] warned_once(4) [of q engine warned named1 w1] Inr res run(2) Cons.prems(2-4)
      by auto
  qed (use Cons in auto)
qed simp

text \<open>A command-line engine drops no setting in silence. Of the requests it lets through, none has a
  setting the caller named and the engine cannot carry, but reasoning effort and, without tools,
  what only goes with tools; and every setting that is dropped is said exactly once in the life
  of the engine.\<close>

lemma settings_dropped_are_said:
  assumes "warn_run engine [] rs = (named, accepted, w)"
  shows "distinct named \<and> set named = \<Union> (loses ` set accepted) \<and>
    (\<forall>r \<in> set accepted. \<forall>f \<in> set (explicit_settings r).
       f \<in> set CLI_UNSUPPORTED \<longrightarrow>
       f = ''reasoningEffort'' \<or> (f \<in> set TOOL_COMPANION_SETTINGS \<and> \<not> given (tools r)))"
  using warn_run_said [OF assms] warn_run_explicit [OF assms] by simp

definition demo_request :: gen_request where
  "demo_request = \<lparr>asked_model = None, stop = None, seed = Some 1, top_p = None, reasoning_effort = None,
     tools = None, tool_choice = JStr ''auto'', parallel_tool_calls = None,
     caller_settings = Some [''toolChoice''], local_only = None, audio_output = None,
     completion_prompt = None\<rparr>"

lemma settings_dropped_are_said_witness:
  "distinct [''seed'', ''toolChoice''] \<and>
    loses demo_request \<union> loses (demo_request\<lparr>seed := None\<rparr>) = {''seed'', ''toolChoice''}"
proof -
  have "warn_run ''codex'' [] [demo_request, demo_request\<lparr>caller_settings := Some [''seed'']\<rparr>,
      demo_request\<lparr>seed := None\<rparr>] =
      ([''seed'', ''toolChoice''], [demo_request, demo_request\<lparr>seed := None\<rparr>], [''seed'', ''toolChoice''])"
    by code_simp
  from settings_dropped_are_said [OF this] show ?thesis by auto
qed

end
