(* ===== verification/Openai_Settings.thy ===== *)
theory Openai_Settings
  imports Engine_Base Failures
begin

text \<open>
  What the OpenAI-compatible adapter sends (\<open>engines/openai_compat_http.py\<close> with \<open>engines/dialects.py\<close>):
  the dialect of a backend, which settings it can carry for a model, what of a request it is known
  not to honour, the chat body built from a request, and what the adapter learns of a backend that
  refuses tools. The account's list is a function to its entries; the pattern of models with a fixed
  temperature comes from the provider registry.
\<close>

subsection \<open>Dialects\<close>

record dialect =
  dialect_name :: string
  catalogue :: string
  openai_parameters :: bool
  max_tokens_field :: string
  reasoning_key :: string
  in_call_order :: bool

definition plain_dialect :: "string \<Rightarrow> dialect" where
  "plain_dialect n = \<lparr>dialect_name = n, catalogue = ''openai'', openai_parameters = False,
     max_tokens_field = ''max_tokens'', reasoning_key = ''reasoning_content'', in_call_order = False\<rparr>"

definition DIALECTS :: "(string \<times> dialect) list" where
  "DIALECTS =
     [(''compatible'', plain_dialect ''compatible''),
      (''openai'', (plain_dialect ''openai'')
         \<lparr>openai_parameters := True, max_tokens_field := ''max_completion_tokens''\<rparr>),
      (''openrouter'', (plain_dialect ''openrouter'')
         \<lparr>catalogue := ''openrouter'', max_tokens_field := ''max_completion_tokens''\<rparr>),
      (''ollama'', (plain_dialect ''ollama'')
         \<lparr>catalogue := ''ollama'', reasoning_key := ''reasoning'', in_call_order := True\<rparr>),
      (''lmstudio'', (plain_dialect ''lmstudio'')\<lparr>catalogue := ''lmstudio''\<rparr>)]"

definition send_reasoning :: "dialect \<Rightarrow> bool" where
  "send_reasoning d \<longleftrightarrow> \<not> openai_parameters d"

text \<open>\<open>host\<close> is \<open>urlsplit(url).hostname\<close>, \<open>None\<close> also where \<open>urlsplit\<close> raises \<open>ValueError\<close>.\<close>

definition is_openai_endpoint :: "string option \<Rightarrow> bool" where
  "is_openai_endpoint host \<longleftrightarrow> host \<in> {Some ''api.openai.com'', Some ''openai.com''}"

text \<open>\<open>select\<close>; \<open>None\<close> is the \<open>ValueError\<close> of an unknown name.\<close>

definition select :: "string option \<Rightarrow> string option \<Rightarrow> string \<Rightarrow> dialect option" where
  "select name host source =
     (if given name \<and> name \<noteq> Some ''auto'' then map_of DIALECTS (the name)
      else map_of DIALECTS
        (if source \<in> {''openrouter'', ''ollama'', ''lmstudio''} then source
         else if is_openai_endpoint host then ''openai'' else ''compatible''))"

definition max_tokens_field_for :: "string option \<Rightarrow> string \<Rightarrow> string option" where
  "max_tokens_field_for host source = map_option max_tokens_field (select None host source)"

subsection \<open>Models by their name\<close>

text \<open>\<open>(?:[-.]|$)\<close>: \<open>$\<close> also matches before a newline that ends the text.\<close>

definition family_ends :: "string \<Rightarrow> bool" where
  "family_ends s \<longleftrightarrow> s = [] \<or> hd s = CHR ''-'' \<or> hd s = CHR ''.'' \<or> s = ''\<newline>''"

definition NON_CHAT_PREFIXES :: "string list" where
  "NON_CHAT_PREFIXES =
     [''text-embedding-'', ''text-similarity-'', ''text-search-'', ''code-search-'', ''dall-e-'',
      ''whisper-'', ''tts-'', ''omni-moderation-'', ''babbage'', ''davinci'', ''ada-'', ''curie-'',
      ''computer-use-'', ''codex-'']"

definition CHAT_MODEL_PREFIXES :: "string list" where
  "CHAT_MODEL_PREFIXES =
     [''gpt-'', ''chatgpt-'', ''claude-'', ''llama'', ''mistral'', ''qwen'', ''deepseek'', ''grok'', ''abab'']"

text \<open>\<open>\d+\<close> is greedy, and what follows it can begin with no digit.\<close>

definition o_series :: "string \<Rightarrow> bool" where
  "o_series s \<longleftrightarrow>
     s \<noteq> [] \<and> lower_char (hd s) = CHR ''o'' \<and> takeWhile is_digit (tl s) \<noteq> [] \<and>
     family_ends (dropWhile is_digit (tl s))"

definition fixed_temperature_pattern :: "string \<Rightarrow> bool" where
  "fixed_temperature_pattern s \<longleftrightarrow>
     o_series s \<or>
     list_ex (\<lambda>p. starts_with p (lower s) \<and> family_ends (drop (length p) s))
       [''gpt-5'', ''gpt-6'', ''gpt-7'', ''gpt-8'', ''gpt-9'']"

definition responses_only_tools :: "string \<Rightarrow> bool" where
  "responses_only_tools s \<longleftrightarrow>
     list_ex (\<lambda>p. starts_with p (lower s) \<and> family_ends (drop (length p) s)) [''gpt-6-astra'', ''gpt-6.1-sol'']"

definition starts_with_any :: "string list \<Rightarrow> string \<Rightarrow> bool" where
  "starts_with_any ps s \<longleftrightarrow> list_ex (\<lambda>p. starts_with p s) ps"

definition contains_any :: "string list \<Rightarrow> string \<Rightarrow> bool" where
  "contains_any ps s \<longleftrightarrow> list_ex (\<lambda>p. contains p s) ps"

definition is_plausible_chat_model :: "string \<Rightarrow> bool" where
  "is_plausible_chat_model m =
     (let s = lower m
      in \<not> starts_with_any NON_CHAT_PREFIXES s \<and> \<not> contains_any [''embedding'', ''moderation''] s \<and>
         \<not> contains_any [''audio'', ''realtime'', ''transcribe'', ''tts''] s \<and>
         \<not> contains_any [''image'', ''vision-preview''] s \<and>
         (starts_with_any CHAT_MODEL_PREFIXES s \<or> o_series s))"

definition classify_openai_model :: "string \<Rightarrow> string list" where
  "classify_openai_model m =
     (let s = lower m
      in if contains ''embedding'' s \<or> starts_with_any [''text-similarity-'', ''text-search-''] s
         then [''embeddings'']
         else if contains ''moderation'' s then [''moderation'']
         else if starts_with ''tts-'' s \<or> contains ''-tts'' s then [''speech'']
         else if starts_with ''whisper-'' s then [''transcription'', ''translation'']
         else if contains ''transcribe'' s then [''transcription'']
         else if starts_with_any [''dall-e-'', ''gpt-image-'', ''chatgpt-image-''] s then [''image'']
         else if starts_with ''sora'' s then [''video'']
         else if is_plausible_chat_model m then [''chat''] else [])"

subsection \<open>What is not honoured\<close>

text \<open>\<open>SettingNotHonoured\<close>: a setting and the values of it that are sent in vain.\<close>

record gap =
  setting :: string
  in_vain :: "json list"

definition UNREAD_TOOL_SETTINGS :: "gap list" where
  "UNREAD_TOOL_SETTINGS =
     [\<lparr>setting = ''toolChoice'', in_vain = [JStr ''required'', JStr ''function'']\<rparr>,
      \<lparr>setting = ''parallelToolCalls'', in_vain = [JBool False]\<rparr>]"

definition UNLISTED_TOOL_SETTINGS :: "gap list" where
  "UNLISTED_TOOL_SETTINGS =
     [\<lparr>setting = ''toolChoice'', in_vain = [JStr ''none'', JStr ''required'', JStr ''function'']\<rparr>,
      \<lparr>setting = ''parallelToolCalls'', in_vain = [JBool False]\<rparr>]"

definition gaps_in :: "gap list \<Rightarrow> string list option \<Rightarrow> gap list" where
  "gaps_in table only =
     filter (\<lambda>g. case only of None \<Rightarrow> True | Some ss \<Rightarrow> setting g \<in> set ss) table"

definition unread_tool_settings :: "string list option \<Rightarrow> gap list" where
  "unread_tool_settings only = gaps_in UNREAD_TOOL_SETTINGS only"

definition unlisted_tool_settings :: "string list \<Rightarrow> gap list" where
  "unlisted_tool_settings listed =
     (if ''tools'' \<in> set listed
      then gaps_in UNLISTED_TOOL_SETTINGS (Some (filter (\<lambda>s. s \<notin> set listed) TOOL_COMPANION_SETTINGS))
      else [])"

text \<open>The value of a setting as a gap spells it. The settings a gap can name are the three below.\<close>

definition contract_value :: "gen_request \<Rightarrow> string \<Rightarrow> json" where
  "contract_value r s =
     (if s = ''toolChoice'' then
        (case tool_choice r of JObj _ \<Rightarrow> JStr ''function'' | JStr m \<Rightarrow> JStr m | _ \<Rightarrow> JNull)
      else if s = ''parallelToolCalls'' then
        (case parallel_tool_calls r of Some b \<Rightarrow> JBool b | None \<Rightarrow> JNull)
      else if s = ''reasoningEffort'' then
        (case reasoning_effort r of Some e \<Rightarrow> JStr e | None \<Rightarrow> JNull)
      else JNull)"

subsection \<open>The adapter and its models\<close>

text \<open>An account's model as it is listed: what of \<open>DriverModel\<close> and its capabilities this part reads.\<close>

record model_caps =
  offered :: "string list option"
  calls_tools :: "bool option"
  not_honoured :: "gap list option"

record listed_model =
  listed_id :: string
  listed_upstream :: "string option"
  answers :: "string list"
  model_caps :: "model_caps option"

record target =
  target_id :: string
  upstream :: string
  temperature_fixed :: bool
  entry :: "listed_model option"

text \<open>\<open>_ToolsOff\<close>.\<close>

record tools_off =
  refused_words :: string
  refused_upstream :: string

text \<open>The fields of the engine. \<open>account\<close> is the catalogue: what \<open>find\<close> answers before the engine's view is
  laid over it, and the number exposed; \<open>None\<close> for a driver of one model.\<close>

record adapter =
  wire :: dialect
  public_id :: "string option"
  upstream_id :: string
  fixes_temperature :: "string \<Rightarrow> bool"
  tools_refused :: "(string \<times> tools_off) list"
  tools_assumed :: bool
  require_parameters :: bool
  llama_cpp :: "bool option"
  thinking_mode :: string
  account :: "((string \<Rightarrow> listed_model option) \<times> nat) option"
  warned_dropped :: "(string \<times> string) list"

definition or_id :: "string option \<Rightarrow> string \<Rightarrow> string" where
  "or_id u i = (if given u then the u else i)"

definition chat_tools_unavailable :: "adapter \<Rightarrow> string \<Rightarrow> bool" where
  "chat_tools_unavailable a u \<longleftrightarrow> openai_parameters (wire a) \<and> responses_only_tools u"

definition tool_calling_assumed :: "adapter \<Rightarrow> bool" where
  "tool_calling_assumed a \<longleftrightarrow> \<not> (public_id a \<noteq> None \<and> chat_tools_unavailable a (upstream_id a))"

definition temperature_is_fixed :: "adapter \<Rightarrow> bool" where
  "temperature_is_fixed a \<longleftrightarrow> public_id a \<noteq> None \<and> fixes_temperature a (upstream_id a)"

definition effort_by_template :: "adapter \<Rightarrow> bool" where
  "effort_by_template a \<longleftrightarrow> llama_cpp a = Some True \<and> \<not> openai_parameters (wire a)"

definition REASONING_EFFORTS :: "string list" where
  "REASONING_EFFORTS = [''none'', ''minimal'', ''low'', ''medium'', ''high'', ''xhigh'', ''max'']"

definition settings_not_honoured :: "adapter \<Rightarrow> gap list" where
  "settings_not_honoured a =
     (if catalogue (wire a) = ''ollama'' then unread_tool_settings None else []) @
     (if effort_by_template a
      then [\<lparr>setting = ''reasoningEffort'', in_vain = map JStr (filter (\<lambda>e. e \<noteq> ''none'') REASONING_EFFORTS)\<rparr>]
      else [])"

definition carries_cache_control :: "adapter \<Rightarrow> string \<Rightarrow> bool" where
  "carries_cache_control a u \<longleftrightarrow> catalogue (wire a) = ''openrouter'' \<and> starts_with ''anthropic/'' u"

subsection \<open>An account's model as it is served\<close>

definition listed_settings :: "model_caps \<Rightarrow> string list" where
  "listed_settings c = (case offered c of None \<Rightarrow> [] | Some ss \<Rightarrow> ss)"

definition served_view :: "adapter \<Rightarrow> listed_model \<Rightarrow> listed_model" where
  "served_view a m =
     (case model_caps m of
        None \<Rightarrow> m
      | Some c \<Rightarrow>
          (let chat = ''chat'' \<in> set (answers m);
               own = (if chat then settings_not_honoured a else []);
               unlisted = (if chat \<and> catalogue (wire a) = ''openrouter''
                           then unlisted_tool_settings (listed_settings c) else []);
               gaps = own @ (if require_parameters a
                             then filter (\<lambda>g. setting g \<notin> setting ` set own) unlisted else []);
               learned = map_of (tools_refused a) (listed_id m) \<noteq> None;
               off = (learned \<or> chat \<and> calls_tools c = Some False);
               caches = (chat \<and> carries_cache_control a (or_id (listed_upstream m) (listed_id m)) \<and>
                         ''cacheControl'' \<notin> set (listed_settings c));
               more = listed_settings c @
                 filter (\<lambda>s. s \<notin> set (listed_settings c)) (map setting unlisted);
               without_tools = filter (\<lambda>s. s \<noteq> ''tools'') more;
               kept = (if off then without_tools @
                         filter (\<lambda>s. s \<notin> set without_tools) TOOL_COMPANION_SETTINGS else more)
           in m\<lparr>model_caps := Some (c
                \<lparr>not_honoured := (if gaps = [] then not_honoured c else Some gaps),
                 calls_tools := (if learned then Some False else calls_tools c),
                 offered := (if off \<or> unlisted \<noteq> [] \<or> caches
                   then Some (kept @ (if caches then [''cacheControl''] else [])) else offered c)\<rparr>)\<rparr>))"

text \<open>\<open>Catalogue.find\<close> with the view.\<close>

definition find_served :: "adapter \<Rightarrow> string \<Rightarrow> listed_model option" where
  "find_served a i =
     (case account a of None \<Rightarrow> None | Some (f, _) \<Rightarrow> map_option (served_view a) (f i))"

definition resolve_model :: "adapter \<Rightarrow> string option \<Rightarrow> model_refusal + target" where
  "resolve_model a requested =
     (case account a of
        None \<Rightarrow>
          and_then (resolve_single_model (public_id a) requested) (\<lambda>_.
            Inr \<lparr>target_id = (case public_id a of None \<Rightarrow> [] | Some i \<Rightarrow> i), upstream = upstream_id a,
                 temperature_fixed = temperature_is_fixed a, entry = None\<rparr>)
      | Some (_, exposed) \<Rightarrow>
          if \<not> given requested then Inl ModelRequired
          else case find_served a (the requested) of
            None \<Rightarrow> Inl (ModelNotServed (the requested) exposed)
          | Some m \<Rightarrow>
              (let u = or_id (listed_upstream m) (listed_id m)
               in Inr \<lparr>target_id = listed_id m, upstream = u, temperature_fixed = fixes_temperature a u,
                    entry = Some m\<rparr>))"

definition caps_of :: "target \<Rightarrow> model_caps option" where
  "caps_of t = Option.bind (entry t) model_caps"

definition gaps_for :: "adapter \<Rightarrow> target \<Rightarrow> gap list" where
  "gaps_for a t =
     (if entry t = None then settings_not_honoured a
      else case caps_of t of
             Some c \<Rightarrow> (case not_honoured c of None \<Rightarrow> [] | Some gs \<Rightarrow> gs)
           | None \<Rightarrow> [])"

definition none_is_given_as_no_tools :: "adapter \<Rightarrow> target \<Rightarrow> bool" where
  "none_is_given_as_no_tools a t \<longleftrightarrow>
     list_ex (\<lambda>g. setting g = ''toolChoice'' \<and> JStr ''none'' \<notin> set (in_vain g)) (gaps_for a t)"

definition asks_require_parameters :: "adapter \<Rightarrow> gen_request \<Rightarrow> bool" where
  "asks_require_parameters a r \<longleftrightarrow>
     require_parameters a \<and> list_ex (\<lambda>s. s \<noteq> ''reasoningEffort'') (explicit_settings r)"

definition withheld_settings :: "adapter \<Rightarrow> target \<Rightarrow> gen_request \<Rightarrow> string list" where
  "withheld_settings a t r =
     (if asks_require_parameters a r \<and> catalogue (wire a) = ''openrouter'' \<and> entry t \<noteq> None
      then map setting (gaps_for a t) else [])"

subsection \<open>What cannot be carried\<close>

definition FIXED_SAMPLER_SETTINGS :: "string list" where
  "FIXED_SAMPLER_SETTINGS = [''temperature'', ''topP'', ''frequencyPenalty'', ''presencePenalty'']"

definition LOCAL_ENGINE_SETTINGS :: "string list" where
  "LOCAL_ENGINE_SETTINGS = [''topK'', ''minP'']"

definition OLLAMA_DROPPED_SETTINGS :: "string list" where
  "OLLAMA_DROPPED_SETTINGS = [''topK'', ''minP'']"

definition HOSTED_SETTINGS :: "string list" where
  "HOSTED_SETTINGS =
     [''logprobs'', ''logitBias'', ''reasoningEffort'', ''verbosity'', ''prediction'', ''webSearchOptions'']"

definition ENGINE_SETTINGS :: "string list" where
  "ENGINE_SETTINGS =
     [''maxTokens'', ''temperature'', ''topP'', ''seed'', ''stop'', ''tools'', ''toolChoice'',
      ''responseFormat'', ''topK'', ''minP'', ''frequencyPenalty'', ''presencePenalty'',
      ''parallelToolCalls'', ''logprobs'', ''logitBias'', ''reasoningEffort'', ''verbosity'',
      ''prediction'', ''webSearchOptions'']"

definition unsupported_settings :: "adapter \<Rightarrow> target \<Rightarrow> string list" where
  "unsupported_settings a t =
     (let by_provider = (catalogue (wire a) = ''openrouter'' \<and> caps_of t \<noteq> None);
          un = (if temperature_fixed t then FIXED_SAMPLER_SETTINGS else []) @
               (if openai_parameters (wire a) then LOCAL_ENGINE_SETTINGS else []) @
               (if chat_tools_unavailable a (upstream t) \<or> map_of (tools_refused a) (target_id t) \<noteq> None
                then [''tools''] else []) @
               (if catalogue (wire a) = ''ollama'' then OLLAMA_DROPPED_SETTINGS else []) @
               (if \<not> openai_parameters (wire a) \<and> \<not> by_provider then HOSTED_SETTINGS else []) @
               (if by_provider
                then filter (\<lambda>s. s \<notin> set (listed_settings (the (caps_of t)))) ENGINE_SETTINGS else [])
      in if effort_by_template a then filter (\<lambda>s. s \<noteq> ''reasoningEffort'') un else un)"

definition supported_for :: "adapter \<Rightarrow> target \<Rightarrow> string list" where
  "supported_for a t =
     filter (\<lambda>s. s \<notin> set (unsupported_settings a t)) ENGINE_SETTINGS @
     (if carries_cache_control a (upstream t) then [''cacheControl''] else [])"

definition ignored_settings :: "adapter \<Rightarrow> gen_request \<Rightarrow> string list" where
  "ignored_settings a r =
     (case resolve_model a (asked_model r) of
        Inl _ \<Rightarrow> []
      | Inr t \<Rightarrow>
          (let gaps = (if tool_choice r = JStr ''none'' \<and> none_is_given_as_no_tools a t then [] else gaps_for a t)
           in map setting (filter (\<lambda>g. setting g \<in> set (explicit_settings r) \<and>
                contract_value r (setting g) \<in> set (in_vain g)) gaps) @
              (if ''reasoningEffort'' \<in> set (explicit_settings r) \<and> reasoning_effort r \<noteq> None \<and>
                  ''reasoningEffort'' \<in> set (unsupported_settings a t)
               then [''reasoningEffort''] else [])))"

text \<open>The cause of a model's tools being off.\<close>

definition tools_off_because :: "(string \<Rightarrow> string) \<Rightarrow> adapter \<Rightarrow> target \<Rightarrow> string option" where
  "tools_off_because repr a t =
     (case map_of (tools_refused a) (target_id t) of
        Some off \<Rightarrow>
          Some (''this backend refused tools in its own words ('' @ repr (refused_words off) @
            '') and has not taken one since'')
      | None \<Rightarrow>
          if chat_tools_unavailable a (upstream t)
          then Some (''OpenAI's Chat Completions API serves this model without tools (it takes them '' @
            ''on its Responses API only)'')
          else case caps_of t of
            None \<Rightarrow> None
          | Some c \<Rightarrow>
              if calls_tools c \<noteq> Some False then None
              else if catalogue (wire a) = ''openrouter''
              then Some ''OpenRouter's own listing for this model names no tools''
              else if catalogue (wire a) = ''ollama''
              then Some ''Ollama's own capabilities for this model do not list tools''
              else Some ''this account's own listing for this model says it takes no tools'')"

definition tools_off_of :: "(string \<Rightarrow> string) \<Rightarrow> adapter \<Rightarrow> string option \<Rightarrow> string option" where
  "tools_off_of repr a model =
     (case resolve_model a model of Inl _ \<Rightarrow> None | Inr t \<Rightarrow> tools_off_because repr a t)"

subsection \<open>The chat body\<close>

text \<open>A request as the adapter reads it: \<open>core\<close> is the part every engine reads. A value that is not there is
  \<open>None\<close> or \<open>JNull\<close>; \<open>hints\<close> holds the four hints under their contract names. A named tool choice and the
  tools are the documents \<open>model_dump\<close> makes of them.\<close>

record chat_request =
  core :: gen_request
  messages :: "message list"
  max_tokens :: "int option"
  temperature :: "rat option"
  top_k :: "int option"
  min_p :: "rat option"
  frequency_penalty :: "rat option"
  presence_penalty :: "rat option"
  response_format :: json
  logprobs :: "bool option"
  top_logprobs :: "int option"
  logit_bias :: "dict option"
  verbosity :: "string option"
  prediction :: json
  web_search_options :: json
  hints :: dict
  cache_control :: "string option option"
  audio_voice :: string

text \<open>The directives; the long dash of the second is written as a hyphen.\<close>

definition THINKING_MODE_INSTRUCTIONS :: "(string \<times> string) list" where
  "THINKING_MODE_INSTRUCTIONS =
     [(''off'', ''Do not output any thinking blocks, scratchpad reasoning, or '' @
        ''<think>...</think> tags. Respond with your final answer '' @
        ''directly. Do not show your reasoning process.''),
      (''low'', ''Use brief internal reasoning when essential, but keep any '' @
        ''<think>...</think> blocks short - a sentence or two at most.''),
      (''medium'', ''Use moderate internal reasoning before answering when helpful. '' @
        ''A few sentences of <think>...</think> are fine; keep it focused.''),
      (''high'', ''Use thorough internal reasoning before answering. Explore '' @
        ''multiple angles in <think>...</think> blocks if it helps '' @
        ''produce a well-reasoned response.'')]"

text \<open>\<open>text_content\<close> of \<open>engines/_prompt.py\<close>.\<close>

definition part_type :: "json \<Rightarrow> json" where
  "part_type p = dget (as_dict p) ''type''"

definition text_content :: "json \<Rightarrow> wire_error + string" where
  "text_content v =
     (case v of
        JList ps \<Rightarrow>
          if list_ex (\<lambda>p. part_type p \<noteq> JStr ''text'') ps
          then Inl (wire_error.CliError ''This text-only engine cannot carry image content.'')
          else Inr (concat (map (\<lambda>p. case dget (as_dict p) ''text'' of JStr s \<Rightarrow> s | _ \<Rightarrow> []) ps))
      | JStr s \<Rightarrow> Inr s
      | _ \<Rightarrow> Inr [])"

fun merge_directive :: "string \<Rightarrow> message list \<Rightarrow> wire_error + message list option" where
  "merge_directive directive [] = Inr None"
| "merge_directive directive (m # ms) =
     (if msg_role m = System then
        and_then (text_content (message.content m)) (\<lambda>s.
          Inr (Some (m\<lparr>message.content := JStr (rstrip s @ ''\<newline>\<newline>'' @ directive)\<rparr> # ms)))
      else and_then (merge_directive directive ms) (\<lambda>out. Inr (map_option ((#) m) out)))"

definition apply_thinking_mode :: "message list \<Rightarrow> string \<Rightarrow> wire_error + message list" where
  "apply_thinking_mode ms mode =
     (case map_of THINKING_MODE_INSTRUCTIONS mode of
        None \<Rightarrow> Inr ms
      | Some directive \<Rightarrow>
          and_then (merge_directive directive ms) (\<lambda>out.
            Inr (case out of
                   Some ms' \<Rightarrow> ms'
                 | None \<Rightarrow>
                     \<lparr>msg_role = System, content = JStr directive, tool_calls = None,
                      tool_call_id = None, reasoning = None\<rparr> # ms)))"

text \<open>What becomes of a field that was given: sent, or left out for a reason that is said once.\<close>

datatype drop = NotAccepted | NothingToChoose string | NotDelivered

datatype fate = Sent json | Dropped drop

definition opt_field :: "string \<Rightarrow> ('a \<Rightarrow> fate) \<Rightarrow> 'a option \<Rightarrow> (string \<times> fate) list" where
  "opt_field k f v = (case v of None \<Rightarrow> [] | Some x \<Rightarrow> [(k, f x)])"

definition json_field :: "string \<Rightarrow> json \<Rightarrow> (string \<times> fate) list" where
  "json_field k v = (if v = JNull then [] else [(k, Sent v)])"

definition sent_float :: "rat \<Rightarrow> fate" where
  "sent_float x = Sent (JFloat (Finite x))"

text \<open>The loop over five neighbours: \<open>dropping\<close> is the cause while what rides with tools is dropped.\<close>

definition neighbour ::
  "string list \<Rightarrow> string list \<Rightarrow> string option \<Rightarrow> string \<Rightarrow> json \<Rightarrow> fate"
where
  "neighbour unsupported withheld dropping field v =
     (if dropping \<noteq> None \<and> field \<in> set TOOL_COMPANION_SETTINGS then Dropped (NothingToChoose (the dropping))
      else if field \<in> set unsupported then Dropped NotAccepted
      else if field \<in> set withheld then Dropped NotDelivered
      else Sent v)"

definition HINTS :: "(string \<times> string) list" where
  "HINTS =
     [(''promptCacheKey'', ''prompt_cache_key''), (''promptCacheRetention'', ''prompt_cache_retention''),
      (''serviceTier'', ''service_tier''), (''safetyIdentifier'', ''safety_identifier'')]"

definition effort_fate :: "adapter \<Rightarrow> string list \<Rightarrow> string \<Rightarrow> string \<times> fate" where
  "effort_fate a unsupported e =
     (if effort_by_template a then
        (if e = ''none'' then (''chat_template_kwargs'', Sent (JObj [(''enable_thinking'', JBool False)]))
         else (''reasoning_effort'', Dropped NotAccepted))
      else if ''reasoningEffort'' \<in> set unsupported then (''reasoning_effort'', Dropped NotAccepted)
      else (''reasoning_effort'', Sent (JStr e)))"

definition tool_choice_fate :: "string list \<Rightarrow> string option \<Rightarrow> json \<Rightarrow> fate" where
  "tool_choice_fate withheld dropping v =
     (case dropping of
        Some why \<Rightarrow> Dropped (NothingToChoose why)
      | None \<Rightarrow> if ''toolChoice'' \<in> set withheld then Dropped NotDelivered else Sent v)"

definition logprobs_held :: "target \<Rightarrow> chat_request \<Rightarrow> bool" where
  "logprobs_held t r \<longleftrightarrow> temperature_fixed t \<and> reasoning_effort (core r) \<noteq> Some ''none''"

definition fates ::
  "adapter \<Rightarrow> target \<Rightarrow> chat_request \<Rightarrow> string list \<Rightarrow> string list \<Rightarrow> string option \<Rightarrow> (string \<times> fate) list"
where
  "fates a t r unsupported withheld dropping =
     (let q = core r; near = neighbour unsupported withheld dropping
      in concat
          [opt_field (max_tokens_field (wire a)) (\<lambda>n. Sent (JInt n)) (max_tokens r),
           (if temperature_fixed t then [] else opt_field ''temperature'' sent_float (temperature r)),
           opt_field ''top_p'' (\<lambda>x. if temperature_fixed t then Dropped NotAccepted else sent_float x) (top_p q),
           opt_field ''seed'' (\<lambda>n. Sent (JInt n)) (seed q),
           (if given (stop q) then [(''stop'', Sent (JList (map JStr (the (stop q)))))] else []),
           opt_field ''top_k'' (\<lambda>n. near ''topK'' (JInt n)) (top_k r),
           opt_field ''min_p'' (\<lambda>x. near ''minP'' (JFloat (Finite x))) (min_p r),
           opt_field ''frequency_penalty'' (\<lambda>x. near ''frequencyPenalty'' (JFloat (Finite x))) (frequency_penalty r),
           opt_field ''presence_penalty'' (\<lambda>x. near ''presencePenalty'' (JFloat (Finite x))) (presence_penalty r),
           opt_field ''parallel_tool_calls'' (\<lambda>b. near ''parallelToolCalls'' (JBool b)) (parallel_tool_calls q),
           (if given (tools q) then [(''tools'', Sent (JList (map JObj (the (tools q)))))] else []),
           (if tool_choice q = JNull then []
            else [(''tool_choice'', tool_choice_fate withheld dropping (tool_choice q))]),
           json_field ''response_format'' (response_format r),
           (if asks_require_parameters a q
            then [(''provider'', Sent (JObj [(''require_parameters'', JBool True)]))] else []),
           (case logprobs r of
              None \<Rightarrow> []
            | Some b \<Rightarrow>
                if logprobs_held t r then [(''logprobs'', Dropped NotAccepted)]
                else (''logprobs'', Sent (JBool b)) #
                  opt_field ''top_logprobs'' (\<lambda>n. Sent (JInt n)) (top_logprobs r)),
           opt_field ''logit_bias'' (\<lambda>d. Sent (JObj d)) (logit_bias r),
           (case reasoning_effort q of None \<Rightarrow> [] | Some e \<Rightarrow> [effort_fate a unsupported e]),
           opt_field ''verbosity'' (\<lambda>s. Sent (JStr s)) (verbosity r),
           json_field ''prediction'' (prediction r),
           json_field ''web_search_options'' (web_search_options r),
           concat (map (\<lambda>(ours, theirs).
               if dget (hints r) ours = JNull then []
               else [(theirs, if openai_parameters (wire a) then Sent (dget (hints r) ours)
                              else Dropped NotAccepted)]) HINTS),
           (case cache_control r of
              None \<Rightarrow> []
            | Some ttl \<Rightarrow>
                [(''cache_control'',
                  if carries_cache_control a (upstream t)
                  then Sent (JObj ((''type'', JStr ''ephemeral'') #
                         (case ttl of None \<Rightarrow> [] | Some l \<Rightarrow> [(''ttl'', JStr l)])))
                  else Dropped NotAccepted)]),
           (if audio_output q = None then []
            else [(''modalities'', Sent (JList [JStr ''text'', JStr ''audio''])),
                  (''audio'', Sent (JObj [(''voice'', JStr (audio_voice r)), (''format'', JStr ''pcm16'')]))])])"

definition sent_of :: "(string \<times> fate) list \<Rightarrow> dict" where
  "sent_of fs = List.map_filter (\<lambda>(k, f). case f of Sent v \<Rightarrow> Some (k, v) | Dropped _ \<Rightarrow> None) fs"

definition dropped_of :: "(string \<times> fate) list \<Rightarrow> (string \<times> drop) list" where
  "dropped_of fs = List.map_filter (\<lambda>(k, f). case f of Sent _ \<Rightarrow> None | Dropped d \<Rightarrow> Some (k, d)) fs"

text \<open>\<open>tool_choice: none\<close> to a backend that ignores it: no tools, and nothing that rides with them.\<close>

definition without_tools :: "adapter \<Rightarrow> target \<Rightarrow> chat_request \<Rightarrow> chat_request" where
  "without_tools a t r =
     (if tool_choice (core r) = JStr ''none'' \<and> none_is_given_as_no_tools a t
      then r\<lparr>core := (core r)\<lparr>tools := None, tool_choice := JNull, parallel_tool_calls := None\<rparr>\<rparr>
      else r)"

definition said_400 :: "string + unit \<Rightarrow> wire_error + unit" where
  "said_400 v = (case v of Inl words \<Rightarrow> Inl (wire_error.CliError words) | Inr u \<Rightarrow> Inr u)"

definition TOOL_SETTINGS :: "string list" where
  "TOOL_SETTINGS = [''tools'', ''toolChoice'', ''parallelToolCalls'']"

definition logprobs_words :: "(string \<Rightarrow> string) \<Rightarrow> target \<Rightarrow> string" where
  "logprobs_words repr t =
     ''logprobs: '' @ repr (target_id t) @ '' returns log probabilities only with '' @
     ''reasoning_effort set to none; set reasoning_effort to none, or remove '' @ ''logprobs.''"

text \<open>The refusals before a body is made; then the cause for which what rides with tools is dropped.\<close>

definition check_settings ::
  "(string \<Rightarrow> string) \<Rightarrow> adapter \<Rightarrow> target \<Rightarrow> chat_request \<Rightarrow> wire_error + string option"
where
  "check_settings repr a t r =
     and_then (require (\<not> (logprobs_held t r \<and> logprobs r = Some True \<and>
                 ''logprobs'' \<in> set (explicit_settings (core r)))) (wire_error.CliError (logprobs_words repr t))) (\<lambda>_.
     let off = tools_off_because repr a t;
         dropping = (if given (tools (core r)) then None else off);
         un = unsupported_settings a t
     in and_then (if off \<noteq> None \<and> given (tools (core r))
                  then said_400 (refuse_unsupported_settings (core r) TOOL_SETTINGS off) else Inr ()) (\<lambda>_.
        and_then (said_400 (refuse_unsupported_settings (core r)
                    (if dropping \<noteq> None then filter (\<lambda>s. s \<notin> set TOOL_COMPANION_SETTINGS) un else un) None)) (\<lambda>_.
          Inr dropping)))"

text \<open>\<open>_payload_for\<close>: the body, and the fields left out of it. \<open>mode\<close> is \<open>_thinking_mode_for(request)\<close>.\<close>

definition payload_for ::
  "(string \<Rightarrow> string) \<Rightarrow> adapter \<Rightarrow> string \<Rightarrow> chat_request \<Rightarrow> target \<Rightarrow> tool option
     \<Rightarrow> wire_error + dict \<times> (string \<times> drop) list"
where
  "payload_for repr a mode r0 t forced =
     (let r = without_tools a t r0
      in and_then (check_settings repr a t r) (\<lambda>dropping.
         and_then (apply_thinking_mode (messages r) mode) (\<lambda>ms.
         and_then (to_openai_messages (send_reasoning (wire a)) (reasoning_key (wire a)) (in_call_order (wire a)) ms)
           (\<lambda>wired.
            let fs = fates a t r (unsupported_settings a t) (withheld_settings a t (core r)) dropping;
                p = [(''model'', JStr (upstream t)), (''messages'', JList (map JObj wired))] @ sent_of fs
            in Inr (case forced of None \<Rightarrow> p | Some f \<Rightarrow> force_by_schema p f, dropped_of fs)))))"

text \<open>The warnings: once per field and model in the life of the engine.\<close>

fun warn_dropped :: "string \<Rightarrow> (string \<times> drop) list \<Rightarrow> adapter \<Rightarrow> (string \<times> drop) list \<times> adapter" where
  "warn_dropped i [] a = ([], a)"
| "warn_dropped i ((k, d) # ds) a =
     (if (i, k) \<in> set (warned_dropped a) then warn_dropped i ds a
      else (case warn_dropped i ds (a\<lparr>warned_dropped := (i, k) # warned_dropped a\<rparr>) of
              (told, a') \<Rightarrow> ((k, d) # told, a')))"

text \<open>\<open>_answers_as_llama_cpp\<close>: \<open>props\<close> is what asking \<open>/props\<close> would tell, \<open>None\<close> when nothing definite.
  It is asked once something needs to know and nothing has said.\<close>

definition ask_llama_cpp :: "bool option \<Rightarrow> adapter \<Rightarrow> adapter" where
  "ask_llama_cpp props a = (if llama_cpp a = None then a\<lparr>llama_cpp := props\<rparr> else a)"

definition forced_tool :: "bool option \<Rightarrow> adapter \<Rightarrow> chat_request \<Rightarrow> dict option \<times> adapter" where
  "forced_tool props a r =
     (case (tool_choice (core r), tools (core r)) of
        (JObj c, Some ts) \<Rightarrow>
          if catalogue (wire a) \<noteq> ''openai'' then (None, a)
          else (case List.find (\<lambda>t. dget (as_dict (dget t ''function'')) ''name'' =
                  dget (as_dict (dget c ''function'')) ''name'') ts of
                  Some t \<Rightarrow>
                    (let a' = ask_llama_cpp props a
                     in (if llama_cpp a' = Some True then Some t else None, a'))
                | None \<Rightarrow> (None, a))
      | _ \<Rightarrow> (None, a))"

definition know_if_llama_cpp :: "bool option \<Rightarrow> adapter \<Rightarrow> chat_request \<Rightarrow> adapter" where
  "know_if_llama_cpp props a r =
     (if reasoning_effort (core r) = Some ''none'' \<and> \<not> openai_parameters (wire a) \<and>
         catalogue (wire a) \<noteq> ''openrouter''
      then ask_llama_cpp props a else a)"

definition public_model_id :: "outside \<Rightarrow> json \<Rightarrow> target \<Rightarrow> string" where
  "public_model_id ou reported t =
     (if entry t \<noteq> None \<or> upstream t \<noteq> target_id t then target_id t
      else if truthy reported then text_of ou reported else target_id t)"

definition auth_headers :: "string option \<Rightarrow> (string \<times> string) list" where
  "auth_headers key =
     (''Accept'', ''application/json'') #
     (if given key then [(''Authorization'', ''Bearer '' @ the key)] else [])"

subsection \<open>What is advertised is what is accepted\<close>

lemma engine_setting_lists:
  "set FIXED_SAMPLER_SETTINGS \<subseteq> set ENGINE_SETTINGS" "set LOCAL_ENGINE_SETTINGS \<subseteq> set ENGINE_SETTINGS"
  "set OLLAMA_DROPPED_SETTINGS \<subseteq> set ENGINE_SETTINGS" "set HOSTED_SETTINGS \<subseteq> set ENGINE_SETTINGS"
  "''tools'' \<in> set ENGINE_SETTINGS"
  by (simp_all add: FIXED_SAMPLER_SETTINGS_def LOCAL_ENGINE_SETTINGS_def OLLAMA_DROPPED_SETTINGS_def
      HOSTED_SETTINGS_def ENGINE_SETTINGS_def)

lemma unsupported_are_settings: "set (unsupported_settings a t) \<subseteq> set ENGINE_SETTINGS"
  using engine_setting_lists unfolding unsupported_settings_def Let_def
  by (simp add: subset_iff)

lemma tools_in_settings:
  "set TOOL_SETTINGS \<subseteq> set ENGINE_SETTINGS" "set TOOL_COMPANION_SETTINGS \<subseteq> set TOOL_SETTINGS"
  "''reasoningEffort'' \<notin> set TOOL_SETTINGS" "''cacheControl'' \<notin> set ENGINE_SETTINGS"
  by (simp_all add: TOOL_SETTINGS_def ENGINE_SETTINGS_def TOOL_COMPANION_SETTINGS_def)

lemma supported_iff:
  "f \<in> set ENGINE_SETTINGS \<Longrightarrow> f \<in> set (supported_for a t) \<longleftrightarrow> f \<notin> set (unsupported_settings a t)"
  using tools_in_settings(4) by (auto simp: supported_for_def)

lemma said_400_eq_Inr [simp]: "said_400 v = Inr u \<longleftrightarrow> v = Inr u"
  by (cases v) (simp_all add: said_400_def)

definition logprobs_refused :: "target \<Rightarrow> chat_request \<Rightarrow> bool" where
  "logprobs_refused t r \<longleftrightarrow>
     logprobs_held t r \<and> logprobs r = Some True \<and> ''logprobs'' \<in> set (explicit_settings (core r))"

text \<open>A setting the caller named that does not stand in the way.\<close>

definition may_name :: "adapter \<Rightarrow> target \<Rightarrow> bool \<Rightarrow> bool \<Rightarrow> string \<Rightarrow> bool" where
  "may_name a t off carries f \<longleftrightarrow>
     f = ''reasoningEffort'' \<or>
     (if off \<and> carries then f \<notin> set TOOL_SETTINGS \<and> f \<in> set (supported_for a t)
      else f \<in> set (supported_for a t) \<or> off \<and> f \<in> set TOOL_COMPANION_SETTINGS)"

text \<open>An account's listing says of no model that it is sent something in vain: that is laid over it by the view.\<close>

definition listing_ok :: "adapter \<Rightarrow> bool" where
  "listing_ok a \<longleftrightarrow>
     (\<forall>f n i m c. account a = Some (f, n) \<longrightarrow> f i = Some m \<longrightarrow> model_caps m = Some c \<longrightarrow> not_honoured c = None)"

lemma table_settings:
  "g \<in> set (unread_tool_settings None) \<Longrightarrow> setting g \<in> set TOOL_COMPANION_SETTINGS"
  "g \<in> set (unlisted_tool_settings ss) \<Longrightarrow> setting g \<in> set TOOL_COMPANION_SETTINGS"
  by (auto simp: unread_tool_settings_def gaps_in_def UNREAD_TOOL_SETTINGS_def TOOL_COMPANION_SETTINGS_def
      unlisted_tool_settings_def UNLISTED_TOOL_SETTINGS_def split: if_splits)

lemma own_gaps:
  "g \<in> set (settings_not_honoured a) \<Longrightarrow>
    setting g \<in> set TOOL_COMPANION_SETTINGS \<or> (setting g = ''reasoningEffort'' \<and> effort_by_template a)"
  using table_settings(1) by (auto simp: settings_not_honoured_def split: if_splits)

definition view_gaps :: "adapter \<Rightarrow> listed_model \<Rightarrow> model_caps \<Rightarrow> gap list" where
  "view_gaps a m c =
     (let own = (if ''chat'' \<in> set (answers m) then settings_not_honoured a else [])
      in own @ (if require_parameters a \<and> ''chat'' \<in> set (answers m) \<and> catalogue (wire a) = ''openrouter''
                then filter (\<lambda>g. setting g \<notin> setting ` set own) (unlisted_tool_settings (listed_settings c))
                else []))"

lemma served_caps:
  "model_caps m = Some c \<Longrightarrow>
    \<exists>c'. model_caps (served_view a m) = Some c' \<and> answers (served_view a m) = answers m \<and>
      not_honoured c' = (if view_gaps a m c = [] then not_honoured c else Some (view_gaps a m c))"
  "model_caps m = None \<Longrightarrow> served_view a m = m"
  by (auto simp: served_view_def view_gaps_def Let_def)

lemma resolve_entry:
  assumes "resolve_model a asked = Inr t"
  shows "(account a = None \<and> entry t = None) \<or>
    (\<exists>f n i m. account a = Some (f, n) \<and> f i = Some m \<and> entry t = Some (served_view a m))"
  using assms
  by (auto simp: resolve_model_def find_served_def Let_def and_then_eq_Inr split: option.splits if_splits) blast

lemma gaps_for_settings:
  assumes "resolve_model a asked = Inr t" and "listing_ok a" and "g \<in> set (gaps_for a t)"
  shows "setting g \<in> set TOOL_COMPANION_SETTINGS \<or> (setting g = ''reasoningEffort'' \<and> effort_by_template a)"
proof (cases "entry t")
  case None
  then show ?thesis using own_gaps assms(3) by (simp add: gaps_for_def)
next
  case (Some e)
  then obtain f n i m where m: "account a = Some (f, n)" "f i = Some m" "e = served_view a m"
    using resolve_entry [OF assms(1)] by auto
  show ?thesis
  proof (cases "model_caps m")
    case None
    then show ?thesis using assms(3) Some m(3) served_caps(2) by (simp add: gaps_for_def caps_of_def)
  next
    case (Some c)
    then have "not_honoured c = None" using assms(2) m(1,2) unfolding listing_ok_def by blast
    then have "g \<in> set (view_gaps a m c)"
      using assms(3) served_caps(1) [OF Some, of a] m(3) \<open>entry t = Some e\<close>
      by (auto simp: gaps_for_def caps_of_def split: if_splits)
    then show ?thesis using own_gaps [of g a] table_settings(2) [of g]
      by (auto simp: view_gaps_def Let_def split: if_splits)
  qed
qed

subsection \<open>No named setting is lost\<close>

text \<open>The key of a setting on the wire, and the value of one the request carries; \<open>JNull\<close> when it carries none.\<close>

definition wire_key :: "adapter \<Rightarrow> string \<Rightarrow> string" where
  "wire_key a f =
     (case map_of [(''maxTokens'', max_tokens_field (wire a)), (''topP'', ''top_p''), (''toolChoice'', ''tool_choice''),
        (''responseFormat'', ''response_format''), (''topK'', ''top_k''), (''minP'', ''min_p''),
        (''frequencyPenalty'', ''frequency_penalty''), (''presencePenalty'', ''presence_penalty''),
        (''parallelToolCalls'', ''parallel_tool_calls''), (''logitBias'', ''logit_bias''),
        (''reasoningEffort'', ''reasoning_effort''), (''webSearchOptions'', ''web_search_options'')] f of
        Some k \<Rightarrow> k | None \<Rightarrow> f)"

definition opt_json :: "('a \<Rightarrow> json) \<Rightarrow> 'a option \<Rightarrow> json" where
  "opt_json f v = (case v of None \<Rightarrow> JNull | Some x \<Rightarrow> f x)"

definition setting_value :: "chat_request \<Rightarrow> string \<Rightarrow> json" where
  "setting_value r f =
     (let q = core r; number = opt_json (\<lambda>x. JFloat (Finite x))
      in case map_of
        [(''maxTokens'', opt_json JInt (max_tokens r)), (''temperature'', number (temperature r)),
         (''topP'', number (top_p q)), (''seed'', opt_json JInt (seed q)),
         (''stop'', if given (stop q) then JList (map JStr (the (stop q))) else JNull),
         (''tools'', if given (tools q) then JList (map JObj (the (tools q))) else JNull),
         (''toolChoice'', tool_choice q), (''responseFormat'', response_format r),
         (''topK'', opt_json JInt (top_k r)), (''minP'', number (min_p r)),
         (''frequencyPenalty'', number (frequency_penalty r)), (''presencePenalty'', number (presence_penalty r)),
         (''parallelToolCalls'', opt_json JBool (parallel_tool_calls q)),
         (''logprobs'', opt_json JBool (logprobs r)), (''logitBias'', opt_json JObj (logit_bias r)),
         (''reasoningEffort'', opt_json JStr (reasoning_effort q)), (''verbosity'', opt_json JStr (verbosity r)),
         (''prediction'', prediction r), (''webSearchOptions'', web_search_options r)] f of
          Some v \<Rightarrow> v | None \<Rightarrow> JNull)"

lemma opt_json_value: "opt_json f v = w \<Longrightarrow> w \<noteq> JNull \<Longrightarrow> \<exists>x. v = Some x \<and> w = f x"
  by (cases v) (simp_all add: opt_json_def)

lemma Sent_in_body: "(k, Sent v) \<in> set fs \<Longrightarrow> (k, v) \<in> set (sent_of fs)"
  by (force simp: sent_of_def map_filter_def)

text \<open>What is neither held back for the model's sampler nor for tools is sent.\<close>

definition ALWAYS :: "string list" where
  "ALWAYS = [''maxTokens'', ''seed'', ''stop'', ''tools'', ''responseFormat'', ''logitBias'', ''verbosity'',
     ''prediction'', ''webSearchOptions'']"

definition SAMPLER :: "string list" where
  "SAMPLER = [''temperature'', ''topP'']"

definition NEIGHBOURS :: "string list" where
  "NEIGHBOURS = [''topK'', ''minP'', ''frequencyPenalty'', ''presencePenalty'', ''parallelToolCalls'']"

lemma opt_field_sent: "opt_json f v \<noteq> JNull \<Longrightarrow> (k, Sent (opt_json f v)) \<in> set (opt_field k (\<lambda>x. Sent (f x)) v)"
  by (cases v) (simp_all add: opt_json_def opt_field_def)

lemma json_field_sent: "v \<noteq> JNull \<Longrightarrow> (k, Sent v) \<in> set (json_field k v)"
  by (simp add: json_field_def)

lemma always_sent:
  assumes "f \<in> set ALWAYS"
    and "setting_value r f \<noteq> JNull"
  shows "(wire_key a f, Sent (setting_value r f)) \<in> set (fates a t r un wh dr)"
proof -
  have "given (stop (core r))" if "f = ''stop''" using assms(2) that by (simp add: setting_value_def Let_def split: if_splits)
  moreover have "given (tools (core r))" if "f = ''tools''"
    using assms(2) that by (simp add: setting_value_def Let_def split: if_splits)
  ultimately show ?thesis using assms unfolding ALWAYS_def list.set
    by (elim insertE)
      (simp_all add: setting_value_def wire_key_def fates_def Let_def opt_field_sent json_field_sent)
qed

lemma sampler_sent:
  assumes "f \<in> set SAMPLER" and "setting_value r f \<noteq> JNull" and "\<not> temperature_fixed t"
  shows "(wire_key a f, Sent (setting_value r f)) \<in> set (fates a t r un wh dr)"
  using assms unfolding SAMPLER_def list.set
  by (elim insertE)
    (simp_all add: setting_value_def wire_key_def fates_def Let_def opt_field_def opt_json_def sent_float_def
      split: option.splits)

lemma neighbour_sent:
  assumes "f \<in> set NEIGHBOURS"
    and "setting_value r f \<noteq> JNull"
  shows "(wire_key a f, neighbour un wh dr f (setting_value r f)) \<in> set (fates a t r un wh dr)"
  using assms unfolding NEIGHBOURS_def list.set
  by (elim insertE)
    (simp_all add: setting_value_def wire_key_def fates_def Let_def opt_field_def opt_json_def
      split: option.splits)

lemma choice_sent:
  assumes "tool_choice (core r) \<noteq> JNull"
  shows "(''tool_choice'', tool_choice_fate wh dr (tool_choice (core r))) \<in> set (fates a t r un wh dr)"
  using assms by (simp add: fates_def Let_def)

lemma logprobs_sent:
  assumes "logprobs r = Some b" and "\<not> logprobs_held t r"
  shows "(''logprobs'', Sent (JBool b)) \<in> set (fates a t r un wh dr)"
  using assms by (simp add: fates_def Let_def)

lemma effort_sent:
  assumes "reasoning_effort (core r) = Some e"
  shows "effort_fate a un e \<in> set (fates a t r un wh dr)"
  using assms by (simp add: fates_def Let_def)

lemma check_settings_Inr:
  assumes "check_settings repr a t r = Inr dr"
  shows "dr = (if given (tools (core r)) then None else tools_off_because repr a t)"
    and "\<not> logprobs_refused t r"
    and "f \<in> set (explicit_settings (core r)) \<Longrightarrow> f \<in> set (unsupported_settings a t) \<Longrightarrow>
      f = ''reasoningEffort'' \<or> (dr \<noteq> None \<and> f \<in> set TOOL_COMPANION_SETTINGS)"
  using assms
  by (auto simp: check_settings_def Let_def and_then_eq_Inr require_eq_Inr refuse_unsupported_ok
      logprobs_refused_def split: if_splits)

lemma payload_sent:
  assumes "payload_for repr a mode r0 t None = Inr (p, left)"
  obtains dr where "check_settings repr a t (without_tools a t r0) = Inr dr"
    and "\<And>k v. (k, Sent v) \<in> set (fates a t (without_tools a t r0) (unsupported_settings a t)
        (withheld_settings a t (core (without_tools a t r0))) dr) \<Longrightarrow> (k, v) \<in> set p"
proof -
  obtain dr ms wired where
      "check_settings repr a t (without_tools a t r0) = Inr dr"
      "p = [(''model'', JStr (upstream t)), (''messages'', JList (map JObj wired))] @
         sent_of (fates a t (without_tools a t r0) (unsupported_settings a t)
           (withheld_settings a t (core (without_tools a t r0))) dr)"
    using assms by (auto simp: payload_for_def Let_def and_then_eq_Inr)
  then show ?thesis using that Sent_in_body by simp
qed

definition told_no_tools :: "adapter \<Rightarrow> target \<Rightarrow> chat_request \<Rightarrow> bool" where
  "told_no_tools a t r \<longleftrightarrow> tool_choice (core r) = JStr ''none'' \<and> none_is_given_as_no_tools a t"

lemma without_tools_same:
  "\<not> told_no_tools a t r \<Longrightarrow> without_tools a t r = r"
  "f \<notin> set TOOL_SETTINGS \<Longrightarrow> setting_value (without_tools a t r) f = setting_value r f"
  "explicit_settings (core (without_tools a t r)) = explicit_settings (core r)"
  by (auto simp: without_tools_def told_no_tools_def setting_value_def Let_def TOOL_SETTINGS_def explicit_settings_def)

lemma setting_value_known: "setting_value r f \<noteq> JNull \<Longrightarrow> f \<in> set ENGINE_SETTINGS"
  by (auto simp: setting_value_def Let_def ENGINE_SETTINGS_def split: if_splits)

text \<open>What is withheld is named when its value is one the gap lists.\<close>

lemma withheld_named:
  assumes "resolve_model a (asked_model q) = Inr t" and "\<not> (tool_choice q = JStr ''none'' \<and> none_is_given_as_no_tools a t)"
    and "g \<in> set (gaps_for a t)" and "setting g \<in> set (explicit_settings q)"
    and "contract_value q (setting g) \<in> set (in_vain g)"
  shows "setting g \<in> set (ignored_settings a q)"
  using assms by (auto simp: ignored_settings_def Let_def)

text \<open>The types of the two settings that are enumerations.\<close>

definition typed_request :: "gen_request \<Rightarrow> bool" where
  "typed_request q \<longleftrightarrow>
     (case tool_choice q of
        JNull \<Rightarrow> True | JStr m \<Rightarrow> m \<in> {''none'', ''auto'', ''required''} | JObj _ \<Rightarrow> True | _ \<Rightarrow> False) \<and>
     (case reasoning_effort q of None \<Rightarrow> True | Some e \<Rightarrow> e \<in> set REASONING_EFFORTS)"

text \<open>What a backend does unasked.\<close>

definition DEFAULTS :: "(string \<times> json) list" where
  "DEFAULTS = [(''toolChoice'', JStr ''auto''), (''parallelToolCalls'', JBool True), (''logprobs'', JBool False)]"

lemma openrouter_gap:
  assumes "resolve_model a asked = Inr t" and "listing_ok a" and "catalogue (wire a) = ''openrouter''"
    and "entry t \<noteq> None" and "g \<in> set (gaps_for a t)" and "setting g \<in> set TOOL_COMPANION_SETTINGS"
  shows "g \<in> set UNLISTED_TOOL_SETTINGS"
proof -
  obtain f n i m where m: "account a = Some (f, n)" "f i = Some m" "entry t = Some (served_view a m)"
    using resolve_entry [OF assms(1)] assms(4) by auto
  show ?thesis
  proof (cases "model_caps m")
    case None
    then show ?thesis using assms(5) m(3) served_caps(2) by (simp add: gaps_for_def caps_of_def)
  next
    case (Some c)
    then have "not_honoured c = None" using assms(2) m(1,2) unfolding listing_ok_def by blast
    then have "g \<in> set (view_gaps a m c)"
      using assms(5) served_caps(1) [OF Some, of a] m(3) by (auto simp: gaps_for_def caps_of_def split: if_splits)
    then show ?thesis using assms(3,6)
      by (auto simp: view_gaps_def Let_def settings_not_honoured_def TOOL_COMPANION_SETTINGS_def
          unlisted_tool_settings_def gaps_in_def split: if_splits)
  qed
qed

lemma choice_values:
  "typed_request q \<Longrightarrow> contract_value q ''toolChoice'' \<in>
     {JNull, JStr ''function'', JStr ''none'', JStr ''auto'', JStr ''required''}"
  by (cases "tool_choice q") (simp_all add: typed_request_def contract_value_def)

lemma parallel_values: "contract_value q ''parallelToolCalls'' \<in> {JNull, JBool True, JBool False}"
  by (cases "parallel_tool_calls q") (simp_all add: contract_value_def)

lemma withheld_answered:
  assumes "resolve_model a (asked_model q) = Inr t" and "listing_ok a" and "typed_request q"
    and "\<not> (tool_choice q = JStr ''none'' \<and> none_is_given_as_no_tools a t)"
    and "f \<in> set (withheld_settings a t q)" and "f \<in> set TOOL_COMPANION_SETTINGS"
    and "f \<in> set (explicit_settings q)" and "contract_value q f \<noteq> JNull"
  shows "f \<in> set (ignored_settings a q) \<or> (f, contract_value q f) \<in> set DEFAULTS"
proof -
  obtain g where g: "g \<in> set (gaps_for a t)" "setting g = f" "catalogue (wire a) = ''openrouter''" "entry t \<noteq> None"
    using assms(5) by (auto simp: withheld_settings_def split: if_splits)
  then have u: "g \<in> set UNLISTED_TOOL_SETTINGS"
    using openrouter_gap [OF assms(1,2)] assms(6) by blast
  show ?thesis
  proof (cases "contract_value q f \<in> set (in_vain g)")
    case True
    then show ?thesis using withheld_named [OF assms(1,4) g(1)] g(2) assms(7) by simp
  next
    case False
    consider (choice) "f = ''toolChoice''" "in_vain g = [JStr ''none'', JStr ''required'', JStr ''function'']"
      | (parallel) "f = ''parallelToolCalls''" "in_vain g = [JBool False]"
      using u g(2) by (auto simp: UNLISTED_TOOL_SETTINGS_def)
    then show ?thesis
    proof cases
      case choice
      then show ?thesis using choice_values [OF assms(3)] False assms(8) by (auto simp: DEFAULTS_def)
    next
      case parallel
      then show ?thesis using parallel_values [of q] False assms(8) by (auto simp: DEFAULTS_def)
    qed
  qed
qed

lemma neighbour_answered:
  assumes "f \<notin> set un" and "f \<notin> set wh" and "dr = None \<or> f \<notin> set TOOL_COMPANION_SETTINGS"
  shows "neighbour un wh dr f v = Sent v"
  using assms by (auto simp: neighbour_def)

text \<open>Where a named setting went.\<close>

definition answered :: "(string \<Rightarrow> string) \<Rightarrow> adapter \<Rightarrow> target \<Rightarrow> chat_request \<Rightarrow> dict \<Rightarrow> string \<Rightarrow> bool" where
  "answered repr a t r p f \<longleftrightarrow>
     (wire_key a f, setting_value r f) \<in> set p \<or>
     f \<in> set (ignored_settings a (core r)) \<or>
     (f, setting_value r f) \<in> set DEFAULTS \<or>
     (told_no_tools a t r \<and> f \<in> set TOOL_SETTINGS) \<or>
     (f \<in> set TOOL_COMPANION_SETTINGS \<and> \<not> given (tools (core r)) \<and> tools_off_because repr a t \<noteq> None) \<or>
     (f = ''reasoningEffort'' \<and> setting_value r f = JStr ''none'' \<and>
        (''chat_template_kwargs'', JObj [(''enable_thinking'', JBool False)]) \<in> set p)"

lemma companion_values:
  "setting_value r ''parallelToolCalls'' = contract_value (core r) ''parallelToolCalls''"
  "typed_request (core r) \<Longrightarrow> contract_value (core r) ''toolChoice'' = JStr ''auto'' \<longleftrightarrow>
     setting_value r ''toolChoice'' = JStr ''auto''"
  "typed_request (core r) \<Longrightarrow> setting_value r ''toolChoice'' \<noteq> JNull \<Longrightarrow>
     contract_value (core r) ''toolChoice'' \<noteq> JNull"
  by (auto simp: setting_value_def contract_value_def opt_json_def typed_request_def Let_def
      split: option.splits json.splits)

lemma default_value:
  assumes "typed_request (core r)" and "f \<in> set TOOL_COMPANION_SETTINGS"
    and "(f, contract_value (core r) f) \<in> set DEFAULTS"
  shows "(f, setting_value r f) \<in> set DEFAULTS"
proof -
  consider "f = ''parallelToolCalls''" | "f = ''toolChoice''"
    using assms(2) by (auto simp: TOOL_COMPANION_SETTINGS_def)
  then show ?thesis
    using assms(3) companion_values(1) [of r] companion_values(2) [OF assms(1)]
    by cases (simp_all add: DEFAULTS_def)
qed

lemma companion_answered:
  assumes "resolve_model a (asked_model (core r)) = Inr t" and "listing_ok a" and "typed_request (core r)"
    and "\<not> told_no_tools a t r" and chk: "check_settings repr a t r = Inr dr"
    and body: "\<And>k v. (k, Sent v) \<in> set (fates a t r (unsupported_settings a t) (withheld_settings a t (core r)) dr)
        \<Longrightarrow> (k, v) \<in> set p"
    and f: "f \<in> set TOOL_COMPANION_SETTINGS" "f \<in> set (explicit_settings (core r))" "setting_value r f \<noteq> JNull"
  shows "answered repr a t r p f"
proof (cases dr)
  case (Some why)
  then show ?thesis using check_settings_Inr(1) [OF chk] f(1) by (auto simp: answered_def split: if_splits)
next
  case None
  then have sup: "f \<notin> set (unsupported_settings a t)"
    using check_settings_Inr(3) [OF chk f(2)] f(1) tools_in_settings(2,3) by blast
  show ?thesis
  proof (cases "f \<in> set (withheld_settings a t (core r))")
    case True
    have "contract_value (core r) f \<noteq> JNull"
      using f(1,3) companion_values(1) [of r] companion_values(3) [OF assms(3)]
      by (auto simp: TOOL_COMPANION_SETTINGS_def)
    from withheld_answered [OF assms(1-3) _ True f(1,2) this] assms(4)
    have "f \<in> set (ignored_settings a (core r)) \<or> (f, contract_value (core r) f) \<in> set DEFAULTS"
      by (simp add: told_no_tools_def)
    then show ?thesis using default_value [OF assms(3) f(1)] unfolding answered_def by blast
  next
    case False
    consider "f = ''parallelToolCalls''" | "f = ''toolChoice''" using f(1) by (auto simp: TOOL_COMPANION_SETTINGS_def)
    then have "(wire_key a f, setting_value r f) \<in> set p"
    proof cases
      case 1
      have "neighbour (unsupported_settings a t) (withheld_settings a t (core r)) dr f (setting_value r f) =
          Sent (setting_value r f)" using sup False None by (simp add: neighbour_def)
      then show ?thesis using neighbour_sent [OF _ f(3), of a "unsupported_settings a t" "withheld_settings a t (core r)" dr t] 1 body
        by (auto simp: NEIGHBOURS_def)
    next
      case 2
      have v: "setting_value r ''toolChoice'' = tool_choice (core r)" "wire_key a ''toolChoice'' = ''tool_choice''"
        by (simp_all add: setting_value_def wire_key_def Let_def)
      then have "tool_choice_fate (withheld_settings a t (core r)) dr (tool_choice (core r)) = Sent (tool_choice (core r))"
        using False None 2 by (simp add: tool_choice_fate_def)
      then show ?thesis using choice_sent [of r "withheld_settings a t (core r)" dr] f(3) 2 v body by metis
    qed
    then show ?thesis by (simp add: answered_def)
  qed
qed

text \<open>A model that answers chat, as the routes require of it.\<close>

definition chat_target :: "target \<Rightarrow> bool" where
  "chat_target t \<longleftrightarrow>
     (case entry t of None \<Rightarrow> True | Some e \<Rightarrow> ''chat'' \<in> set (answers e) \<and> model_caps e \<noteq> None)"

lemma own_gap_reported:
  assumes "resolve_model a asked = Inr t" and "chat_target t" and "g \<in> set (settings_not_honoured a)"
  shows "g \<in> set (gaps_for a t)"
proof (cases "entry t")
  case None
  then show ?thesis using assms(3) by (simp add: gaps_for_def)
next
  case (Some e)
  then obtain m where m: "e = served_view a m" using resolve_entry [OF assms(1)] by auto
  obtain c where c: "model_caps m = Some c"
    using assms(2) Some m served_caps(2) [of m a] by (cases "model_caps m") (auto simp: chat_target_def)
  then have "''chat'' \<in> set (answers m)" using served_caps(1) [OF c, of a] assms(2) Some m by (auto simp: chat_target_def)
  then have "g \<in> set (view_gaps a m c)" using assms(3) by (simp add: view_gaps_def Let_def)
  then show ?thesis using served_caps(1) [OF c, of a] Some m by (auto simp: gaps_for_def caps_of_def)
qed

text \<open>The one setting that is lost: an effort other than \<open>none\<close>, to a backend that ignores \<open>tool_choice: none\<close> and
  is given the effort through its chat template. \<open>ignored_settings\<close> then leaves out every gap, that of the effort too.\<close>

definition effort_lost :: "adapter \<Rightarrow> target \<Rightarrow> chat_request \<Rightarrow> string \<Rightarrow> bool" where
  "effort_lost a t r f \<longleftrightarrow>
     f = ''reasoningEffort'' \<and> told_no_tools a t r \<and> effort_by_template a \<and> setting_value r f \<noteq> JStr ''none''"

lemma effort_answered:
  assumes "resolve_model a (asked_model (core r)) = Inr t" and "chat_target t" and "typed_request (core r)"
    and body: "\<And>k v. (k, Sent v) \<in> set (fates a t r' (unsupported_settings a t) wh dr) \<Longrightarrow> (k, v) \<in> set p"
    and e: "reasoning_effort (core r) = Some e" "reasoning_effort (core r') = Some e"
    and f: "''reasoningEffort'' \<in> set (explicit_settings (core r))"
  shows "answered repr a t r p ''reasoningEffort'' \<or> effort_lost a t r ''reasoningEffort''"
proof -
  have v: "setting_value r ''reasoningEffort'' = JStr e" "wire_key a ''reasoningEffort'' = ''reasoning_effort''"
    using e(1) by (simp_all add: setting_value_def wire_key_def Let_def opt_json_def)
  have sent: "effort_fate a (unsupported_settings a t) e \<in> set (fates a t r' (unsupported_settings a t) wh dr)"
    using effort_sent [of r' e] e(2) by blast
  consider (template_none) "effort_by_template a" "e = ''none''"
    | (template) "effort_by_template a" "e \<noteq> ''none''"
    | (unsupported) "\<not> effort_by_template a" "''reasoningEffort'' \<in> set (unsupported_settings a t)"
    | (carried) "\<not> effort_by_template a" "''reasoningEffort'' \<notin> set (unsupported_settings a t)" by blast
  then show ?thesis
  proof cases
    case template_none
    then show ?thesis using sent body v by (simp add: effort_fate_def answered_def)
  next
    case template
    let ?g = "\<lparr>setting = ''reasoningEffort'', in_vain = map JStr (filter (\<lambda>e. e \<noteq> ''none'') REASONING_EFFORTS)\<rparr>"
    have "?g \<in> set (gaps_for a t)"
      using template(1) by (intro own_gap_reported [OF assms(1,2)]) (simp add: settings_not_honoured_def)
    moreover have "contract_value (core r) ''reasoningEffort'' \<in> set (in_vain ?g)"
      using template(2) e(1) assms(3) by (simp add: contract_value_def typed_request_def)
    ultimately have "told_no_tools a t r \<or> ''reasoningEffort'' \<in> set (ignored_settings a (core r))"
      using withheld_named [OF assms(1), of ?g] f by (auto simp: told_no_tools_def)
    then show ?thesis using template v(1) by (auto simp: answered_def effort_lost_def)
  next
    case unsupported
    then have "''reasoningEffort'' \<in> set (ignored_settings a (core r))"
      using assms(1) f e(1) by (simp add: ignored_settings_def Let_def)
    then show ?thesis by (simp add: answered_def)
  next
    case carried
    then show ?thesis using sent body v by (simp add: effort_fate_def answered_def)
  qed
qed

lemma fixed_unsupported:
  "temperature_fixed t \<Longrightarrow> f \<in> set FIXED_SAMPLER_SETTINGS \<Longrightarrow> f \<in> set (unsupported_settings a t)"
  by (auto simp: unsupported_settings_def Let_def FIXED_SAMPLER_SETTINGS_def)

lemma engine_setting_kinds:
  "set ENGINE_SETTINGS \<subseteq>
     set ALWAYS \<union>
     set SAMPLER \<union>
     set NEIGHBOURS \<union>
     {''logprobs''} \<union> {''reasoningEffort''} \<union> set TOOL_COMPANION_SETTINGS"
  by (simp add: ENGINE_SETTINGS_def TOOL_COMPANION_SETTINGS_def ALWAYS_def SAMPLER_def NEIGHBOURS_def)

lemma plain_answered:
  assumes "resolve_model a asked = Inr t" and "listing_ok a" and chk: "check_settings repr a t r = Inr dr"
    and body: "\<And>k v. (k, Sent v) \<in> set (fates a t r (unsupported_settings a t) (withheld_settings a t (core r)) dr)
        \<Longrightarrow> (k, v) \<in> set p"
    and f: "f \<in> set (explicit_settings (core r))" "setting_value r f \<noteq> JNull"
      "f \<notin> set TOOL_COMPANION_SETTINGS" "f \<noteq> ''reasoningEffort''"
  shows "(wire_key a f, setting_value r f) \<in> set p \<or> (f, setting_value r f) \<in> set DEFAULTS"
proof -
  have sup: "f \<notin> set (unsupported_settings a t)" using check_settings_Inr(3) [OF chk f(1)] f(3,4) by blast
  have wh: "f \<notin> set (withheld_settings a t (core r))"
    using gaps_for_settings [OF assms(1,2)] f(3,4) by (auto simp: withheld_settings_def split: if_splits)
  consider (always) "f \<in> set ALWAYS"
    | (sampler) "f \<in> set SAMPLER"
    | (neighbour) "f \<in> set NEIGHBOURS"
    | (logprobs) "f = ''logprobs''"
    using subsetD [OF engine_setting_kinds setting_value_known [OF f(2)]] f(3,4) by blast
  then show ?thesis
  proof cases
    case always
    then show ?thesis using always_sent [OF _ f(2)] body by blast
  next
    case sampler
    then have "\<not> temperature_fixed t" using fixed_unsupported sup by (auto simp: FIXED_SAMPLER_SETTINGS_def SAMPLER_def)
    then show ?thesis using sampler_sent [OF sampler f(2)] body by blast
  next
    case neighbour
    then show ?thesis using neighbour_sent [OF neighbour f(2)] neighbour_answered [OF sup wh] f(3) body by metis
  next
    case logprobs
    obtain b where b: "logprobs r = Some b" "setting_value r f = JBool b"
      using f(2) logprobs by (cases "logprobs r") (simp_all add: setting_value_def Let_def opt_json_def)
    have "logprobs_held t r \<Longrightarrow> b = False"
      using check_settings_Inr(2) [OF chk] f(1) b(1) logprobs by (auto simp: logprobs_refused_def)
    moreover have "wire_key a f = ''logprobs''" using logprobs by (simp add: wire_key_def)
    ultimately show ?thesis
      using logprobs_sent [OF b(1)] b(2) body logprobs by (cases "logprobs_held t r") (auto simp: DEFAULTS_def)
  qed
qed

text \<open>No setting the caller named is lost. When a body is made for a request to a model of this driver, every
  setting the caller named and gave a value is in the body with that value, or is one the response
  names as ignored, or asks for what a backend does anyway, or rides with tools that are not sent
  (\<open>tool_choice: none\<close> to a backend that ignores it, or a model whose tools are off), or is the
  reasoning effort \<open>none\<close>, given to the chat template; but for the one exception \<open>effort_lost\<close>.\<close>

lemma named_settings_answered:
  assumes "resolve_model a (asked_model (core r)) = Inr t" and "listing_ok a" and "chat_target t"
    and "typed_request (core r)" and "payload_for repr a mode r t None = Inr (p, left)"
    and "f \<in> set (explicit_settings (core r))" and "setting_value r f \<noteq> JNull"
  shows "answered repr a t r p f \<or> effort_lost a t r f"
proof (cases "told_no_tools a t r \<and> f \<in> set TOOL_SETTINGS")
  case True
  then show ?thesis unfolding answered_def by blast
next
  case no_tools: False
  let ?r = "without_tools a t r"
  obtain dr where chk: "check_settings repr a t ?r = Inr dr"
    and body: "\<And>k v. (k, Sent v) \<in> set (fates a t ?r (unsupported_settings a t)
        (withheld_settings a t (core ?r)) dr) \<Longrightarrow> (k, v) \<in> set p"
    using payload_sent [OF assms(5)] by metis
  have ex: "f \<in> set (explicit_settings (core ?r))" using assms(6) without_tools_same(3) by simp
  show ?thesis
  proof (cases "f = ''reasoningEffort''")
    case True
    then obtain e where e: "reasoning_effort (core r) = Some e" "reasoning_effort (core ?r) = Some e"
      using assms(7) by (cases "reasoning_effort (core r)")
        (simp_all add: setting_value_def Let_def opt_json_def without_tools_def)
    show ?thesis using effort_answered [OF assms(1,3,4) body e] assms(6) True by simp
  next
    case False
    show ?thesis
    proof (cases "f \<in> set TOOL_COMPANION_SETTINGS")
      case True
      then have "\<not> told_no_tools a t r" using no_tools tools_in_settings(2) by auto
      then show ?thesis
        using companion_answered [OF assms(1,2,4) _ _ body True assms(6,7)] chk without_tools_same(1) by metis
    next
      case no_companion: False
      have same: "setting_value ?r f = setting_value r f"
        using no_tools without_tools_same(1,2) by metis
      have "(wire_key a f, setting_value ?r f) \<in> set p \<or> (f, setting_value ?r f) \<in> set DEFAULTS"
        using plain_answered [OF assms(1,2) chk body ex _ no_companion False] assms(7) same by simp
      then show ?thesis unfolding same answered_def by blast
    qed
  qed
qed

text \<open>A tool forced by schema takes the tools out of the body and the response format over; every other setting stays.\<close>

lemma update_keeps: "(k, v) \<in> set d \<Longrightarrow> k \<noteq> j \<Longrightarrow> (k, v) \<in> set (AList.update j w d)"
  by (induction d) auto

lemma forced_keeps:
  assumes "(k, v) \<in> set p"
    and "k \<notin> {''tools'', ''tool_choice'', ''parallel_tool_calls'', ''response_format'', ''messages''}"
  shows "(k, v) \<in> set (force_by_schema p tool)"
proof -
  have one: "(k, v) \<in> set (AList.update ''response_format'' w (without [''tools'', ''tool_choice'', ''parallel_tool_calls''] p))" for w
    using assms by (intro update_keeps) (auto simp: without_def)
  have two: "(k, v) \<in> set (AList.update ''messages'' u (AList.update ''response_format'' w
        (without [''tools'', ''tool_choice'', ''parallel_tool_calls''] p)))" for u w
    using assms(2) by (intro update_keeps [OF one]) auto
  show ?thesis
    unfolding force_by_schema_def Let_def using one two by (simp split: json.split)
qed

definition FORCED_SETTINGS :: "string list" where
  "FORCED_SETTINGS = ''responseFormat'' # TOOL_SETTINGS"

lemma forced_answered:
  assumes "answered repr a t r p f" and "setting_value r f \<noteq> JNull" and "f \<notin> set FORCED_SETTINGS"
    and "max_tokens_field (wire a) \<in> {''max_tokens'', ''max_completion_tokens''}"
  shows "answered repr a t r (force_by_schema p tool) f"
proof -
  have "wire_key a f \<notin> {''tools'', ''tool_choice'', ''parallel_tool_calls'', ''response_format'', ''messages''}"
  proof -
    have "f \<in> set (filter (\<lambda>f. f \<notin> set FORCED_SETTINGS) ENGINE_SETTINGS)"
      using setting_value_known [OF assms(2)] assms(3) by simp
    moreover have "filter (\<lambda>f. f \<notin> set FORCED_SETTINGS) ENGINE_SETTINGS =
        [''maxTokens'', ''temperature'', ''topP'', ''seed'', ''stop'', ''topK'', ''minP'', ''frequencyPenalty'',
         ''presencePenalty'', ''logprobs'', ''logitBias'', ''reasoningEffort'', ''verbosity'', ''prediction'',
         ''webSearchOptions'']"
      by code_simp
    ultimately have "f \<in> set [''maxTokens'', ''temperature'', ''topP'', ''seed'', ''stop'', ''topK'', ''minP'', ''frequencyPenalty'',
         ''presencePenalty'', ''logprobs'', ''logitBias'', ''reasoningEffort'', ''verbosity'', ''prediction'',
         ''webSearchOptions'']" by (simp only:)
    then show ?thesis using assms(4) unfolding set_simps by (elim insertE emptyE) (auto simp: wire_key_def)
  qed
  then show ?thesis using assms(1) forced_keeps [of _ _ p tool] unfolding answered_def by auto
qed

lemma payload_forced:
  "payload_for repr a mode r t (Some tool) = Inr (p, left) \<Longrightarrow>
    \<exists>q. payload_for repr a mode r t None = Inr (q, left) \<and> p = force_by_schema q tool"
  by (auto simp: payload_for_def Let_def and_then_eq_Inr)

lemma refused_tools_not_listed:
  assumes "map_of (tools_refused a) (listed_id m) \<noteq> None" and "model_caps (served_view a m) = Some c"
  shows "''tools'' \<notin> set (listed_settings c)"
proof (cases "model_caps m")
  case None
  then show ?thesis using assms(2) by (simp add: served_view_def)
next
  case (Some k)
  obtain off where off: "map_of (tools_refused a) (listed_id m) = Some off" using assms(1) by blast
  have companions: "''tools'' \<notin> set (filter P TOOL_COMPANION_SETTINGS)" for P
    by (simp add: TOOL_COMPANION_SETTINGS_def)
  have eq: "model_caps (served_view a m) = Some c" by (rule assms(2))
  show ?thesis
    using eq [symmetric] companions
    by (simp add: served_view_def Let_def Some off listed_settings_def del: set_filter)
       (simp add: companions del: set_filter, simp)
qed

lemma openrouter_advertises:
  assumes "resolve_model a asked = Inr t" and "entry t = Some e" and "model_caps e = Some c"
    and "catalogue (wire a) = ''openrouter''" and "\<not> openai_parameters (wire a)"
    and "f \<in> set ENGINE_SETTINGS" and "f \<noteq> ''reasoningEffort''"
    and "\<not> (temperature_fixed t \<and> f \<in> set FIXED_SAMPLER_SETTINGS)"
  shows "f \<in> set (listed_settings c) \<longleftrightarrow> f \<in> set (supported_for a t)"
proof -
  obtain m where m: "e = served_view a m" "target_id t = listed_id m"
    using assms(1,2)
    by (auto simp: resolve_model_def find_served_def Let_def and_then_eq_Inr split: option.splits if_splits)
       (auto simp: served_view_def Let_def split: option.splits)
  have caps: "caps_of t = Some c" using assms(2,3) by (simp add: caps_of_def)
  have "\<not> chat_tools_unavailable a (upstream t)" using assms(5) by (simp add: chat_tools_unavailable_def)
  moreover have "''tools'' \<notin> set (listed_settings c)" if "map_of (tools_refused a) (target_id t) \<noteq> None"
    using refused_tools_not_listed [of a m c] that m assms(3) by simp
  moreover have "f \<in> set (unsupported_settings a t) \<longleftrightarrow>
      temperature_fixed t \<and> f \<in> set FIXED_SAMPLER_SETTINGS \<or>
      (chat_tools_unavailable a (upstream t) \<or> map_of (tools_refused a) (target_id t) \<noteq> None) \<and> f = ''tools'' \<or>
      f \<notin> set (listed_settings c)"
    using assms(4-7) caps unfolding unsupported_settings_def Let_def by simp blast
  ultimately show ?thesis using supported_iff [OF assms(6)] assms(8) by blast
qed


text \<open>The body is a dictionary: no key is set twice.\<close>

definition keyed :: "string list \<Rightarrow> (string \<times> fate) list \<Rightarrow> bool" where
  "keyed ks sec \<longleftrightarrow> distinct (map fst sec) \<and> fst ` set sec \<subseteq> set ks"

lemma keyed_intros [intro]:
  "keyed ks []" "k \<in> set ks \<Longrightarrow> keyed ks [(k, f)]" "k \<in> set ks \<Longrightarrow> keyed ks (opt_field k g v)"
  "k \<in> set ks \<Longrightarrow> keyed ks (json_field k w)"
  "(b \<Longrightarrow> keyed ks x) \<Longrightarrow> (\<not> b \<Longrightarrow> keyed ks y) \<Longrightarrow> keyed ks (if b then x else y)"
  by (auto simp: keyed_def opt_field_def json_field_def split: option.splits)

lemma keyed_concat:
  "list_all2 keyed kss secs \<Longrightarrow> distinct (concat kss) \<Longrightarrow> keyed (concat kss) (concat secs)"
proof (induction kss secs rule: list_all2_induct)
  case (Cons ks kss sec secs)
  then have k: "keyed ks sec" "keyed (concat kss) (concat secs)" "set ks \<inter> set (concat kss) = {}" by auto
  then have "set (map fst sec) \<inter> set (map fst (concat secs)) = {}"
    unfolding keyed_def set_map by blast
  then show ?case using k(1,2) by (simp add: keyed_def subset_iff image_Un)
qed auto

definition KEYS :: "adapter \<Rightarrow> string list list" where
  "KEYS a =
     [[max_tokens_field (wire a)], [''temperature''], [''top_p''], [''seed''], [''stop''], [''top_k''], [''min_p''],
      [''frequency_penalty''], [''presence_penalty''], [''parallel_tool_calls''], [''tools''], [''tool_choice''],
      [''response_format''], [''provider''], [''logprobs'', ''top_logprobs''], [''logit_bias''],
      [''chat_template_kwargs'', ''reasoning_effort''], [''verbosity''], [''prediction''], [''web_search_options''],
      map snd HINTS, [''cache_control''], [''modalities'', ''audio'']]"

lemma table_keyed:
  "distinct (map snd hs) \<Longrightarrow>
    keyed (map snd hs) (concat (map (\<lambda>(ours, theirs). if b ours then [] else [(theirs, g ours)]) hs))"
proof (induction hs)
  case (Cons h hs)
  then have "keyed (map snd hs) (concat (map (\<lambda>(ours, theirs). if b ours then [] else [(theirs, g ours)]) hs))"
    and "snd h \<notin> set (map snd hs)" by simp_all
  then show ?case unfolding keyed_def by (cases h) force
qed auto

lemma cache_keyed [intro]: "keyed [k] (case v of None \<Rightarrow> [] | Some x \<Rightarrow> [(k, h x)])"
  by (cases v) (simp_all add: keyed_def)

lemma effort_keyed [intro]:
  "keyed [''chat_template_kwargs'', ''reasoning_effort''] (case w of None \<Rightarrow> [] | Some e \<Rightarrow> [effort_fate a un e])"
  by (cases w) (simp_all add: keyed_def effort_fate_def)

lemma logprobs_keyed [intro]:
  "keyed [''logprobs'', ''top_logprobs'']
     (case l of None \<Rightarrow> []
      | Some b \<Rightarrow> if held then [(''logprobs'', Dropped NotAccepted)]
                  else (''logprobs'', Sent (JBool b)) # opt_field ''top_logprobs'' (\<lambda>n. Sent (JInt n)) n)"
  by (cases l; cases held; cases n) (simp_all add: keyed_def opt_field_def)

lemma two_keyed [intro]: "keyed [k, k'] (if b then [] else [(k, f), (k', g)])" if "k \<noteq> k'"
  using that by (simp add: keyed_def)

lemma fates_keyed:
  assumes "max_tokens_field (wire a) \<in> {''max_tokens'', ''max_completion_tokens''}"
  shows "keyed (concat (KEYS a)) (fates a t r un wh dr)"
proof -
  have d: "distinct (concat (KEYS a))" using assms by (auto simp: KEYS_def HINTS_def)
  have "distinct (map snd HINTS)" by (simp add: HINTS_def)
  note hints = table_keyed [OF this, where g = "\<lambda>ours. if openai_parameters (wire a) then Sent (dget (hints r) ours)
      else Dropped NotAccepted"]
  show ?thesis unfolding fates_def Let_def
    by (rule keyed_concat [OF _ d])
      (simp only: KEYS_def list.rel_inject list.rel_intros simp_thms, intro conjI hints two_keyed cache_keyed effort_keyed logprobs_keyed keyed_intros, simp_all)
qed

lemma keys_sent_of: "map fst (sent_of fs) = map fst (filter (\<lambda>e. case snd e of Sent _ \<Rightarrow> True | Dropped _ \<Rightarrow> False) fs)"
  by (induction fs) (auto simp: sent_of_def List.map_filter_simps split: fate.splits)

lemma keyed_sent:
  "keyed ks fs \<Longrightarrow> distinct (map fst (sent_of fs)) \<and> set (map fst (sent_of fs)) \<subseteq> set ks"
  unfolding keys_sent_of by (auto simp: keyed_def intro: distinct_map_filter)

lemma body_is_dictionary:
  assumes "max_tokens_field (wire a) \<in> {''max_tokens'', ''max_completion_tokens''}"
    and "payload_for repr a mode r t None = Inr (p, left)"
  shows "distinct (map fst p)"
proof -
  let ?un = "unsupported_settings a t" and ?r = "without_tools a t r"
  obtain dr wired where p: "p = [(''model'', JStr (upstream t)), (''messages'', JList (map JObj wired))] @
         sent_of (fates a t ?r ?un (withheld_settings a t (core ?r)) dr)"
    using assms(2) by (auto simp: payload_for_def Let_def and_then_eq_Inr)
  have "''model'' \<notin> set (concat (KEYS a))" "''messages'' \<notin> set (concat (KEYS a))"
    using assms(1) by (auto simp: KEYS_def HINTS_def)
  then show ?thesis
    using keyed_sent [OF fates_keyed [OF assms(1), of t ?r ?un "withheld_settings a t (core ?r)" dr]]
    unfolding p map_append distinct_append by auto
qed

text \<open>An OpenRouter account whose model lists tools without what rides with them.\<close>

definition demo_listed :: listed_model where
  "demo_listed = \<lparr>listed_id = ''m'', listed_upstream = None, answers = [''chat''],
     model_caps = Some \<lparr>offered = Some [''seed'', ''tools''], calls_tools = Some True, not_honoured = None\<rparr>\<rparr>"

definition demo_account :: adapter where
  "demo_account = \<lparr>wire = the (map_of DIALECTS ''openrouter''), public_id = None, upstream_id = [],
     fixes_temperature = (\<lambda>_. False), tools_refused = [], tools_assumed = True, require_parameters = True,
     llama_cpp = None, thinking_mode = ''auto'',
     account = Some (\<lambda>i. if i = ''m'' then Some demo_listed else None, 1), warned_dropped = []\<rparr>"

definition demo_chat :: chat_request where
  "demo_chat = \<lparr>core = demo_request\<lparr>asked_model := Some ''m'', tool_choice := JNull, parallel_tool_calls := Some False,
       caller_settings := Some [''parallelToolCalls'', ''seed'']\<rparr>,
     messages = [], max_tokens = None, temperature = None, top_k = None, min_p = None,
     frequency_penalty = None, presence_penalty = None, response_format = JNull, logprobs = None,
     top_logprobs = None, logit_bias = None, verbosity = None, prediction = JNull,
     web_search_options = JNull, hints = [], cache_control = None, audio_voice = []\<rparr>"

lemma demo_account_ok: "listing_ok demo_account"
  by (auto simp: listing_ok_def demo_account_def demo_listed_def split: if_splits)

definition demo_target :: target where
  "demo_target = \<lparr>target_id = ''m'', upstream = ''m'', temperature_fixed = False,
     entry = Some (demo_listed\<lparr>model_caps := Some \<lparr>
       offered = Some [''seed'', ''tools'', ''toolChoice'', ''parallelToolCalls''],
       calls_tools = Some True, not_honoured = Some UNLISTED_TOOL_SETTINGS\<rparr>\<rparr>)\<rparr>"

lemma demo_resolved: "resolve_model demo_account (asked_model (core demo_chat)) = Inr demo_target"
  by code_simp

definition demo_body :: dict where
  "demo_body =
     [(''model'', JStr ''m''), (''messages'', JList []), (''seed'', JInt 1),
      (''provider'', JObj [(''require_parameters'', JBool True)])]"

lemma demo_payload:
  "payload_for (\<lambda>s. s) demo_account ''auto'' demo_chat demo_target None =
     Inr (demo_body, [(''parallel_tool_calls'', NotDelivered)])"
  by code_simp

lemma named_settings_answered_witness:
  "answered (\<lambda>s. s) demo_account demo_target demo_chat demo_body ''parallelToolCalls'' \<and>
   answered (\<lambda>s. s) demo_account demo_target demo_chat demo_body ''seed''"
proof -
  have "listing_ok demo_account" by (auto simp: listing_ok_def demo_account_def demo_listed_def split: if_splits)
  moreover have "chat_target demo_target" "typed_request (core demo_chat)" by code_simp+
  moreover have "''parallelToolCalls'' \<in> set (explicit_settings (core demo_chat))" "''seed'' \<in> set (explicit_settings (core demo_chat))"
    "setting_value demo_chat ''parallelToolCalls'' \<noteq> JNull" "setting_value demo_chat ''seed'' \<noteq> JNull" by code_simp+
  moreover have "\<not> effort_lost demo_account demo_target demo_chat f" for f
    by (simp add: effort_lost_def told_no_tools_def demo_chat_def)
  ultimately show ?thesis using named_settings_answered [OF demo_resolved _ _ _ demo_payload] by blast
qed


end
