(* ===== verification/Openai_Tools.thy ===== *)
theory Openai_Tools
  imports Openai_Settings Step_Systems
begin

text \<open>
  What the adapter learns of tools (\<open>engines/openai_compat_http.py\<close>). A chat model is taken to carry tools
  until its backend refuses a request for them in words the driver knows. Then tools are off for
  that model, and the backend is asked again, round after round, until it takes one.
\<close>

subsection \<open>Tools: assumed, and off on the backend's own word\<close>

text \<open>The backend refused this model's tools. What was known already is kept.\<close>

definition learn_tools_refused :: "adapter \<Rightarrow> target \<Rightarrow> string \<Rightarrow> adapter" where
  "learn_tools_refused a t words =
     (if map_of (tools_refused a) (target_id t) \<noteq> None then a
      else a\<lparr>tools_refused := tools_refused a @
               [(target_id t, \<lparr>refused_words = words, refused_upstream = upstream t\<rparr>)],
             tools_assumed := (if entry t = None then False else tools_assumed a)\<rparr>)"

definition forget_refusal :: "string \<Rightarrow> adapter \<Rightarrow> adapter" where
  "forget_refusal i a = a\<lparr>tools_refused := filter (\<lambda>e. fst e \<noteq> i) (tools_refused a)\<rparr>"

definition clear_tools_refused :: "adapter \<Rightarrow> string \<Rightarrow> adapter" where
  "clear_tools_refused a i =
     (if map_of (tools_refused a) i = None then a
      else (let a' = forget_refusal i a
            in if account a = None then a'\<lparr>tools_assumed := tool_calling_assumed a\<rparr> else a'))"

text \<open>\<open>_tools_answered\<close>: the reply to the smallest request that carries a tool, \<open>None\<close> for a transport
  failure. The first component of a reply says that it was a success.\<close>

definition tools_answered :: "(string \<Rightarrow> loaded) \<Rightarrow> (bool \<times> string) option \<Rightarrow> bool option" where
  "tools_answered loads reply =
     (case reply of
        None \<Rightarrow> None
      | Some (success, body) \<Rightarrow>
          if success then Some True
          else if tools_refusal loads (take 4000 body) \<noteq> None then Some False else None)"

text \<open>One round: \<open>ask u\<close> is what asking for the model \<open>u\<close> tells.\<close>

fun ask_each :: "(string \<Rightarrow> bool option) \<Rightarrow> (string \<times> tools_off) list \<Rightarrow> adapter \<Rightarrow> adapter" where
  "ask_each ask [] a = a"
| "ask_each ask ((i, off) # offs) a =
     ask_each ask offs
       (if account a \<noteq> None \<and> find_served a i = None then forget_refusal i a
        else if ask (refused_upstream off) = Some True then clear_tools_refused a i
        else a)"

definition ask_tools_once :: "(string \<Rightarrow> bool option) \<Rightarrow> adapter \<Rightarrow> adapter" where
  "ask_tools_once ask a = ask_each ask (tools_refused a) a"

text \<open>\<open>_ask_tools_again\<close>, a round per element: it ends when no model's tools are off. The flag says that it
  has ended.\<close>

fun ask_tools_again :: "(string \<Rightarrow> bool option) list \<Rightarrow> adapter \<Rightarrow> adapter \<times> bool" where
  "ask_tools_again [] a = (a, tools_refused a = [])"
| "ask_tools_again (ask # asks) a =
     (if tools_refused a = [] then (a, True) else ask_tools_again asks (ask_tools_once ask a))"

text \<open>\<open>_upstream_refusal\<close>: the error of a failed chat request, \<open>Inl\<close> the words of a \<open>ToolsRefused\<close>, and what
  was learned. \<open>redact\<close> hides keys in a text.\<close>

definition upstream_refusal ::
  "(string \<Rightarrow> loaded) \<Rightarrow> adapter \<Rightarrow> string \<Rightarrow> dict \<Rightarrow> target \<Rightarrow> (string + unit) \<times> adapter"
where
  "upstream_refusal loads a body payload t =
     (case (if truthy (dget payload ''tools'') then tools_refusal loads (take 4000 body) else None) of
        Some words \<Rightarrow> (Inl words, learn_tools_refused a t words)
      | None \<Rightarrow> (Inr (), a))"

subsection \<open>What is learned of tools is not for good\<close>

definition unserved :: "adapter \<Rightarrow> string \<Rightarrow> bool" where
  "unserved a i \<longleftrightarrow> (case account a of None \<Rightarrow> False | Some (f, _) \<Rightarrow> f i = None)"

lemma unserved_iff: "(account a \<noteq> None \<and> find_served a i = None) \<longleftrightarrow> unserved a i"
  by (auto simp: unserved_def find_served_def split: option.splits)

definition stays_off :: "(string \<Rightarrow> bool option) \<Rightarrow> adapter \<Rightarrow> string \<times> tools_off \<Rightarrow> bool" where
  "stays_off ask a e \<longleftrightarrow> \<not> unserved a (fst e) \<and> ask (refused_upstream (snd e)) \<noteq> Some True"

text \<open>What a round leaves alone.\<close>

definition same_but_tools :: "adapter \<Rightarrow> adapter \<Rightarrow> bool" where
  "same_but_tools a b \<longleftrightarrow>
     account b = account a \<and> public_id b = public_id a \<and> wire b = wire a \<and> upstream_id b = upstream_id a \<and>
     (account a \<noteq> None \<longrightarrow> tools_assumed b = tools_assumed a)"

lemma same_but_tools_refl [simp]: "same_but_tools a a"
  by (simp add: same_but_tools_def)

lemma same_but_tools_trans: "same_but_tools a b \<Longrightarrow> same_but_tools b c \<Longrightarrow> same_but_tools a c"
  by (simp add: same_but_tools_def)

lemma same_but_toolsD:
  assumes "same_but_tools a b"
  shows "unserved b = unserved a" and "tool_calling_assumed b = tool_calling_assumed a"
  using assms by (simp_all add: same_but_tools_def unserved_def tool_calling_assumed_def
      chat_tools_unavailable_def fun_eq_iff)

lemma cleared:
  "tools_refused (clear_tools_refused a i) = filter (\<lambda>e. fst e \<noteq> i) (tools_refused a)"
  "same_but_tools a (clear_tools_refused a i)"
proof -
  have "filter (\<lambda>e. fst e \<noteq> i) (tools_refused a) = tools_refused a" if "map_of (tools_refused a) i = None"
    using that by (auto simp: map_of_eq_None_iff filter_id_conv image_iff)
  then show "tools_refused (clear_tools_refused a i) = filter (\<lambda>e. fst e \<noteq> i) (tools_refused a)"
    by (simp add: clear_tools_refused_def forget_refusal_def Let_def)
  show "same_but_tools a (clear_tools_refused a i)"
    by (simp add: same_but_tools_def clear_tools_refused_def forget_refusal_def Let_def)
qed

lemma ask_each_spec:
  "distinct (map fst es) \<Longrightarrow>
    tools_refused (ask_each ask es a) =
      filter (\<lambda>e. fst e \<in> fst ` set es \<longrightarrow>
        (\<exists>off. (fst e, off) \<in> set es \<and> stays_off ask a (fst e, off))) (tools_refused a) \<and>
    same_but_tools a (ask_each ask es a)"
proof (induction es arbitrary: a)
  case (Cons x es)
  obtain i off where x: "x = (i, off)" by force
  let ?b = "if account a \<noteq> None \<and> find_served a i = None then forget_refusal i a
        else if ask (refused_upstream off) = Some True then clear_tools_refused a i else a"
  have b: "same_but_tools a ?b"
    using cleared(2) by (simp add: same_but_tools_def forget_refusal_def)
  have r: "tools_refused ?b = (if stays_off ask a (i, off) then tools_refused a
      else filter (\<lambda>e. fst e \<noteq> i) (tools_refused a))"
    using cleared(1) unserved_iff [of a i] by (auto simp: stays_off_def forget_refusal_def)
  have i: "i \<notin> fst ` set es" "\<And>off'. (i, off') \<notin> set es" using Cons.prems x by force+
  have "stays_off ask ?b e = stays_off ask a e" for e
    using same_but_toolsD(1) [OF b] by (simp add: stays_off_def)
  then have IH: "tools_refused (ask_each ask es ?b) =
      filter (\<lambda>e. fst e \<in> fst ` set es \<longrightarrow> (\<exists>off. (fst e, off) \<in> set es \<and> stays_off ask a (fst e, off)))
        (tools_refused ?b)"
    and same: "same_but_tools ?b (ask_each ask es ?b)"
    using Cons.IH [of ?b] Cons.prems by simp_all
  have "ask_each ask (x # es) a = ask_each ask es ?b" by (simp add: x)
  moreover have "tools_refused (ask_each ask es ?b) =
      filter (\<lambda>e. fst e \<in> fst ` set (x # es) \<longrightarrow>
        (\<exists>off. (fst e, off) \<in> set (x # es) \<and> stays_off ask a (fst e, off))) (tools_refused a)"
    unfolding IH r using i by (auto simp: x filter_filter intro!: filter_cong)
  ultimately show ?case using same_but_tools_trans [OF b same] by simp
qed simp

lemma ask_once_spec:
  assumes "distinct (map fst (tools_refused a))"
  shows "tools_refused (ask_tools_once ask a) = filter (stays_off ask a) (tools_refused a)"
    and "same_but_tools a (ask_tools_once ask a)"
proof -
  have "(fst e, off) \<in> set (tools_refused a) \<longleftrightarrow> off = snd e" if "e \<in> set (tools_refused a)" for e off
    using that assms by (metis eq_key_imp_eq_value prod.collapse)
  then show "tools_refused (ask_tools_once ask a) = filter (stays_off ask a) (tools_refused a)"
    using ask_each_spec [OF assms, of ask a] by (auto simp: ask_tools_once_def intro!: filter_cong)
  show "same_but_tools a (ask_tools_once ask a)"
    using ask_each_spec [OF assms] by (simp add: ask_tools_once_def)
qed

text \<open>What happens to an engine: a request is refused for its tools, the backend is asked again, the account's
  list is read again.\<close>

inductive tools_step :: "adapter \<Rightarrow> adapter \<Rightarrow> bool" where
  refused: "resolve_model a asked = Inr t \<Longrightarrow> tools_step a (learn_tools_refused a t words)"
| asked_again: "tools_step a (ask_tools_once ask a)"
| relisted: "account a = Some old \<Longrightarrow> tools_step a (a\<lparr>account := Some new\<rparr>)"

text \<open>Each model is off once; a driver of one model says it takes tools exactly while nothing is off and its
  endpoint serves the model with them.\<close>

definition tools_known :: "adapter \<Rightarrow> bool" where
  "tools_known a \<longleftrightarrow>
     distinct (map fst (tools_refused a)) \<and>
     (account a = None \<longrightarrow> tools_assumed a = (tool_calling_assumed a \<and> tools_refused a = [])) \<and>
     (account a = None \<longrightarrow> (\<forall>e \<in> set (tools_refused a).
        fst e = (case public_id a of None \<Rightarrow> [] | Some i \<Rightarrow> i) \<and> refused_upstream (snd e) = upstream_id a))"

lemma single_target:
  "account a = None \<Longrightarrow> resolve_model a asked = Inr t \<Longrightarrow>
    target_id t = (case public_id a of None \<Rightarrow> [] | Some i \<Rightarrow> i) \<and> upstream t = upstream_id a \<and> entry t = None"
  by (auto simp: resolve_model_def and_then_eq_Inr)

lemma learned_known:
  assumes "tools_known a" and "resolve_model a asked = Inr t"
  shows "tools_known (learn_tools_refused a t words)"
proof (cases "map_of (tools_refused a) (target_id t)")
  case None
  then have "target_id t \<notin> fst ` set (tools_refused a)" by (simp add: map_of_eq_None_iff)
  then show ?thesis using assms(1) None single_target [OF _ assms(2)] resolve_entry [OF assms(2)]
    by (auto simp: tools_known_def learn_tools_refused_def tool_calling_assumed_def chat_tools_unavailable_def)
next
  case (Some off)
  then show ?thesis using assms(1) by (simp add: learn_tools_refused_def)
qed

lemma forgotten_known:
  assumes "tools_known a" and "account a \<noteq> None"
  shows "tools_known (forget_refusal i a)"
  using assms by (auto simp: tools_known_def forget_refusal_def intro: distinct_map_filter)

lemma cleared_known:
  assumes "tools_known a"
  shows "tools_known (clear_tools_refused a i)"
proof (cases "account a")
  case None
  have one: "filter (\<lambda>e. fst e \<noteq> i) (tools_refused a) = []" if "map_of (tools_refused a) i \<noteq> None"
    using assms None that by (auto simp: tools_known_def filter_empty_conv dest: map_of_SomeD)
  show ?thesis
    using assms None one
    by (auto simp: tools_known_def clear_tools_refused_def forget_refusal_def Let_def tool_calling_assumed_def
        chat_tools_unavailable_def intro: distinct_map_filter)
next
  case (Some acc)
  then show ?thesis using assms forgotten_known [of a i] by (simp add: clear_tools_refused_def Let_def)
qed

lemma asked_known: "tools_known a \<Longrightarrow> tools_known (ask_each ask es a)"
  by (induction ask es a rule: ask_each.induct) (simp_all add: forgotten_known cleared_known)

interpretation tl: step_system tools_step tools_known
proof
  have "tools_step a b \<Longrightarrow> tools_known a \<Longrightarrow> tools_known b" for a b
  proof (induction rule: tools_step.induct)
    case (relisted a old new)
    then show ?case by (simp add: tools_known_def)
  qed (simp_all add: learned_known asked_known ask_tools_once_def)
  then show "tools_known a \<Longrightarrow> tools_step a b \<Longrightarrow> tools_known b" for a b by blast
qed

text \<open>Asking on: what is still off after some rounds, and that the asker has ended when nothing is.\<close>

lemma ask_tools_again_spec:
  "distinct (map fst (tools_refused a)) \<Longrightarrow> ask_tools_again asks a = (b, ended) \<Longrightarrow>
    tools_refused b = filter (\<lambda>e. \<forall>ask \<in> set asks. stays_off ask a e) (tools_refused a) \<and>
    (ended \<longleftrightarrow> tools_refused b = []) \<and> same_but_tools a b"
proof (induction asks a rule: ask_tools_again.induct)
  case (2 ask asks a)
  show ?case
  proof (cases "tools_refused a = []")
    case False
    let ?c = "ask_tools_once ask a"
    have c: "tools_refused ?c = filter (stays_off ask a) (tools_refused a)" "same_but_tools a ?c"
      using ask_once_spec [OF "2.prems"(1)] by blast+
    have "stays_off ask' ?c e = stays_off ask' a e" for ask' e
      using same_but_toolsD(1) [OF c(2)] by (simp add: stays_off_def)
    moreover have "distinct (map fst (tools_refused ?c))" using "2.prems"(1) c(1) by (simp add: distinct_map_filter)
    ultimately show ?thesis using "2.IH" [OF False] "2.prems"(2) False c same_but_tools_trans
      by (auto simp: conj_commute)
  qed (use "2.prems"(2) in auto)
qed auto

lemma asked_again_known: "tools_known a \<Longrightarrow> ask_tools_again asks a = (b, ended) \<Longrightarrow> tools_known b"
  by (induction asks a rule: ask_tools_again.induct)
    (auto simp: ask_tools_once_def asked_known split: if_splits)

definition new_adapter :: "adapter \<Rightarrow> bool" where
  "new_adapter a \<longleftrightarrow> tools_refused a = [] \<and> tools_assumed a = tool_calling_assumed a"

text \<open>C23. A backend's refusal of tools does not outlive its cause. In every state an engine gets into, a driver
  of one model reports tools exactly while no refusal stands and its endpoint serves the model with
  them; the driver goes on asking as long as a refusal stands; and once every model whose tools are
  off has been answered in some round, or is no longer served, the asker has ended, nothing is off
  any more, and a driver of one model reports tools as when it started.\<close>

theorem refusals_end:
  assumes "new_adapter a0" and "reaches tools_step a0 a" and "ask_tools_again asks a = (b, ended)"
  shows "(account a = None \<longrightarrow> tools_assumed a = (tool_calling_assumed a \<and> tools_refused a = [])) \<and>
    (ended \<longleftrightarrow> tools_refused b = []) \<and>
    ((\<forall>(i, off) \<in> set (tools_refused a).
        \<exists>ask \<in> set asks. unserved a i \<or> ask (refused_upstream off) = Some True) \<longrightarrow>
     ended \<and> (account b = None \<longrightarrow> tools_assumed b = tool_calling_assumed b))"
proof -
  have "tools_known a0" using assms(1) by (auto simp: new_adapter_def tools_known_def)
  then have k: "tools_known a" using tl.reaches_inv [OF assms(2)] by blast
  have r: "tools_refused b = filter (\<lambda>e. \<forall>ask \<in> set asks. stays_off ask a e) (tools_refused a)"
    "ended \<longleftrightarrow> tools_refused b = []" "same_but_tools a b"
    using ask_tools_again_spec [OF _ assms(3)] k unfolding tools_known_def by blast+
  have a1: "account a = None \<longrightarrow> tools_assumed a = (tool_calling_assumed a \<and> tools_refused a = [])"
    using k by (simp add: tools_known_def)
  have b1: "account b = None \<longrightarrow> tools_assumed b = (tool_calling_assumed b \<and> tools_refused b = [])"
    using asked_again_known [OF k assms(3)] by (simp add: tools_known_def)
  have "tools_refused b = []"
    if "\<forall>(i, off) \<in> set (tools_refused a). \<exists>ask \<in> set asks. unserved a i \<or> ask (refused_upstream off) = Some True"
    using that unfolding r(1) filter_empty_conv stays_off_def by fastforce
  then show ?thesis using a1 b1 r(2) by simp
qed

definition demo_single :: adapter where
  "demo_single = demo_account\<lparr>wire := the (map_of DIALECTS ''compatible''), public_id := Some ''q'',
     upstream_id := ''q.gguf'', account := None\<rparr>"

definition demo_refused :: adapter where
  "demo_refused = learn_tools_refused demo_single
     \<lparr>target_id = ''q'', upstream = ''q.gguf'', temperature_fixed = False, entry = None\<rparr> ''tools param requires --jinja flag''"

theorem refusals_end_witness:
  "\<not> tools_assumed demo_refused \<and>
   snd (ask_tools_again [\<lambda>_. None, \<lambda>u. Some (u = ''q.gguf'')] demo_refused)"
proof -
  have "resolve_model demo_single None = Inr \<lparr>target_id = ''q'', upstream = ''q.gguf'', temperature_fixed = False, entry = None\<rparr>"
    by code_simp
  then have run: "reaches tools_step demo_single demo_refused"
    unfolding demo_refused_def by (blast intro: reaches.intros tools_step.refused)
  have new: "new_adapter demo_single" unfolding new_adapter_def by (intro conjI) code_simp+
  have off: "tools_refused demo_refused = [(''q'', \<lparr>refused_words = ''tools param requires --jinja flag'', refused_upstream = ''q.gguf''\<rparr>)]"
    "account demo_refused = None" "tools_assumed demo_refused = False"
    by (simp_all add: demo_refused_def demo_single_def demo_account_def learn_tools_refused_def)
  obtain b ended where r: "ask_tools_again [\<lambda>_. None, \<lambda>u. Some (u = ''q.gguf'')] demo_refused = (b, ended)" by force
  have "ended" using refusals_end [OF new run r] unfolding off by auto
  then show ?thesis using r off(3) by simp
qed

end
