(* ===== verification/Media_Out.thy ===== *)
theory Media_Out
  imports Openai_Wire Py_Bytes
begin

text \<open>
  What a model makes beside text, and what the answer means: images (\<open>images_out.py\<close>), videos
  (\<open>videos_out.py\<close>), speech (\<open>speech.py\<close>) and transcription (\<open>transcription.py\<close>). A listing is read into
  the capabilities of a model, an answer into a response. \<open>float\<close> of a value and the division of a float
  by a hundred are parameters.
\<close>

subsection \<open>Reading values\<close>

datatype fault = Refused string | ValueFault string | ValidationFault | OverflowFault

text \<open>An \<open>int\<close>, which a \<open>bool\<close> is too.\<close>

definition int_of :: "json \<Rightarrow> int option" where
  "int_of v = (case v of JInt i \<Rightarrow> Some i | JBool b \<Rightarrow> Some (if b then 1 else 0) | _ \<Rightarrow> None)"

definition strings_in :: "json list \<Rightarrow> string list" where
  "strings_in vs = List.map_filter (\<lambda>v. case v of JStr s \<Rightarrow> Some s | _ \<Rightarrow> None) vs"

definition text_at :: "dict \<Rightarrow> string \<Rightarrow> string option" where
  "text_at d key = (case dget d key of JStr (c # cs) \<Rightarrow> Some (c # cs) | _ \<Rightarrow> None)"

text \<open>\<open>float(v)\<close> where only a \<open>TypeError\<close> or a \<open>ValueError\<close> is expected.\<close>

definition float_at :: "outside \<Rightarrow> json \<Rightarrow> fault + pyfloat option" where
  "float_at ou v =
     (case v of
        JInt i \<Rightarrow> if int_overflows i then Inl OverflowFault else Inr (float_of ou v)
      | _ \<Rightarrow> Inr (float_of ou v))"

text \<open>A number that is no \<open>bool\<close>.\<close>

definition is_number :: "json \<Rightarrow> bool" where
  "is_number v = (case v of JInt _ \<Rightarrow> True | JFloat _ \<Rightarrow> True | _ \<Rightarrow> False)"

text \<open>\<open>float(cost)\<close> of a cost that is a number.\<close>

definition cost_of :: "outside \<Rightarrow> json \<Rightarrow> fault + pyfloat option" where
  "cost_of ou v = (if is_number v then float_at ou v else Inr None)"

definition whole_of :: "json \<Rightarrow> int option" where
  "whole_of v = (case v of JInt i \<Rightarrow> Some i | _ \<Rightarrow> None)"

subsection \<open>Images: the bytes\<close>

definition begins :: "bytes \<Rightarrow> bytes \<Rightarrow> bool" where
  "begins p raw \<longleftrightarrow> take (length p) raw = p"

definition has_bytes :: "bytes \<Rightarrow> bytes \<Rightarrow> bool" where
  "has_bytes p raw \<longleftrightarrow> list_ex (\<lambda>i. begins p (drop i raw)) [0..<Suc (length raw)]"

text \<open>\<open>bytes.lstrip()\<close> removes ASCII white space.\<close>

definition bytes_lstrip :: "bytes \<Rightarrow> bytes" where
  "bytes_lstrip raw = dropWhile (\<lambda>b. b \<in> {9, 10, 11, 12, 13, 32}) raw"

definition sniff :: "bytes \<Rightarrow> string option" where
  "sniff raw =
     (if begins (0x89 # ascii ''PNG'' @ [13, 10, 26, 10]) raw then Some ''image/png''
      else if begins [0xff, 0xd8, 0xff] raw then Some ''image/jpeg''
      else if take 4 raw = ascii ''RIFF'' \<and> take 4 (drop 8 raw) = ascii ''WEBP'' then Some ''image/webp''
      else if begins (ascii ''GIF87a'') raw \<or> begins (ascii ''GIF89a'') raw then Some ''image/gif''
      else let head = bytes_lstrip (take 512 raw)
           in if begins (ascii ''<svg'') head \<or>
                 begins (ascii ''<?xml'') head \<and> has_bytes (ascii ''<svg'') (take 4096 raw)
              then Some ''image/svg+xml'' else None)"

definition format_name :: "string \<Rightarrow> string" where
  "format_name media =
     (let sub = (case partition_at ''/'' media of Some (_, b) \<Rightarrow> b | None \<Rightarrow> media)
      in case partition_at ''+'' sub of Some (a, _) \<Rightarrow> a | None \<Rightarrow> sub)"

definition MAX_UPLOAD_BYTES :: nat where "MAX_UPLOAD_BYTES = 25 * 1024 * 1024"

text \<open>One reference image or mask of a request.\<close>

definition decode_upload :: "string \<Rightarrow> string \<Rightarrow> fault + bytes" where
  "decode_upload b64 what =
     (case b64decode b64 of
        None \<Rightarrow> Inl (Refused (what @ '': must be base64 with no data: prefix.''))
      | Some raw \<Rightarrow>
          if sniff raw \<in> set (map Some [''image/png'', ''image/jpeg'', ''image/webp'', ''image/gif'']) then Inr raw
          else Inl (Refused (what @ '': is not a PNG, JPEG, WebP or GIF image.'')))"

subsection \<open>Images: what a model takes\<close>

record image_caps =
  img_streaming :: bool
  max_images :: "int option"
  min_references :: "int option"
  max_references :: "int option"
  takes_mask :: bool
  qualities :: "string list option"
  backgrounds :: "string list option"
  output_formats :: "string list option"

definition enum_of :: "dict \<Rightarrow> string \<Rightarrow> string list option" where
  "enum_of params key =
     (case dget params key of
        JObj d \<Rightarrow> (case dget d ''values'' of JList vs \<Rightarrow> Some (strings_in vs) | _ \<Rightarrow> None)
      | _ \<Rightarrow> None)"

definition range_of :: "dict \<Rightarrow> string \<Rightarrow> (int \<times> int) option" where
  "range_of params key =
     (case dget params key of
        JObj d \<Rightarrow> (case (int_of (dget d ''min''), int_of (dget d ''max'')) of
            (Some l, Some h) \<Rightarrow> Some (l, h) | _ \<Rightarrow> None)
      | _ \<Rightarrow> None)"

text \<open>The generated class wants at least one image and no negative count of references.\<close>

definition openrouter_image_caps :: "dict \<Rightarrow> fault + image_caps" where
  "openrouter_image_caps e =
     (let params = as_dict (dget e ''supported_parameters'');
          n = (case range_of params ''n'' of Some (_, h) \<Rightarrow> h | None \<Rightarrow> 1);
          (lo, hi) = (case range_of params ''input_references'' of Some r \<Rightarrow> r | None \<Rightarrow> (0, 0))
      in if n < 1 \<or> lo < 0 \<or> hi < 0 then Inl ValidationFault
         else Inr \<lparr>img_streaming = (dget e ''supports_streaming'' = JBool True), max_images = Some n,
           min_references = Some lo, max_references = Some hi, takes_mask = False,
           qualities = Some (case enum_of params ''quality'' of Some q \<Rightarrow> q | None \<Rightarrow> []),
           backgrounds = Some (case enum_of params ''background'' of Some b \<Rightarrow> b | None \<Rightarrow> []),
           output_formats = enum_of params ''output_format''\<rparr>)"

definition openai_image_caps :: "string \<Rightarrow> image_caps" where
  "openai_image_caps model_id =
     \<lparr>img_streaming = (\<not> starts_with ''dall-e-'' (lower model_id)), max_images = None, min_references = None,
      max_references = None, takes_mask = True, qualities = None, backgrounds = None, output_formats = None\<rparr>"

subsection \<open>Images: what an answer means\<close>

record generated_image =
  image_data :: string
  media_type :: string
  revised_prompt :: "string option"

definition image_from :: "json \<Rightarrow> json \<Rightarrow> fault + generated_image" where
  "image_from b64 revised =
     (case b64 of
        JStr (c # cs) \<Rightarrow>
          (case b64decode (take 4096 (c # cs)) of
             None \<Rightarrow> Inl (ValueFault ''an image in the answer was not base64'')
           | Some raw \<Rightarrow>
               (case sniff raw of
                  None \<Rightarrow> Inl (ValueFault ''an image in the answer was not PNG, JPEG, WebP, GIF or SVG'')
                | Some media \<Rightarrow>
                    Inr \<lparr>image_data = c # cs, media_type = media,
                      revised_prompt = (case revised of JStr (r # rs) \<Rightarrow> Some (r # rs) | _ \<Rightarrow> None)\<rparr>))
      | _ \<Rightarrow> Inl (ValueFault ''an image in the answer had no b64_json''))"

record image_usage =
  u_input :: "int option"
  u_output :: "int option"
  u_total :: "int option"
  u_cost :: "pyfloat option"

text \<open>The first of the keys that holds a whole number.\<close>

fun whole_at :: "dict \<Rightarrow> string list \<Rightarrow> int option" where
  "whole_at d [] = None"
| "whole_at d (k # ks) = (case whole_of (dget d k) of Some i \<Rightarrow> Some i | None \<Rightarrow> whole_at d ks)"

definition image_usage_from :: "outside \<Rightarrow> dict \<Rightarrow> fault + image_usage option" where
  "image_usage_from ou d =
     (case dget d ''usage'' of
        JObj u \<Rightarrow>
          and_then (cost_of ou (dget u ''cost'')) (\<lambda>cost.
            let found = \<lparr>u_input = whole_at u [''input_tokens'', ''prompt_tokens''],
                  u_output = whole_at u [''output_tokens'', ''completion_tokens''],
                  u_total = whole_at u [''total_tokens''], u_cost = cost\<rparr>
            in Inr (if found = \<lparr>u_input = None, u_output = None, u_total = None, u_cost = None\<rparr> then None else Some found))
      | _ \<Rightarrow> Inr None)"

record image_response =
  images :: "generated_image list"
  created :: "int option"
  img_size :: "string option"
  img_quality :: "string option"
  img_background :: "string option"
  img_usage :: "image_usage option"

definition positive :: "json \<Rightarrow> int option" where
  "positive v = (case int_of v of Some i \<Rightarrow> if 0 < i then Some i else None | None \<Rightarrow> None)"

definition image_answer :: "outside \<Rightarrow> generated_image list \<Rightarrow> json \<Rightarrow> dict \<Rightarrow> fault + image_response" where
  "image_answer ou imgs made d =
     and_then (image_usage_from ou d) (\<lambda>u.
       Inr \<lparr>images = imgs, created = positive made, img_size = text_at d ''size'', img_quality = text_at d ''quality'',
            img_background = text_at d ''background'', img_usage = u\<rparr>)"

definition dicts_in :: "json list \<Rightarrow> dict list" where
  "dicts_in vs = List.map_filter (\<lambda>v. case v of JObj d \<Rightarrow> Some d | _ \<Rightarrow> None) vs"

definition image_of_item :: "dict \<Rightarrow> fault + generated_image" where
  "image_of_item d = image_from (dget d ''b64_json'') (dget d ''revised_prompt'')"

definition image_response_from :: "outside \<Rightarrow> json \<Rightarrow> fault + image_response" where
  "image_response_from ou body =
     (case body of
        JObj d \<Rightarrow>
          (case dget d ''data'' of
             JList (v # vs) \<Rightarrow>
               and_then (collect image_of_item (dicts_in (v # vs))) (\<lambda>imgs.
                 if imgs = [] then Inl (ValueFault ''the image answer had no images'')
                 else image_answer ou imgs (dget d ''created'') d)
           | _ \<Rightarrow> Inl (ValueFault ''the image answer had no `data`''))
      | _ \<Rightarrow> Inl (ValueFault ''the image answer had no `data`''))"

datatype image_event = PartialImage | CompletedImage

definition event_kind :: "json \<Rightarrow> image_event option" where
  "event_kind e =
     (case dget (as_dict e) ''type'' of
        JStr k \<Rightarrow>
          if ends_with ''.partial_image'' k then Some PartialImage
          else if ends_with ''.completed'' k then Some CompletedImage
          else None
      | _ \<Rightarrow> None)"

definition partial_from :: "dict \<Rightarrow> int \<Rightarrow> fault + generated_image \<times> int" where
  "partial_from e fallback =
     and_then (image_from (dget e ''b64_json'') JNull) (\<lambda>img.
       Inr (img, case int_of (dget e ''partial_image_index'') of
                   Some i \<Rightarrow> if 0 \<le> i then i else fallback | None \<Rightarrow> fallback))"

definition completed_from :: "outside \<Rightarrow> dict list \<Rightarrow> fault + image_response" where
  "completed_from ou events =
     (if events = [] then Inl (ValueFault ''the image stream ended with no completed image'')
      else let final = last events;
               made = (case map_of final ''created_at'' of Some v \<Rightarrow> v | None \<Rightarrow> dget final ''created'')
           in and_then (collect image_of_item events) (\<lambda>imgs. image_answer ou imgs made final))"

subsection \<open>Videos: prices\<close>

text \<open>\<open>sizes\<close> is the list of the model, \<open>usd\<close> dollars.\<close>

datatype price_unit = PerSecond | PerInputImage | PerMinimum

record video_price =
  sku :: string
  per :: price_unit
  usd :: pyfloat
  resolution :: "string option"
  price_sizes :: "string list option"
  price_audio :: "bool option"
  price_first_frame :: "bool option"

record video_caps =
  durations :: "int list option"
  sizes :: "string list option"
  first_frame :: bool
  prices :: "video_price list option"

text \<open>What follows a prefix, \<open>None\<close> without it.\<close>

definition after :: "string \<Rightarrow> string \<Rightarrow> string option" where
  "after p s = (if starts_with p s then Some (drop (length p) s) else None)"

text \<open>\<open>(?:_(?P<res>\d+p|[24]k))?\<close> to the end: \<open>Some None\<close> when it is not there.\<close>

definition is_resolution :: "string \<Rightarrow> bool" where
  "is_resolution r \<longleftrightarrow>
     r \<in> {''2k'', ''4k''} \<or> (length r > 1 \<and> last r = CHR ''p'' \<and> list_all is_digit (butlast r))"

definition resolution_suffix :: "string \<Rightarrow> string option option" where
  "resolution_suffix s =
     (if s = [] then Some None
      else case after ''_'' s of
        Some r \<Rightarrow> if is_resolution r then Some (Some r) else None
      | None \<Rightarrow> None)"

text \<open>\<open>_CENTS_SECOND.fullmatch\<close>, and its group.\<close>

definition cents_second :: "string \<Rightarrow> string option option" where
  "cents_second s =
     Option.bind (after ''cents_per_'' s) (\<lambda>r.
       case after ''video_output_second'' r of
         Some t \<Rightarrow> resolution_suffix t
       | None \<Rightarrow> Option.bind (after ''second_output'' r) resolution_suffix)"

text \<open>\<open>_DOLLARS_SECOND.fullmatch\<close>: the mode, the audio and the resolution.\<close>

definition option_prefix :: "(string \<times> 'a) list \<Rightarrow> string \<Rightarrow> 'a option \<times> string" where
  "option_prefix ps s =
     (case List.find (\<lambda>(p, _). starts_with p s) ps of
        Some (p, v) \<Rightarrow> (Some v, drop (length p) s) | None \<Rightarrow> (None, s))"

definition dollars_second :: "string \<Rightarrow> (bool option \<times> bool option \<times> string option) option" where
  "dollars_second s =
     (let (from_image, r) = option_prefix [(''text_to_video_'', False), (''image_to_video_'', True)] s
      in Option.bind (after ''duration_seconds'' r) (\<lambda>r.
         let (with_audio, r) = option_prefix [(''_with_audio'', True), (''_without_audio'', False)] r
         in map_option (\<lambda>res. (from_image, with_audio, res)) (resolution_suffix r)))"

definition upper_resolution :: "string option \<Rightarrow> string option" where
  "upper_resolution raw =
     map_option (\<lambda>r. if ends_with ''k'' r then butlast r @ ''K'' else r) raw"

definition digits_value :: "string \<Rightarrow> nat" where
  "digits_value ds = foldl (\<lambda>n c. 10 * n + (of_char c - 48)) 0 ds"

text \<open>\<open>isdigit\<close> takes the superscripts too, which \<open>int\<close> does not.\<close>

definition is_digits :: "string \<Rightarrow> bool" where
  "is_digits s \<longleftrightarrow> s \<noteq> [] \<and> list_all (\<lambda>c. is_digit c \<or> of_char c \<in> {178 :: nat, 179, 185}) s"

definition to_nat :: "string \<Rightarrow> fault + nat" where
  "to_nat s = (if list_all is_digit s then Inr (digits_value s) else Inl (ValueFault ''invalid literal for int()''))"

text \<open>Whether a size's shorter side is the height.\<close>

definition has_height :: "nat \<Rightarrow> string \<Rightarrow> fault + bool" where
  "has_height height sz =
     (let (w, h) = (case partition_at ''x'' sz of Some wh \<Rightarrow> wh | None \<Rightarrow> (sz, []))
      in if is_digits w \<and> is_digits h
         then and_then (to_nat w) (\<lambda>m. and_then (to_nat h) (\<lambda>n. Inr (min m n = height)))
         else Inr False)"

definition height_of :: "string \<Rightarrow> nat" where
  "height_of r = (if r = ''2K'' then 1440 else if r = ''4K'' then 2160 else digits_value (butlast r))"

definition sizes_of :: "string \<Rightarrow> string list option \<Rightarrow> fault + string list option" where
  "sizes_of r listed =
     (case listed of
        None \<Rightarrow> Inr None
      | Some ss \<Rightarrow>
          and_then (collect (\<lambda>s. and_then (has_height (height_of r) s) (\<lambda>b. Inr (s, b))) ss) (\<lambda>marked.
            Inr (Some (map fst (filter snd marked)))))"

text \<open>\<open>hundredth\<close> is the division by a hundred.\<close>

definition usd_of :: "outside \<Rightarrow> (pyfloat \<Rightarrow> pyfloat) \<Rightarrow> json \<Rightarrow> bool \<Rightarrow> fault + pyfloat option" where
  "usd_of ou hundredth raw cents =
     and_then (float_at ou raw) (\<lambda>v.
       Inr (case v of
              None \<Rightarrow> None
            | Some x \<Rightarrow>
                if (case x of Finite q \<Rightarrow> q < 0 | NegInf \<Rightarrow> True | NaN \<Rightarrow> True | PosInf \<Rightarrow> False) then None
                else Some (if cents then hundredth x else x)))"

text \<open>What a line's name says: its unit, whether in cents, and what it is for.\<close>

definition sku_line :: "string \<Rightarrow> (price_unit \<times> bool \<times> bool option \<times> bool option \<times> string option) option" where
  "sku_line s =
     (case cents_second s of
        Some res \<Rightarrow> Some (PerSecond, True, None, None, res)
      | None \<Rightarrow>
          (case dollars_second s of
             Some (from_image, with_audio, res) \<Rightarrow> Some (PerSecond, False, from_image, with_audio, res)
           | None \<Rightarrow>
               if s = ''cents_per_image_input'' then Some (PerInputImage, True, None, None, None)
               else if s = ''minimum_cents_per_generation'' then Some (PerMinimum, True, None, None, None)
               else None))"

definition price_line ::
  "outside \<Rightarrow> (pyfloat \<Rightarrow> pyfloat) \<Rightarrow> string list option \<Rightarrow> string \<times> json \<Rightarrow> fault + video_price list"
where
  "price_line ou hundredth listed = (\<lambda>(s, raw).
     case sku_line s of
       None \<Rightarrow> Inr []
     | Some (unit, cents, from_image, with_audio, res) \<Rightarrow>
         and_then (usd_of ou hundredth raw cents) (\<lambda>v.
           case v of
             None \<Rightarrow> Inr []
           | Some x \<Rightarrow>
               (case upper_resolution res of
                  None \<Rightarrow> Inr [\<lparr>sku = s, per = unit, usd = x, resolution = None, price_sizes = None,
                    price_audio = with_audio, price_first_frame = from_image\<rparr>]
                | Some r \<Rightarrow>
                    and_then (sizes_of r listed) (\<lambda>ss.
                      Inr [\<lparr>sku = s, per = unit, usd = x, resolution = Some r, price_sizes = ss,
                        price_audio = with_audio, price_first_frame = from_image\<rparr>]))))"

definition openrouter_prices ::
  "outside \<Rightarrow> (pyfloat \<Rightarrow> pyfloat) \<Rightarrow> json \<Rightarrow> string list option \<Rightarrow> fault + video_price list option"
where
  "openrouter_prices ou hundredth skus listed =
     (case skus of
        JObj d \<Rightarrow>
          and_then (collect (price_line ou hundredth listed) d) (\<lambda>lines.
            Inr (if list_ex (\<lambda>l. per l = PerSecond) (concat lines) then Some (concat lines) else None))
      | _ \<Rightarrow> Inr None)"

definition openrouter_video_caps :: "outside \<Rightarrow> (pyfloat \<Rightarrow> pyfloat) \<Rightarrow> dict \<Rightarrow> fault + video_caps" where
  "openrouter_video_caps ou hundredth e =
     (let listed = (case dget e ''supported_sizes'' of JList vs \<Rightarrow> Some (strings_in vs) | _ \<Rightarrow> None)
      in and_then (openrouter_prices ou hundredth (dget e ''pricing_skus'') listed) (\<lambda>ps.
           Inr \<lparr>durations = (case dget e ''supported_durations'' of
                    JList vs \<Rightarrow> Some (List.map_filter int_of vs) | _ \<Rightarrow> None),
                sizes = listed,
                first_frame = (case dget e ''supported_frame_images'' of
                    JList vs \<Rightarrow> JStr ''first_frame'' \<in> set vs | _ \<Rightarrow> False),
                prices = ps\<rparr>))"

subsection \<open>Videos: a job\<close>

datatype job_status = Queued | InProgress | Completed | Failed

definition STATUSES :: "(string \<times> job_status) list" where
  "STATUSES = [(''pending'', Queued), (''queued'', Queued), (''in_progress'', InProgress), (''processing'', InProgress),
     (''completed'', Completed), (''failed'', Failed), (''cancelled'', Failed), (''expired'', Failed)]"

record video_job =
  job_id :: string
  job_status :: job_status
  job_progress :: "int option"
  job_error :: "string option"
  job_cost :: "pyfloat option"
  job_model :: "string option"

text \<open>\<open>shown\<close> is \<open>repr\<close>.\<close>

definition job_from :: "outside \<Rightarrow> (json \<Rightarrow> string) \<Rightarrow> json \<Rightarrow> string option \<Rightarrow> fault + video_job" where
  "job_from ou shown body model_id =
     (let d = as_dict body; raw = dget d ''status''
      in case dget d ''id'' of
           JStr i \<Rightarrow>
             (case (case raw of JStr s \<Rightarrow> map_of STATUSES s | _ \<Rightarrow> None) of
                None \<Rightarrow> Inl (ValueFault (''the video job's status '' @ shown raw @ '' is not one this driver knows''))
              | Some st \<Rightarrow>
                  and_then (cost_of ou (dget (as_dict (dget d ''usage'')) ''cost'')) (\<lambda>cost.
                    Inr \<lparr>job_id = i, job_status = st,
                      job_progress = (case int_of (dget d ''progress'') of
                          Some n \<Rightarrow> if 0 \<le> n \<and> n \<le> 100 then Some n else None | None \<Rightarrow> None),
                      job_error = (case dget d ''error'' of
                          JObj err \<Rightarrow> text_at err ''message''
                        | v \<Rightarrow> text_at [(''error'', v)] ''error''),
                      job_cost = cost, job_model = model_id\<rparr>))
         | _ \<Rightarrow> Inl (ValueFault ''the video job had no `id`''))"

subsection \<open>Speech\<close>

datatype speech_format = SMp3 | SOpus | SAac | SFlac | SWav | SPcm

definition ALL_FORMATS :: "speech_format list" where
  "ALL_FORMATS = [SMp3, SOpus, SAac, SFlac, SWav, SPcm]"
definition OPENROUTER_FORMATS :: "speech_format list" where "OPENROUTER_FORMATS = [SMp3, SPcm, SWav]"
definition ELEVENLABS_FORMATS :: "speech_format list" where "ELEVENLABS_FORMATS = [SMp3, SOpus, SPcm, SWav]"

definition speech_name :: "speech_format \<Rightarrow> string" where
  "speech_name f = (case f of SMp3 \<Rightarrow> ''mp3'' | SOpus \<Rightarrow> ''opus'' | SAac \<Rightarrow> ''aac'' | SFlac \<Rightarrow> ''flac''
     | SWav \<Rightarrow> ''wav'' | SPcm \<Rightarrow> ''pcm'')"

definition MEDIA_TYPES :: "speech_format \<Rightarrow> string" where
  "MEDIA_TYPES f = (case f of SMp3 \<Rightarrow> ''audio/mpeg'' | SOpus \<Rightarrow> ''audio/ogg'' | SAac \<Rightarrow> ''audio/aac''
     | SFlac \<Rightarrow> ''audio/flac'' | SWav \<Rightarrow> ''audio/wav'' | SPcm \<Rightarrow> ''audio/pcm'')"

definition OPENAI_TTS_1_VOICES :: "string list" where
  "OPENAI_TTS_1_VOICES =
     [''alloy'', ''ash'', ''coral'', ''echo'', ''fable'', ''nova'', ''onyx'', ''sage'', ''shimmer'']"
definition OPENAI_GPT_TTS_VOICES :: "string list" where
  "OPENAI_GPT_TTS_VOICES =
     [''alloy'', ''ash'', ''ballad'', ''cedar'', ''coral'', ''echo'', ''fable'', ''marin'', ''nova'', ''onyx'',
      ''sage'', ''shimmer'', ''verse'']"

definition openai_voices :: "string \<Rightarrow> string list option" where
  "openai_voices model_id =
     (if starts_with ''tts-1'' (lower model_id) then Some OPENAI_TTS_1_VOICES
      else if starts_with ''gpt-4o-mini-tts'' (lower model_id) then Some OPENAI_GPT_TTS_VOICES else None)"

definition PCM_RATE :: nat where "PCM_RATE = 24000"
definition UNKNOWN_SIZE :: nat where "UNKNOWN_SIZE = 0xFFFFFFFF"

definition streaming_wav_header :: bytes where
  "streaming_wav_header =
     (let I = (\<lambda>n. the (pack_I n)); H = (\<lambda>n. the (pack_H n))
      in ascii ''RIFF'' @ I UNKNOWN_SIZE @ ascii ''WAVEfmt '' @
         I 16 @ H 1 @ H 1 @ I PCM_RATE @ I (PCM_RATE * 2) @ H 2 @ H 16 @ ascii ''data'' @ I UNKNOWN_SIZE)"

definition refuse_format :: "(string \<Rightarrow> string) \<Rightarrow> speech_format \<Rightarrow> speech_format list \<Rightarrow> fault + unit" where
  "refuse_format shown asked formats =
     require (asked \<in> set formats) (Refused (''format '' @ shown (speech_name asked) @
       '' is not one this model can be given in; it can be given in '' @ py_join '', '' (map speech_name formats)))"

subsection \<open>Transcription\<close>

text \<open>\<open>_ASR_PREAMBLE\<close>: the language is as short as the pattern allows, so it ends before the white space.\<close>

definition language_char :: "char \<Rightarrow> bool" where
  "language_char c \<longleftrightarrow> c \<in> {CHR '' '', CHR ''-''} \<or>
     (let n = (of_char c :: nat) in (65 \<le> n \<and> n \<le> 90) \<or> (97 \<le> n \<and> n \<le> 122))"

definition language_name :: "string \<Rightarrow> bool" where
  "language_name s \<longleftrightarrow>
     (case s of [] \<Rightarrow> False
      | c # cs \<Rightarrow> c \<notin> {CHR '' '', CHR ''-''} \<and> language_char c \<and> list_all language_char cs \<and> length cs \<le> 40)"

definition split_preamble :: "string \<Rightarrow> string option \<times> string" where
  "split_preamble text =
     (case after ''language'' (lstrip text) of
        None \<Rightarrow> (None, text)
      | Some r \<Rightarrow>
          let t = lstrip r; body = takeWhile (\<lambda>c. c \<noteq> CHR ''<'') t; name = rstrip body
          in case after ''<asr_text>'' (dropWhile (\<lambda>c. c \<noteq> CHR ''<'') t) of
               None \<Rightarrow> (None, text)
             | Some spoken \<Rightarrow>
                 if t \<noteq> r \<and> language_name name then (Some (lower (strip name)), strip spoken) else (None, text))"

record transcription_usage =
  t_seconds :: "json option"
  t_input :: "int option"
  t_output :: "int option"
  t_total :: "int option"

text \<open>\<open>int(value)\<close> of a number: an infinity and a NaN raise.\<close>

definition int_from :: "json \<Rightarrow> fault + int option" where
  "int_from v =
     (case v of
        JInt i \<Rightarrow> Inr (Some i)
      | JFloat (Finite x) \<Rightarrow> Inr (Some (py_trunc x))
      | JFloat NaN \<Rightarrow> Inl (ValueFault ''cannot convert float NaN to integer'')
      | JFloat _ \<Rightarrow> Inl OverflowFault
      | _ \<Rightarrow> Inr None)"

definition transcription_usage_from :: "dict \<Rightarrow> fault + transcription_usage option" where
  "transcription_usage_from d =
     (case dget d ''usage'' of
        JObj u \<Rightarrow>
          let pick = (\<lambda>a b. int_from (dget u (if map_of u a \<noteq> None then a else b)));
              sec = (if is_number (dget u ''seconds'') then Some (dget u ''seconds'') else None)
          in and_then (pick ''input_tokens'' ''prompt_tokens'') (\<lambda>i.
             and_then (pick ''output_tokens'' ''completion_tokens'') (\<lambda>out.
             and_then (int_from (dget u ''total_tokens'')) (\<lambda>total.
               Inr (if sec = None \<and> i = None \<and> out = None \<and> total = None then None
                    else Some \<lparr>t_seconds = sec, t_input = i, t_output = out, t_total = total\<rparr>))))
      | _ \<Rightarrow> Inr None)"

record transcription =
  t_text :: string
  t_language :: "string option"
  t_duration :: "json option"
  t_segments :: "json list option"
  t_words :: "json list option"
  t_usage :: "transcription_usage option"

definition list_at :: "dict \<Rightarrow> string \<Rightarrow> json list option" where
  "list_at d key = (case dget d key of JList vs \<Rightarrow> Some vs | _ \<Rightarrow> None)"

definition transcription_from :: "json \<Rightarrow> fault + transcription" where
  "transcription_from body =
     (let d = as_dict body
      in case dget d ''text'' of
           JStr s \<Rightarrow>
             and_then (transcription_usage_from d) (\<lambda>u.
               Inr \<lparr>t_text = snd (split_preamble s),
                 t_language = (case text_at d ''language'' of Some l \<Rightarrow> Some l | None \<Rightarrow> fst (split_preamble s)),
                 t_duration = (if is_number (dget d ''duration'') then Some (dget d ''duration'') else None),
                 t_segments = list_at d ''segments'', t_words = list_at d ''words'', t_usage = u\<rparr>)
         | _ \<Rightarrow> Inl (ValueFault ''the transcription answer had no `text`''))"

subsection \<open>What the answers hold\<close>

lemma image_from_sound:
  assumes "image_from b64 revised = Inr img"
  shows "b64 = JStr (image_data img) \<and> image_data img \<noteq> [] \<and>
    (\<exists>raw. b64decode (take 4096 (image_data img)) = Some raw \<and> sniff raw = Some (media_type img))"
proof (cases "\<exists>c cs. b64 = JStr (c # cs)")
  case True
  then obtain c cs where b: "b64 = JStr (c # cs)" by blast
  with assms obtain raw where raw: "b64decode (take 4096 (c # cs)) = Some raw"
    by (cases "b64decode (take 4096 (c # cs))") (auto simp: image_from_def simp del: take_Cons_numeral)
  with assms b obtain media where "sniff raw = Some media"
    by (cases "sniff raw") (auto simp: image_from_def simp del: take_Cons_numeral)
  with assms b raw show ?thesis by (auto simp: image_from_def simp del: take_Cons_numeral)
next
  case False
  with assms show ?thesis by (auto simp: image_from_def split: json.splits list.splits)
qed

text \<open>An answer with images is never empty and never mislabelled: the images are those of the backend's list, in
  its order, and each is handed on as the kind its own first bytes say, whatever the request asked for or the
  backend claimed.\<close>

lemma images_are_what_they_are:
  assumes "image_response_from ou body = Inr r"
  shows "images r \<noteq> [] \<and>
    (\<exists>vs. dget (as_dict body) ''data'' = JList vs \<and>
       map (\<lambda>d. dget d ''b64_json'') (dicts_in vs) = map (\<lambda>img. JStr (image_data img)) (images r)) \<and>
    (\<forall>img. img \<in> set (images r) \<longrightarrow>
       (\<exists>raw. b64decode (take 4096 (image_data img)) = Some raw \<and> sniff raw = Some (media_type img)))"
proof -
  from assms obtain d v vs where d: "body = JObj d" "dget d ''data'' = JList (v # vs)"
    by (auto simp: image_response_from_def split: json.splits list.splits)
  with assms obtain imgs where imgs: "collect image_of_item (dicts_in (v # vs)) = Inr imgs" "imgs \<noteq> []"
      "image_answer ou imgs (dget d ''created'') d = Inr r"
    by (auto simp: image_response_from_def and_then_eq_Inr split: if_splits)
  then have r: "images r = imgs" by (auto simp: image_answer_def and_then_eq_Inr)
  from imgs(1) have all: "list_all2 (\<lambda>e img. image_from (dget e ''b64_json'') (dget e ''revised_prompt'') = Inr img)
      (dicts_in (v # vs)) imgs"
    by (simp add: collect_eq_Inr image_of_item_def)
  then have "list_all2 (\<lambda>e img. dget e ''b64_json'' = JStr (image_data img)) (dicts_in (v # vs)) imgs"
    by (rule list_all2_mono) (use image_from_sound in blast)
  then have "map (\<lambda>d. dget d ''b64_json'') (dicts_in (v # vs)) = map (\<lambda>img. JStr (image_data img)) imgs"
    by (induction rule: list_all2_induct) simp_all
  moreover have "\<exists>raw. b64decode (take 4096 (image_data img)) = Some raw \<and> sniff raw = Some (media_type img)"
    if "img \<in> set imgs" for img
  proof -
    from that obtain i where "i < length imgs" "img = imgs ! i" by (auto simp: in_set_conv_nth)
    with list_all2_nthD2 [OF all] show ?thesis using image_from_sound by blast
  qed
  ultimately show ?thesis using d r imgs(2) by (auto simp: as_dict_def)
qed

text \<open>A picture of eight bytes.\<close>

definition tiny_png :: string where "tiny_png = ''iVBORw0KGgo=''"

lemma images_are_what_they_are_witness:
  "\<forall>ou. \<exists>r. image_response_from ou (JObj [(''data'', JList [JNull, JObj [(''b64_json'', JStr tiny_png)]])]) = Inr r \<and>
     map media_type (images r) = [''image/png''] \<and> images r \<noteq> []"
proof
  fix ou
  let ?r = "\<lparr>images = [\<lparr>image_data = tiny_png, media_type = ''image/png'', revised_prompt = None\<rparr>], created = None,
    img_size = None, img_quality = None, img_background = None, img_usage = None\<rparr>"
  have "image_response_from ou (JObj [(''data'', JList [JNull, JObj [(''b64_json'', JStr tiny_png)]])]) = Inr ?r"
    by code_simp
  then show "\<exists>r. image_response_from ou (JObj [(''data'', JList [JNull, JObj [(''b64_json'', JStr tiny_png)]])]) = Inr r \<and>
     map media_type (images r) = [''image/png''] \<and> images r \<noteq> []"
    using images_are_what_they_are by (intro exI [of _ ?r]) auto
qed

text \<open>A stream of sound in a WAV file: 44 bytes of header with the sizes unknown.\<close>

lemma streaming_wav_header_length: "length streaming_wav_header = 44"
  by (simp add: streaming_wav_header_def pack_I_def pack_H_def UNKNOWN_SIZE_def PCM_RATE_def Let_def ascii_def)

text \<open>What a transcription model prefixes is taken off exactly when it is the whole preamble.\<close>

lemma preamble_taken_off:
  assumes "language_name l" and "rstrip l = l" and "CHR ''<'' \<notin> set l" and "lstrip l = l"
  shows "split_preamble (''language '' @ l @ ''<asr_text>'' @ spoken) = (Some (lower l), strip spoken)"
proof -
  have space: "is_space (CHR '' '')" "\<not> is_space (CHR ''l'')" by code_simp+
  obtain c cs where l: "l = c # cs" using assms(1) by (cases l) (simp_all add: language_name_def)
  with assms(4) have "\<not> is_space c" by (simp add: lstrip_def dropWhile_eq_self_iff del: dropWhile.simps)
  then have "lstrip (CHR '' '' # l @ ''<asr_text>'' @ spoken) = l @ ''<asr_text>'' @ spoken"
    by (simp add: lstrip_def l space)
  moreover have "strip l = l" using assms(2,4) by (simp add: strip_def)
  ultimately show ?thesis
    using assms by (simp add: split_preamble_def Let_def after_def starts_with_def takeWhile_append dropWhile_append lstrip_def space)
qed

lemma plain_transcript_kept: "\<not> starts_with ''language'' (lstrip text) \<Longrightarrow> split_preamble text = (None, text)"
  by (simp add: split_preamble_def after_def)


end
