(* ===== verification/Catalogue.thy ===== *)
theory Catalogue
  imports Media_Out Openai_Settings Step_Systems "HOL-Library.List_Lexorder"
begin

text \<open>
  An account's model list (\<open>engines/_catalogue.py\<close>, and \<open>_fetch_catalogue\<close> of
  \<open>engines/openai_compat_http.py\<close>): the patterns of the operator, the listing of each provider read into
  models, the list as last read with its filters, its copy on disk, and when it is read again. Dates are
  numbers of days, moments are numbers; what \<open>date.fromisoformat\<close> reads is a parameter.
\<close>

subsection \<open>Patterns\<close>

text \<open>\<open>pattern.split("*")\<close>.\<close>

fun split_star :: "string \<Rightarrow> string list" where
  "split_star [] = [[]]"
| "split_star (c # cs) =
     (if c = CHR ''*'' then [] # split_star cs
      else case split_star cs of p # ps \<Rightarrow> (c # p) # ps | [] \<Rightarrow> [[c]])"

text \<open>\<open>re.fullmatch(".*".join(parts), value, DOTALL)\<close>, the parts quoted.\<close>

fun match_parts :: "string list \<Rightarrow> string \<Rightarrow> bool" where
  "match_parts [] v = (v = [])"
| "match_parts [p] v = (p = v)"
| "match_parts (p # q # ps) v =
     (starts_with p v \<and>
      list_ex (\<lambda>k. match_parts (q # ps) (drop k (drop (length p) v))) [0..<Suc (length v - length p)])"

definition matches :: "string \<Rightarrow> string \<Rightarrow> bool" where
  "matches pattern v =
     (if CHR ''*'' \<notin> set pattern then pattern = v else match_parts (split_star pattern) v)"

definition exposed_by :: "string list \<Rightarrow> string list \<Rightarrow> string \<Rightarrow> bool" where
  "exposed_by inc exc model_id \<longleftrightarrow>
     list_ex (\<lambda>p. matches p model_id) inc \<and> \<not> list_ex (\<lambda>p. matches p model_id) exc"

subsection \<open>Models\<close>

record capabilities =
  cap_settings :: "string list option"
  cap_not_honoured :: "gap list option"
  cap_streaming :: "bool option"
  cap_fim :: "bool option"
  cap_image_in :: "bool option"
  cap_audio_in :: "bool option"
  cap_file_in :: "bool option"
  cap_speech :: "speech_format list option"
  cap_audio_out :: "bool option"
  cap_tools :: "bool option"
  cap_context :: "int option"
  cap_image :: "image_caps option"
  cap_video :: "video_caps option"

definition no_caps :: capabilities where
  "no_caps = \<lparr>cap_settings = None, cap_not_honoured = None, cap_streaming = None, cap_fim = None, cap_image_in = None,
     cap_audio_in = None, cap_file_in = None, cap_speech = None, cap_audio_out = None, cap_tools = None,
     cap_context = None, cap_image = None, cap_video = None\<rparr>"

record driver_model =
  dm_id :: string
  dm_name :: "string option"
  dm_upstream :: "string option"
  dm_surfaces :: "string list"
  dm_inputs :: "string list option"
  dm_outputs :: "string list option"
  dm_voices :: "string list option"
  dm_caps :: "capabilities option"

definition bare_model :: "string \<Rightarrow> driver_model" where
  "bare_model i = \<lparr>dm_id = i, dm_name = None, dm_upstream = None, dm_surfaces = [], dm_inputs = None, dm_outputs = None,
     dm_voices = None, dm_caps = None\<rparr>"

record engine_defaults =
  default_settings :: "string list"
  default_tools :: bool
  default_streaming :: bool

text \<open>How a read fails: \<open>CatalogueError\<close>, an error of httpx, anything else.\<close>

datatype read_fault = ListFault string | HttpFault string | OtherFault string

text \<open>A row of a listing becomes a \<open>DriverModel\<close>, whose id must not be empty: else the whole read fails.\<close>

definition with_id :: "driver_model \<Rightarrow> read_fault + driver_model" where
  "with_id m = (if dm_id m = [] then Inl (OtherFault ''ValidationError'') else Inr m)"

definition unexpected :: "fault + 'a \<Rightarrow> read_fault + 'a" where
  "unexpected r = (case r of Inl _ \<Rightarrow> Inl (OtherFault ''ValueError'') | Inr v \<Rightarrow> Inr v)"

subsection \<open>OpenRouter's listing\<close>

definition OPENROUTER_SETTINGS :: "(string \<times> string) list" where
  "OPENROUTER_SETTINGS =
     [(''max_tokens'', ''maxTokens''), (''temperature'', ''temperature''), (''top_p'', ''topP''), (''seed'', ''seed''),
      (''stop'', ''stop''), (''tools'', ''tools''), (''tool_choice'', ''toolChoice''),
      (''response_format'', ''responseFormat''), (''top_k'', ''topK''), (''min_p'', ''minP''),
      (''frequency_penalty'', ''frequencyPenalty''), (''presence_penalty'', ''presencePenalty''),
      (''parallel_tool_calls'', ''parallelToolCalls''), (''logprobs'', ''logprobs''), (''logit_bias'', ''logitBias''),
      (''reasoning_effort'', ''reasoningEffort''), (''verbosity'', ''verbosity''), (''prediction'', ''prediction''),
      (''web_search_options'', ''webSearchOptions'')]"

definition surfaces_from_output :: "string list \<Rightarrow> string list" where
  "surfaces_from_output out =
     (if ''text'' \<in> set out then [''chat''] else []) @
     filter (\<lambda>s. s \<in> set out)
       [''embeddings'', ''decisions'', ''speech'', ''transcription'', ''rerank'', ''video''] @
     (if ''image'' \<in> set out \<and> ''text'' \<notin> set out then [''image''] else [])"

text \<open>The rows that have an id, with it.\<close>

definition rows_of :: "string \<Rightarrow> json \<Rightarrow> read_fault + (string \<times> dict) list" where
  "rows_of words body =
     (case dget (as_dict body) ''data'' of
        JList vs \<Rightarrow> Inr (List.map_filter (\<lambda>d. case dget d ''id'' of JStr i \<Rightarrow> Some (i, d) | _ \<Rightarrow> None) (dicts_in vs))
      | _ \<Rightarrow> Inl (ListFault (words @ '' had no `data` array'')))"

text \<open>A listing's retirement date; \<open>date_of\<close> is \<open>date.fromisoformat\<close>.\<close>

definition shut_down :: "(string \<Rightarrow> int option) \<Rightarrow> int \<Rightarrow> string \<Rightarrow> dict \<Rightarrow> bool" where
  "shut_down date_of today key e =
     (case dget e key of
        JStr raw \<Rightarrow> (case date_of (take 10 raw) of Some d \<Rightarrow> d < today | None \<Rightarrow> False)
      | _ \<Rightarrow> False)"

text \<open>\<open>[m for m in (v or []) if isinstance(m, str)]\<close>, which raises for a value that cannot be walked.\<close>

definition modalities :: "json \<Rightarrow> read_fault + string list" where
  "modalities v =
     (if truthy v then and_then (from_option (OtherFault ''TypeError'') (py_iter v)) (\<lambda>vs. Inr (strings_in vs))
      else Inr [])"

definition some_of :: "'a list \<Rightarrow> 'a list option" where
  "some_of xs = (if xs = [] then None else Some xs)"

definition openrouter_settings :: "string list \<Rightarrow> bool \<Rightarrow> string list \<Rightarrow> string list" where
  "openrouter_settings params listed surfaces =
     (let named = map snd (filter (\<lambda>p. fst p \<in> set params) OPENROUTER_SETTINGS);
          named = (if ''structured_outputs'' \<in> set params \<and> ''responseFormat'' \<notin> set named
                   then named @ [''responseFormat''] else named)
      in if \<not> listed \<and> ''chat'' \<in> set surfaces
         then filter (\<lambda>s. s \<in> set TOOL_SETTINGS \<or> s = ''maxTokens'') (map snd OPENROUTER_SETTINGS)
         else named)"

definition openrouter_row :: "string \<times> dict \<Rightarrow> read_fault + driver_model" where
  "openrouter_row = (\<lambda>(i, e).
     let arch = as_dict (dget e ''architecture'')
     in and_then (modalities (dget arch ''input_modalities'')) (\<lambda>ins.
        and_then (modalities (dget arch ''output_modalities'')) (\<lambda>outs.
          let names = (case dget e ''supported_parameters'' of JList vs \<Rightarrow> vs | _ \<Rightarrow> []);
              params = strings_in names;
              listed = (names \<noteq> []);
              surfaces = surfaces_from_output outs
          in with_id \<lparr>dm_id = i, dm_name = (case dget e ''name'' of JStr n \<Rightarrow> Some n | _ \<Rightarrow> None), dm_upstream = None,
               dm_surfaces = surfaces, dm_inputs = some_of ins, dm_outputs = some_of outs,
               dm_voices = (case dget e ''supported_voices'' of JList vs \<Rightarrow> Some (strings_in vs) | _ \<Rightarrow> None),
               dm_caps = Some (no_caps\<lparr>
                 cap_settings := Some (openrouter_settings params listed surfaces),
                 cap_streaming := Some (''chat'' \<in> set surfaces),
                 cap_image_in := Some (''image'' \<in> set ins), cap_audio_in := Some (''audio'' \<in> set ins),
                 cap_file_in := Some (''file'' \<in> set ins), cap_audio_out := Some (''audio'' \<in> set outs),
                 cap_speech := (if ''speech'' \<in> set surfaces then Some OPENROUTER_FORMATS else None),
                 cap_tools := Some (if listed then ''tools'' \<in> set params else ''chat'' \<in> set surfaces),
                 cap_context := positive (dget e ''context_length'')\<rparr>)\<rparr>)))"

definition from_openrouter :: "(string \<Rightarrow> int option) \<Rightarrow> int \<Rightarrow> json \<Rightarrow> read_fault + driver_model list" where
  "from_openrouter date_of today body =
     and_then (rows_of ''OpenRouter's model list'' body) (\<lambda>rows.
       collect openrouter_row (filter (\<lambda>(_, e). \<not> shut_down date_of today ''expiration_date'' e) rows))"

text \<open>The listings of images and of videos, laid over the models: each says which models serve its surface, and
  with what settings. Of two entries with one id the later counts.\<close>

definition overlay ::
  "string \<Rightarrow> (dict \<Rightarrow> fault + 'c) \<Rightarrow> ('c option \<Rightarrow> capabilities \<Rightarrow> capabilities) \<Rightarrow> (string \<times> dict) list
     \<Rightarrow> driver_model \<Rightarrow> read_fault + driver_model"
where
  "overlay surface read lay rows m =
     (let others = filter (\<lambda>s. s \<noteq> surface) (dm_surfaces m)
      in case map_of (rev rows) (dm_id m) of
           Some e \<Rightarrow>
             and_then (unexpected (read e)) (\<lambda>c.
               Inr (m\<lparr>dm_surfaces := others @ [surface],
                      dm_caps := Some (lay (Some c) (case dm_caps m of Some k \<Rightarrow> k | None \<Rightarrow> no_caps))\<rparr>))
         | None \<Rightarrow> Inr (m\<lparr>dm_surfaces := others, dm_caps := map_option (lay None) (dm_caps m)\<rparr>))"

definition put_image :: "image_caps option \<Rightarrow> capabilities \<Rightarrow> capabilities" where
  "put_image c k = k\<lparr>cap_image := c\<rparr>"

definition put_video :: "video_caps option \<Rightarrow> capabilities \<Rightarrow> capabilities" where
  "put_video c k = k\<lparr>cap_video := c\<rparr>"

definition with_openrouter_images :: "driver_model list \<Rightarrow> json \<Rightarrow> read_fault + driver_model list" where
  "with_openrouter_images ms body =
     and_then (rows_of ''OpenRouter's image model list'' body) (\<lambda>rows.
       collect (overlay ''image'' openrouter_image_caps put_image rows) ms)"

definition with_openrouter_videos ::
  "outside \<Rightarrow> (pyfloat \<Rightarrow> pyfloat) \<Rightarrow> driver_model list \<Rightarrow> json \<Rightarrow> read_fault + driver_model list"
where
  "with_openrouter_videos ou hundredth ms body =
     and_then (rows_of ''OpenRouter's video model list'' body) (\<lambda>rows.
       collect (overlay ''video'' (openrouter_video_caps ou hundredth) put_video rows) ms)"

subsection \<open>Other listings\<close>

definition inherited :: "string \<Rightarrow> engine_defaults \<Rightarrow> string list option \<Rightarrow> driver_model" where
  "inherited i defaults surfaces =
     (let served = (case surfaces of None \<Rightarrow> [''chat''] | Some ss \<Rightarrow> ss); chat = (''chat'' \<in> set served)
      in (bare_model i)\<lparr>dm_surfaces := served, dm_caps := Some (no_caps\<lparr>
           cap_settings := Some (if chat then default_settings defaults else []),
           cap_streaming := Some (default_streaming defaults \<and> chat), cap_image_in := Some False,
           cap_audio_in := Some False, cap_file_in := Some False, cap_audio_out := Some False,
           cap_tools := Some (default_tools defaults \<and> chat)\<rparr>)\<rparr>)"

definition ollama_entry :: "string \<Rightarrow> dict option \<Rightarrow> engine_defaults \<Rightarrow> driver_model" where
  "ollama_entry name shown defaults =
     (case shown of
        None \<Rightarrow> inherited name defaults None
      | Some d \<Rightarrow>
          (case dget d ''capabilities'' of
             JList vs \<Rightarrow>
               let names = strings_in vs;
                   surfaces = (if ''completion'' \<in> set names then [''chat''] else []) @
                     (if ''embedding'' \<in> set names then [''embeddings''] else []) @
                     (if ''completion'' \<in> set names then [''completion''] else []);
                   chat = (''chat'' \<in> set surfaces)
               in (bare_model name)\<lparr>dm_surfaces := surfaces,
                    dm_inputs := Some (if ''vision'' \<in> set names then [''text'', ''image''] else [''text'']),
                    dm_caps := Some (no_caps\<lparr>
                      cap_settings := Some (if chat then default_settings defaults else []),
                      cap_streaming := Some (default_streaming defaults \<and> chat),
                      cap_image_in := Some (''vision'' \<in> set names), cap_tools := Some (''tools'' \<in> set names),
                      cap_fim := Some (''insert'' \<in> set names)\<rparr>)\<rparr>
           | _ \<Rightarrow> inherited name defaults None))"

definition with_caps :: "(capabilities \<Rightarrow> capabilities) \<Rightarrow> driver_model \<Rightarrow> driver_model" where
  "with_caps f m = m\<lparr>dm_caps := map_option f (dm_caps m)\<rparr>"

text \<open>A window a listing gives, taken when it is a positive number.\<close>

definition with_window :: "json \<Rightarrow> driver_model \<Rightarrow> driver_model" where
  "with_window v m = (case positive v of Some n \<Rightarrow> with_caps (\<lambda>c. c\<lparr>cap_context := Some n\<rparr>) m | None \<Rightarrow> m)"

definition lmstudio_row :: "engine_defaults \<Rightarrow> string \<times> dict \<Rightarrow> driver_model" where
  "lmstudio_row defaults = (\<lambda>(i, e).
     if dget e ''type'' = JStr ''embeddings'' then inherited i defaults (Some [''embeddings''])
     else let m = inherited i defaults None;
              m = (if dget e ''type'' = JStr ''vlm''
                   then (with_caps (\<lambda>c. c\<lparr>cap_image_in := Some True\<rparr>) m)\<lparr>dm_inputs := Some [''text'', ''image'']\<rparr>
                   else m)
          in with_window (dget e ''loaded_context_length'') m)"

definition from_lmstudio :: "json \<Rightarrow> engine_defaults \<Rightarrow> read_fault + driver_model list" where
  "from_lmstudio body defaults =
     and_then (rows_of ''LM Studio's model list'' body) (collect (with_id \<circ> lmstudio_row defaults))"

definition openai_row :: "engine_defaults \<Rightarrow> (string \<Rightarrow> string list) option \<Rightarrow> string \<times> dict \<Rightarrow> driver_model" where
  "openai_row defaults classify = (\<lambda>(i, e).
     let m = inherited i defaults (map_option (\<lambda>f. f i) classify);
         m = (if ''speech'' \<in> set (dm_surfaces m)
              then (with_caps (\<lambda>c. c\<lparr>cap_speech := Some ALL_FORMATS\<rparr>) m)\<lparr>dm_voices := openai_voices i\<rparr> else m);
         m = (if ''image'' \<in> set (dm_surfaces m)
              then with_caps (\<lambda>c. c\<lparr>cap_image := Some (openai_image_caps i)\<rparr>) m else m)
     in with_window (dget e ''max_model_len'') m)"

definition from_openai_list ::
  "(string \<Rightarrow> int option) \<Rightarrow> int \<Rightarrow> json \<Rightarrow> engine_defaults \<Rightarrow> (string \<Rightarrow> string list) option
     \<Rightarrow> read_fault + driver_model list"
where
  "from_openai_list date_of today body defaults classify =
     and_then (rows_of ''the model list'' body) (\<lambda>rows.
       collect (with_id \<circ> openai_row defaults classify)
         (filter (\<lambda>(_, e). \<not> shut_down date_of today ''shutdown_date'' e) rows))"

subsection \<open>Reading the account's list\<close>

text \<open>A response, its body as text and as \<open>response.json()\<close> reads it; \<open>Inl\<close> is \<open>repr\<close> of an httpx error.\<close>

record list_reply =
  l_status :: int
  l_text :: string
  l_json :: loaded

fun at_path :: "json \<Rightarrow> string list \<Rightarrow> json" where
  "at_path v [] = v"
| "at_path v (k # ks) = at_path (dget (as_dict v) k) ks"

definition upstream_words :: "list_reply \<Rightarrow> read_fault + string" where
  "upstream_words r =
     (let status = ''HTTP '' @ str_int (l_status r)
      in case l_json r of
           LoadRecursionError \<Rightarrow> Inl (OtherFault ''RecursionError'')
         | LoadValueError \<Rightarrow> Inr (let t = strip (take 200 (l_text r)) in if t = [] then status else t)
         | Loaded body \<Rightarrow>
             Inr (case List.find (\<lambda>v. case v of JStr s \<Rightarrow> strip s \<noteq> [] | _ \<Rightarrow> False)
                  (map (at_path body) [[''error'', ''message''], [''detail'', ''message''], [''detail''], [''message''], [''error'']]) of
               Some (JStr s) \<Rightarrow> take 300 (strip s)
             | _ \<Rightarrow> status))"

definition read_list :: "string \<Rightarrow> string + list_reply \<Rightarrow> read_fault + json" where
  "read_list src r =
     (case r of
        Inl e \<Rightarrow> Inl (HttpFault e)
      | Inr r \<Rightarrow>
          if 400 \<le> l_status r then
            and_then (upstream_words r) (\<lambda>words.
              Inl (ListFault (src @ '' refused the model list ('' @ str_int (l_status r) @ ''): '' @ words)))
          else (case l_json r of
            Loaded j \<Rightarrow> Inr j
          | LoadValueError \<Rightarrow> Inl (ListFault (src @ CHR 0x27 # ''s model list was not JSON''))
          | LoadRecursionError \<Rightarrow> Inl (OtherFault ''RecursionError'')))"

text \<open>What a listing is read with: the answers of the provider by path, Ollama's word on each model, and the outside.\<close>

record provider =
  list_at_path :: "string \<Rightarrow> string + list_reply"
  show_model :: "string \<Rightarrow> string + list_reply"
  date_of :: "string \<Rightarrow> int option"
  today :: int
  outside_of :: outside
  hundredth :: "pyfloat \<Rightarrow> pyfloat"
  sorts_models :: bool

definition engine_defaults_of :: "adapter \<Rightarrow> string \<Rightarrow> engine_defaults" where
  "engine_defaults_of a u =
     \<lparr>default_settings = supported_for a \<lparr>target_id = [], upstream = u,
        temperature_fixed = fixes_temperature a u, entry = None\<rparr>,
      default_tools = tools_assumed a, default_streaming = True\<rparr>"

definition with_fixed_temperature :: "adapter \<Rightarrow> driver_model \<Rightarrow> driver_model" where
  "with_fixed_temperature a m =
     (if fixes_temperature a (or_id (dm_upstream m) (dm_id m))
      then with_caps (\<lambda>c. c\<lparr>cap_settings := Some (filter (\<lambda>s. s \<notin> set FIXED_SAMPLER_SETTINGS)
             (case cap_settings c of Some ss \<Rightarrow> ss | None \<Rightarrow> []))\<rparr>) m
      else m)"

definition with_chat_tools :: "adapter \<Rightarrow> driver_model \<Rightarrow> driver_model" where
  "with_chat_tools a m =
     (if chat_tools_unavailable a (or_id (dm_upstream m) (dm_id m))
      then with_caps (\<lambda>c. c\<lparr>cap_tools := Some False, cap_settings := Some (filter (\<lambda>s. s \<noteq> ''tools'')
             (case cap_settings c of Some ss \<Rightarrow> ss | None \<Rightarrow> []))\<rparr>) m
      else m)"

text \<open>A supplementary listing: one that cannot be read leaves the models as they are.\<close>

definition laid_over ::
  "read_fault + json \<Rightarrow> (driver_model list \<Rightarrow> json \<Rightarrow> read_fault + driver_model list) \<Rightarrow> driver_model list
     \<Rightarrow> read_fault + driver_model list"
where
  "laid_over r lay ms =
     (case r of
        Inr body \<Rightarrow> lay ms body
      | Inl (OtherFault w) \<Rightarrow> Inl (OtherFault w)
      | Inl _ \<Rightarrow> Inr ms)"

definition ollama_names :: "json \<Rightarrow> string list" where
  "ollama_names body =
     (case dget (as_dict body) ''models'' of
        JList vs \<Rightarrow> filter (\<lambda>n. n \<noteq> [])
          (strings_in (map (\<lambda>d. if truthy (dget d ''name'') then dget d ''name'' else dget d ''model'') (dicts_in vs)))
      | _ \<Rightarrow> [])"

definition shown_of :: "string + list_reply \<Rightarrow> read_fault + dict option" where
  "shown_of r =
     (case r of
        Inl _ \<Rightarrow> Inr None
      | Inr r \<Rightarrow>
          if 400 \<le> l_status r then Inr None
          else (case l_json r of
            Loaded (JObj d) \<Rightarrow> Inr (Some d)
          | LoadRecursionError \<Rightarrow> Inl (OtherFault ''RecursionError'')
          | _ \<Rightarrow> Inr None))"

definition openai_catalogue :: "provider \<Rightarrow> adapter \<Rightarrow> read_fault + driver_model list" where
  "openai_catalogue p a =
     and_then (read_list (catalogue (wire a)) (list_at_path p ''/v1/models'')) (\<lambda>body.
     and_then (from_openai_list (date_of p) (today p) body (engine_defaults_of a [])
         (if sorts_models p then Some classify_openai_model else None)) (\<lambda>ms.
       Inr (map (with_chat_tools a \<circ> with_fixed_temperature a) ms)))"

definition fetch_catalogue :: "provider \<Rightarrow> adapter \<Rightarrow> read_fault + driver_model list" where
  "fetch_catalogue p a =
     (let src = catalogue (wire a); rd = (\<lambda>path. read_list src (list_at_path p path))
      in if src = ''openrouter'' then
           and_then (rd ''/v1/models/user?output_modalities=all'') (\<lambda>body.
           and_then (from_openrouter (date_of p) (today p) body) (\<lambda>ms.
           and_then (laid_over (rd ''/v1/images/models'') with_openrouter_images ms) (\<lambda>ms.
           and_then (laid_over (rd ''/v1/videos/models'') (with_openrouter_videos (outside_of p) (hundredth p)) ms) (\<lambda>ms.
             Inr (map (with_fixed_temperature a) ms)))))
         else if src = ''ollama'' then
           and_then (rd ''/api/tags'') (\<lambda>body.
             collect (\<lambda>n. and_then (shown_of (show_model p n)) (\<lambda>shown.
               Inr (ollama_entry n shown (engine_defaults_of a n)))) (ollama_names body))
         else if src = ''lmstudio'' then
           (case and_then (rd ''/api/v0/models'') (\<lambda>body. from_lmstudio body (engine_defaults_of a [])) of
              Inl (ListFault _) \<Rightarrow> openai_catalogue p a
            | r \<Rightarrow> r)
         else openai_catalogue p a)"

subsection \<open>The list as last read\<close>

definition NOT_SERVED_BY_ACCOUNTS :: "string list" where "NOT_SERVED_BY_ACCOUNTS = [''rerank'']"
definition DEFAULT_REFRESH_MINUTES :: int where "DEFAULT_REFRESH_MINUTES = 60"
definition FIRST_RETRY_SECONDS :: rat where "FIRST_RETRY_SECONDS = 30"

record listing =
  models :: "driver_model list"
  by_id :: "(string \<times> driver_model) list"
  refreshed_at :: "int option"
  read_error :: "string option"

definition empty_listing :: listing where
  "empty_listing = \<lparr>models = [], by_id = [], refreshed_at = None, read_error = None\<rparr>"

text \<open>\<open>patterns\<close>; the arguments are the values of \<open>catalogueInclude\<close> and \<open>catalogueExclude\<close>.\<close>

definition pattern_list :: "json list \<Rightarrow> string list" where
  "pattern_list vs = filter (\<lambda>p. p \<noteq> []) (strings_in vs)"

definition patterns :: "json \<Rightarrow> json \<Rightarrow> string list \<times> string list" where
  "patterns inc exc =
     (case inc of JList vs \<Rightarrow> pattern_list vs | _ \<Rightarrow> [''*''],
      case exc of JList vs \<Rightarrow> pattern_list vs | _ \<Rightarrow> [])"

definition refresh_seconds :: "json \<Rightarrow> int" where
  "refresh_seconds raw =
     60 * (case raw of JInt n \<Rightarrow> if 0 < n then n else DEFAULT_REFRESH_MINUTES | _ \<Rightarrow> DEFAULT_REFRESH_MINUTES)"

definition exposed :: "(driver_model \<Rightarrow> 'm) \<Rightarrow> string list \<times> string list \<Rightarrow> listing \<Rightarrow> 'm list" where
  "exposed view pats c = map view (filter (\<lambda>m. exposed_by (fst pats) (snd pats) (dm_id m)) (models c))"

definition find_model :: "(driver_model \<Rightarrow> 'm) \<Rightarrow> string list \<times> string list \<Rightarrow> listing \<Rightarrow> string \<Rightarrow> 'm option" where
  "find_model view pats c i =
     (case map_of (by_id c) i of
        None \<Rightarrow> None
      | Some m \<Rightarrow> if exposed_by (fst pats) (snd pats) (dm_id m) then Some (view m) else None)"

record summary =
  s_total :: nat
  s_exposed :: nat
  s_include :: "string list"
  s_exclude :: "string list"
  s_refreshed :: "int option"
  s_seconds :: int
  s_error :: "string option"

definition summary_of :: "string list \<times> string list \<Rightarrow> json \<Rightarrow> listing \<Rightarrow> summary" where
  "summary_of pats minutes c =
     \<lparr>s_total = length (models c),
      s_exposed = length (filter (\<lambda>m. exposed_by (fst pats) (snd pats) (dm_id m)) (models c)),
      s_include = fst pats, s_exclude = snd pats, s_refreshed = refreshed_at c,
      s_seconds = refresh_seconds minutes, s_error = read_error c\<rparr>"

text \<open>\<open>seen.setdefault\<close>: the first of each id.\<close>

fun keep_first :: "driver_model list \<Rightarrow> driver_model list \<Rightarrow> driver_model list" where
  "keep_first seen [] = seen"
| "keep_first seen (m # ms) = keep_first (if dm_id m \<in> dm_id ` set seen then seen else seen @ [m]) ms"

definition served_by_account :: "driver_model \<Rightarrow> driver_model" where
  "served_by_account m = m\<lparr>dm_surfaces := filter (\<lambda>s. s \<notin> set NOT_SERVED_BY_ACCOUNTS) (dm_surfaces m)\<rparr>"

definition kept_models :: "driver_model list \<Rightarrow> driver_model list" where
  "kept_models ms = sort_key dm_id (keep_first [] (map served_by_account ms))"

definition set_models :: "driver_model list \<Rightarrow> int option \<Rightarrow> listing \<Rightarrow> listing" where
  "set_models ms moment c =
     c\<lparr>models := kept_models ms, by_id := map (\<lambda>m. (dm_id m, m)) (kept_models ms), refreshed_at := moment\<rparr>"

definition fault_words :: "read_fault \<Rightarrow> string" where
  "fault_words f =
     (case f of
        ListFault w \<Rightarrow> w
      | HttpFault w \<Rightarrow> ''could not reach the model list: '' @ w
      | OtherFault w \<Rightarrow> ''the model list could not be read: '' @ w)"

definition refresh :: "read_fault + driver_model list \<Rightarrow> int \<Rightarrow> listing \<Rightarrow> bool \<times> listing" where
  "refresh fetched now c =
     (case fetched of
        Inl f \<Rightarrow> (False, c\<lparr>read_error := Some (fault_words f)\<rparr>)
      | Inr ms \<Rightarrow> (True, (set_models ms (Some now) c)\<lparr>read_error := None\<rparr>))"

text \<open>\<open>run\<close>: the waits between reads, of each of which the argument says whether it succeeded and the interval
  configured then.\<close>

fun waits :: "rat \<Rightarrow> (bool \<times> rat) list \<Rightarrow> rat list" where
  "waits retry [] = []"
| "waits retry ((ok, interval) # later) =
     (if ok then interval # waits FIRST_RETRY_SECONDS later
      else min retry interval # waits (min (retry * 2) interval) later)"

subsection \<open>The copy on disk\<close>

text \<open>What the generated class writes and reads, and moments as text.\<close>

record codec =
  dump_model :: "driver_model \<Rightarrow> json"
  valid_model :: "json \<Rightarrow> driver_model option"
  show_time :: "int \<Rightarrow> string"
  read_time :: "string \<Rightarrow> int option"

datatype file_state = Absent | Unreadable | Holds loaded

definition saved_copy :: "codec \<Rightarrow> string \<Rightarrow> string \<Rightarrow> listing \<Rightarrow> json" where
  "saved_copy k origin src c =
     JObj [(''origin'', JStr origin), (''source'', JStr src),
       (''refreshedAt'', case refreshed_at c of Some t \<Rightarrow> JStr (show_time k t) | None \<Rightarrow> JNull),
       (''models'', JList (map (dump_model k) (models c)))]"

text \<open>\<open>None\<close> is an exception that the code takes for a cache miss.\<close>

definition saved_models :: "codec \<Rightarrow> dict \<Rightarrow> (driver_model list \<times> int option) option" where
  "saved_models k d =
     Option.bind (if truthy (dget d ''models'') then py_iter (dget d ''models'') else Some []) (\<lambda>vs.
     Option.bind (those (map (valid_model k) vs)) (\<lambda>ms.
       case dget d ''refreshedAt'' of
         JStr t \<Rightarrow> map_option (\<lambda>tm. (ms, Some tm)) (read_time k t)
       | _ \<Rightarrow> Some (ms, None)))"

definition load_copy :: "codec \<Rightarrow> string \<Rightarrow> file_state \<Rightarrow> listing \<Rightarrow> string + listing" where
  "load_copy k origin state c =
     (case state of
        Holds (Loaded (JObj d)) \<Rightarrow>
          if dget d ''origin'' \<noteq> JStr origin then Inr c
          else (case saved_models k d of Some (ms, tm) \<Rightarrow> Inr (set_models ms tm c) | None \<Rightarrow> Inr c)
      | Holds LoadRecursionError \<Rightarrow> Inl ''RecursionError''
      | _ \<Rightarrow> Inr c)"

subsection \<open>Patterns are globs\<close>

inductive glob :: "string \<Rightarrow> string \<Rightarrow> bool" where
  glob_end: "glob [] []"
| glob_char: "c \<noteq> CHR ''*'' \<Longrightarrow> glob p v \<Longrightarrow> glob (c # p) (c # v)"
| glob_star: "glob p v \<Longrightarrow> glob (CHR ''*'' # p) (w @ v)"

inductive_simps glob_Nil: "glob [] v"

lemma glob_Cons: "c \<noteq> CHR ''*'' \<Longrightarrow> glob (c # p) v \<longleftrightarrow> (\<exists>v'. v = c # v' \<and> glob p v')"
  by (subst glob.simps) auto

lemma glob_Star: "glob (CHR ''*'' # p) v \<longleftrightarrow> (\<exists>k \<le> length v. glob p (drop k v))"
proof
  assume "glob (CHR ''*'' # p) v"
  then obtain w u where "v = w @ u" "glob p u" by cases auto
  then show "\<exists>k \<le> length v. glob p (drop k v)" by (intro exI [of _ "length w"]) simp
next
  assume "\<exists>k \<le> length v. glob p (drop k v)"
  then obtain k where "glob p (drop k v)" by blast
  from glob_star [OF this, of "take k v"] show "glob (CHR ''*'' # p) v" by simp
qed

lemma split_star_not_Nil [simp]: "split_star p \<noteq> []"
  by (cases p) (auto split: list.splits)

lemma match_parts_Cons:
  "match_parts ([] # ps) v \<longleftrightarrow> (if ps = [] then v = [] else \<exists>k \<le> length v. match_parts ps (drop k v))"
  by (cases ps) (auto simp: list_ex_iff less_Suc_eq_le Bex_def nat_less_le intro: less_imp_le)

lemma match_parts_char:
  "match_parts ((c # p) # ps) v \<longleftrightarrow> (\<exists>v'. v = c # v' \<and> match_parts (p # ps) v')"
  by (cases ps; cases v) auto

lemma match_parts_glob: "match_parts (split_star p) v \<longleftrightarrow> glob p v"
proof (induction p arbitrary: v)
  case Nil
  then show ?case by (auto simp: glob_Nil)
next
  case (Cons c p)
  show ?case
  proof (cases "c = CHR ''*''")
    case True
    then show ?thesis using Cons by (simp add: match_parts_Cons glob_Star)
  next
    case False
    then obtain q qs where "split_star p = q # qs" by (cases "split_star p") auto
    with False Cons show ?thesis by (simp add: match_parts_char glob_Cons)
  qed
qed

lemma glob_plain: "CHR ''*'' \<notin> set p \<Longrightarrow> glob p v \<longleftrightarrow> p = v"
proof (induction p arbitrary: v)
  case (Cons c p)
  then have "c \<noteq> CHR ''*''" by auto
  with Cons show ?case by (auto simp: glob_Cons)
qed (auto simp: glob_Nil)

lemma matches_glob: "matches p v \<longleftrightarrow> glob p v"
  by (simp add: matches_def match_parts_glob glob_plain)

subsection \<open>The list\<close>

lemma keep_first_distinct: "distinct (map dm_id seen) \<Longrightarrow> distinct (map dm_id (keep_first seen ms))"
  by (induction ms arbitrary: seen) auto

lemma keep_first_subset: "set (keep_first seen ms) \<subseteq> set seen \<union> set ms"
proof (induction ms arbitrary: seen)
  case (Cons m ms)
  from Cons.IH [of "if dm_id m \<in> dm_id ` set seen then seen else seen @ [m]"] show ?case
    by (auto split: if_splits)
qed simp

lemma keep_first_ids: "dm_id ` set (keep_first seen ms) = dm_id ` set seen \<union> dm_id ` set ms"
  by (induction ms arbitrary: seen) auto

text \<open>A list in order: ids ascending and distinct, the index agrees with it, and no surface no account serves.\<close>

definition listing_sound :: "listing \<Rightarrow> bool" where
  "listing_sound c \<longleftrightarrow>
     sorted_wrt (<) (map dm_id (models c)) \<and> by_id c = map (\<lambda>m. (dm_id m, m)) (models c) \<and>
     (\<forall>m \<in> set (models c). \<forall>s \<in> set NOT_SERVED_BY_ACCOUNTS. s \<notin> set (dm_surfaces m))"

lemma set_models_kept:
  "models (set_models ms t c) = kept_models ms"
  "by_id (set_models ms t c) = map (\<lambda>m. (dm_id m, m)) (kept_models ms)"
  "refreshed_at (set_models ms t c) = t"
  "read_error (set_models ms t c) = read_error c"
  by (simp_all add: set_models_def)

lemma set_kept_models: "set (kept_models ms) = set (keep_first [] (map served_by_account ms))"
  by (simp add: kept_models_def)

lemma kept_models_ascend: "sorted_wrt (<) (map dm_id (kept_models ms))"
  using keep_first_distinct [of "[]" "map served_by_account ms"]
  by (simp add: kept_models_def strict_sorted_iff distinct_map)

lemma kept_models_served: "m \<in> set (kept_models ms) \<Longrightarrow> \<exists>n \<in> set ms. m = served_by_account n"
  using keep_first_subset [of "[]" "map served_by_account ms"]
  by (simp add: set_kept_models image_iff) blast

lemma set_models_sound: "listing_sound (set_models ms t c)"
  unfolding listing_sound_def set_models_kept
proof (intro conjI ballI kept_models_ascend refl)
  fix m s
  assume m: "m \<in> set (kept_models ms)" and s: "s \<in> set NOT_SERVED_BY_ACCOUNTS"
  from kept_models_served [OF m] obtain n where "m = served_by_account n" by blast
  with s show "s \<notin> set (dm_surfaces m)" by (simp add: served_by_account_def)
qed

lemma empty_sound: "listing_sound empty_listing"
  by (simp add: listing_sound_def empty_listing_def)

text \<open>What happens to a list: a read, whatever its outcome, or the copy on disk.\<close>

inductive listing_step :: "codec \<Rightarrow> string \<Rightarrow> listing \<Rightarrow> listing \<Rightarrow> bool" for k origin where
  step_read: "listing_step k origin c (snd (refresh fetched now c))"
| step_load: "load_copy k origin state c = Inr c' \<Longrightarrow> listing_step k origin c c'"

lemma listing_sound_cong:
  "models c' = models c \<Longrightarrow> by_id c' = by_id c \<Longrightarrow> listing_sound c' \<longleftrightarrow> listing_sound c"
  by (simp add: listing_sound_def)

lemma refresh_sound: "listing_sound c \<Longrightarrow> listing_sound (snd (refresh fetched now c))"
proof (cases fetched)
  case (Inl f)
  assume "listing_sound c"
  then show ?thesis by (simp add: Inl refresh_def listing_sound_def)
next
  case (Inr ms)
  then show ?thesis
    using listing_sound_cong [of "(set_models ms (Some now) c)\<lparr>read_error := None\<rparr>" "set_models ms (Some now) c"]
    by (simp add: refresh_def set_models_sound)
qed

text \<open>A copy on disk either replaces the list or leaves it as it was.\<close>

lemma load_copy_cases:
  assumes "load_copy k origin state c = Inr c'"
  obtains "c' = c"
  | d ms t where "state = Holds (Loaded (JObj d))" "dget d ''origin'' = JStr origin"
      "saved_models k d = Some (ms, t)" "c' = set_models ms t c"
proof (cases "\<exists>d. state = Holds (Loaded (JObj d))")
  case True
  then obtain d where "state = Holds (Loaded (JObj d))" by blast
  with assms that show ?thesis
    by (cases "saved_models k d") (auto simp: load_copy_def split: if_splits)
next
  case False
  with assms have "c' = c"
    by (cases state; simp add: load_copy_def split: loaded.splits json.splits)
  then show ?thesis by (rule that(1))
qed

lemma listing_step_sound: "listing_sound c \<Longrightarrow> listing_step k origin c c' \<Longrightarrow> listing_sound c'"
  by (erule listing_step.cases) (auto simp: refresh_sound set_models_sound elim: load_copy_cases)

interpretation ct: step_system "listing_step k origin" listing_sound for k origin
  by unfold_locales (rule listing_step_sound)

lemma find_in_models:
  assumes "listing_sound c"
  shows "map_of (by_id c) i = Some m \<longleftrightarrow> m \<in> set (models c) \<and> dm_id m = i"
proof -
  have "distinct (map fst (by_id c))"
    using assms by (simp add: listing_sound_def comp_def strict_sorted_iff)
  then show ?thesis using assms by (auto simp: listing_sound_def map_of_eq_Some_iff [OF \<open>distinct _\<close>])
qed

text \<open>A list in order is what \<open>_set\<close> makes of itself.\<close>

lemma served_by_account_id [simp]: "dm_id (served_by_account m) = dm_id m"
  by (simp add: served_by_account_def)

lemma served_by_account_same: "\<forall>s \<in> set NOT_SERVED_BY_ACCOUNTS. s \<notin> set (dm_surfaces m) \<Longrightarrow> served_by_account m = m"
proof -
  assume "\<forall>s \<in> set NOT_SERVED_BY_ACCOUNTS. s \<notin> set (dm_surfaces m)"
  then have "filter (\<lambda>s. s \<notin> set NOT_SERVED_BY_ACCOUNTS) (dm_surfaces m) = dm_surfaces m"
    by (auto simp: filter_id_conv)
  then show ?thesis by (simp add: served_by_account_def)
qed

lemma keep_first_append: "distinct (map dm_id (seen @ ms)) \<Longrightarrow> keep_first seen ms = seen @ ms"
  by (induction ms arbitrary: seen) auto

lemma kept_models_same:
  assumes "listing_sound c"
  shows "kept_models (models c) = models c"
proof -
  have "map served_by_account (models c) = models c"
    using assms by (intro map_idI) (simp add: listing_sound_def served_by_account_same)
  moreover have "distinct (map dm_id (models c))" "sorted (map dm_id (models c))"
    using assms by (simp_all add: listing_sound_def strict_sorted_iff)
  ultimately show ?thesis by (simp add: kept_models_def keep_first_append sort_key_id_if_sorted)
qed

subsection \<open>What the driver serves\<close>

lemma exposed_by_globs:
  "exposed_by inc exc i \<longleftrightarrow> (\<exists>p \<in> set inc. glob p i) \<and> \<not> (\<exists>p \<in> set exc. glob p i)"
  by (auto simp: exposed_by_def list_ex_iff matches_glob)

lemma find_model_iff:
  assumes "listing_sound c"
  shows "find_model view pats c i = Some v \<longleftrightarrow>
    (\<exists>m \<in> set (models c). dm_id m = i \<and> view m = v \<and> exposed_by (fst pats) (snd pats) i)"
proof (cases "map_of (by_id c) i")
  case None
  then have "\<forall>m. \<not> (m \<in> set (models c) \<and> dm_id m = i)"
    by (simp add: find_in_models [OF assms, symmetric])
  with None show ?thesis by (auto simp: find_model_def)
next
  case (Some n)
  then have "n \<in> set (models c) \<and> dm_id n = i" by (simp add: find_in_models [OF assms, symmetric])
  moreover have "m = n" if "m \<in> set (models c)" "dm_id m = i" for m
    using that Some by (metis assms find_in_models option.inject)
  ultimately show ?thesis using Some by (auto simp: find_model_def)
qed

text \<open>C24. However often an account's list was read, failed to be read or was taken from disk, its models are in
  order of their ids, each once; a request finds a model exactly when the list has it, a pattern that includes
  matches its id and none that excludes does, and those are the models the driver lists; a read that fails leaves
  the models and the moment as they were.\<close>

theorem catalogue_serves_its_list:
  assumes "reaches (listing_step k origin) empty_listing c"
  shows "sorted_wrt (<) (map dm_id (models c)) \<and>
    (find_model view pats c i = Some v \<longleftrightarrow>
      (\<exists>m \<in> set (models c). dm_id m = i \<and> view m = v \<and>
        (\<exists>p \<in> set (fst pats). glob p i) \<and> \<not> (\<exists>p \<in> set (snd pats). glob p i))) \<and>
    exposed view pats c = List.map_filter (find_model view pats c) (map dm_id (models c)) \<and>
    s_exposed (summary_of pats minutes c) = length (exposed view pats c) \<and>
    (models (snd (refresh (Inl fault) now c)) = models c \<and> by_id (snd (refresh (Inl fault) now c)) = by_id c \<and>
     refreshed_at (snd (refresh (Inl fault) now c)) = refreshed_at c \<and>
     read_error (snd (refresh (Inl fault) now c)) = Some (fault_words fault))"
proof (intro conjI)
  have sound: "listing_sound c" by (rule ct.reaches_inv [OF assms empty_sound])
  then show "sorted_wrt (<) (map dm_id (models c))" by (simp add: listing_sound_def)
  show "find_model view pats c i = Some v \<longleftrightarrow>
      (\<exists>m \<in> set (models c). dm_id m = i \<and> view m = v \<and>
        (\<exists>p \<in> set (fst pats). glob p i) \<and> \<not> (\<exists>p \<in> set (snd pats). glob p i))"
    by (simp add: find_model_iff [OF sound] exposed_by_globs)
  have found: "map_of (by_id c) (dm_id m) = Some m" if "m \<in> set (models c)" for m
    using that by (simp add: find_in_models [OF sound])
  have "List.map_filter (find_model view pats c) (map dm_id ms) =
      map view (filter (\<lambda>m. exposed_by (fst pats) (snd pats) (dm_id m)) ms)"
    if "set ms \<subseteq> set (models c)" for ms
    using that by (induction ms) (simp_all add: map_filter_simps find_model_def found)
  then show "exposed view pats c = List.map_filter (find_model view pats c) (map dm_id (models c))"
    by (simp add: exposed_def)
qed (simp_all add: summary_of_def exposed_def refresh_def)


text \<open>A list of two models, the second kept from the driver.\<close>

definition two_models :: "driver_model list" where
  "two_models = [(bare_model ''b/two'')\<lparr>dm_surfaces := [''chat'', ''rerank'']\<rparr>, bare_model ''a/one'']"

definition small_codec :: codec where
  "small_codec = \<lparr>dump_model = (\<lambda>m. JStr (dm_id m)),
     valid_model = (\<lambda>v. case v of JStr i \<Rightarrow> Some (if i = ''b/two'' then (bare_model i)\<lparr>dm_surfaces := [''chat'']\<rparr>
       else bare_model i) | _ \<Rightarrow> None),
     show_time = (\<lambda>t. ''7''), read_time = (\<lambda>s. Some 7)\<rparr>"

definition read_once :: listing where
  "read_once = snd (refresh (Inr two_models) 7 empty_listing)"

lemma read_once_reached: "reaches (listing_step k origin) empty_listing read_once"
  using reaches_step [OF reaches_refl [of "listing_step k origin" empty_listing]
    step_read [of k origin empty_listing "Inr two_models" 7]] by (simp add: read_once_def)

lemma read_once_holds:
  "models read_once = [bare_model ''a/one'', (bare_model ''b/two'')\<lparr>dm_surfaces := [''chat'']\<rparr>]"
  "by_id read_once = map (\<lambda>m. (dm_id m, m)) (models read_once)"
  "refreshed_at read_once = Some 7" "read_error read_once = None"
  by (simp_all add: read_once_def refresh_def set_models_def kept_models_def two_models_def served_by_account_def
    NOT_SERVED_BY_ACCOUNTS_def bare_model_def less_char_def)

lemma catalogue_serves_its_list_witness:
  "sorted_wrt (<) (map dm_id (models read_once)) \<and>
   find_model (\<lambda>m. m) ([''*''], [''b*'']) read_once ''a/one'' = Some (bare_model ''a/one'') \<and>
   find_model (\<lambda>m. m) ([''*''], [''b*'']) read_once ''b/two'' = None \<and>
   models (snd (refresh (Inl (HttpFault ''down'')) 9 read_once)) = models read_once"
proof (intro conjI)
  show "sorted_wrt (<) (map dm_id (models read_once))"
    by (rule catalogue_serves_its_list [OF read_once_reached, THEN conjunct1])
  show "find_model (\<lambda>m. m) ([''*''], [''b*'']) read_once ''a/one'' = Some (bare_model ''a/one'')"
    and "find_model (\<lambda>m. m) ([''*''], [''b*'']) read_once ''b/two'' = None"
    by (simp_all add: find_model_def read_once_holds bare_model_def exposed_by_def matches_def)
  show "models (snd (refresh (Inl (HttpFault ''down'')) 9 read_once)) = models read_once"
    by (rule catalogue_serves_its_list [OF read_once_reached, THEN conjunct2, THEN conjunct2, THEN conjunct2,
      THEN conjunct2, THEN conjunct1])
qed

text \<open>The copy on disk.\<close>

lemma those_map_Some: "\<forall>x \<in> set xs. f (g x) = Some x \<Longrightarrow> those (map f (map g xs)) = Some xs"
  by (induction xs) auto

lemma saved_models_of_copy:
  assumes "\<forall>m \<in> set (models c). valid_model k (dump_model k m) = Some m"
    and "\<forall>t. refreshed_at c = Some t \<longrightarrow> read_time k (show_time k t) = Some t"
  shows "\<exists>d. saved_copy k origin src c = JObj d \<and> dget d ''origin'' = JStr origin \<and>
    saved_models k d = Some (models c, refreshed_at c)"
proof (intro exI conjI)
  show "saved_copy k origin src c = JObj [(''origin'', JStr origin), (''source'', JStr src),
      (''refreshedAt'', case refreshed_at c of Some t \<Rightarrow> JStr (show_time k t) | None \<Rightarrow> JNull),
      (''models'', JList (map (dump_model k) (models c)))]" by (simp add: saved_copy_def)
  have "those (map (valid_model k) (if models c = [] then [] else map (dump_model k) (models c))) = Some (models c)"
    using those_map_Some [of "models c" "valid_model k" "dump_model k"] assms(1) by simp
  then show "saved_models k [(''origin'', JStr origin), (''source'', JStr src),
      (''refreshedAt'', case refreshed_at c of Some t \<Rightarrow> JStr (show_time k t) | None \<Rightarrow> JNull),
      (''models'', JList (map (dump_model k) (models c)))] = Some (models c, refreshed_at c)"
    using assms(2) by (cases "refreshed_at c"; cases "models c") (simp_all add: saved_models_def truthy_def)
qed simp

text \<open>The model list a driver saved is the one it has after a restart, models, order and moment, when the
  data class reads back what it wrote; a copy from another account or address leaves the list as it was.\<close>

lemma saved_list_reloads:
  assumes "reaches (listing_step k origin) empty_listing c"
    and "\<forall>m \<in> set (models c). valid_model k (dump_model k m) = Some m"
    and "\<forall>t. refreshed_at c = Some t \<longrightarrow> read_time k (show_time k t) = Some t"
  shows "load_copy k o' (Holds (Loaded (saved_copy k origin src c))) fresh =
    Inr (if o' = origin then fresh\<lparr>models := models c, by_id := by_id c, refreshed_at := refreshed_at c\<rparr> else fresh)"
proof -
  have sound: "listing_sound c" by (rule ct.reaches_inv [OF assms(1) empty_sound])
  obtain d where "saved_copy k origin src c = JObj d" "dget d ''origin'' = JStr origin"
      "saved_models k d = Some (models c, refreshed_at c)"
    using saved_models_of_copy [OF assms(2,3)] by blast
  moreover have "by_id c = map (\<lambda>m. (dm_id m, m)) (models c)" using sound by (simp add: listing_sound_def)
  ultimately show ?thesis by (simp add: load_copy_def set_models_def kept_models_same [OF sound])
qed

lemma saved_list_reloads_witness:
  "load_copy small_codec ''here'' (Holds (Loaded (saved_copy small_codec ''here'' ''openrouter'' read_once))) empty_listing
     = Inr read_once \<and>
   load_copy small_codec ''there'' (Holds (Loaded (saved_copy small_codec ''here'' ''openrouter'' read_once))) empty_listing
     = Inr empty_listing"
proof -
  have v: "\<forall>m \<in> set (models read_once). valid_model small_codec (dump_model small_codec m) = Some m"
    by (simp add: read_once_holds small_codec_def bare_model_def)
  have r: "\<forall>t. refreshed_at read_once = Some t \<longrightarrow> read_time small_codec (show_time small_codec t) = Some t"
    by (simp add: small_codec_def read_once_holds)
  have "read_once = empty_listing\<lparr>models := models read_once, by_id := by_id read_once,
      refreshed_at := refreshed_at read_once\<rparr>" by (rule listing.equality) (simp_all add: read_once_holds empty_listing_def)
  then show ?thesis
    using saved_list_reloads [OF read_once_reached v r, where o' = "''there''" and src = "''openrouter''" and fresh = empty_listing]
      saved_list_reloads [OF read_once_reached v r, where o' = "''here''" and src = "''openrouter''" and fresh = empty_listing] by simp
qed


subsection \<open>The listings laid over\<close>

lemma overlay_surfaces:
  assumes "overlay surface read lay rows m = Inr m'"
  shows "dm_id m' = dm_id m \<and> (surface \<in> set (dm_surfaces m') \<longleftrightarrow> dm_id m \<in> fst ` set rows) \<and>
    filter (\<lambda>s. s \<noteq> surface) (dm_surfaces m') = filter (\<lambda>s. s \<noteq> surface) (dm_surfaces m)"
proof (cases "map_of (rev rows) (dm_id m)")
  case None
  with assms have "m' = m\<lparr>dm_surfaces := filter (\<lambda>s. s \<noteq> surface) (dm_surfaces m),
      dm_caps := map_option (lay None) (dm_caps m)\<rparr>"
    by (simp add: overlay_def Let_def)
  with None show ?thesis by (simp add: map_of_eq_None_iff)
next
  case (Some e)
  then have "dm_id m \<in> fst ` set rows"
    by (metis domI dom_map_of_conv_image_fst set_rev)
  moreover from Some assms obtain k where "m' = m\<lparr>dm_surfaces := filter (\<lambda>s. s \<noteq> surface) (dm_surfaces m) @ [surface],
      dm_caps := k\<rparr>"
    by (auto simp: overlay_def Let_def and_then_def split: sum.splits)
  ultimately show ?thesis by simp
qed

text \<open>Laying over keeps the models in their places, and for each the listing decides about its surface and about
  no other.\<close>

definition decided_by :: "string \<Rightarrow> string set \<Rightarrow> driver_model \<Rightarrow> driver_model \<Rightarrow> bool" where
  "decided_by surface listed m m' \<longleftrightarrow>
     dm_id m' = dm_id m \<and> (surface \<in> set (dm_surfaces m') \<longleftrightarrow> dm_id m \<in> listed) \<and>
     filter (\<lambda>s. s \<noteq> surface) (dm_surfaces m') = filter (\<lambda>s. s \<noteq> surface) (dm_surfaces m)"

lemma overlay_all:
  assumes "collect (overlay surface read lay rows) ms = Inr ms'"
  shows "list_all2 (decided_by surface (fst ` set rows)) ms ms'"
  using assms overlay_surfaces [of surface read lay rows]
  unfolding collect_eq_Inr decided_by_def by (auto elim!: list_all2_mono)

lemma laid_over_images:
  assumes "rows_of ''OpenRouter's image model list'' body = Inr rows"
    and "with_openrouter_images ms body = Inr ms'"
  shows "list_all2 (decided_by ''image'' (fst ` set rows)) ms ms'"
  using assms by (auto simp: with_openrouter_images_def intro: overlay_all)

lemma laid_over_videos:
  assumes "rows_of ''OpenRouter's video model list'' body = Inr rows"
    and "with_openrouter_videos ou cents ms body = Inr ms'"
  shows "list_all2 (decided_by ''video'' (fst ` set rows)) ms ms'"
  using assms by (auto simp: with_openrouter_videos_def intro: overlay_all)

subsection \<open>When it is read again\<close>

lemma min_doubled:
  fixes r :: rat
  assumes "0 \<le> r" "0 \<le> i"
  shows "min (min (r * 2) i * 2 ^ n) i = min (r * 2 ^ Suc n) i"
proof (cases "r * 2 \<le> i")
  case True
  then show ?thesis by (simp add: min_def mult.assoc)
next
  case False
  have "(1::rat) \<le> 2 ^ n" by simp
  then have "i * 1 \<le> i * 2 ^ n" using assms(2) by (rule mult_left_mono)
  moreover have "i * 2 ^ n \<le> r * 2 * 2 ^ n" using False by (intro mult_right_mono) simp_all
  ultimately have "i \<le> r * 2 * 2 ^ n" by linarith
  then show ?thesis using False \<open>i * 1 \<le> i * 2 ^ n\<close> by (simp add: min_def mult.assoc)
qed

text \<open>While a list cannot be read the waits double from half a minute up to the interval, and the first success
  goes back to the interval.\<close>

lemma waits_double:
  assumes "0 \<le> retry" "0 \<le> interval"
  shows "waits retry (replicate n (False, interval) @ (True, interval) # later) =
    map (\<lambda>i. min (retry * 2 ^ i) interval) [0..<n] @ interval # waits FIRST_RETRY_SECONDS later"
  using assms
proof (induction n arbitrary: retry)
  case (Suc n)
  have "map (\<lambda>i. min (min (retry * 2) interval * 2 ^ i) interval) [0..<n] =
      map (\<lambda>i. min (retry * 2 ^ Suc i) interval) [0..<n]"
    by (intro map_cong refl min_doubled Suc.prems)
  moreover have "[0..<Suc n] = 0 # map Suc [0..<n]" by (simp add: upt_conv_Cons map_Suc_upt)
  ultimately show ?case using Suc.IH [of "min (retry * 2) interval"] Suc.prems
    by (simp del: upt_Suc power_Suc add: comp_def)
qed simp


subsection \<open>What a read list says of its models\<close>

text \<open>Of a model that was read its capabilities are known, nothing is said to be sent in vain, and a model whose
  provider fixes its sampler offers no sampler setting (LM Studio's own listing apart, which is of local models).\<close>

definition honest :: "dialect \<Rightarrow> (string \<Rightarrow> bool) \<Rightarrow> driver_model \<Rightarrow> bool" where
  "honest w fixed m \<longleftrightarrow>
     (case dm_caps m of
        None \<Rightarrow> False
      | Some k \<Rightarrow>
          cap_not_honoured k = None \<and>
          (catalogue w \<noteq> ''lmstudio'' \<and> fixed (or_id (dm_upstream m) (dm_id m)) \<longrightarrow>
             (\<forall>ss. cap_settings k = Some ss \<longrightarrow> set ss \<inter> set FIXED_SAMPLER_SETTINGS = {})))"

definition known :: "driver_model \<Rightarrow> bool" where
  "known m \<longleftrightarrow> (case dm_caps m of None \<Rightarrow> False | Some k \<Rightarrow> cap_not_honoured k = None)"

lemma honest_caps:
  assumes "dm_caps m = Some k" and "cap_not_honoured k = None" and "cap_settings k = Some ss"
    and "catalogue w \<noteq> ''lmstudio'' \<Longrightarrow> fixed (or_id (dm_upstream m) (dm_id m)) \<Longrightarrow>
      set ss \<inter> set FIXED_SAMPLER_SETTINGS = {}"
  shows "honest w fixed m"
  using assms by (simp add: honest_def)

lemma honest_fixed:
  assumes "known m"
  shows "honest (wire a) (fixes_temperature a) (with_fixed_temperature a m)"
proof -
  from assms obtain k where k: "dm_caps m = Some k" "cap_not_honoured k = None"
    by (auto simp: known_def split: option.splits)
  then show ?thesis by (auto simp: honest_def with_fixed_temperature_def with_caps_def)
qed

lemma honest_tools:
  assumes "honest w fixed m"
  shows "honest w fixed (with_chat_tools a m)"
proof -
  from assms obtain k where "dm_caps m = Some k" by (auto simp: honest_def split: option.splits)
  with assms show ?thesis
    by (cases "cap_settings k") (auto simp: honest_def with_chat_tools_def with_caps_def)
qed

lemma supported_not_fixed:
  "temperature_fixed t \<Longrightarrow> set (supported_for a t) \<inter> set FIXED_SAMPLER_SETTINGS = {}"
  by (auto simp: supported_for_def unsupported_settings_def Let_def FIXED_SAMPLER_SETTINGS_def split: if_splits)

lemma known_inherited: "known (inherited i d ss)"
  by (simp add: known_def inherited_def no_caps_def Let_def)

lemma known_with_caps:
  "known m \<Longrightarrow> (\<And>k. cap_not_honoured (f k) = cap_not_honoured k) \<Longrightarrow> known (with_caps f m)"
  by (auto simp: known_def with_caps_def split: option.splits)

lemma known_fields [simp]:
  "known (m\<lparr>dm_voices := v\<rparr>) = known m" "known (m\<lparr>dm_inputs := ins\<rparr>) = known m"
  "known (m\<lparr>dm_surfaces := ss\<rparr>) = known m"
  by (simp_all add: known_def)

lemma known_window: "known m \<Longrightarrow> known (with_window v m)"
  by (simp add: with_window_def known_with_caps split: option.split)

lemma with_id_Inr [simp]: "with_id m = Inr n \<longleftrightarrow> dm_id m \<noteq> [] \<and> n = m"
  by (auto simp: with_id_def)

lemma known_openai_row: "known (openai_row d f r)"
  by (simp add: openai_row_def Let_def case_prod_beta known_window known_with_caps known_inherited)

lemma known_lmstudio_row: "known (lmstudio_row d r)"
  by (simp add: lmstudio_row_def Let_def case_prod_beta known_window known_with_caps known_inherited)

lemma known_openrouter_row: "openrouter_row r = Inr m \<Longrightarrow> known m"
  by (auto simp: openrouter_row_def Let_def case_prod_beta and_then_eq_Inr known_def no_caps_def)

lemma known_overlay:
  assumes "overlay surface read lay rows m = Inr m'" and "known m"
    and "\<And>c k. cap_not_honoured (lay c k) = cap_not_honoured k"
  shows "known m'"
  using assms by (auto simp: overlay_def Let_def known_def and_then_eq_Inr split: option.splits)


lemma inherited_settings:
  "\<exists>k ss. dm_caps (inherited i d surfaces) = Some k \<and> cap_not_honoured k = None \<and> cap_settings k = Some ss \<and>
     (ss = [] \<or> ss = default_settings d)"
  by (simp add: inherited_def no_caps_def Let_def)

lemma ollama_settings:
  "\<exists>k ss. dm_caps (ollama_entry n shown d) = Some k \<and> cap_not_honoured k = None \<and> cap_settings k = Some ss \<and>
     (ss = [] \<or> ss = default_settings d)"
proof (cases "\<exists>e vs. shown = Some e \<and> dget e ''capabilities'' = JList vs")
  case True
  then show ?thesis by (auto simp: ollama_entry_def bare_model_def no_caps_def Let_def)
next
  case False
  then have "ollama_entry n shown d = inherited n d None"
    by (cases shown) (auto simp: ollama_entry_def split: json.split)
  then show ?thesis using inherited_settings [of n d None] by simp
qed

lemma honest_ollama:
  "honest (wire a) (fixes_temperature a) (ollama_entry n shown (engine_defaults_of a n))"
proof -
  let ?m = "ollama_entry n shown (engine_defaults_of a n)"
  let ?offered = "supported_for a \<lparr>target_id = [], upstream = n, temperature_fixed = fixes_temperature a n, entry = None\<rparr>"
  have fixed: "fixes_temperature a n \<Longrightarrow> set ?offered \<inter> set FIXED_SAMPLER_SETTINGS = {}"
    by (rule supported_not_fixed) simp
  have here: "dm_upstream ?m = None" "dm_id ?m = n"
    by (simp_all add: ollama_entry_def inherited_def bare_model_def Let_def split: option.split json.split)
  from ollama_settings [of n shown "engine_defaults_of a n"] obtain k ss
    where "dm_caps ?m = Some k" "cap_not_honoured k = None" "cap_settings k = Some ss" "ss = [] \<or> ss = ?offered"
    by (auto simp: engine_defaults_of_def)
  moreover have "or_id (dm_upstream ?m) (dm_id ?m) = n" by (simp add: here or_id_def given_def)
  ultimately show ?thesis using fixed by (cases "fixes_temperature a n") (auto intro!: honest_caps)
qed

lemma collect_set:
  assumes "collect f xs = Inr ys" and "y \<in> set ys"
  obtains x where "x \<in> set xs" "f x = Inr y"
proof -
  from assms(2) obtain i where "i < length ys" "y = ys ! i" by (auto simp: in_set_conv_nth)
  with assms(1) have "f (xs ! i) = Inr y" "xs ! i \<in> set xs"
    by (simp_all add: collect_eq_Inr list_all2_conv_all_nth)
  with that show thesis by blast
qed

lemma known_openrouter: "from_openrouter dates now body = Inr ms \<Longrightarrow> m \<in> set ms \<Longrightarrow> known m"
  by (auto simp: from_openrouter_def and_then_eq_Inr elim!: collect_set intro: known_openrouter_row)

lemma known_openai_list: "from_openai_list dates now body d f = Inr ms \<Longrightarrow> m \<in> set ms \<Longrightarrow> known m"
  by (auto simp: from_openai_list_def and_then_eq_Inr elim!: collect_set intro: known_openai_row)

lemma known_overlays:
  assumes "collect (overlay surface read lay rows) ms = Inr ms'" and "\<forall>m \<in> set ms. known m"
    and "\<And>c k. cap_not_honoured (lay c k) = cap_not_honoured k"
  shows "\<forall>m \<in> set ms'. known m"
proof
  fix m assume "m \<in> set ms'"
  with assms(1) obtain n where "n \<in> set ms" "overlay surface read lay rows n = Inr m" by (elim collect_set)
  with assms(2) show "known m" by (auto elim: known_overlay simp: assms(3))
qed

lemma known_images:
  assumes "with_openrouter_images ms body = Inr ms'" and "\<forall>m \<in> set ms. known m"
  shows "\<forall>m \<in> set ms'. known m"
proof -
  from assms(1) obtain rows where "collect (overlay ''image'' openrouter_image_caps put_image rows) ms = Inr ms'"
    by (auto simp: with_openrouter_images_def and_then_eq_Inr)
  then show ?thesis using assms(2) by (rule known_overlays) (simp add: put_image_def)
qed

lemma known_videos:
  assumes "with_openrouter_videos ou cents ms body = Inr ms'" and "\<forall>m \<in> set ms. known m"
  shows "\<forall>m \<in> set ms'. known m"
proof -
  from assms(1) obtain rows where "collect (overlay ''video'' (openrouter_video_caps ou cents) put_video rows) ms = Inr ms'"
    by (auto simp: with_openrouter_videos_def and_then_eq_Inr)
  then show ?thesis using assms(2) by (rule known_overlays) (simp add: put_video_def)
qed

lemma laid_over_cases:
  assumes "laid_over r lay ms = Inr ms'"
  shows "ms' = ms \<or> (\<exists>body. lay ms body = Inr ms')"
proof (cases r)
  case (Inl f)
  with assms show ?thesis by (cases f) (simp_all add: laid_over_def)
qed (use assms in \<open>auto simp: laid_over_def\<close>)

lemma honest_openai:
  assumes "openai_catalogue p a = Inr ms" and "m \<in> set ms"
  shows "honest (wire a) (fixes_temperature a) m"
  using assms
  by (auto simp: openai_catalogue_def and_then_eq_Inr intro!: honest_tools honest_fixed elim: known_openai_list)

lemma honest_lmstudio: "catalogue w = ''lmstudio'' \<Longrightarrow> known m \<Longrightarrow> honest w fixed m"
  by (auto simp: honest_def known_def split: option.splits)

lemma fetched_honest:
  assumes "fetch_catalogue p a = Inr ms" and m: "m \<in> set ms"
  shows "honest (wire a) (fixes_temperature a) m"
proof -
  consider "catalogue (wire a) = ''openrouter''" | "catalogue (wire a) = ''ollama''"
    | "catalogue (wire a) = ''lmstudio''"
    | "catalogue (wire a) \<notin> {''openrouter'', ''ollama'', ''lmstudio''}" by blast
  then show ?thesis
  proof cases
    case 1
    with assms(1) obtain body first second third where
      first: "from_openrouter (date_of p) (today p) body = Inr first"
      and second: "laid_over (read_list ''openrouter'' (list_at_path p ''/v1/images/models'')) with_openrouter_images first = Inr second"
      and third: "laid_over (read_list ''openrouter'' (list_at_path p ''/v1/videos/models''))
        (with_openrouter_videos (outside_of p) (hundredth p)) second = Inr third"
      and ms: "ms = map (with_fixed_temperature a) third"
      by (auto simp: fetch_catalogue_def Let_def and_then_eq_Inr)
    have "\<forall>m \<in> set first. known m" using known_openrouter [OF first] by blast
    then have "\<forall>m \<in> set second. known m" using laid_over_cases [OF second] by (blast dest: known_images)
    then have "\<forall>m \<in> set third. known m" using laid_over_cases [OF third] by (blast dest: known_videos)
    with m ms show ?thesis by (auto intro: honest_fixed)
  next
    case 2
    with assms show ?thesis
      by (auto simp: fetch_catalogue_def Let_def and_then_eq_Inr elim!: collect_set intro!: honest_ollama)
  next
    case 3
    with assms have "openai_catalogue p a = Inr ms \<or> (\<exists>body. from_lmstudio body (engine_defaults_of a []) = Inr ms)"
      by (auto simp: fetch_catalogue_def Let_def and_then_eq_Inr split: sum.splits read_fault.splits)
    then show ?thesis
    proof
      assume "openai_catalogue p a = Inr ms"
      then show ?thesis using m by (rule honest_openai)
    next
      assume "\<exists>body. from_lmstudio body (engine_defaults_of a []) = Inr ms"
      then have "known m"
        using m by (auto simp: from_lmstudio_def and_then_eq_Inr known_lmstudio_row elim!: collect_set)
      then show ?thesis by (rule honest_lmstudio [OF 3])
    qed
  next
    case 4
    with assms show ?thesis by (auto simp: fetch_catalogue_def Let_def intro: honest_openai)
  qed
qed


subsection \<open>The account the adapter answers from\<close>

text \<open>What of a listed model the adapter's checks read, and the adapter with a list and its patterns as its account.\<close>

definition listed_of :: "driver_model \<Rightarrow> listed_model" where
  "listed_of m =
     \<lparr>listed_id = dm_id m, listed_upstream = dm_upstream m, answers = dm_surfaces m,
      model_caps = map_option (\<lambda>k. \<lparr>offered = cap_settings k, calls_tools = cap_tools k,
        not_honoured = cap_not_honoured k\<rparr>) (dm_caps m)\<rparr>"

definition account_of :: "string list \<times> string list \<Rightarrow> listing \<Rightarrow> adapter \<Rightarrow> adapter" where
  "account_of pats c a =
     a\<lparr>account := Some (find_model listed_of pats c, length (exposed listed_of pats c))\<rparr>"

text \<open>The life of an account's list: it is read from its provider, whatever comes of it, and saved and loaded.\<close>

inductive account_step :: "codec \<Rightarrow> string \<Rightarrow> string \<Rightarrow> dialect \<Rightarrow> (string \<Rightarrow> bool) \<Rightarrow> listing \<Rightarrow> listing \<Rightarrow> bool"
  for k origin src w fixed
where
  account_read: "wire b = w \<Longrightarrow> fixes_temperature b = fixed \<Longrightarrow>
    account_step k origin src w fixed c (snd (refresh (fetch_catalogue p b) now c))"
| account_restart: "\<forall>m \<in> set (models c). valid_model k (dump_model k m) = Some m \<Longrightarrow>
    load_copy k origin (Holds (Loaded (saved_copy k origin src c))) empty_listing = Inr c' \<Longrightarrow>
    account_step k origin src w fixed c c'"

definition account_sound :: "dialect \<Rightarrow> (string \<Rightarrow> bool) \<Rightarrow> listing \<Rightarrow> bool" where
  "account_sound w fixed c \<longleftrightarrow> listing_sound c \<and> (\<forall>m \<in> set (models c). honest w fixed m)"

lemma honest_served: "honest w fixed (served_by_account m) = honest w fixed m"
  by (cases "dm_caps m") (simp_all add: honest_def served_by_account_def)

lemma kept_models_honest: "\<forall>m \<in> set ms. honest w fixed m \<Longrightarrow> \<forall>m \<in> set (kept_models ms). honest w fixed m"
  using kept_models_served honest_served by metis

lemma account_step_sound:
  assumes "account_sound w fixed c" and "account_step k origin src w fixed c c'"
  shows "account_sound w fixed c'"
  using assms(2)
proof cases
  case (account_read b p now)
  show ?thesis
  proof (cases "fetch_catalogue p b")
    case (Inl f)
    with assms(1) show ?thesis by (simp add: account_read(1) account_sound_def listing_sound_def refresh_def)
  next
    case (Inr ms)
    with account_read have "\<forall>m \<in> set ms. honest w fixed m" using fetched_honest by blast
    then have "\<forall>m \<in> set (models c'). honest w fixed m"
      using kept_models_honest by (simp add: account_read(1) Inr refresh_def set_models_kept)
    moreover have "listing_sound c'"
      using assms(1) by (simp add: account_read(1) account_sound_def refresh_sound)
    ultimately show ?thesis by (simp add: account_sound_def)
  qed
next
  case account_restart
  obtain d where d: "saved_copy k origin src c = JObj d"
      "dget d ''models'' = JList (map (dump_model k) (models c))" "dget d ''origin'' = JStr origin"
    by (simp add: saved_copy_def)
  have "those (map (valid_model k) (if models c = [] then [] else map (dump_model k) (models c))) = Some (models c)"
    using those_map_Some [of "models c" "valid_model k" "dump_model k"] account_restart(1) by simp
  then have "saved_models k d = (case dget d ''refreshedAt'' of
        JStr t \<Rightarrow> map_option (\<lambda>tm. (models c, Some tm)) (read_time k t)
      | _ \<Rightarrow> Some (models c, None))"
    by (cases "models c") (simp_all add: saved_models_def d(2) truthy_def cong: json.case_cong)
  then have "saved_models k d = Some (ms, t) \<Longrightarrow> ms = models c" for ms t
    by (auto split: json.splits)
  then have "c' = empty_listing \<or> (\<exists>t. c' = set_models (models c) t empty_listing)"
    using account_restart(2) d(1,3) by (auto simp: load_copy_def split: option.splits)
  then show ?thesis
    using assms(1) set_models_sound empty_sound
    by (auto simp: account_sound_def set_models_kept kept_models_same) (simp add: empty_listing_def)
qed

interpretation acct: step_system "account_step k origin src w fixed" "account_sound w fixed" for k origin src w fixed
  by unfold_locales (rule account_step_sound)

lemma account_listing_ok:
  assumes "account_sound (wire a) (fixes_temperature a) c"
  shows "listing_ok (account_of pats c a)"
  unfolding listing_ok_def
proof (intro allI impI)
  fix f n i m caps
  assume "account (account_of pats c a) = Some (f, n)" and "f i = Some m" and caps: "model_caps m = Some caps"
  then have "find_model listed_of pats c i = Some m" by (simp add: account_of_def)
  then obtain d where "d \<in> set (models c)" "m = listed_of d"
    using assms by (auto simp: find_model_iff account_sound_def)
  with caps assms show "not_honoured caps = None"
    by (auto simp: account_sound_def listed_of_def honest_def split: option.splits)
qed

text \<open>A driver that answers: one of a single model, or one whose account's list was read from its provider.\<close>

definition running :: "adapter \<Rightarrow> bool" where
  "running a \<longleftrightarrow>
     account a = None \<or>
     (\<exists>b c pats k origin src. reaches (account_step k origin src (wire b) (fixes_temperature b)) empty_listing c \<and>
        a = account_of pats c b)"

lemma running_listing_ok:
  assumes "running a"
  shows "listing_ok a"
proof (cases "account a = None")
  case True
  then show ?thesis by (simp add: listing_ok_def)
next
  case False
  with assms obtain b c pats k origin src where
    "reaches (account_step k origin src (wire b) (fixes_temperature b)) empty_listing c" "a = account_of pats c b"
    by (auto simp: running_def)
  moreover have "account_sound (wire b) (fixes_temperature b) empty_listing"
    using empty_sound by (simp add: account_sound_def empty_listing_def)
  ultimately show ?thesis using acct.reaches_inv account_listing_ok by blast
qed


lemma running_chat_target:
  assumes "running a" and "resolve_model a asked = Inr t"
    and "\<And>e. entry t = Some e \<Longrightarrow> ''chat'' \<in> set (answers e)"
  shows "chat_target t"
proof (cases "entry t")
  case None
  then show ?thesis by (simp add: chat_target_def)
next
  case (Some e)
  with resolve_entry [OF assms(2)] obtain f n i m where m: "account a = Some (f, n)" "f i = Some m" "e = served_view a m"
    by auto
  with assms(1) obtain b c pats k origin src where
    c: "reaches (account_step k origin src (wire b) (fixes_temperature b)) empty_listing c" and a: "a = account_of pats c b"
    by (auto simp: running_def)
  have sound: "account_sound (wire b) (fixes_temperature b) c"
    by (rule acct.reaches_inv [OF c]) (use empty_sound in \<open>simp add: account_sound_def empty_listing_def\<close>)
  from m a have "find_model listed_of pats c i = Some m" by (simp add: account_of_def)
  then obtain d where "d \<in> set (models c)" "m = listed_of d"
    using sound by (auto simp: find_model_iff account_sound_def)
  then have "model_caps m \<noteq> None"
    using sound by (auto simp: account_sound_def honest_def listed_of_def split: option.splits)
  then have "model_caps e \<noteq> None" using m(3) by (auto simp: served_view_def Let_def)
  then show ?thesis using assms(3) Some by (simp add: chat_target_def)
qed


text \<open>The account of the demonstration, read from OpenRouter.\<close>

definition demo_listing_body :: json where
  "demo_listing_body = JObj [(''data'', JList [JObj [(''id'', JStr ''m''),
     (''architecture'', JObj [(''output_modalities'', JList [JStr ''text''])]),
     (''supported_parameters'', JList [JStr ''tools'', JStr ''seed''])]])]"

definition demo_provider :: "outside \<Rightarrow> provider" where
  "demo_provider ou =
     \<lparr>list_at_path = (\<lambda>path. if path = ''/v1/models/user?output_modalities=all''
        then Inr \<lparr>l_status = 200, l_text = [], l_json = Loaded demo_listing_body\<rparr> else Inl ''ConnectError()''),
      show_model = (\<lambda>_. Inl []), date_of = (\<lambda>_. None), today = 0, outside_of = ou, hundredth = (\<lambda>x. x),
      sorts_models = False\<rparr>"

definition demo_model :: driver_model where
  "demo_model = (bare_model ''m'')\<lparr>dm_surfaces := [''chat''], dm_outputs := Some [''text''],
     dm_caps := Some (no_caps\<lparr>cap_settings := Some [''seed'', ''tools''], cap_streaming := Some True,
       cap_image_in := Some False, cap_audio_in := Some False, cap_file_in := Some False, cap_audio_out := Some False,
       cap_tools := Some True\<rparr>)\<rparr>"

lemma demo_fetched: "fetch_catalogue (demo_provider ou) demo_account = Inr [demo_model]"
  by code_simp


definition demo_list :: listing where
  "demo_list = \<lparr>models = [demo_model], by_id = [(''m'', demo_model)], refreshed_at = Some 7, read_error = None\<rparr>"

lemma demo_list_read: "snd (refresh (Inr [demo_model]) 7 empty_listing) = demo_list"
  by (simp add: refresh_def set_models_def kept_models_def served_by_account_def NOT_SERVED_BY_ACCOUNTS_def
    demo_list_def demo_model_def bare_model_def empty_listing_def)

lemma demo_list_reached:
  "reaches (account_step k origin src (wire demo_account) (fixes_temperature demo_account)) empty_listing demo_list"
proof (rule reaches_step [OF reaches_refl])
  show "account_step k origin src (wire demo_account) (fixes_temperature demo_account) empty_listing demo_list"
    using account_read [of demo_account "wire demo_account" "fixes_temperature demo_account" k origin src empty_listing
      "demo_provider ou" 7 for ou] by (simp add: demo_fetched demo_list_read)
qed

lemma demo_running: "running demo_account"
proof -
  have "find_model listed_of ([''*''], []) demo_list = (\<lambda>i. if i = ''m'' then Some demo_listed else None)"
    by (rule ext) (simp add: find_model_def demo_list_def exposed_by_def matches_def listed_of_def demo_listed_def
      demo_model_def bare_model_def no_caps_def)
  moreover have "length (exposed listed_of ([''*''], []) demo_list) = 1"
    by (simp add: exposed_def demo_list_def exposed_by_def matches_def)
  ultimately have "demo_account = account_of ([''*''], []) demo_list demo_account"
    by (simp add: account_of_def demo_account_def)
  then show ?thesis using demo_list_reached unfolding running_def by blast
qed



end
