(* ===== verification/Audio_Out.thy ===== *)
theory Audio_Out
  imports Py_Bytes
begin

text \<open>
  A spoken answer (\<open>audio_out.py\<close>): what the bytes of a stream are, the fragments a streamed caller is
  sent, and the whole clip a non-streamed caller gets of the same fragments.
\<close>

subsection \<open>What the bytes are\<close>

datatype audio_format = Wav | Mp3 | Pcm16

definition PCM16_RATE :: nat where "PCM16_RATE = 24000"
definition PCM16_CHANNELS :: nat where "PCM16_CHANNELS = 1"
definition PCM16_BITS :: nat where "PCM16_BITS = 16"

text \<open>Layer III bitrates by index, for MPEG-1 and the others, and sample rates by version.\<close>

definition MP3_KBPS :: "bool \<Rightarrow> nat list" where
  "MP3_KBPS mpeg1 =
     (if mpeg1 then [0, 32, 40, 48, 56, 64, 80, 96, 112, 128, 160, 192, 224, 256, 320]
      else [0, 8, 16, 24, 32, 40, 48, 56, 64, 80, 96, 112, 128, 144, 160])"

definition MP3_RATES :: "byte \<Rightarrow> nat list" where
  "MP3_RATES version =
     (if version = 3 then [44100, 48000, 32000]
      else if version = 2 then [22050, 24000, 16000] else [11025, 12000, 8000])"

definition mp3_frame_length :: "bytes \<Rightarrow> nat \<Rightarrow> nat option" where
  "mp3_frame_length raw pos =
     (if length raw < pos + 4 \<or> raw ! pos \<noteq> 0xFF \<or> raw ! (pos + 1) AND 0xE0 \<noteq> 0xE0 then None
      else
        let version = drop_bit 3 (raw ! (pos + 1)) AND 3;
            layer = drop_bit 1 (raw ! (pos + 1)) AND 3;
            rate_index = drop_bit 2 (raw ! (pos + 2)) AND 3;
            bitrate_index = drop_bit 4 (raw ! (pos + 2))
        in if version = 1 \<or> layer \<noteq> 1 \<or> rate_index = 3 \<or> bitrate_index = 0 \<or> bitrate_index = 15 then None
           else
             let kbps = MP3_KBPS (version = 3) ! unat bitrate_index;
                 rate = MP3_RATES version ! unat rate_index;
                 padding = unat (drop_bit 1 (raw ! (pos + 2)) AND 1)
             in Some ((if version = 3 then 144 else 72) * kbps * 1000 div rate + padding))"

definition detect_format :: "bytes \<Rightarrow> audio_format" where
  "detect_format raw =
     (if take 3 raw = ascii ''ID3'' then Mp3
      else if (case mp3_frame_length raw 0 of
                 None \<Rightarrow> False | Some n \<Rightarrow> mp3_frame_length raw n \<noteq> None) then Mp3
      else if take 4 raw = ascii ''RIFF'' \<and> take 4 (drop 8 raw) = ascii ''WAVE'' then Wav
      else Pcm16)"

text \<open>\<open>None\<close> where \<open>struct.pack\<close> raises.\<close>

definition wav_from_pcm16 :: "bytes \<Rightarrow> bytes option" where
  "wav_from_pcm16 samples =
     (let block = PCM16_CHANNELS * PCM16_BITS div 8
      in case (pack_I (36 + length samples), pack_I 16, pack_H 1, pack_H PCM16_CHANNELS, pack_I PCM16_RATE,
               pack_I (PCM16_RATE * block), pack_H block, pack_H PCM16_BITS, pack_I (length samples)) of
           (Some len, Some a, Some b, Some c, Some d, Some e, Some f, Some g, Some data) \<Rightarrow>
             Some (ascii ''RIFF'' @ len @ ascii ''WAVEfmt '' @ a @ b @ c @ d @ e @ f @ g @
                   ascii ''data'' @ data @ samples)
         | _ \<Rightarrow> None)"

subsection \<open>The fragments of an answer\<close>

record assembly =
  keeps :: bool
  data :: "bytes list"
  transcript :: "string list"
  audio_id :: "string option"
  expires_at :: "int option"
  audio_fmt :: "audio_format option"

definition new_assembly :: "bool \<Rightarrow> assembly" where
  "new_assembly keep =
     \<lparr>keeps = keep, data = [], transcript = [], audio_id = None, expires_at = None, audio_fmt = None\<rparr>"

record audio_delta =
  d_data :: "string option"
  d_format :: "audio_format option"
  d_id :: "string option"
  d_transcript :: "string option"
  d_expires :: "int option"

definition nothing_delta :: audio_delta where
  "nothing_delta = \<lparr>d_data = None, d_format = None, d_id = None, d_transcript = None, d_expires = None\<rparr>"

definition heard :: "assembly \<Rightarrow> bool" where
  "heard a \<longleftrightarrow> audio_fmt a \<noteq> None \<or> transcript a \<noteq> []"

definition feed_id :: "dict \<Rightarrow> assembly \<times> audio_delta \<Rightarrow> assembly \<times> audio_delta" where
  "feed_id raw = (\<lambda>(a, d).
     case dget raw ''id'' of
       JStr i \<Rightarrow> if audio_id a = None then (a\<lparr>audio_id := Some i\<rparr>, d\<lparr>d_id := Some i\<rparr>) else (a, d)
     | _ \<Rightarrow> (a, d))"

definition feed_expires :: "dict \<Rightarrow> assembly \<times> audio_delta \<Rightarrow> assembly \<times> audio_delta" where
  "feed_expires raw = (\<lambda>(a, d).
     case dget raw ''expires_at'' of
       JInt n \<Rightarrow> if expires_at a = None then (a\<lparr>expires_at := Some n\<rparr>, d\<lparr>d_expires := Some n\<rparr>) else (a, d)
     | _ \<Rightarrow> (a, d))"

definition feed_transcript :: "dict \<Rightarrow> assembly \<times> audio_delta \<Rightarrow> assembly \<times> audio_delta" where
  "feed_transcript raw = (\<lambda>(a, d).
     case dget raw ''transcript'' of
       JStr (c # cs) \<Rightarrow> (a\<lparr>transcript := transcript a @ [c # cs]\<rparr>, d\<lparr>d_transcript := Some (c # cs)\<rparr>)
     | _ \<Rightarrow> (a, d))"

text \<open>\<open>Inl\<close> is the \<open>ValueError\<close> of a fragment that is not base64.\<close>

definition feed_data :: "dict \<Rightarrow> assembly \<times> audio_delta \<Rightarrow> string + assembly \<times> audio_delta" where
  "feed_data raw = (\<lambda>(a, d).
     case dget raw ''data'' of
       JStr (c # cs) \<Rightarrow>
         (case b64decode (c # cs) of
            None \<Rightarrow> Inl ''the backend sent an audio fragment that is not base64''
          | Some decoded \<Rightarrow>
              let (a, d) = (if audio_fmt a = None
                     then (a\<lparr>audio_fmt := Some (detect_format decoded)\<rparr>,
                           d\<lparr>d_format := Some (detect_format decoded)\<rparr>)
                     else (a, d));
                  a = (if keeps a then a\<lparr>data := data a @ [decoded]\<rparr> else a)
              in Inr (a, d\<lparr>d_data := Some (c # cs)\<rparr>))
     | _ \<Rightarrow> Inr (a, d))"

definition feed_audio :: "json \<Rightarrow> assembly \<Rightarrow> string + assembly \<times> audio_delta option" where
  "feed_audio raw a =
     (case raw of
        JObj r \<Rightarrow>
          and_then (feed_data r (feed_transcript r (feed_expires r (feed_id r (a, nothing_delta))))) (\<lambda>(a, d).
            Inr (a, if d = nothing_delta then None else Some d))
      | _ \<Rightarrow> Inr (a, None))"

record generated_audio =
  g_data :: string
  g_format :: audio_format
  g_id :: "string option"
  g_transcript :: "string option"
  g_expires :: "int option"

text \<open>\<open>Inl\<close> is the error of a clip too long for a WAV header.\<close>

definition clip :: "assembly \<Rightarrow> audio_format \<Rightarrow> string + generated_audio option" where
  "clip a asked =
     (if \<not> heard a then Inr None
      else
        let raw = concat (data a);
            fmt = (case audio_fmt a of None \<Rightarrow> Pcm16 | Some f \<Rightarrow> f)
        in and_then (if fmt = Pcm16 \<and> asked = Wav
                     then and_then (from_option ''struct.error'' (wav_from_pcm16 raw)) (\<lambda>w. Inr (w, Wav))
                     else Inr (raw, fmt)) (\<lambda>(raw, fmt).
             Inr (Some \<lparr>g_data = b64encode raw, g_format = fmt, g_id = audio_id a,
                    g_transcript = (if concat (transcript a) = [] then None else Some (concat (transcript a))),
                    g_expires = expires_at a\<rparr>)))"

text \<open>The frames of one answer in order, with the deltas a streamed caller is sent.\<close>

fun feed_all :: "json list \<Rightarrow> assembly \<Rightarrow> string + assembly \<times> audio_delta list" where
  "feed_all [] a = Inr (a, [])"
| "feed_all (r # rs) a =
     and_then (feed_audio r a) (\<lambda>(a', d).
     and_then (feed_all rs a') (\<lambda>(a'', ds). Inr (a'', (case d of None \<Rightarrow> ds | Some x \<Rightarrow> x # ds))))"

subsection \<open>A WAV file\<close>

definition u32_at :: "nat \<Rightarrow> bytes \<Rightarrow> nat" where
  "u32_at n bs = le_value (take 4 (drop n bs))"

lemma ascii_length [simp]: "length (ascii s) = length s"
  by (simp add: ascii_def)

lemma wav_shape:
  assumes "36 + length samples < 2 ^ 32"
  obtains fmt where "wav_from_pcm16 samples = Some (ascii ''RIFF'' @ le_bytes 4 (36 + length samples) @
      ascii ''WAVEfmt '' @ fmt @ ascii ''data'' @ le_bytes 4 (length samples) @ samples)"
    and "length fmt = 20"
proof -
  have p: "pack_I (36 + length samples) = Some (le_bytes 4 (36 + length samples))"
    "pack_I (length samples) = Some (le_bytes 4 (length samples))"
    using assms by (simp_all add: pack_I_def)
  have q: "pack_I 16 = Some (le_bytes 4 16)" "pack_H 1 = Some (le_bytes 2 1)"
    "pack_H PCM16_CHANNELS = Some (le_bytes 2 PCM16_CHANNELS)" "pack_I PCM16_RATE = Some (le_bytes 4 PCM16_RATE)"
    "pack_I (PCM16_RATE * (PCM16_CHANNELS * PCM16_BITS div 8)) =
       Some (le_bytes 4 (PCM16_RATE * (PCM16_CHANNELS * PCM16_BITS div 8)))"
    "pack_H (PCM16_CHANNELS * PCM16_BITS div 8) = Some (le_bytes 2 (PCM16_CHANNELS * PCM16_BITS div 8))"
    "pack_H PCM16_BITS = Some (le_bytes 2 PCM16_BITS)"
    by (simp_all add: pack_I_def pack_H_def PCM16_RATE_def PCM16_CHANNELS_def PCM16_BITS_def)
  let ?fmt = "le_bytes 4 16 @ le_bytes 2 1 @ le_bytes 2 PCM16_CHANNELS @ le_bytes 4 PCM16_RATE @
        le_bytes 4 (PCM16_RATE * (PCM16_CHANNELS * PCM16_BITS div 8)) @
        le_bytes 2 (PCM16_CHANNELS * PCM16_BITS div 8) @ le_bytes 2 PCM16_BITS"
  have "wav_from_pcm16 samples = Some (ascii ''RIFF'' @ le_bytes 4 (36 + length samples) @
      ascii ''WAVEfmt '' @ ?fmt @ ascii ''data'' @ le_bytes 4 (length samples) @ samples)"
    unfolding wav_from_pcm16_def Let_def p q by simp
  moreover have "length ?fmt = 20" by simp
  ultimately show ?thesis by (rule that)
qed

lemma wav_None: "wav_from_pcm16 samples = None \<longleftrightarrow> 2 ^ 32 \<le> 36 + length samples"
proof
  assume "wav_from_pcm16 samples = None"
  then show "2 ^ 32 \<le> 36 + length samples" using wav_shape [of samples] by (metis not_less option.distinct(1))
next
  assume "2 ^ 32 \<le> 36 + length samples"
  then have "pack_I (36 + length samples) = None" by (simp add: pack_I_def)
  then show "wav_from_pcm16 samples = None" by (simp add: wav_from_pcm16_def)
qed

text \<open>The header is 44 bytes, its lengths are those of the file, the samples follow it, and the bytes are
  recognised as a WAV.\<close>

lemma wav_readable:
  assumes "wav_from_pcm16 samples = Some w"
  shows "length w = 44 + length samples \<and> u32_at 4 w = length w - 8 \<and> u32_at 40 w = length samples \<and>
    drop 44 w = samples \<and> detect_format w = Wav"
proof -
  have len: "36 + length samples < 2 ^ 32" using assms wav_None [of samples] by (simp add: not_le [symmetric])
  obtain fmt where w: "w = ascii ''RIFF'' @ le_bytes 4 (36 + length samples) @
      ascii ''WAVEfmt '' @ fmt @ ascii ''data'' @ le_bytes 4 (length samples) @ samples"
    and f: "length fmt = 20" using wav_shape [OF len] assms by (metis option.inject)
  have "le_value (le_bytes 4 (36 + length samples)) = 36 + length samples"
    "le_value (le_bytes 4 (length samples)) = length samples"
    using len by (intro le_round_trip; simp)+
  then have parts: "length w = 44 + length samples" "u32_at 4 w = length w - 8" "u32_at 40 w = length samples"
    "drop 44 w = samples" "take 4 w = ascii ''RIFF''" "take 4 (drop 8 w) = ascii ''WAVE''"
    unfolding w u32_at_def using f by (simp_all add: ascii_def)
  have "take 3 w \<noteq> ascii ''ID3''" "w ! 0 \<noteq> 0xFF"
    unfolding w by (simp_all add: ascii_def)
  then have "detect_format w = Wav"
    using parts(5,6) by (simp add: detect_format_def mp3_frame_length_def)
  with parts show ?thesis by blast
qed

subsection \<open>The clip and the stream\<close>

text \<open>What a streamed caller makes of its deltas: the bytes to play, the words, and the first value of a field.\<close>

definition delta_bytes :: "audio_delta \<Rightarrow> bytes" where
  "delta_bytes d = (case d_data d of None \<Rightarrow> [] | Some s \<Rightarrow> (case b64decode s of None \<Rightarrow> [] | Some b \<Rightarrow> b))"

definition played :: "audio_delta list \<Rightarrow> bytes" where
  "played ds = concat (map delta_bytes ds)"

definition spoken :: "audio_delta list \<Rightarrow> string" where
  "spoken ds = concat (map (\<lambda>d. case d_transcript d of None \<Rightarrow> [] | Some t \<Rightarrow> t) ds)"

definition or_else :: "'a option \<Rightarrow> 'a option \<Rightarrow> 'a option" where
  "or_else x y = (case x of None \<Rightarrow> y | Some v \<Rightarrow> Some v)"

definition announced :: "(audio_delta \<Rightarrow> 'a option) \<Rightarrow> audio_delta list \<Rightarrow> 'a option" where
  "announced f ds = foldr (\<lambda>d. or_else (f d)) ds None"

definition times_said :: "(audio_delta \<Rightarrow> 'a option) \<Rightarrow> audio_delta list \<Rightarrow> nat" where
  "times_said f ds = length (filter (\<lambda>d. f d \<noteq> None) ds)"

text \<open>How a field that is said once relates an assembly before, its deltas and the assembly after.\<close>

definition said_once :: "'a option \<Rightarrow> (audio_delta \<Rightarrow> 'a option) \<Rightarrow> audio_delta list \<Rightarrow> 'a option \<Rightarrow> bool" where
  "said_once x f ds y \<longleftrightarrow> y = or_else x (announced f ds) \<and> times_said f ds \<le> (if x = None then 1 else 0)"

lemma or_else_simps [simp]: "or_else None y = y" "or_else (Some v) y = Some v" "or_else x None = x"
  by (simp_all add: or_else_def split: option.splits)

lemma or_else_assoc: "or_else (or_else x y) z = or_else x (or_else y z)"
  by (cases x) simp_all

lemma said_once_append:
  assumes "said_once x f ds y" and "said_once y f es z"
  shows "said_once x f (ds @ es) z"
proof -
  have "announced f (ds @ es) = or_else (announced f ds) (announced f es)"
    by (induction ds) (simp_all add: announced_def or_else_assoc)
  moreover have "times_said f ds = 0 \<Longrightarrow> announced f ds = None"
    by (induction ds) (auto simp: times_said_def announced_def split: if_splits)
  moreover have "announced f ds = None \<Longrightarrow> times_said f ds = 0"
    by (induction ds) (auto simp: times_said_def announced_def or_else_def split: option.splits)
  ultimately show ?thesis
    using assms by (cases x; cases "announced f ds") (auto simp: said_once_def times_said_def)
qed

definition feeds :: "assembly \<Rightarrow> audio_delta list \<Rightarrow> assembly \<Rightarrow> bool" where
  "feeds a ds a' \<longleftrightarrow>
     keeps a' = keeps a \<and>
     concat (data a') = concat (data a) @ (if keeps a then played ds else []) \<and>
     concat (transcript a') = concat (transcript a) @ spoken ds \<and>
     said_once (audio_fmt a) d_format ds (audio_fmt a') \<and>
     said_once (audio_id a) d_id ds (audio_id a') \<and>
     said_once (expires_at a) d_expires ds (expires_at a')"

definition delta_list :: "audio_delta option \<Rightarrow> audio_delta list" where
  "delta_list d = (case d of None \<Rightarrow> [] | Some x \<Rightarrow> [x])"

lemma feeds_trans: "feeds a ds b \<Longrightarrow> feeds b es c \<Longrightarrow> feeds a (ds @ es) c"
  by (auto simp: feeds_def played_def spoken_def intro: said_once_append)

lemma said_once_one: "said_once x f [d] y \<longleftrightarrow> y = or_else x (f d) \<and> (x = None \<or> f d = None)"
  by (auto simp: said_once_def announced_def times_said_def)

lemma feeds_nothing: "feeds a [nothing_delta] a' \<longleftrightarrow> feeds a [] a'"
  by (simp add: feeds_def nothing_delta_def played_def spoken_def delta_bytes_def said_once_def
      announced_def times_said_def)

lemma feed_audio_feeds:
  assumes "feed_audio r a = Inr (a', d)"
  shows "feeds a (delta_list d) a'"
proof (cases r)
  case (JObj o')
  obtain a1 d1 where 1: "feed_id o' (a, nothing_delta) = (a1, d1)" by force
  obtain a2 d2 where 2: "feed_expires o' (a1, d1) = (a2, d2)" by force
  obtain a3 d3 where 3: "feed_transcript o' (a2, d2) = (a3, d3)" by force
  obtain d4 where 4: "feed_data o' (a3, d3) = Inr (a', d4)" "d = (if d4 = nothing_delta then None else Some d4)"
    using assms JObj 1 2 3 by (auto simp: feed_audio_def and_then_eq_Inr)
  have s1: "data a1 = data a" "keeps a1 = keeps a" "transcript a1 = transcript a" "audio_fmt a1 = audio_fmt a"
    "expires_at a1 = expires_at a" "audio_id a1 = or_else (audio_id a) (d_id d1)" "audio_id a = None \<or> d_id d1 = None"
    "d_data d1 = None" "d_transcript d1 = None" "d_format d1 = None" "d_expires d1 = None"
    using 1 by (auto simp: feed_id_def nothing_delta_def split: json.splits if_splits)
  have s2: "data a2 = data a1" "keeps a2 = keeps a1" "transcript a2 = transcript a1" "audio_fmt a2 = audio_fmt a1"
    "audio_id a2 = audio_id a1" "expires_at a2 = or_else (expires_at a1) (d_expires d2)"
    "expires_at a1 = None \<or> d_expires d2 = None"
    "d_id d2 = d_id d1" "d_data d2 = None" "d_transcript d2 = None" "d_format d2 = None"
    using 2 s1(8-11) by (auto simp: feed_expires_def split: json.splits if_splits)
  have s3: "data a3 = data a2" "keeps a3 = keeps a2" "audio_fmt a3 = audio_fmt a2"
    "audio_id a3 = audio_id a2" "expires_at a3 = expires_at a2"
    "concat (transcript a3) = concat (transcript a2) @ (case d_transcript d3 of None \<Rightarrow> [] | Some t \<Rightarrow> t)"
    "d_id d3 = d_id d2" "d_expires d3 = d_expires d2" "d_data d3 = None" "d_format d3 = None"
    using 3 s2(9-11) by (auto simp: feed_transcript_def split: json.splits list.splits)
  have s4: "keeps a' = keeps a3" "audio_id a' = audio_id a3" "expires_at a' = expires_at a3"
    "transcript a' = transcript a3" "d_id d4 = d_id d3" "d_expires d4 = d_expires d3"
    "d_transcript d4 = d_transcript d3" "audio_fmt a' = or_else (audio_fmt a3) (d_format d4)"
    "audio_fmt a3 = None \<or> d_format d4 = None"
    "concat (data a') = concat (data a3) @ (if keeps a3 then delta_bytes d4 else [])"
    using 4(1) s3(9,10)
    by (auto simp: feed_data_def delta_bytes_def Let_def split: json.splits list.splits option.splits if_splits)
  have "feeds a [d4] a'"
    using s1 s2 s3 s4 by (simp add: feeds_def said_once_one played_def spoken_def)
  then show ?thesis using 4(2) feeds_nothing by (auto simp: delta_list_def)
qed (use assms in \<open>auto simp: feed_audio_def feeds_def delta_list_def played_def spoken_def said_once_def
      announced_def times_said_def\<close>)

lemma feed_all_feeds: "feed_all rs a = Inr (a', ds) \<Longrightarrow> feeds a ds a'"
proof (induction rs arbitrary: a ds)
  case Nil
  then show ?case
    by (simp add: feeds_def played_def spoken_def said_once_def announced_def times_said_def)
next
  case (Cons r rs)
  then obtain a1 d ds' where r: "feed_audio r a = Inr (a1, d)" "feed_all rs a1 = Inr (a', ds')"
      "ds = delta_list d @ ds'"
    by (auto simp: and_then_eq_Inr delta_list_def split: option.splits)
  from feeds_trans [OF feed_audio_feeds [OF r(1)] Cons.IH [OF r(2)]] show ?case by (simp add: r(3))
qed

text \<open>A streamed caller's deltas do not depend on whether the bytes are kept.\<close>

definition forget :: "assembly \<Rightarrow> assembly" where
  "forget a = a\<lparr>keeps := False, data := []\<rparr>"

lemma feed_audio_forget:
  assumes "feed_audio r a = Inr (a', d)"
  shows "feed_audio r (forget a) = Inr (forget a', d)"
proof (cases r)
  case (JObj o')
  have f: "feed_transcript o' (feed_expires o' (feed_id o' (forget a, d0))) =
      (case feed_transcript o' (feed_expires o' (feed_id o' (a, d0))) of (b, d) \<Rightarrow> (forget b, d))" for d0
    by (auto simp: feed_id_def feed_expires_def feed_transcript_def forget_def split: json.splits list.splits)
  obtain b e where b: "feed_transcript o' (feed_expires o' (feed_id o' (a, nothing_delta))) = (b, e)" by force
  obtain d4 where d4: "feed_data o' (b, e) = Inr (a', d4)" "d = (if d4 = nothing_delta then None else Some d4)"
    using assms JObj b by (auto simp: feed_audio_def and_then_eq_Inr)
  have "feed_data o' (forget b, e) = Inr (forget a', d4)"
    using d4(1) by (auto simp: feed_data_def forget_def Let_def split: json.splits list.splits option.splits if_splits)
  then show ?thesis using JObj f b d4(2) by (simp add: feed_audio_def)
qed (use assms in \<open>auto simp: feed_audio_def\<close>)

lemma feed_all_forget: "feed_all rs a = Inr (a', ds) \<Longrightarrow> feed_all rs (forget a) = Inr (forget a', ds)"
  by (induction rs arbitrary: a ds) (fastforce simp: and_then_eq_Inr dest: feed_audio_forget)+



end
