(* ===== verification/Openai_Stream.thy ===== *)
theory Openai_Stream
  imports Openai_Tools Thinking Failures Audio_Out
begin

text \<open>
  One chat exchange of the OpenAI-compatible adapter (\<open>generate\<close> and \<open>stream\<close> of
  \<open>engines/openai_compat_http.py_of\<close>): how the backend's own stream of lines becomes chunks, when silence on
  an open stream is a failure, what makes an answer complete, and the whole answer of a request that
  does not stream. A stream is a function of what arrived: for each wait on the connection, how long it
  took and what it brought. \<open>json.loads\<close>, the checks of the generated classes and the rounding of a float
  are fields of a \<open>world\<close>.
\<close>

subsection \<open>The outside\<close>

text \<open>What httpx raises: the text is \<open>repr\<close> of the exception, for a timeout the name of its class. \<open>HttpFailed\<close>
  says whether it was a \<open>ConnectError\<close>.\<close>

datatype net_failure = ConnectTimedOut string | TimedOut string | HttpFailed bool string

text \<open>\<open>valid_logprobs\<close> and \<open>valid_annotation\<close> are the generated classes' checks, \<open>None\<close> where they raise;
  \<open>round1\<close> is \<open>round(float(x), 1)\<close>, \<open>None\<close> where \<open>float\<close> overflows; \<open>coerced\<close> is what a count of the \<open>Usage\<close>
  class makes of a value that is no integer, \<open>other_sum\<close> is \<open>+\<close> on such values; \<open>show_g\<close> is the format \<open>:g\<close>.\<close>

record world =
  py_of :: outside
  parses :: "string \<Rightarrow> loaded"
  valid_logprobs :: "dict \<Rightarrow> dict option"
  valid_annotation :: "dict \<Rightarrow> dict option"
  round1 :: "json \<Rightarrow> pyfloat option"
  coerced :: "json \<Rightarrow> int option"
  other_sum :: "json \<Rightarrow> json \<Rightarrow> json option"
  show_g :: "rat \<Rightarrow> string"

text \<open>An exception that is none of the engine's own, and a plain \<open>CliError\<close>.\<close>

definition crashed :: "string \<Rightarrow> exn" where
  "crashed words = \<lparr>exn_class = OtherError, message = words, upstream_status = None,
     retry_after_seconds = None, cause = NoCause\<rparr>"

definition cli_error :: "string \<Rightarrow> exn" where
  "cli_error words = (crashed words)\<lparr>exn_class := exn_class.CliError\<rparr>"

subsection \<open>Reading a frame\<close>

definition attachment_hint :: "string set \<Rightarrow> string option" where
  "attachment_hint kinds =
     (if ''image'' \<in> kinds then Some (''Image request refused by the backend. Check the loaded vision model/projector '' @
        ''and available context; try a smaller image or shorter conversation. '' @
        ''Upstream body omitted to protect attachment data.'')
      else if ''audio'' \<in> kinds then Some (''Audio request refused by the backend. Check that the model takes audio input and '' @
        ''the clip's format; try a shorter clip or conversation. '' @
        ''Upstream body omitted to protect attachment data.'')
      else if ''file'' \<in> kinds then Some (''File request refused by the backend. Check that the model reads PDFs; try a smaller '' @
        ''file or shorter conversation. Upstream body omitted to protect attachment data.'')
      else None)"

definition KEEPALIVE_PROGRESS_SECONDS :: rat where "KEEPALIVE_PROGRESS_SECONDS = 2"
definition GENERATING_PROGRESS_SECONDS :: rat where "GENERATING_PROGRESS_SECONDS = 1 / 2"

definition FINISH_REASON_MAP :: "(string \<times> string) list" where
  "FINISH_REASON_MAP =
     [(''stop'', ''stop''), (''length'', ''length''), (''content_filter'', ''content_filter''),
      (''tool_calls'', ''tool_calls''), (''function_call'', ''tool_calls'')]"

text \<open>\<open>_FINISH_REASON_MAP.get(s, FinishReason.stop)\<close>.\<close>

definition finish_of :: "string \<Rightarrow> string" where
  "finish_of s = (case map_of FINISH_REASON_MAP s of Some f \<Rightarrow> f | None \<Rightarrow> ''stop'')"

definition logprobs_of :: "world \<Rightarrow> json \<Rightarrow> dict option" where
  "logprobs_of w raw =
     (case raw of
        JObj d \<Rightarrow> if truthy (dget d ''content'') then valid_logprobs w d else None
      | _ \<Rightarrow> None)"

definition annotations_of :: "world \<Rightarrow> json \<Rightarrow> json list" where
  "annotations_of w raw =
     (case raw of
        JList items \<Rightarrow> List.map_filter (\<lambda>item. case item of
            JObj d \<Rightarrow> if dget d ''type'' = JStr ''url_citation'' then map_option JObj (valid_annotation w d) else None
          | _ \<Rightarrow> None) items
      | _ \<Rightarrow> [])"

definition reasoning_of :: "dict \<Rightarrow> string option" where
  "reasoning_of d =
     (case dget d ''reasoning_content'' of
        JStr (c # cs) \<Rightarrow> Some (c # cs)
      | _ \<Rightarrow> (case dget d ''reasoning'' of JStr (c # cs) \<Rightarrow> Some (c # cs) | _ \<Rightarrow> None))"

definition stop_sequence_of :: "dict \<Rightarrow> string list option \<Rightarrow> string option" where
  "stop_sequence_of choice stops =
     (case (dget choice ''stop_reason'', stops) of
        (JStr s, Some ss) \<Rightarrow> if s \<in> set ss then Some s else None
      | _ \<Rightarrow> None)"

fun redact :: "string \<Rightarrow> string" where
  "redact [] = []"
| "redact (c # cs) =
     (if starts_with ''Bearer '' (c # cs) then ''Bearer <redacted>'' @ redact (drop 6 cs) else c # redact cs)"

definition stream_failure :: "world \<Rightarrow> json \<Rightarrow> exn option" where
  "stream_failure w event =
     (case event of
        JObj d \<Rightarrow>
          if map_of d ''choices'' \<noteq> None then None
          else (case dget d ''error'' of
            JObj err \<Rightarrow> Some ((cli_error (''openai_compat_http stream error: '' @
                redact (take 500 (text_of (py_of w) (dget err ''message'')))))
              \<lparr>upstream_status := (case dget err ''code'' of
                   JInt i \<Rightarrow> Some i | JBool b \<Rightarrow> Some (if b then 1 else 0) | _ \<Rightarrow> None)\<rparr>)
          | _ \<Rightarrow> None)
      | _ \<Rightarrow> None)"

definition sse_data :: "string \<Rightarrow> string option" where
  "sse_data line =
     (if line = [] \<or> starts_with '':'' line then None
      else if \<not> starts_with ''data:'' line then None
      else Some (strip (drop 5 line)))"

definition working :: json where
  "working = JObj [(''stage'', JStr ''working'')]"

definition positive_number :: "json \<Rightarrow> bool" where
  "positive_number v =
     (case v of JInt i \<Rightarrow> 0 < i | JFloat (Finite x) \<Rightarrow> 0 < x | JFloat PosInf \<Rightarrow> True | _ \<Rightarrow> False)"

text \<open>The count and the frame, \<open>None\<close> when the timings say nothing.\<close>

definition generating_progress :: "world \<Rightarrow> json \<Rightarrow> exn + (int \<times> json) option" where
  "generating_progress w timings =
     (case timings of
        JObj d \<Rightarrow>
          (case dget d ''predicted_n'' of
             JInt n \<Rightarrow>
               if n \<le> 0 then Inr None
               else and_then (if positive_number (dget d ''predicted_per_second'')
                        then and_then (from_option (crashed ''OverflowError'') (round1 w (dget d ''predicted_per_second'')))
                               (\<lambda>x. Inr [(''tokensPerSecond'', JFloat x)])
                        else Inr []) (\<lambda>speed.
                    Inr (Some (n, JObj ([(''stage'', JStr ''generating''), (''generatedTokens'', JInt n)] @ speed))))
           | _ \<Rightarrow> Inr None)
      | _ \<Rightarrow> Inr None)"

text \<open>\<open>int(value)\<close> of an infinite float raises.\<close>

definition progress_count :: "dict \<Rightarrow> string \<Rightarrow> exn + int option" where
  "progress_count d key =
     (case dget d key of
        JInt i \<Rightarrow> Inr (if 0 \<le> i then Some i else None)
      | JBool b \<Rightarrow> Inr (Some (if b then 1 else 0))
      | JFloat (Finite x) \<Rightarrow> Inr (if 0 \<le> x then Some (py_trunc x) else None)
      | JFloat PosInf \<Rightarrow> Inl (crashed ''OverflowError'')
      | _ \<Rightarrow> Inr None)"

definition prompt_progress :: "dict \<Rightarrow> exn + json option" where
  "prompt_progress d =
     and_then (progress_count d ''total'') (\<lambda>total.
     and_then (progress_count d ''processed'') (\<lambda>processed.
       case (total, processed) of
         (Some t, Some p) \<Rightarrow>
           and_then (progress_count d ''cache'') (\<lambda>cached.
           and_then (progress_count d ''time_ms'') (\<lambda>elapsed.
             Inr (Some (JObj ([(''stage'', JStr ''prompt''), (''promptTokens'', JInt t)] @
               (case cached of None \<Rightarrow> [] | Some n \<Rightarrow> [(''cachedTokens'', JInt n)]) @
               [(''processedTokens'', JInt p)] @
               (case elapsed of None \<Rightarrow> [] | Some n \<Rightarrow> [(''elapsedMs'', JInt n)]))))))
       | _ \<Rightarrow> Inr None))"

subsection \<open>Failures of the exchange\<close>

definition timed_out :: "world \<Rightarrow> string \<Rightarrow> rat \<Rightarrow> string \<Rightarrow> exn" where
  "timed_out w name limit what =
     (crashed (''openai_compat_http '' @ what @ '' did not answer within '' @ show_g w limit @ ''s ('' @ name @
        ''). The backend was still working, not broken: a large model '' @
        ''on CPU or a long answer can take minutes. Raise requestTimeoutSeconds on this '' @
        ''driver (and on the gateway, which holds the shorter deadline of the two).''))
     \<lparr>exn_class := BackendTimeout, cause := OtherCause\<rparr>"

definition stalled :: "world \<Rightarrow> rat \<Rightarrow> nat \<Rightarrow> exn" where
  "stalled w limit emitted_chars =
     (crashed (''openai_compat_http stream went silent for '' @ show_g w limit @ ''s mid-answer, '' @
        ''after '' @ str_int (int emitted_chars) @ '' characters. The backend stopped producing tokens without '' @
        ''closing the stream or sending a finish reason. If this backend legitimately '' @
        ''pauses that long between tokens, raise streamStallSeconds on this driver '' @
        ''(0 disables the check).''))
     \<lparr>exn_class := BackendTimeout, cause := OtherCause\<rparr>"

text \<open>The three \<open>except\<close> clauses; \<open>what\<close> and \<open>doing\<close> are the words for a timeout and for any other failure.\<close>

definition net_error :: "world \<Rightarrow> rat \<Rightarrow> string \<Rightarrow> string \<Rightarrow> net_failure \<Rightarrow> exn" where
  "net_error w limit what doing f =
     (case f of
        ConnectTimedOut r \<Rightarrow> (cli_error (''openai_compat_http could not connect: '' @ r))\<lparr>cause := ConnectTimeout\<rparr>
      | TimedOut name \<Rightarrow> timed_out w name limit what
      | HttpFailed connect r \<Rightarrow>
          (cli_error (''openai_compat_http '' @ doing @ '' failed: '' @ r))
          \<lparr>cause := (if connect then ConnectError else OtherCause)\<rparr>)"

definition every :: "world \<Rightarrow> rat \<Rightarrow> string" where
  "every w seconds =
     (if 60 \<le> seconds then show_g w (seconds / 60) @ '' minute'' @ (if seconds / 60 = 1 then [] else ''s'')
      else show_g w seconds @ '' second'' @ (if seconds = 1 then [] else ''s''))"

text \<open>The exception of \<open>_upstream_refusal\<close>; \<open>shown_id\<close> is the \<open>repr\<close> of the model's id.\<close>

definition refusal_error ::
  "world \<Rightarrow> adapter \<Rightarrow> string \<Rightarrow> dict \<Rightarrow> target \<Rightarrow> string \<Rightarrow> rat \<Rightarrow> int \<Rightarrow> string option \<Rightarrow> rat option \<Rightarrow> exn"
where
  "refusal_error w a body payload t shown_id reask status hint retry =
     (case fst (upstream_refusal (parses w) a body payload t) of
        Inl words \<Rightarrow>
          (cli_error (''openai_compat_http returned '' @ str_int status @ '': '' @ redact (take 500 body) @
             ''. The backend refused this request because it carries tools, in its own words above, so '' @
             ''Eugene treats tools as off for '' @ shown_id @ ''. This driver asks the backend '' @
             ''again every '' @ every w reask @ '', with a one-token request '' @
             ''that carries a tool, and turns tools back on the first time it answers one.''))
          \<lparr>exn_class := ToolsRefused words, upstream_status := Some status, retry_after_seconds := retry\<rparr>
      | Inr _ \<Rightarrow>
          (cli_error (''openai_compat_http returned '' @ str_int status @ '': '' @
             (case hint of None \<Rightarrow> redact (take 500 body) | Some h \<Rightarrow> h)))
          \<lparr>upstream_status := Some status, retry_after_seconds := retry\<rparr>)"

subsection \<open>What has been read so far\<close>

text \<open>The state of \<open>_stream\<close>'s loop, its local variables.\<close>

record stream_state =
  quiet :: rat
  saw_data :: bool
  saw_terminator :: bool
  finish :: string
  stop_seq :: "string option"
  usage_payload :: json
  call_parts :: "(int \<times> slot) list"
  served_model :: string
  audio :: "assembly option"
  token_logprobs :: "json list"
  citations :: "json list"
  emitted :: "string list"
  reasoned :: "string list"
  held :: "string list"
  filtered :: "tfilter option"
  last_keepalive :: rat
  last_generating :: rat
  generated :: int

text \<open>What stays the same while one stream is read. \<open>wants_audio\<close> is the format of \<open>audioOutput\<close>, \<open>mode\<close> is
  \<open>_thinking_mode_for(request)\<close>, \<open>fresh\<close> the random ids of calls.\<close>

record reading =
  to_model :: target
  stops :: "string list option"
  report :: bool
  mode :: string
  forcing :: "tool option"
  hollow_pings :: bool
  stall_seconds :: rat
  timeout_seconds :: rat
  wants_audio :: "audio_format option"
  assembles :: bool
  fresh :: "int \<Rightarrow> string"
  request_id :: "string option"
  backend_kind :: string
  latency :: int

definition started :: "reading \<Rightarrow> stream_state" where
  "started x =
     \<lparr>quiet = 0, saw_data = False, saw_terminator = False, finish = ''stop'', stop_seq = None,
      usage_payload = JObj [], call_parts = [], served_model = target_id (to_model x),
      audio = (if wants_audio x = None then None else Some (new_assembly (assembles x))),
      token_logprobs = [], citations = [], emitted = [], reasoned = [], held = [],
      filtered = (if mode x = ''off'' then Some new_filter else None),
      last_keepalive = 0, last_generating = 0, generated = 0\<rparr>"

text \<open>A step of the generator: the chunks it yields, then what it raises or goes on with.\<close>

type_synonym 'a sent = "chunk list \<times> (exn + 'a)"

definition yields :: "chunk list \<Rightarrow> 'a \<Rightarrow> 'a sent" where
  "yields cs v = (cs, Inr v)"

definition raises :: "exn \<Rightarrow> 'a sent" where
  "raises e = ([], Inl e)"

definition tries :: "exn + 'a \<Rightarrow> 'a sent" where
  "tries r = ([], r)"

definition then_sent :: "'a sent \<Rightarrow> ('a \<Rightarrow> 'b sent) \<Rightarrow> 'b sent" where
  "then_sent r f =
     (case r of (cs, Inl e) \<Rightarrow> (cs, Inl e) | (cs, Inr v) \<Rightarrow> (case f v of (ds, out) \<Rightarrow> (cs @ ds, out)))"

subsection \<open>One choice of a frame\<close>

text \<open>\<open>choice.get("delta") or {}\<close>, \<open>None\<close> for a value that has no \<open>get\<close>.\<close>

definition delta_of :: "dict \<Rightarrow> dict option" where
  "delta_of choice =
     (case dget choice ''delta'' of
        JObj d \<Rightarrow> Some d
      | v \<Rightarrow> if truthy v then None else Some [])"

definition note_finish :: "world \<Rightarrow> reading \<Rightarrow> dict \<Rightarrow> stream_state \<Rightarrow> stream_state" where
  "note_finish w x choice s =
     (let reason = dget choice ''finish_reason''
      in if truthy reason
         then s\<lparr>finish := text_of (py_of w) reason, saw_terminator := True,
                stop_seq := stop_sequence_of choice (stops x)\<rparr>
         else s)"

definition note_logprobs :: "dict option \<Rightarrow> stream_state \<Rightarrow> stream_state" where
  "note_logprobs lp s =
     (case lp of
        None \<Rightarrow> s
      | Some d \<Rightarrow> (case dget d ''content'' of
            JList ts \<Rightarrow> s\<lparr>token_logprobs := token_logprobs s @ ts\<rparr> | _ \<Rightarrow> s))"

definition on_annotations :: "world \<Rightarrow> dict \<Rightarrow> stream_state \<Rightarrow> stream_state sent" where
  "on_annotations w delta s =
     (let cited = annotations_of w (dget delta ''annotations'')
      in if cited = [] then yields [] s
         else yields [plain_chunk\<lparr>cannotations := Some cited\<rparr>] (s\<lparr>citations := citations s @ cited\<rparr>))"

definition on_reasoning :: "reading \<Rightarrow> dict \<Rightarrow> stream_state \<Rightarrow> stream_state sent" where
  "on_reasoning x delta s =
     (case reasoning_of delta of
        None \<Rightarrow> yields [] s
      | Some thought \<Rightarrow>
          if mode x = ''off'' then yields [] s
          else yields [plain_chunk\<lparr>creasoning := thought\<rparr>] (s\<lparr>reasoned := reasoned s @ [thought]\<rparr>))"

definition format_name :: "audio_format \<Rightarrow> string" where
  "format_name f = (case f of Wav \<Rightarrow> ''wav'' | Mp3 \<Rightarrow> ''mp3'' | Pcm16 \<Rightarrow> ''pcm16'')"

definition opt :: "string \<Rightarrow> ('a \<Rightarrow> json) \<Rightarrow> 'a option \<Rightarrow> dict" where
  "opt key f v = (case v of None \<Rightarrow> [] | Some y \<Rightarrow> [(key, f y)])"

definition delta_json :: "audio_delta \<Rightarrow> json" where
  "delta_json d =
     JObj (opt ''data'' JStr (d_data d) @ opt ''format'' (JStr \<circ> format_name) (d_format d) @
       opt ''id'' JStr (d_id d) @ opt ''transcript'' JStr (d_transcript d) @ opt ''expiresAt'' JInt (d_expires d))"

definition on_audio :: "dict \<Rightarrow> stream_state \<Rightarrow> stream_state sent" where
  "on_audio delta s =
     (case audio s of
        Some a \<Rightarrow>
          if dget delta ''audio'' = JNull then yields [] s
          else (case feed_audio (dget delta ''audio'') a of
             Inl words \<Rightarrow> raises ((cli_error (''openai_compat_http: '' @ words))\<lparr>cause := OtherCause\<rparr>)
           | Inr (a', fragment) \<Rightarrow>
               yields (case fragment of None \<Rightarrow> [] | Some d \<Rightarrow> [plain_chunk\<lparr>caudio := Some (delta_json d)\<rparr>])
                 (s\<lparr>audio := Some a'\<rparr>))
      | None \<Rightarrow> yields [] s)"

definition on_tool_calls :: "world \<Rightarrow> dict \<Rightarrow> stream_state \<Rightarrow> stream_state sent" where
  "on_tool_calls w delta s =
     (let raw = dget delta ''tool_calls''
      in if \<not> truthy raw then yields [] s
         else case tool_call_deltas_from_wire raw of
           Inl _ \<Rightarrow> raises (crashed ''ValidationError'')
         | Inr frags \<Rightarrow>
             if frags = [] then yields [] s
             else yields [plain_chunk\<lparr>ctool_calls := Some frags\<rparr>]
               (s\<lparr>call_parts := accumulate_tool_calls (py_of w) raw (call_parts s)\<rparr>))"

text \<open>The text of a frame. \<open>visible\<close> is what may leave of it now. A \<open>content\<close> that is not text raises here; the code
  hands it on and raises where it joins the answer.\<close>

definition show_text :: "dict option \<Rightarrow> string \<Rightarrow> stream_state \<Rightarrow> stream_state sent" where
  "show_text lp text s =
     (if text \<noteq> []
      then yields [plain_chunk\<lparr>ctext := text, clogprobs := map_option JObj lp\<rparr>] (s\<lparr>emitted := emitted s @ [text]\<rparr>)
      else case lp of None \<Rightarrow> yields [] s | Some d \<Rightarrow> yields [plain_chunk\<lparr>clogprobs := Some (JObj d)\<rparr>] s)"

definition on_text :: "reading \<Rightarrow> dict option \<Rightarrow> dict \<Rightarrow> stream_state \<Rightarrow> stream_state sent" where
  "on_text x lp delta s =
     (case dget delta ''content'' of
        JStr (c # cs) \<Rightarrow>
          if forcing x \<noteq> None then yields [] (s\<lparr>held := held s @ [c # cs]\<rparr>)
          else (case filtered s of
             None \<Rightarrow> show_text lp (c # cs) s
           | Some f \<Rightarrow> (case feed f (c # cs) of (out, f') \<Rightarrow> show_text lp out (s\<lparr>filtered := Some f'\<rparr>)))
      | v \<Rightarrow> if truthy v then raises (crashed ''TypeError'') else show_text lp [] s)"

definition on_choice :: "world \<Rightarrow> reading \<Rightarrow> json \<Rightarrow> stream_state \<Rightarrow> stream_state sent" where
  "on_choice w x choice s =
     (case choice of
        JObj d \<Rightarrow>
          (case delta_of d of
             None \<Rightarrow> raises (crashed ''AttributeError'')
           | Some delta \<Rightarrow>
               let lp = logprobs_of w (dget d ''logprobs'')
               in then_sent (on_annotations w delta (note_logprobs lp (note_finish w x d s))) (\<lambda>s.
                  then_sent (on_reasoning x delta s) (\<lambda>s.
                  then_sent (on_audio delta s) (\<lambda>s.
                  then_sent (on_tool_calls w delta s) (\<lambda>s.
                    on_text x lp delta s)))))
      | _ \<Rightarrow> raises (crashed ''AttributeError''))"

fun on_choices :: "world \<Rightarrow> reading \<Rightarrow> json list \<Rightarrow> stream_state \<Rightarrow> stream_state sent" where
  "on_choices w x [] s = yields [] s"
| "on_choices w x (c # cs) s = then_sent (on_choice w x c s) (\<lambda>s. on_choices w x cs s)"

subsection \<open>One line\<close>

text \<open>What a frame says of progress. Only a frame that is not about the prompt arms the stall clock.\<close>

definition on_progress :: "world \<Rightarrow> reading \<Rightarrow> rat \<Rightarrow> json \<Rightarrow> stream_state \<Rightarrow> stream_state sent" where
  "on_progress w x now event s =
     (case event of
        JObj d \<Rightarrow>
          (case dget d ''prompt_progress'' of
             JObj read \<Rightarrow>
               if report x then then_sent (tries (prompt_progress read)) (\<lambda>p.
                 yields (case p of None \<Rightarrow> [] | Some j \<Rightarrow> [plain_chunk\<lparr>cprogress := Some j\<rparr>]) s)
               else yields [] s
           | _ \<Rightarrow>
               if report x then then_sent (tries (generating_progress w (dget d ''timings''))) (\<lambda>g.
                 case g of
                   Some (n, j) \<Rightarrow>
                     if generated s < n \<and> GENERATING_PROGRESS_SECONDS \<le> now - last_generating s
                     then yields [plain_chunk\<lparr>cprogress := Some j\<rparr>]
                       (s\<lparr>saw_data := True, last_generating := now, generated := n\<rparr>)
                     else yields [] (s\<lparr>saw_data := True\<rparr>)
                 | None \<Rightarrow> yields [] (s\<lparr>saw_data := True\<rparr>))
               else yields [] (s\<lparr>saw_data := True\<rparr>))
      | _ \<Rightarrow> yields [] (s\<lparr>saw_data := True\<rparr>))"

definition note_envelope :: "world \<Rightarrow> reading \<Rightarrow> dict \<Rightarrow> stream_state \<Rightarrow> stream_state" where
  "note_envelope w x d s =
     s\<lparr>served_model := public_model_id (py_of w)
          (if truthy (dget d ''model'') then dget d ''model'' else JStr (served_model s)) (to_model x),
       usage_payload := (if truthy (dget d ''usage'') then dget d ''usage'' else usage_payload s)\<rparr>"

definition on_event :: "world \<Rightarrow> reading \<Rightarrow> rat \<Rightarrow> json \<Rightarrow> stream_state \<Rightarrow> stream_state sent" where
  "on_event w x now event s =
     (case stream_failure w event of
        Some e \<Rightarrow> raises e
      | None \<Rightarrow>
          then_sent (on_progress w x now event s) (\<lambda>s.
            case event of
              JObj d \<Rightarrow>
                (case dget d ''choices'' of
                   JList cs \<Rightarrow> on_choices w x cs (note_envelope w x d s)
                 | v \<Rightarrow> if truthy v then raises (crashed ''AttributeError'') else yields [] (note_envelope w x d s))
            | _ \<Rightarrow> raises (crashed ''AttributeError'')))"

text \<open>One line, and whether it ends the loop.\<close>

definition on_line :: "world \<Rightarrow> reading \<Rightarrow> rat \<Rightarrow> string \<Rightarrow> stream_state \<Rightarrow> (bool \<times> stream_state) sent" where
  "on_line w x now line s =
     (if report x \<and> starts_with '':'' line then
        (if KEEPALIVE_PROGRESS_SECONDS \<le> now - last_keepalive s
         then yields [plain_chunk\<lparr>cprogress := Some working\<rparr>] (False, s\<lparr>last_keepalive := now\<rparr>)
         else yields [] (False, s))
      else case sse_data line of
        None \<Rightarrow> yields [] (False, s)
      | Some payload \<Rightarrow>
          if payload = ''[DONE]'' then yields [] (True, s\<lparr>saw_data := True, saw_terminator := True\<rparr>)
          else case parses w payload of
            LoadValueError \<Rightarrow> yields [] (False, s\<lparr>saw_data := True\<rparr>)
          | LoadRecursionError \<Rightarrow> raises (crashed ''RecursionError'')
          | Loaded event \<Rightarrow> then_sent (on_event w x now event s) (\<lambda>s. yields [] (False, s)))"

subsection \<open>The loop\<close>

text \<open>One wait on the connection: how long it took, the clock when it was over, and what it brought.\<close>

datatype got = Line string | Closed | Broken net_failure

record arrival =
  waited :: rat
  clock :: rat
  brought :: got

definition said_so_far :: "stream_state \<Rightarrow> nat" where
  "said_so_far s = length (concat (emitted s)) + length (concat (reasoned s))"

text \<open>The stall clock is armed by the first data frame.\<close>

definition armed :: "reading \<Rightarrow> stream_state \<Rightarrow> bool" where
  "armed x s \<longleftrightarrow> saw_data s \<and> 0 < stall_seconds x"

definition too_long :: "reading \<Rightarrow> rat \<Rightarrow> stream_state \<Rightarrow> bool" where
  "too_long x wait s \<longleftrightarrow> armed x s \<and> max (stall_seconds x - quiet s) 0 < wait"

definition hear :: "reading \<Rightarrow> rat \<Rightarrow> string \<Rightarrow> stream_state \<Rightarrow> stream_state" where
  "hear x wait line s =
     s\<lparr>quiet := (if hollow_pings x \<and> \<not> starts_with ''data:'' line
                then quiet s + (if armed x s then wait else 0) else 0)\<rparr>"

fun read_lines :: "world \<Rightarrow> reading \<Rightarrow> arrival list \<Rightarrow> stream_state \<Rightarrow> stream_state sent" where
  "read_lines w x [] s = yields [] s"
| "read_lines w x (a # as) s =
     (if too_long x (waited a) s then
        (if saw_terminator s then yields [] s
         else raises (stalled w (stall_seconds x) (said_so_far s)))
      else case brought a of
        Closed \<Rightarrow> yields [] s
      | Broken f \<Rightarrow> raises (net_error w (timeout_seconds x) ''the stream'' ''stream'' f)
      | Line line \<Rightarrow>
          then_sent (on_line w x (clock a) line (hear x (waited a) line s)) (\<lambda>(ended, s).
            if ended then yields [] s else read_lines w x as s))"

subsection \<open>The end of a stream\<close>

text \<open>\<open>prompt or 0\<close>.\<close>

definition or_zero :: "json \<Rightarrow> json" where
  "or_zero v = (if truthy v then v else JInt 0)"

definition sum_counts :: "world \<Rightarrow> json \<Rightarrow> json \<Rightarrow> json option" where
  "sum_counts w p c = (case (p, c) of (JInt i, JInt j) \<Rightarrow> Some (JInt (i + j)) | _ \<Rightarrow> other_sum w p c)"

definition usage_field :: "world \<Rightarrow> json \<Rightarrow> exn + int" where
  "usage_field w v =
     from_option (crashed ''ValidationError'')
       (case v of JInt i \<Rightarrow> if 0 \<le> i then Some i else None | _ \<Rightarrow> coerced w v)"

definition usage_from_envelope :: "world \<Rightarrow> dict \<Rightarrow> exn + usage option" where
  "usage_from_envelope w u =
     (let p = dget u ''prompt_tokens''; c = dget u ''completion_tokens''; t = dget u ''total_tokens''
      in if u = [] \<or> (p = JNull \<and> c = JNull) then Inr None
         else and_then (usage_field w (or_zero p)) (\<lambda>prompt.
              and_then (usage_field w (or_zero c)) (\<lambda>completion.
              and_then (if t \<noteq> JNull then Inr t
                else from_option (crashed ''TypeError'') (sum_counts w (or_zero p) (or_zero c))) (\<lambda>total.
              and_then (usage_field w total) (\<lambda>total.
                Inr (Some \<lparr>prompt_tokens = Some prompt, completion_tokens = Some completion, total_tokens = Some total,
                  cached_prompt_tokens = Openai_Wire.detail u ''prompt_tokens_details'' ''cached_tokens'',
                  reasoning_tokens = Openai_Wire.detail u ''completion_tokens_details'' ''reasoning_tokens''\<rparr>))))))"

definition usage_json :: "usage \<Rightarrow> json" where
  "usage_json u =
     JObj (opt ''promptTokens'' JInt (prompt_tokens u) @ opt ''completionTokens'' JInt (completion_tokens u) @
       opt ''totalTokens'' JInt (total_tokens u) @ opt ''cachedPromptTokens'' JInt (cached_prompt_tokens u) @
       opt ''reasoningTokens'' JInt (reasoning_tokens u))"

definition clip_json :: "generated_audio \<Rightarrow> json" where
  "clip_json g =
     JObj ([(''data'', JStr (g_data g)), (''format'', JStr (format_name (g_format g)))] @
       opt ''id'' JStr (g_id g) @ opt ''transcript'' JStr (g_transcript g) @ opt ''expiresAt'' JInt (g_expires g))"

text \<open>\<open>usage_payload.get\<close> of a value that is no mapping raises.\<close>

definition usage_of :: "world \<Rightarrow> json \<Rightarrow> exn + usage option" where
  "usage_of w v =
     (case v of
        JObj d \<Rightarrow> usage_from_envelope w d
      | _ \<Rightarrow> if truthy v then Inl (crashed ''AttributeError'') else Inr None)"

text \<open>What a \<open>GenerateResponse\<close> carries beside the answer.\<close>

definition rest_of ::
  "reading \<Rightarrow> json option \<Rightarrow> dict option \<Rightarrow> json list \<Rightarrow> usage option \<Rightarrow> string \<Rightarrow> dict"
where
  "rest_of x sound lp cited counted served =
     opt ''audio'' id sound @ opt ''logprobs'' JObj lp @
     (if cited = [] then [] else [(''annotations'', JList cited)]) @
     opt ''usage'' usage_json counted @ opt ''requestId'' JStr (request_id x) @
     [(''backend'', JStr (backend_kind x)), (''modelId'', JStr served), (''latencyMs'', JInt (latency x))]"

definition response ::
  "string option \<Rightarrow> string option \<Rightarrow> tool_call list \<Rightarrow> string \<Rightarrow> string option \<Rightarrow> dict \<Rightarrow> gen_result"
where
  "response text thought made reason stopped others =
     \<lparr>content = text, reasoning_text = thought, calls = (if made = [] then None else Some made),
      finish_reason = (if stopped \<noteq> None then ''stop_sequence'' else finish_of reason),
      stop_sequence = stopped, rest = others\<rparr>"

text \<open>The tail of the filter, and the text held for a forced call.\<close>

definition flush_filter :: "stream_state \<Rightarrow> stream_state sent" where
  "flush_filter s =
     (case filtered s of
        None \<Rightarrow> yields [] s
      | Some f \<Rightarrow> if flush f = [] then yields [] s
          else yields [plain_chunk\<lparr>ctext := flush f\<rparr>] (s\<lparr>emitted := emitted s @ [flush f]\<rparr>))"

definition release_held :: "world \<Rightarrow> reading \<Rightarrow> stream_state \<Rightarrow> stream_state sent" where
  "release_held w x s =
     (case forcing x of
        Some t \<Rightarrow>
          if held s = [] \<or> call_parts s \<noteq> [] then yields [] s
          else (case forced_call (parses w) (fresh x 0) t (Some (concat (held s))) (Some (finish s)) of
             Some c \<Rightarrow>
               yields [plain_chunk\<lparr>ctool_calls := Some [\<lparr>delta_index = 0, delta_id = Some (call_id c),
                   delta_function = Some (Some (fn_name (call_function c)), Some (arguments (call_function c)))\<rparr>]\<rparr>]
                 (s\<lparr>call_parts := [(0, \<lparr>slot_id = call_id c, slot_name = fn_name (call_function c),
                      slot_args = arguments (call_function c)\<rparr>)], finish := ''tool_calls''\<rparr>)
           | None \<Rightarrow>
               yields [plain_chunk\<lparr>ctext := concat (held s)\<rparr>] (s\<lparr>emitted := emitted s @ [concat (held s)]\<rparr>))
      | None \<Rightarrow> yields [] s)"

definition last_chunk :: "world \<Rightarrow> reading \<Rightarrow> stream_state \<Rightarrow> exn + chunk" where
  "last_chunk w x s =
     (let text = concat (emitted s);
          made = finish_tool_calls (fresh x) (call_parts s);
          spoken = (case audio s of None \<Rightarrow> False | Some a \<Rightarrow> heard a)
      in and_then (case (assembles x, audio s, wants_audio x) of
             (True, Some a, Some f) \<Rightarrow>
               (case clip a f of Inl _ \<Rightarrow> Inl (crashed ''struct.error'') | Inr g \<Rightarrow> Inr (map_option clip_json g))
           | _ \<Rightarrow> Inr None) (\<lambda>sound.
         and_then (usage_of w (usage_payload s)) (\<lambda>counted.
           Inr (plain_chunk\<lparr>cdone := True, cresult := Some (response
              (if text \<noteq> [] \<or> \<not> (made \<noteq> [] \<or> spoken) then Some text else None)
              (if concat (reasoned s) = [] then None else Some (concat (reasoned s)))
              made (finish s) (stop_seq s)
              (rest_of x sound (if token_logprobs s = [] then None else Some [(''content'', JList (token_logprobs s))])
                 (citations s) counted (served_model s)))\<rparr>))))"

definition end_stream :: "world \<Rightarrow> reading \<Rightarrow> stream_state \<Rightarrow> unit sent" where
  "end_stream w x s =
     (if \<not> saw_terminator s then
        raises (cli_error (''openai_compat_http stream ended without [DONE] or a finish_reason '' @
          ''after '' @ str_int (int (said_so_far s)) @ '' characters: '' @
          ''the backend closed the connection mid-answer''))
      else then_sent (flush_filter s) (\<lambda>s.
           then_sent (release_held w x s) (\<lambda>s.
           then_sent (tries (last_chunk w x s)) (\<lambda>c.
             yields [c] ()))))"

text \<open>The stream of an exchange whose response has opened.\<close>

definition stream_lines :: "world \<Rightarrow> reading \<Rightarrow> arrival list \<Rightarrow> unit sent" where
  "stream_lines w x as =
     then_sent (yields (if report x then [plain_chunk\<lparr>cprogress := Some working\<rparr>] else []) (started x)) (\<lambda>s.
     then_sent (read_lines w x as s) (end_stream w x))"

subsection \<open>The exchange\<close>

text \<open>What a request to the backend comes to: no response, or a response with its status, its body as text, its
  \<open>Retry-After\<close> and, read as a stream, what arrives line by line.\<close>

record reply =
  status :: int
  body_text :: string
  retry_header :: "rat option"
  arrivals :: "arrival list"

type_synonym exchange = "net_failure + reply"

text \<open>\<open>_slot_map\<close>: \<open>props\<close> is the \<open>total_slots\<close> of a successful \<open>/props\<close>, \<open>JNull\<close> else. The result is the number
  of slots of the map, \<open>None\<close> without one; the map is made once.\<close>

record pinning =
  slot_pinning :: bool
  pins_read :: bool
  pinned_slots :: "int option"

definition slot_map :: "json \<Rightarrow> pinning \<Rightarrow> int option \<times> pinning" where
  "slot_map props p =
     (if \<not> slot_pinning p then (None, p)
      else let p' = (if pins_read p then p
             else p\<lparr>pins_read := True,
                    pinned_slots := (case props of
                      JInt n \<Rightarrow> if 1 \<le> n then Some n else pinned_slots p
                    | JBool True \<Rightarrow> Some 1
                    | _ \<Rightarrow> pinned_slots p)\<rparr>)
           in (pinned_slots p', p'))"

definition request_headers :: "string option \<Rightarrow> string option \<Rightarrow> (string \<times> string) list" where
  "request_headers key rid =
     auth_headers key @ (case rid of Some (c # cs) \<Rightarrow> [(''X-Request-ID'', c # cs)] | _ \<Rightarrow> [])"

text \<open>The body of a streamed request; \<open>llama\<close> says that the backend is llama.cpp.\<close>

definition stream_body :: "bool \<Rightarrow> bool \<Rightarrow> int option \<Rightarrow> dict \<Rightarrow> dict" where
  "stream_body reporting llama slot payload =
     (let p = (case slot of None \<Rightarrow> payload | Some n \<Rightarrow> AList.update ''id_slot'' (JInt n) payload);
          p = AList.update ''stream_options'' (JObj [(''include_usage'', JBool True)])
                (AList.update ''stream'' (JBool True) p)
      in if reporting \<and> llama
         then AList.update ''timings_per_token'' (JBool True) (AList.update ''return_progress'' (JBool True) p)
         else p)"

text \<open>\<open>_stream\<close> from the request on: \<open>refuse\<close> makes the error of a failed response.\<close>

definition stream_exchange :: "world \<Rightarrow> reading \<Rightarrow> (reply \<Rightarrow> exn) \<Rightarrow> exchange \<Rightarrow> unit sent" where
  "stream_exchange w x refuse ex =
     (case ex of
        Inl f \<Rightarrow> raises (net_error w (timeout_seconds x) ''the stream'' ''stream'' f)
      | Inr r \<Rightarrow> if 400 \<le> status r then raises (refuse r) else stream_lines w x (arrivals r))"

text \<open>\<open>_assembled\<close>: the last result of the stream.\<close>

definition assembled_answer :: "unit sent \<Rightarrow> exn + gen_result" where
  "assembled_answer out =
     (case out of
        (cs, Inl e) \<Rightarrow> Inl e
      | (cs, Inr _) \<Rightarrow>
          (case fold (\<lambda>c res. if cdone c then cresult c else res) cs None of
             None \<Rightarrow> Inl (cli_error ''openai_compat_http stream ended without a result'')
           | Some res \<Rightarrow> Inr res))"

subsection \<open>A whole answer\<close>

text \<open>\<open>v or {}\<close> where a mapping is needed.\<close>

definition dict_or_empty :: "json \<Rightarrow> exn + dict" where
  "dict_or_empty v =
     (case v of JObj d \<Rightarrow> Inr d | _ \<Rightarrow> if truthy v then Inl (crashed ''AttributeError'') else Inr [])"

definition first_choice :: "json \<Rightarrow> exn + dict" where
  "first_choice body =
     (case body of
        JObj d \<Rightarrow>
          let cs = dget d ''choices''
          in if \<not> truthy cs then Inl (cli_error ''openai_compat_http returned no choices'')
             else (case cs of
               JList (c # _) \<Rightarrow> dict_or_empty c
             | _ \<Rightarrow> Inl (crashed ''TypeError''))
      | _ \<Rightarrow> Inl (crashed ''AttributeError''))"

text \<open>The text of the answer, and the calls and the finish reason a forced call gives it.\<close>

definition forced_answer ::
  "world \<Rightarrow> reading \<Rightarrow> json \<Rightarrow> json \<Rightarrow> tool_call list \<Rightarrow> tool_call list \<times> json \<times> json"
where
  "forced_answer w x text reason made =
     (case forcing x of
        Some t \<Rightarrow>
          if made \<noteq> [] then (made, text, reason)
          else (case forced_call (parses w) (fresh x 0) t (case text of JStr s \<Rightarrow> Some s | _ \<Rightarrow> None)
                  (case reason of JStr s \<Rightarrow> Some s | _ \<Rightarrow> None) of
             Some c \<Rightarrow> ([c], JNull, JStr ''tool_calls'')
           | None \<Rightarrow> (made, text, reason))
      | None \<Rightarrow> (made, text, reason))"

definition answer_text :: "reading \<Rightarrow> json \<Rightarrow> tool_call list \<Rightarrow> string option \<Rightarrow> exn + string option" where
  "answer_text x text made thought =
     (case text of
        JStr s \<Rightarrow> Inr (Some (if mode x = ''off'' then strip_thinking_blocks s else s))
      | _ \<Rightarrow>
          if made = [] \<and> thought = None
          then Inl (cli_error ''openai_compat_http response missing string content'')
          else Inr None)"

definition answer_of :: "world \<Rightarrow> reading \<Rightarrow> dict \<Rightarrow> dict \<Rightarrow> dict \<Rightarrow> exn + gen_result" where
  "answer_of w x body choice msg =
     (let thought = reasoning_of msg
      in case forced_answer w x (dget msg ''content'') (dget choice ''finish_reason'')
                (tool_calls_from_wire (py_of w) (\<lambda>n. fresh x (int n)) (dget msg ''tool_calls'')) of
           (made, text, reason) \<Rightarrow>
             and_then (answer_text x text made thought) (\<lambda>text.
             and_then (usage_of w (dget body ''usage'')) (\<lambda>counted.
               Inr (response text (if mode x = ''off'' then None else thought) made
                 (if truthy reason then text_of (py_of w) reason else ''stop'')
                 (stop_sequence_of choice (stops x))
                 (rest_of x None (logprobs_of w (dget choice ''logprobs''))
                    (annotations_of w (dget msg ''annotations'')) counted
                    (public_model_id (py_of w) (dget body ''model'') (to_model x)))))))"

definition whole_answer :: "world \<Rightarrow> reading \<Rightarrow> string \<Rightarrow> exn + gen_result" where
  "whole_answer w x text =
     (case parses w text of
        LoadValueError \<Rightarrow> Inl (cli_error ''openai_compat_http returned non-JSON'')
      | LoadRecursionError \<Rightarrow> Inl (crashed ''RecursionError'')
      | Loaded body \<Rightarrow>
          and_then (first_choice body) (\<lambda>choice.
          and_then (dict_or_empty (dget choice ''message'')) (\<lambda>msg.
            answer_of w x (as_dict body) choice msg)))"

definition generate_exchange :: "world \<Rightarrow> reading \<Rightarrow> (reply \<Rightarrow> exn) \<Rightarrow> exchange \<Rightarrow> exn + gen_result" where
  "generate_exchange w x refuse ex =
     (case ex of
        Inl f \<Rightarrow> Inl (net_error w (timeout_seconds x) ''the completion'' ''request'' f)
      | Inr r \<Rightarrow> if 400 \<le> status r then Inl (refuse r) else whole_answer w x (body_text r))"

subsection \<open>What the chunks say\<close>

text \<open>A fragment says of a call what the backend's own item said of it.\<close>

lemma index_of_dump: "dump_delta d = JObj item \<Longrightarrow> index_of n item = delta_index d"
  by (auto simp: dump_delta_def index_of_def)

lemma fold_item_dump:
  assumes "delta_from n item = Inr d" and "dump_delta d = JObj item'"
  shows "delta_index d = index_of n item" and "fold_item ou item' s = fold_item ou item s"
proof -
  let ?fn = "as_dict (dget item ''function'')"
  obtain i f where d: "d = \<lparr>delta_index = index_of n item, delta_id = i, delta_function = f\<rparr>"
    and i: "opt_str (dget item ''id'') = Inr i"
    and f: "(if ?fn = [] then Inr None
       else and_then (opt_str (dget ?fn ''name'')) (\<lambda>n. and_then (opt_str (dget ?fn ''arguments'')) (\<lambda>a. Inr (Some (n, a))))) = Inr f"
    using assms(1) by (auto simp: delta_from_def Let_def and_then_eq_Inr)
  show "delta_index d = index_of n item" by (simp add: d)
  have str: "opt_str v = Inr u \<longleftrightarrow> v = (case u of None \<Rightarrow> JNull | Some t \<Rightarrow> JStr t)" for v u
    by (cases v) (auto simp: opt_str_def split: option.splits)
  have item': "item' = (''index'', JInt (delta_index d)) # opt ''id'' JStr i @ (''type'', JStr ''function'') #
      (case f of None \<Rightarrow> [] | Some (n, a) \<Rightarrow> [(''function'', JObj (opt ''name'' JStr n @ opt ''arguments'' JStr a))])"
    using assms(2) by (auto simp: d dump_delta_def opt_def split: option.splits prod.splits)
  have id: "dget item' ''id'' = dget item ''id''"
    using i by (cases i; cases f) (auto simp: item' opt_def str)
  have fn: "dget (as_dict (dget item' ''function'')) key = dget ?fn key"
    if "key = ''name'' \<or> key = ''arguments''" for key
  proof (cases "?fn = []")
    case True
    then show ?thesis using f by (cases i) (auto simp: item' opt_def as_dict_def)
  next
    case False
    then obtain nm a where nm: "f = Some (nm, a)" "dget ?fn ''name'' = (case nm of None \<Rightarrow> JNull | Some t \<Rightarrow> JStr t)"
        "dget ?fn ''arguments'' = (case a of None \<Rightarrow> JNull | Some t \<Rightarrow> JStr t)"
      using f by (auto simp: and_then_eq_Inr str)
    have "dget item' ''function'' = JObj (opt ''name'' JStr nm @ opt ''arguments'' JStr a)"
      by (cases i) (simp_all add: item' nm(1) opt_def)
    then show ?thesis using that nm(2,3) by (cases nm; cases a) (auto simp: opt_def as_dict_def)
  qed
  show "fold_item ou item' s = fold_item ou item s"
    unfolding fold_item_def Let_def by (simp only: id fn [of "''name''", simplified] fn [of "''arguments''", simplified])
qed

lemma accumulate_dumped:
  assumes "deltas_from n items = Inr ds"
  shows "accumulate_items ou m (map dump_delta ds) parts = accumulate_items ou n items parts"
  using assms
proof (induction n items arbitrary: ds m parts rule: deltas_from.induct)
  case (2 n item items)
  then obtain d es where d: "delta_from n item = Inr d" "deltas_from (Suc n) items = Inr es" "ds = d # es"
    by (auto simp: and_then_eq_Inr)
  obtain item' where j: "dump_delta d = JObj item'" by (simp add: dump_delta_def)
  show ?case
    using 2(1) [OF d(2)] fold_item_dump [OF d(1) j] index_of_dump [OF j]
    by (simp add: d(3) j)
qed simp_all

text \<open>What a caller makes of the chunks: the text, the reasoning, the citations and the calls.\<close>

definition texts :: "chunk list \<Rightarrow> string" where "texts cs = concat (map ctext cs)"
definition thoughts :: "chunk list \<Rightarrow> string" where "thoughts cs = concat (map creasoning cs)"
definition cited :: "chunk list \<Rightarrow> json list" where
  "cited cs = concat (map (\<lambda>c. case cannotations c of None \<Rightarrow> [] | Some js \<Rightarrow> js) cs)"

definition gather :: "world \<Rightarrow> (int \<times> slot) list \<Rightarrow> chunk \<Rightarrow> (int \<times> slot) list" where
  "gather w parts c =
     (case ctool_calls c of
        None \<Rightarrow> parts
      | Some ds \<Rightarrow> accumulate_tool_calls (py_of w) (JList (map dump_delta ds)) parts)"

lemma said_append [simp]:
  "texts (cs @ ds) = texts cs @ texts ds" "thoughts (cs @ ds) = thoughts cs @ thoughts ds"
  "cited (cs @ ds) = cited cs @ cited ds"
  by (simp_all add: texts_def thoughts_def cited_def)

lemma said_Nil [simp]: "texts [] = []" "thoughts [] = []" "cited [] = []"
  by (simp_all add: texts_def thoughts_def cited_def)

text \<open>The chunks of a step say what it adds to the state, and none of them is the last. \<open>t\<close> says that the step read
  an end of the answer.\<close>

definition tells :: "world \<Rightarrow> bool \<Rightarrow> stream_state \<Rightarrow> chunk list \<Rightarrow> stream_state \<Rightarrow> bool" where
  "tells w t s cs s' \<longleftrightarrow>
     concat (emitted s') = concat (emitted s) @ texts cs \<and>
     concat (reasoned s') = concat (reasoned s) @ thoughts cs \<and>
     citations s' = citations s @ cited cs \<and>
     call_parts s' = foldl (gather w) (call_parts s) cs \<and>
     (audio s = None \<longrightarrow> audio s' = None) \<and>
     (saw_terminator s' \<longrightarrow> saw_terminator s \<or> t)"

definition sent_ok :: "world \<Rightarrow> bool \<Rightarrow> stream_state \<Rightarrow> stream_state sent \<Rightarrow> bool" where
  "sent_ok w t s r \<longleftrightarrow>
     list_all (\<lambda>c. \<not> cdone c) (fst r) \<and> (case snd r of Inl _ \<Rightarrow> True | Inr s' \<Rightarrow> tells w t s (fst r) s')"

named_theorems sent_simps "how the steps of a stream unfold"

lemma then_sent_simps [simp, sent_simps]:
  "then_sent (yields cs v) f = (cs @ fst (f v), snd (f v))" "then_sent (raises e) f = raises e"
  "then_sent (tries (Inr v)) f = f v" "then_sent (tries (Inl e)) f = raises e"
  by (simp_all add: then_sent_def yields_def raises_def tries_def split: prod.split)

lemma sent_ok_yields [simp]: "sent_ok w t s (yields cs s') \<longleftrightarrow> list_all (\<lambda>c. \<not> cdone c) cs \<and> tells w t s cs s'"
  and sent_ok_raises [simp]: "sent_ok w t s (raises e)"
  by (simp_all add: sent_ok_def yields_def raises_def)

lemma tells_trans: "tells w t s cs s' \<Longrightarrow> tells w u s' ds s'' \<Longrightarrow> tells w (t \<or> u) s (cs @ ds) s''"
  by (auto simp: tells_def)

lemma sent_ok_then:
  assumes "sent_ok w t s r" and "\<And>s'. sent_ok w u s' (f s')"
  shows "sent_ok w (t \<or> u) s (then_sent r f)"
proof (cases r)
  case (Pair cs out)
  show ?thesis
  proof (cases out)
    case (Inl e)
    then show ?thesis using assms(1) by (simp add: Pair sent_ok_def then_sent_def)
  next
    case (Inr s')
    obtain ds res where f: "f s' = (ds, res)" by fastforce
    show ?thesis using assms(1) assms(2) [of s'] tells_trans [of w t s cs s' u ds]
      by (auto simp: Pair Inr f sent_ok_def then_sent_def split: sum.split)
  qed
qed

text \<open>The same where the second step is known to read no end, or the first.\<close>

lemma sent_ok_same: "sent_ok w t s r \<Longrightarrow> (\<And>s'. sent_ok w t s' (f s')) \<Longrightarrow> sent_ok w t s (then_sent r f)"
  using sent_ok_then [of w t s r t f] by simp

lemma tells_weaken: "tells w False s cs s' \<Longrightarrow> tells w t s cs s'"
  by (auto simp: tells_def)

lemma sent_ok_weaken: "sent_ok w False s r \<Longrightarrow> sent_ok w t s r"
  by (auto simp: sent_ok_def tells_weaken split: sum.splits)

text \<open>A step whose start differs from \<open>s\<close> in nothing that is told.\<close>

lemma sent_ok_from:
  assumes "sent_ok w t s0 r" and "emitted s0 = emitted s" and "reasoned s0 = reasoned s"
    and "citations s0 = citations s" and "call_parts s0 = call_parts s" and "audio s0 = audio s"
    and "saw_terminator s0 \<longrightarrow> saw_terminator s \<or> t"
  shows "sent_ok w t s r"
  using assms by (auto simp: sent_ok_def tells_def split: sum.splits)

lemmas said_simps = texts_def thoughts_def cited_def gather_def plain_chunk_def

lemma tells_nothing [simp]: "tells w t s [] s"
  by (simp add: tells_def)

lemma sent_ok_tries: "(\<And>v. sent_ok w t s (f v)) \<Longrightarrow> sent_ok w t s (then_sent (tries r) f)"
  by (cases r) simp_all

lemma annotations_ok: "sent_ok w False s (on_annotations w delta s)"
  by (simp add: on_annotations_def tells_def said_simps Let_def)

lemma reasoning_ok: "sent_ok w False s (on_reasoning x delta s)"
  by (simp add: on_reasoning_def tells_def said_simps split: option.split)

lemma on_audio_ok: "sent_ok w False s (on_audio delta s)"
  by (auto simp: on_audio_def tells_def said_simps split: option.split sum.split)

lemma tool_calls_ok: "sent_ok w False s (on_tool_calls w delta s)"
proof (cases "tool_call_deltas_from_wire (dget delta ''tool_calls'')")
  case (Inr ds)
  have "accumulate_tool_calls (py_of w) (JList (map dump_delta ds)) parts =
      accumulate_tool_calls (py_of w) (dget delta ''tool_calls'') parts" for parts
  proof (cases "dget delta ''tool_calls''")
    case (JList items)
    then have "deltas_from 0 items = Inr ds" using Inr by (simp add: tool_call_deltas_from_wire_def)
    from accumulate_dumped [OF this] show ?thesis by (simp add: accumulate_tool_calls_def JList)
  qed (use Inr in \<open>simp_all add: tool_call_deltas_from_wire_def accumulate_tool_calls_def\<close>)
  then show ?thesis by (simp add: on_tool_calls_def Inr Let_def tells_def said_simps)
qed (simp add: on_tool_calls_def Let_def)

lemma show_text_ok: "sent_ok w False s (show_text lp text s)"
  by (simp add: show_text_def tells_def said_simps split: option.split)

lemma on_text_ok: "sent_ok w False s (on_text x lp delta s)"
proof -
  have "sent_ok w False s (show_text lp out (s\<lparr>filtered := f\<rparr>))" for out f
    by (rule sent_ok_from [OF show_text_ok]) simp_all
  moreover have "sent_ok w False s (yields [] (s\<lparr>held := h\<rparr>))" for h by (simp add: tells_def said_simps)
  ultimately show ?thesis
    by (auto simp: on_text_def show_text_ok split: json.split list.split option.split prod.split)
qed

text \<open>A choice that says the answer is over.\<close>

definition ends_choice :: "json \<Rightarrow> bool" where
  "ends_choice c = (case c of JObj d \<Rightarrow> truthy (dget d ''finish_reason'') | _ \<Rightarrow> False)"

lemma on_choice_ok: "sent_ok w (ends_choice c) s (on_choice w x c s)"
proof (cases c)
  case (JObj d)
  have "sent_ok w (ends_choice c) s
    (then_sent (on_annotations w delta (note_logprobs lp (note_finish w x d s))) (\<lambda>s.
     then_sent (on_reasoning x delta s) (\<lambda>s.
     then_sent (on_audio delta s) (\<lambda>s.
     then_sent (on_tool_calls w delta s) (\<lambda>s. on_text x lp delta s)))))" for delta lp
    by (rule sent_ok_from [of _ _ "note_logprobs lp (note_finish w x d s)"])
      (auto intro!: sent_ok_same annotations_ok reasoning_ok on_audio_ok tool_calls_ok on_text_ok
        intro: sent_ok_weaken simp: note_finish_def note_logprobs_def ends_choice_def JObj Let_def
        split: option.splits json.splits)
  then show ?thesis by (simp add: on_choice_def JObj Let_def split: option.split)
qed (simp_all add: on_choice_def)

lemma on_choices_ok: "sent_ok w (\<exists>c \<in> set cs. ends_choice c) s (on_choices w x cs s)"
proof (induction cs arbitrary: s)
  case (Cons c cs)
  from sent_ok_then [OF on_choice_ok [of w c s x] Cons.IH] show ?case by simp
qed (simp add: tells_def said_simps)

text \<open>A line that says the answer is over.\<close>

definition ends_event :: "json \<Rightarrow> bool" where
  "ends_event e =
     (case e of
        JObj d \<Rightarrow> (case dget d ''choices'' of JList cs \<Rightarrow> (\<exists>c \<in> set cs. ends_choice c) | _ \<Rightarrow> False)
      | _ \<Rightarrow> False)"

definition ends_answer :: "world \<Rightarrow> string \<Rightarrow> bool" where
  "ends_answer w line =
     (case sse_data line of
        None \<Rightarrow> False
      | Some p \<Rightarrow> p = ''[DONE]'' \<or> (case parses w p of Loaded e \<Rightarrow> ends_event e | _ \<Rightarrow> False))"

lemma on_progress_ok: "sent_ok w False s (on_progress w x now e s)"
  by (auto simp: on_progress_def tells_def said_simps intro!: sent_ok_tries split: json.split option.split)

lemma on_event_ok: "sent_ok w (ends_event e) s (on_event w x now e s)"
proof -
  have choices: "sent_ok w (ends_event (JObj d)) s (on_choices w x cs (note_envelope w x d s))"
    if "dget d ''choices'' = JList cs" for d cs s
    using on_choices_ok [of w cs "note_envelope w x d s" x] that
    by (auto intro: sent_ok_from simp: note_envelope_def ends_event_def)
  have quiet: "tells w t s [] (note_envelope w x d s)" for t d s
    by (simp add: tells_def said_simps note_envelope_def)
  show ?thesis
    by (auto simp: on_event_def choices quiet intro!: sent_ok_same sent_ok_weaken [OF on_progress_ok]
        split: option.split json.split)
qed

definition line_ok :: "world \<Rightarrow> bool \<Rightarrow> stream_state \<Rightarrow> (bool \<times> stream_state) sent \<Rightarrow> bool" where
  "line_ok w t s r \<longleftrightarrow>
     list_all (\<lambda>c. \<not> cdone c) (fst r) \<and> (case snd r of Inl _ \<Rightarrow> True | Inr (_, s') \<Rightarrow> tells w t s (fst r) s')"

lemma line_ok_yields [simp]: "line_ok w t s (yields cs (b, s')) \<longleftrightarrow> list_all (\<lambda>c. \<not> cdone c) cs \<and> tells w t s cs s'"
  and line_ok_raises [simp]: "line_ok w t s (raises e)"
  by (simp_all add: line_ok_def yields_def raises_def)

lemma line_ok_goes_on: "sent_ok w t s r \<Longrightarrow> line_ok w t s (then_sent r (\<lambda>s. yields [] (False, s)))"
  by (cases r; cases "snd r") (auto simp: sent_ok_def line_ok_def then_sent_def yields_def)

lemma tells_same:
  assumes "emitted s' = emitted s" and "reasoned s' = reasoned s" and "citations s' = citations s"
    and "call_parts s' = call_parts s" and "audio s' = audio s" and "saw_terminator s' \<longrightarrow> saw_terminator s \<or> t"
  shows "tells w t s [] s'"
  using assms by (simp add: tells_def)

lemma on_line_ok: "line_ok w (ends_answer w line) s (on_line w x now line s)"
proof -
  note event = line_ok_goes_on [OF on_event_ok]
  have plain: "\<not> cdone plain_chunk" by (simp add: plain_chunk_def)
  have "tells w t s [plain_chunk\<lparr>cprogress := Some working\<rparr>] (s\<lparr>last_keepalive := now\<rparr>)" for t
    by (simp add: tells_def said_simps)
  then show ?thesis
    by (auto simp: on_line_def event plain ends_answer_def intro!: tells_same
        split: option.split loaded.split)
qed

lemma line_ok_from:
  assumes "line_ok w t s0 r" and "tells w t s [] s0"
  shows "line_ok w t s r"
proof (cases "snd r")
  case (Inr v)
  then show ?thesis using assms(1) tells_trans [OF assms(2), of t "fst r" "snd v"] by (auto simp: line_ok_def)
qed (use assms in \<open>simp add: line_ok_def\<close>)

lemma read_lines_ok:
  "sent_ok w (\<exists>a \<in> set as. \<exists>line. brought a = Line line \<and> ends_answer w line) s (read_lines w x as s)"
proof (induction as arbitrary: s)
  case (Cons a as)
  show ?case
  proof (cases "brought a")
    case (Line line)
    let ?r = "on_line w x (clock a) line (hear x (waited a) line s)"
    have ok: "line_ok w (ends_answer w line) s ?r"
      by (rule line_ok_from [OF on_line_ok]) (simp add: hear_def tells_def)
    have "sent_ok w (ends_answer w line \<or> (\<exists>a \<in> set as. \<exists>line. brought a = Line line \<and> ends_answer w line)) s
        (then_sent ?r (\<lambda>(ended, s). if ended then yields [] s else read_lines w x as s))"
    proof (cases "snd ?r")
      case (Inr v)
      obtain b s' where v: "v = (b, s')" by fastforce
      have "sent_ok w (ends_answer w line) s (fst ?r, Inr s')" using ok by (simp add: line_ok_def Inr v sent_ok_def)
      from sent_ok_then [OF this, of _ "\<lambda>s. if b then yields [] s else read_lines w x as s"] Cons.IH
      have "sent_ok w (ends_answer w line \<or> (\<exists>a \<in> set as. \<exists>line. brought a = Line line \<and> ends_answer w line)) s
          (then_sent (fst ?r, Inr s') (\<lambda>s. if b then yields [] s else read_lines w x as s))"
        by (cases b) auto
      then show ?thesis by (cases ?r) (use Inr v in \<open>simp add: then_sent_def\<close>)
    qed (use ok in \<open>cases ?r; simp add: line_ok_def then_sent_def sent_ok_def\<close>)
    then show ?thesis by (auto simp: Line)
  qed auto
qed simp

subsection \<open>The end of the stream is its sum\<close>

lemma flush_filter_ok: "sent_ok w False s (flush_filter s)"
  by (auto simp: flush_filter_def tells_def said_simps split: option.split)

lemma release_held_ok: "sent_ok w False s (release_held w x s)"
proof (cases "forcing x")
  case (Some t)
  have "accumulate_items (py_of w) 0 [dump_delta \<lparr>delta_index = 0, delta_id = Some i,
        delta_function = Some (Some n, Some a)\<rparr>] [] =
      [(0, \<lparr>slot_id = i, slot_name = n, slot_args = a\<rparr>)]" for i n a
    by (simp add: dump_delta_def index_of_def fold_item_def slot_at_def empty_slot_def as_dict_def text_of_def
        truthy_def Let_def)
  then show ?thesis
    by (auto simp: release_held_def Some tells_def said_simps accumulate_tool_calls_def split: option.split)
qed (simp add: release_held_def)

definition made_of :: "world \<Rightarrow> reading \<Rightarrow> chunk list \<Rightarrow> tool_call list option" where
  "made_of w x cs =
     (let made = finish_tool_calls (fresh x) (foldl (gather w) [] cs) in if made = [] then None else Some made)"

text \<open>The done frame \<open>d\<close> after the chunks \<open>cs\<close>: its result is what they carried. No text is \<open>None\<close> only for an
  answer of calls or of speech.\<close>

definition sums_up :: "world \<Rightarrow> reading \<Rightarrow> chunk list \<Rightarrow> chunk \<Rightarrow> bool" where
  "sums_up w x cs d \<longleftrightarrow>
     cdone d \<and> ctext d = [] \<and>
     (case cresult d of
        None \<Rightarrow> False
      | Some res \<Rightarrow>
          content res = (if texts cs = [] \<and> content res = None then None else Some (texts cs)) \<and>
          (content res = None \<longrightarrow> calls res \<noteq> None \<or> wants_audio x \<noteq> None) \<and>
          reasoning_text res = (if thoughts cs = [] then None else Some (thoughts cs)) \<and>
          calls res = made_of w x cs \<and>
          dget (rest res) ''annotations'' = (if cited cs = [] then JNull else JList (cited cs)))"

definition adds_nothing :: "stream_state \<Rightarrow> bool" where
  "adds_nothing s \<longleftrightarrow> emitted s = [] \<and> reasoned s = [] \<and> citations s = [] \<and> call_parts s = [] \<and> \<not> saw_terminator s"

lemma dget_opt [simp]:
  "k \<noteq> k' \<Longrightarrow> dget (opt k f v @ d) k' = dget d k'"
  by (simp add: opt_def split: option.split)

lemma dget_skip [simp]: "dget ((if b then [] else [e]) @ d) k = (if b \<or> fst e \<noteq> k then dget d k else snd e)"
  by (cases e) auto

lemma annotations_of_rest:
  "dget (rest_of x sound lp js counted served) ''annotations'' = (if js = [] then JNull else JList js)"
proof -
  have "dget (opt ''usage'' usage_json counted @ opt ''requestId'' JStr (request_id x) @
     [(''backend'', JStr (backend_kind x)), (''modelId'', JStr served), (''latencyMs'', JInt (latency x))]) ''annotations'' = JNull"
    by simp
  then show ?thesis by (simp add: rest_of_def)
qed

lemma last_chunk_sums:
  assumes "tells w t (started x) cs s" and "last_chunk w x s = Inr d"
  shows "sums_up w x cs d"
proof -
  have s: "concat (emitted s) = texts cs" "concat (reasoned s) = thoughts cs" "citations s = cited cs"
      "call_parts s = foldl (gather w) [] cs"
    using assms(1) by (simp_all add: tells_def started_def)
  define made where "made = finish_tool_calls (fresh x) (call_parts s)"
  define speaks where "speaks = (case audio s of None \<Rightarrow> False | Some a \<Rightarrow> heard a)"
  obtain sound counted lp where d: "d = plain_chunk\<lparr>cdone := True, cresult := Some (response
      (if texts cs \<noteq> [] \<or> \<not> (made \<noteq> [] \<or> speaks) then Some (texts cs) else None)
      (if thoughts cs = [] then None else Some (thoughts cs)) made (finish s) (stop_seq s)
      (rest_of x sound lp (cited cs) counted (served_model s)))\<rparr>"
    using assms(2)
    unfolding last_chunk_def Let_def s(1,2,3) made_def [symmetric] speaks_def [symmetric] and_then_eq_Inr sum.inject
    by (elim exE conjE) (erule that [OF sym])
  have "made_of w x cs = (if made = [] then None else Some made)" by (simp add: made_of_def made_def s)
  moreover have "speaks \<longrightarrow> wants_audio x \<noteq> None" using assms(1) by (auto simp: speaks_def tells_def started_def split: option.splits if_splits)
  ultimately show ?thesis
    by (auto simp: sums_up_def d plain_chunk_def response_def annotations_of_rest)
qed

lemma end_stream_sums:
  assumes "tells w t (started x) cs s"
  shows "case end_stream w x s of
     (ds, Inl e) \<Rightarrow> list_all (\<lambda>c. \<not> cdone c) ds
   | (ds, Inr _) \<Rightarrow> t \<and> (\<exists>out d. ds = out @ [d] \<and> list_all (\<lambda>c. \<not> cdone c) out \<and> sums_up w x (cs @ out) d)"
proof (cases "saw_terminator s")
  case True
  then have t using assms by (simp add: tells_def started_def)
  have flushed: "sent_ok w False s (then_sent (flush_filter s) (release_held w x))"
    by (rule sent_ok_same [OF flush_filter_ok release_held_ok])
  obtain ds res where r: "then_sent (flush_filter s) (release_held w x) = (ds, res)" by fastforce
  have tail: "end_stream w x s = then_sent (ds, res) (\<lambda>s. then_sent (tries (last_chunk w x s)) (\<lambda>c. yields [c] ()))"
    unfolding r [symmetric] using True
    by (cases "flush_filter s") (auto simp: end_stream_def then_sent_def split: sum.split prod.split)
  show ?thesis
  proof (cases res)
    case (Inl e)
    then show ?thesis using flushed unfolding tail r by (simp add: then_sent_def sent_ok_def)
  next
    case (Inr s')
    have told: "list_all (\<lambda>c. \<not> cdone c) ds" "tells w t (started x) (cs @ ds) s'"
      using flushed tells_trans [OF assms, of False ds s'] by (simp_all add: r Inr sent_ok_def)
    show ?thesis
    proof (cases "last_chunk w x s'")
      case (Inl e)
      then show ?thesis using told(1) unfolding tail \<open>res = Inr s'\<close> by (simp add: then_sent_def tries_def)
    next
      case (Inr d)
      show ?thesis using last_chunk_sums [OF told(2) Inr] told(1) \<open>t\<close>
        unfolding tail \<open>res = Inr s'\<close> by (simp add: then_sent_def tries_def yields_def Inr)
    qed
  qed
qed (simp add: end_stream_def raises_def)

lemma stream_lines_sums:
  "case stream_lines w x as of
     (cs, Inl e) \<Rightarrow> list_all (\<lambda>c. \<not> cdone c) cs
   | (cs, Inr _) \<Rightarrow>
       (\<exists>out d. cs = out @ [d] \<and> list_all (\<lambda>c. \<not> cdone c) out \<and> sums_up w x out d) \<and>
       (\<exists>a \<in> set as. \<exists>line. brought a = Line line \<and> ends_answer w line)"
proof -
  let ?t = "\<exists>a \<in> set as. \<exists>line. brought a = Line line \<and> ends_answer w line"
  let ?open = "yields (if report x then [plain_chunk\<lparr>cprogress := Some working\<rparr>] else []) (started x)"
  have "sent_ok w ?t (started x) ?open"
    by (simp add: tells_def said_simps)
  from sent_ok_same [OF this read_lines_ok]
  have ok: "sent_ok w ?t (started x) (then_sent ?open (read_lines w x as))" .
  obtain cs res where r: "then_sent ?open (read_lines w x as) = (cs, res)" by fastforce
  have tail: "stream_lines w x as = then_sent (cs, res) (end_stream w x)"
    unfolding r [symmetric]
    by (cases "read_lines w x as (started x)")
      (auto simp: stream_lines_def then_sent_def yields_def split: sum.split prod.split)
  show ?thesis
  proof (cases res)
    case (Inl e)
    then show ?thesis using ok unfolding tail r by (simp add: then_sent_def sent_ok_def)
  next
    case (Inr s)
    then have told: "list_all (\<lambda>c. \<not> cdone c) cs" "tells w ?t (started x) cs s"
      using ok unfolding r by (simp_all add: sent_ok_def)
    show ?thesis using end_stream_sums [OF told(2)] told(1)
      by (fastforce simp: tail Inr then_sent_def split: prod.splits sum.splits)
  qed
qed

subsection \<open>Silence\<close>

lemma ping_line:
  assumes "\<not> starts_with ''data:'' line"
  obtains cs k where "on_line w x now line s = (cs, Inr (False, s\<lparr>last_keepalive := k\<rparr>))"
proof (cases "report x \<and> starts_with '':'' line \<and> KEEPALIVE_PROGRESS_SECONDS \<le> now - last_keepalive s")
  case False
  have "s = s\<lparr>last_keepalive := last_keepalive s\<rparr>" by simp
  moreover have "sse_data line = None" using assms by (simp add: sse_data_def)
  ultimately have "on_line w x now line s = ([], Inr (False, s\<lparr>last_keepalive := last_keepalive s\<rparr>))"
    using False by (auto simp: on_line_def yields_def)
  then show ?thesis by (rule that)
qed (auto intro: that simp: on_line_def yields_def)

lemma then_sent_Inr: "then_sent (cs, Inr v) f = (cs @ fst (f v), snd (f v))"
  by (simp add: then_sent_def split: prod.split)

text \<open>An armed stream of llama.cpp on which nothing but pings arrives.\<close>

definition only_pings :: "arrival list \<Rightarrow> bool" where
  "only_pings pings \<longleftrightarrow>
     list_all (\<lambda>a. 0 \<le> waited a \<and> (case brought a of Line l \<Rightarrow> \<not> starts_with ''data:'' l | _ \<Rightarrow> False)) pings"

subsection \<open>An answer in pieces and whole\<close>

text \<open>One answer as a backend may send it: in frames, each with a piece of it, the last with the reason it ended, or
  in one body. \<open>m\<close> is the model it names, \<open>f\<close> the finish reason, \<open>sr\<close> the stop reason, \<open>u\<close> the usage.\<close>

datatype piece = Said string | Thought string | CallParts json

definition piece_delta :: "piece \<Rightarrow> dict" where
  "piece_delta p =
     (case p of
        Said t \<Rightarrow> [(''content'', JStr t)]
      | Thought t \<Rightarrow> [(''reasoning_content'', JStr t)]
      | CallParts raw \<Rightarrow> [(''tool_calls'', raw)])"

definition piece_frame :: "json \<Rightarrow> piece \<Rightarrow> json" where
  "piece_frame m p =
     JObj [(''model'', m), (''choices'', JList [JObj [(''delta'', JObj (piece_delta p))]])]"

definition final_frame :: "json \<Rightarrow> string \<Rightarrow> json \<Rightarrow> json \<Rightarrow> json" where
  "final_frame m f sr u =
     JObj [(''model'', m), (''choices'', JList [JObj [(''delta'', JObj []), (''finish_reason'', JStr f), (''stop_reason'', sr)]]),
       (''usage'', u)]"

definition pieces_text :: "piece list \<Rightarrow> string" where
  "pieces_text ps = concat (map (\<lambda>p. case p of Said t \<Rightarrow> t | _ \<Rightarrow> []) ps)"
definition pieces_thought :: "piece list \<Rightarrow> string" where
  "pieces_thought ps = concat (map (\<lambda>p. case p of Thought t \<Rightarrow> t | _ \<Rightarrow> []) ps)"
definition pieces_calls :: "piece list \<Rightarrow> json list" where
  "pieces_calls ps = concat (map (\<lambda>p. case p of CallParts raw \<Rightarrow> [raw] | _ \<Rightarrow> []) ps)"

definition whole_body :: "json \<Rightarrow> string \<Rightarrow> json \<Rightarrow> json \<Rightarrow> json list \<Rightarrow> piece list \<Rightarrow> json" where
  "whole_body m f sr u items ps =
     JObj [(''model'', m),
       (''choices'', JList [JObj [(''finish_reason'', JStr f), (''stop_reason'', sr), (''message'',
         JObj [(''content'', if pieces_text ps = [] \<and> items \<noteq> [] then JNull else JStr (pieces_text ps)),
               (''reasoning_content'', JStr (pieces_thought ps)), (''tool_calls'', JList items)])]]),
       (''usage'', u)]"

lemma pieces_simps [simp]:
  "pieces_text [] = []" "pieces_thought [] = []" "pieces_calls [] = []"
  "pieces_text (ps @ [p]) = pieces_text ps @ (case p of Said t \<Rightarrow> t | _ \<Rightarrow> [])"
  "pieces_thought (ps @ [p]) = pieces_thought ps @ (case p of Thought t \<Rightarrow> t | _ \<Rightarrow> [])"
  "pieces_calls (ps @ [p]) = pieces_calls ps @ (case p of CallParts raw \<Rightarrow> [raw] | _ \<Rightarrow> [])"
  by (simp_all add: pieces_text_def pieces_thought_def pieces_calls_def)

text \<open>The calls put together from the fragments of several frames.\<close>

definition put_together :: "world \<Rightarrow> json list \<Rightarrow> (int \<times> slot) list" where
  "put_together w raws = foldl (\<lambda>parts raw. accumulate_tool_calls (py_of w) raw parts) [] raws"

text \<open>The state after the pieces \<open>ps\<close>.\<close>

definition midway :: "world \<Rightarrow> reading \<Rightarrow> json \<Rightarrow> piece list \<Rightarrow> stream_state \<Rightarrow> bool" where
  "midway w x m ps s \<longleftrightarrow>
     (case filtered s of
        None \<Rightarrow> mode x \<noteq> ''off'' \<and> concat (emitted s) = pieces_text ps
      | Some f \<Rightarrow> mode x = ''off'' \<and> filter_ok f \<and> settled f \<and>
          (\<forall>fut. visible (pieces_text ps @ fut) = concat (emitted s) @ remaining f fut)) \<and>
     concat (reasoned s) = (if mode x = ''off'' then [] else pieces_thought ps) \<and>
     call_parts s = put_together w (pieces_calls ps) \<and>
     citations s = [] \<and> token_logprobs s = [] \<and> held s = [] \<and> audio s = None \<and>
     served_model s \<in> {target_id (to_model x), public_model_id (py_of w) m (to_model x)}"

text \<open>What only the last frame changes.\<close>

definition not_over :: "stream_state \<Rightarrow> bool" where
  "not_over s \<longleftrightarrow> quiet s = 0 \<and> stop_seq s = None \<and> usage_payload s = JObj [] \<and> \<not> saw_terminator s"

lemma served_once:
  assumes "midway w x m ps s"
  shows "public_model_id (py_of w) (if truthy m then m else JStr (served_model s)) (to_model x) =
    public_model_id (py_of w) m (to_model x)"
  using assms by (auto simp: midway_def public_model_id_def text_of_def truthy_def)

lemma frame_quiet:
  "stream_failure w (JObj (a # (''choices'', c) # d)) = None"
  by (cases a) (simp add: stream_failure_def)

lemma then_yields [simp]: "then_sent (yields [] v) f = f v"
  by (simp add: then_sent_def yields_def split: prod.split)

text \<open>A frame of one choice, with the usage or without.\<close>

definition framed :: "json \<Rightarrow> dict \<Rightarrow> json option \<Rightarrow> json" where
  "framed m c u =
     JObj ((''model'', m) # (''choices'', JList [JObj c]) # (case u of None \<Rightarrow> [] | Some v \<Rightarrow> [(''usage'', v)]))"

lemma on_frame:
  assumes "midway w x m ps s"
  shows "on_event w x now (framed m c u) s =
    on_choice w x (JObj c) (s\<lparr>saw_data := True, served_model := public_model_id (py_of w) m (to_model x),
      usage_payload := (case u of Some v \<Rightarrow> if truthy v then v else usage_payload s | None \<Rightarrow> usage_payload s)\<rparr>)"
proof -
  have "on_progress w x now (framed m c u) s = yields [] (s\<lparr>saw_data := True\<rparr>)"
    by (simp add: on_progress_def framed_def generating_progress_def split: option.split)
  moreover have "on_choices w x [JObj c] s' = on_choice w x (JObj c) s'" for s'
    by (cases "on_choice w x (JObj c) s'") (simp add: then_sent_def yields_def split: sum.split)
  moreover have "note_envelope w x ((''model'', m) # (''choices'', JList [JObj c]) #
        (case u of None \<Rightarrow> [] | Some v \<Rightarrow> [(''usage'', v)])) (s\<lparr>saw_data := True\<rparr>) =
      s\<lparr>saw_data := True, served_model := public_model_id (py_of w) m (to_model x),
        usage_payload := (case u of Some v \<Rightarrow> if truthy v then v else usage_payload s | None \<Rightarrow> usage_payload s)\<rparr>"
    using served_once [OF assms]
    by (cases u; cases "truthy m") (simp_all add: note_envelope_def truthy_def [of JNull])
  ultimately show ?thesis
    by (simp add: on_event_def framed_def frame_quiet del: on_choices.simps)
qed

lemma then_yields_right [simp]: "then_sent r (yields []) = r"
  by (cases r) (auto simp: then_sent_def yields_def split: sum.split)

lemma on_piece_choice:
  "on_choice w x (JObj [(''delta'', JObj (piece_delta p))]) s =
    (case p of
       Said t \<Rightarrow> on_text x None (piece_delta p) s
     | Thought t \<Rightarrow> on_reasoning x (piece_delta p) s
     | CallParts raw \<Rightarrow> on_tool_calls w (piece_delta p) s)"
proof -
  have textless: "on_text x None d = yields []" if "dget d ''content'' = JNull" for d
    using that by (intro ext) (simp add: on_text_def show_text_def truthy_def)
  have "on_tool_calls w d s' = yields [] s'" if "dget d ''tool_calls'' = JNull" for d s'
    using that by (simp add: on_tool_calls_def truthy_def)
  moreover have "on_reasoning x d s' = yields [] s'" if "reasoning_of d = None" for d s'
    using that by (simp add: on_reasoning_def)
  moreover have "on_audio d s' = yields [] s'" if "dget d ''audio'' = JNull" for d s'
    using that by (simp add: on_audio_def split: option.split)
  moreover have "on_annotations w d s' = yields [] s'" if "dget d ''annotations'' = JNull" for d s'
    using that by (simp add: on_annotations_def annotations_of_def)
  moreover have "on_text x None [(''reasoning_content'', JStr t)] = yields []" "on_text x None [(''tool_calls'', raw)] = yields []"
    for t raw by (rule textless, simp)+
  ultimately show ?thesis
    by (cases p) (simp_all add: on_choice_def delta_of_def piece_delta_def note_finish_def truthy_def [of JNull]
      note_logprobs_def logprobs_of_def reasoning_of_def)
qed

lemma nothing_accumulates:
  assumes "tool_call_deltas_from_wire raw = Inr ds" and "\<not> truthy raw \<or> ds = []"
  shows "accumulate_tool_calls ou raw parts = parts"
proof (cases raw)
  case (JList items)
  have "deltas_from n items = Inr [] \<Longrightarrow> accumulate_items ou n items parts = parts" for n
    by (induction n items rule: deltas_from.induct) (auto simp: and_then_eq_Inr)
  then show ?thesis using assms by (auto simp: JList accumulate_tool_calls_def tool_call_deltas_from_wire_def truthy_def)
qed (simp_all add: accumulate_tool_calls_def)

text \<open>A step that goes on, with a piece more than before.\<close>

definition goes_on :: "world \<Rightarrow> reading \<Rightarrow> json \<Rightarrow> piece list \<Rightarrow> stream_state \<Rightarrow> stream_state sent \<Rightarrow> bool" where
  "goes_on w x m ps s r \<longleftrightarrow>
     (\<exists>cs s'. r = (cs, Inr s') \<and> midway w x m ps s' \<and> (not_over s \<longrightarrow> not_over s'))"

lemma goes_on_yields [simp]:
  "goes_on w x m ps s (yields cs s') \<longleftrightarrow> midway w x m ps s' \<and> (not_over s \<longrightarrow> not_over s')"
  by (simp add: goes_on_def yields_def)

lemma on_piece:
  assumes "midway w x m ps s" and "forcing x = None"
    and "\<And>raw. p = CallParts raw \<Longrightarrow> \<exists>ds. tool_call_deltas_from_wire raw = Inr ds"
  shows "goes_on w x m (ps @ [p]) s (on_event w x now (piece_frame m p) s)"
proof -
  define s0 where "s0 = s\<lparr>saw_data := True, served_model := public_model_id (py_of w) m (to_model x)\<rparr>"
  have s0: "midway w x m ps s0" "not_over s0 = not_over s"
    using assms(1) by (simp_all add: midway_def s0_def not_over_def split: option.splits)
  have "piece_frame m p = framed m [(''delta'', JObj (piece_delta p))] None"
    by (simp add: piece_frame_def framed_def)
  then have frame: "on_event w x now (piece_frame m p) s =
    (case p of
       Said t \<Rightarrow> on_text x None (piece_delta p) s0
     | Thought t \<Rightarrow> on_reasoning x (piece_delta p) s0
     | CallParts raw \<Rightarrow> on_tool_calls w (piece_delta p) s0)"
    using on_frame [OF assms(1)] by (simp add: s0_def on_piece_choice split: piece.split)
  show ?thesis
  proof (cases p)
    case (Said t)
    show ?thesis
    proof (cases "filtered s0")
      case None
      with s0 assms(2) show ?thesis
        unfolding frame
        by (cases t) (auto simp: Said piece_delta_def on_text_def show_text_def midway_def not_over_def truthy_def)
    next
      case (Some f)
      obtain out f' where f: "feed f t = (out, f')" by fastforce
      with s0 assms(2) Some feed_correct [OF _ f] show ?thesis
        unfolding frame
        by (cases t) (auto simp: Said piece_delta_def on_text_def show_text_def midway_def not_over_def truthy_def)
    qed
  next
    case (Thought t)
    with s0 show ?thesis
      unfolding frame
      by (cases t) (auto simp: piece_delta_def on_reasoning_def reasoning_of_def midway_def not_over_def
        split: option.splits)
  next
    case (CallParts raw)
    then obtain ds where ds: "tool_call_deltas_from_wire raw = Inr ds" using assms(3) by blast
    have add: "put_together w (pieces_calls ps @ [raw]) = accumulate_tool_calls (py_of w) raw (put_together w (pieces_calls ps))"
      by (simp add: put_together_def)
    show ?thesis
    proof (cases "\<not> truthy raw \<or> ds = []")
      case True
      with s0 ds show ?thesis
        unfolding frame
        by (auto simp: CallParts piece_delta_def on_tool_calls_def midway_def not_over_def add
            nothing_accumulates [OF ds True] cong: option.case_cong)
    next
      case False
      with s0 ds show ?thesis
        unfolding frame
        by (auto simp: CallParts piece_delta_def on_tool_calls_def midway_def not_over_def add cong: option.case_cong)
    qed
  qed
qed

text \<open>A wait that brings a frame in time.\<close>

definition brings :: "world \<Rightarrow> reading \<Rightarrow> arrival \<Rightarrow> json \<Rightarrow> bool" where
  "brings w x a j \<longleftrightarrow>
     (stall_seconds x \<le> 0 \<or> waited a \<le> stall_seconds x) \<and>
     (case brought a of
        Line l \<Rightarrow> (case sse_data l of None \<Rightarrow> False | Some p \<Rightarrow> p \<noteq> ''[DONE]'' \<and> parses w p = Loaded j)
      | _ \<Rightarrow> False)"

lemma then_sent_assoc: "then_sent (then_sent r f) g = then_sent r (\<lambda>v. then_sent (f v) g)"
  by (cases r; cases "snd r") (auto simp: then_sent_def split: prod.splits sum.splits)

lemma sse_data_Some: "sse_data l = Some p \<Longrightarrow> starts_with ''data:'' l \<and> \<not> starts_with '':'' l"
  by (auto simp: sse_data_def split: if_splits)

lemma read_frame:
  assumes "brings w x a j" and "quiet s = 0"
  shows "read_lines w x (a # as) s = then_sent (on_event w x (clock a) j s) (read_lines w x as)"
proof -
  obtain l p where l: "brought a = Line l" "sse_data l = Some p" "p \<noteq> ''[DONE]''" "parses w p = Loaded j"
    using assms(1) by (auto simp: brings_def split: got.splits option.splits)
  have "\<not> too_long x (waited a) s" using assms by (auto simp: brings_def too_long_def armed_def)
  moreover have "hear x (waited a) l s = s" using sse_data_Some [OF l(2)] assms(2) by (simp add: hear_def)
  moreover have "on_line w x (clock a) l s = then_sent (on_event w x (clock a) j s) (\<lambda>s. yields [] (False, s))"
    using sse_data_Some [OF l(2)] l(2-4) by (simp add: on_line_def)
  ultimately show ?thesis by (simp add: l(1) then_sent_assoc)
qed

lemma read_pieces:
  assumes "list_all2 (brings w x) as (map (piece_frame m) qs)" and "midway w x m ps s" and "not_over s"
    and "forcing x = None"
    and "\<forall>raw \<in> set (pieces_calls qs). \<exists>ds. tool_call_deltas_from_wire raw = Inr ds"
  obtains cs s' where "read_lines w x (as @ later) s = then_sent (cs, Inr s') (read_lines w x later)"
    and "midway w x m (ps @ qs) s'" and "not_over s'"
  using assms
proof (induction qs arbitrary: as ps s thesis)
  case Nil
  from Nil.prems(1) [of "[]" s] Nil.prems(2-) show ?case by (simp add: then_sent_Inr)
next
  case (Cons q qs)
  from Cons.prems(2) obtain a bs where a: "as = a # bs" "brings w x a (piece_frame m q)"
    and bs: "list_all2 (brings w x) bs (map (piece_frame m) qs)" by (auto simp: list_all2_Cons2)
  have "\<exists>ds. tool_call_deltas_from_wire raw = Inr ds" if "q = CallParts raw" for raw
    using Cons.prems(6) that by (simp add: pieces_calls_def)
  then have "goes_on w x m (ps @ [q]) s (on_event w x (clock a) (piece_frame m q) s)"
    by (rule on_piece [OF Cons.prems(3,5)])
  then obtain cs s1 where s1: "on_event w x (clock a) (piece_frame m q) s = (cs, Inr s1)"
      "midway w x m (ps @ [q]) s1" "not_over s1"
    using Cons.prems(4) by (auto simp: goes_on_def)
  have deltas: "\<forall>raw \<in> set (pieces_calls qs). \<exists>ds. tool_call_deltas_from_wire raw = Inr ds"
    using Cons.prems(6) by (simp add: pieces_calls_def)
  obtain cs' s' where s': "read_lines w x (bs @ later) s1 = then_sent (cs', Inr s') (read_lines w x later)"
      "midway w x m ((ps @ [q]) @ qs) s'" "not_over s'"
    by (rule Cons.IH [OF _ bs s1(2,3) Cons.prems(5) deltas])
  have "read_lines w x (as @ later) s = then_sent (cs @ cs', Inr s') (read_lines w x later)"
    using read_frame [OF a(2), of s "bs @ later"] Cons.prems(4) s1(1) s'(1)
    by (simp add: a(1) not_over_def then_sent_Inr del: read_lines.simps)
  with s'(2,3) show ?case by (intro Cons.prems(1)) simp_all
qed

lemma read_final:
  assumes "midway w x m ps s" and "not_over s" and "f \<noteq> []"
  obtains s' where "on_event w x now (final_frame m f sr u) s = ([], Inr s')" and "midway w x m ps s'"
    and "finish s' = f" and "saw_terminator s'" and "usage_payload s' = (if truthy u then u else JObj [])"
    and "stop_seq s' = stop_sequence_of [(''stop_reason'', sr)] (stops x)"
    and "served_model s' = public_model_id (py_of w) m (to_model x)"
proof -
  let ?c = "[(''delta'', JObj []), (''finish_reason'', JStr f), (''stop_reason'', sr)]"
  define s0 where "s0 = s\<lparr>saw_data := True, served_model := public_model_id (py_of w) m (to_model x),
      usage_payload := (if truthy u then u else usage_payload s)\<rparr>"
  define s' where "s' = s0\<lparr>finish := f, saw_terminator := True,
      stop_seq := stop_sequence_of [(''stop_reason'', sr)] (stops x)\<rparr>"
  have "final_frame m f sr u = framed m ?c (Some u)" by (simp add: final_frame_def framed_def)
  then have "on_event w x now (final_frame m f sr u) s = on_choice w x (JObj ?c) s0"
    using on_frame [OF assms(1)] by (simp add: s0_def)
  moreover have "note_finish w x ?c s0 = s'"
    using assms(3) by (simp add: note_finish_def s'_def truthy_def text_of_def stop_sequence_of_def)
  moreover have "on_text x None [] t = yields [] t" "on_tool_calls w [] t = yields [] t" "on_reasoning x [] t = yields [] t"
      "on_audio [] t = yields [] t" "on_annotations w [] t = yields [] t" for t
    by (simp_all add: on_text_def show_text_def on_tool_calls_def on_reasoning_def reasoning_of_def on_audio_def
        on_annotations_def annotations_of_def truthy_def split: option.split)
  ultimately have "on_event w x now (final_frame m f sr u) s = ([], Inr s')"
    by (simp add: on_choice_def delta_of_def note_logprobs_def logprobs_of_def yields_def then_sent_Inr)
  moreover have "midway w x m ps s'"
    using assms(1) by (simp add: midway_def s'_def s0_def split: option.splits)
  ultimately show ?thesis
    using assms(2) by (intro that [of s']) (simp_all add: s'_def s0_def not_over_def)
qed

text \<open>What comes after an answer that has ended: nothing, the end of the connection or \<open>[DONE]\<close>.\<close>

definition nothing_more :: "arrival list \<Rightarrow> bool" where
  "nothing_more later \<longleftrightarrow>
     (case later of
        [] \<Rightarrow> True
      | a # _ \<Rightarrow> (case brought a of Closed \<Rightarrow> True | Line l \<Rightarrow> sse_data l = Some ''[DONE]'' | _ \<Rightarrow> False))"

lemma read_nothing_more:
  assumes "nothing_more later" and "saw_terminator s"
  obtains q b where "read_lines w x later s = ([], Inr (s\<lparr>quiet := q, saw_data := b\<rparr>))"
proof (cases later)
  case Nil
  then show ?thesis using that [of "saw_data s" "quiet s"] by (simp add: yields_def)
next
  case (Cons a as)
  show ?thesis
  proof (cases "too_long x (waited a) s \<or> brought a = Closed")
    case True
    then show ?thesis using assms(2) that [of "saw_data s" "quiet s"] by (auto simp: Cons yields_def)
  next
    case False
    with assms(1) Cons obtain l where l: "brought a = Line l" "sse_data l = Some ''[DONE]''"
      by (auto simp: nothing_more_def split: got.splits)
    have "on_line w x (clock a) l t = yields [] (True, t\<lparr>saw_data := True, saw_terminator := True\<rparr>)" for t
      using l(2) sse_data_Some [OF l(2)] by (simp add: on_line_def)
    moreover have "(hear x (waited a) l s)\<lparr>saw_data := True, saw_terminator := True\<rparr> = s\<lparr>quiet := 0, saw_data := True\<rparr>"
      using assms(2) sse_data_Some [OF l(2)] by (simp add: hear_def)
    ultimately show ?thesis using False l(1) that [of True 0] by (simp add: Cons yields_def then_sent_Inr)
  qed
qed

lemma usage_or_empty: "usage_of w (if truthy u then u else JObj []) = usage_of w u"
  by (cases u) (auto simp: usage_of_def truthy_def usage_from_envelope_def)

lemma end_of_midway:
  assumes "midway w x m ps s" and "forcing x = None" and "saw_terminator s"
    and "usage_of w (usage_payload s) = Inr counted"
  obtains cs t where "t = (if mode x = ''off'' then visible (pieces_text ps) else pieces_text ps)"
    and "end_stream w x s = (cs @ [plain_chunk\<lparr>cdone := True, cresult := Some (response
        (if t \<noteq> [] \<or> finish_tool_calls (fresh x) (put_together w (pieces_calls ps)) = [] then Some t else None)
        (if mode x = ''off'' \<or> pieces_thought ps = [] then None else Some (pieces_thought ps))
        (finish_tool_calls (fresh x) (put_together w (pieces_calls ps))) (finish s) (stop_seq s)
        (rest_of x None None [] counted (served_model s)))\<rparr>], Inr ())"
proof -
  obtain cs s' where s': "flush_filter s = (cs, Inr s')" "s' = s\<lparr>emitted := emitted s'\<rparr>"
      "concat (emitted s') = (if mode x = ''off'' then visible (pieces_text ps) else pieces_text ps)"
  proof (cases "filtered s")
    case None
    with assms(1) show ?thesis by (intro that [of "[]" s]) (auto simp: flush_filter_def yields_def midway_def)
  next
    case (Some f)
    with assms(1) have f: "mode x = ''off''" "visible (pieces_text ps @ []) = concat (emitted s) @ flush f"
      by (auto simp: midway_def flush_remaining dest: spec [of _ "[]"])
    show ?thesis
    proof (cases "flush f = []")
      case True
      with Some f show ?thesis by (intro that [of "[]" s]) (auto simp: flush_filter_def yields_def)
    next
      case False
      with Some f show ?thesis
        by (intro that [of "[plain_chunk\<lparr>ctext := flush f\<rparr>]" "s\<lparr>emitted := emitted s @ [flush f]\<rparr>"])
          (auto simp: flush_filter_def yields_def)
    qed
  qed
  have same: "reasoned s' = reasoned s" "audio s' = audio s" "call_parts s' = call_parts s" "finish s' = finish s"
      "stop_seq s' = stop_seq s" "token_logprobs s' = token_logprobs s" "citations s' = citations s"
      "usage_payload s' = usage_payload s" "served_model s' = served_model s"
    by (subst s'(2), simp)+
  define T where "T = (if mode x = ''off'' then visible (pieces_text ps) else pieces_text ps)"
  define R where "R = (if mode x = ''off'' then [] else pieces_thought ps)"
  have T: "concat (emitted s') = T" and R: "concat (reasoned s') = R"
    using s'(3) assms(1) by (simp_all add: T_def R_def same midway_def)
  have state: "call_parts s = put_together w (pieces_calls ps)" "audio s = None" "citations s = []" "token_logprobs s = []"
    using assms(1) by (simp_all add: midway_def)
  have "last_chunk w x s' = Inr (plain_chunk\<lparr>cdone := True, cresult := Some (response
        (if T \<noteq> [] \<or> finish_tool_calls (fresh x) (put_together w (pieces_calls ps)) = [] then Some T else None)
        (if mode x = ''off'' \<or> pieces_thought ps = [] then None else Some (pieces_thought ps))
        (finish_tool_calls (fresh x) (put_together w (pieces_calls ps))) (finish s) (stop_seq s)
        (rest_of x None None [] counted (served_model s)))\<rparr>)"
    unfolding last_chunk_def Let_def T R
    using assms(4) by (cases "assembles x") (simp_all add: same state R_def)
  moreover have "release_held w x s' = yields [] s'" using assms(2) by (simp add: release_held_def)
  ultimately show ?thesis
    using assms(3) s'(1) by (intro that [OF T_def, of cs]) (simp add: end_stream_def then_sent_Inr tries_def yields_def)
qed

lemma read_answer:
  assumes "forcing x = None" and "wants_audio x = None" and "f \<noteq> []"
    and "list_all2 (brings w x) as (map (piece_frame m) ps @ [final_frame m f sr u])" and "nothing_more later"
    and "\<forall>raw \<in> set (pieces_calls ps). \<exists>ds. tool_call_deltas_from_wire raw = Inr ds"
  obtains cs s where "read_lines w x (as @ later) (started x) = (cs, Inr s)" and "midway w x m ps s"
    and "finish s = f" and "saw_terminator s" and "usage_payload s = (if truthy u then u else JObj [])"
    and "stop_seq s = stop_sequence_of [(''stop_reason'', sr)] (stops x)"
    and "served_model s = public_model_id (py_of w) m (to_model x)"
proof -
  obtain bs a where as: "as = bs @ [a]" "list_all2 (brings w x) bs (map (piece_frame m) ps)"
      "brings w x a (final_frame m f sr u)"
    using assms(4) by (auto simp: list_all2_append2 list_all2_Cons2)
  have start: "midway w x m [] (started x)" "not_over (started x)"
    using assms(2) new_filter_fresh
    by (auto simp: midway_def started_def not_over_def put_together_def remaining_def new_filter_def)
  obtain cs s1 where s1: "read_lines w x (bs @ (a # later)) (started x) = then_sent (cs, Inr s1) (read_lines w x (a # later))"
      "midway w x m ([] @ ps) s1" "not_over s1"
    by (rule read_pieces [OF as(2) start assms(1,6)])
  obtain s2 where s2: "on_event w x (clock a) (final_frame m f sr u) s1 = ([], Inr s2)" "midway w x m ([] @ ps) s2"
      "finish s2 = f" "saw_terminator s2" "usage_payload s2 = (if truthy u then u else JObj [])"
      "stop_seq s2 = stop_sequence_of [(''stop_reason'', sr)] (stops x)"
      "served_model s2 = public_model_id (py_of w) m (to_model x)"
    by (rule read_final [OF s1(2,3) assms(3)])
  obtain q b where q: "read_lines w x later s2 = ([], Inr (s2\<lparr>quiet := q, saw_data := b\<rparr>))"
    by (rule read_nothing_more [OF assms(5) s2(4)])
  have "read_lines w x (as @ later) (started x) = (cs, Inr (s2\<lparr>quiet := q, saw_data := b\<rparr>))"
    using s1(1,3) read_frame [OF as(3), of s1 later] s2(1) q
    by (simp add: as(1) then_sent_Inr not_over_def del: read_lines.simps)
  moreover have "midway w x m ps (s2\<lparr>quiet := q, saw_data := b\<rparr>)"
    using s2(2) by (simp add: midway_def split: option.splits)
  ultimately show ?thesis using s2(3-7) by (intro that [of cs "s2\<lparr>quiet := q, saw_data := b\<rparr>"]) simp_all
qed

text \<open>The whole answer of the body of the same pieces.\<close>

lemma whole_of_pieces:
  assumes "parses w text = Loaded (whole_body m f sr u items ps)" and "forcing x = None" and "f \<noteq> []"
    and "usage_of w u = Inr counted"
    and "made = tool_calls_from_wire (py_of w) (\<lambda>n. fresh x (int n)) (JList items)" and "items \<noteq> [] \<longrightarrow> made \<noteq> []"
  shows "whole_answer w x text = Inr (response
      (if pieces_text ps = [] \<and> items \<noteq> [] then None
       else Some (if mode x = ''off'' then strip_thinking_blocks (pieces_text ps) else pieces_text ps))
      (if mode x = ''off'' \<or> pieces_thought ps = [] then None else Some (pieces_thought ps))
      made f (stop_sequence_of [(''stop_reason'', sr)] (stops x))
      (rest_of x None None [] counted (public_model_id (py_of w) m (to_model x))))"
proof -
  let ?msg = "[(''content'', if pieces_text ps = [] \<and> items \<noteq> [] then JNull else JStr (pieces_text ps)),
      (''reasoning_content'', JStr (pieces_thought ps)), (''tool_calls'', JList items)]"
  let ?choice = "[(''finish_reason'', JStr f), (''stop_reason'', sr), (''message'', JObj ?msg)]"
  have thought: "reasoning_of ?msg = (if pieces_thought ps = [] then None else Some (pieces_thought ps))"
    by (cases "pieces_thought ps") (simp_all add: reasoning_of_def)
  have "answer_text x (dget ?msg ''content'') made (reasoning_of ?msg) = Inr
      (if pieces_text ps = [] \<and> items \<noteq> [] then None
       else Some (if mode x = ''off'' then strip_thinking_blocks (pieces_text ps) else pieces_text ps))"
    using assms(6) by (simp add: answer_text_def)
  moreover have "stop_sequence_of ?choice (stops x) = stop_sequence_of [(''stop_reason'', sr)] (stops x)"
    by (simp add: stop_sequence_of_def)
  ultimately have "answer_of w x (as_dict (whole_body m f sr u items ps)) ?choice ?msg = Inr (response
      (if pieces_text ps = [] \<and> items \<noteq> [] then None
       else Some (if mode x = ''off'' then strip_thinking_blocks (pieces_text ps) else pieces_text ps))
      (if mode x = ''off'' \<or> pieces_thought ps = [] then None else Some (pieces_thought ps))
      made f (stop_sequence_of [(''stop_reason'', sr)] (stops x))
      (rest_of x None None [] counted (public_model_id (py_of w) m (to_model x))))"
    unfolding answer_of_def Let_def forced_answer_def assms(2) option.case prod.case thought
    using assms(3,4)
    by (simp add: assms(5) whole_body_def as_dict_def logprobs_of_def annotations_of_def text_of_def truthy_def)
  then show ?thesis
    using assms(1) by (simp add: whole_answer_def first_choice_def whole_body_def dict_or_empty_def truthy_def)
qed

subsection \<open>Properties\<close>

text \<open>A stream breaks off with no chunk that says it is done, or ends with exactly one, the last.\<close>

lemma exchange_ends:
  "(\<exists>cs e. stream_exchange w x refuse ex = (cs, Inl e) \<and> list_all (\<lambda>c. \<not> cdone c) cs) \<or>
   (\<exists>cs d. stream_exchange w x refuse ex = (cs @ [d], Inr ()) \<and> list_all (\<lambda>c. \<not> cdone c) cs \<and> cdone d)"
proof (cases "\<exists>r. ex = Inr r \<and> \<not> 400 \<le> status r")
  case True
  then obtain r where r: "ex = Inr r" "\<not> 400 \<le> status r" by blast
  then show ?thesis using stream_lines_sums [of w x "arrivals r"]
    by (fastforce simp: stream_exchange_def sums_up_def split: prod.splits sum.splits)
next
  case False
  then show ?thesis by (cases ex) (auto simp: stream_exchange_def raises_def)
qed

text \<open>C26. What a caller of the stream has read is what the last chunk reports. Whatever the backend sends, and
  whenever it stops sending: either the stream fails and no chunk of it says that it is done, or it has seen
  \<open>[DONE]\<close> or a finish reason, exactly the last chunk says so, and the text, the reasoning, the calls and the
  citations of its result are what the chunks before it carried. A cut answer is never reported as a whole one.\<close>

theorem done_sums_up_the_stream:
  "case stream_exchange w x refuse ex of
     (cs, Inl e) \<Rightarrow> list_all (\<lambda>c. \<not> cdone c) cs
   | (cs, Inr _) \<Rightarrow>
       (\<exists>out d. cs = out @ [d] \<and> list_all (\<lambda>c. \<not> cdone c) out \<and> sums_up w x out d) \<and>
       (\<exists>r a line. ex = Inr r \<and> a \<in> set (arrivals r) \<and> brought a = Line line \<and> ends_answer w line)"
proof (cases ex)
  case (Inr r)
  show ?thesis
  proof (cases "400 \<le> status r")
    case False
    with Inr stream_lines_sums [of w x "arrivals r"] show ?thesis
      by (fastforce simp: stream_exchange_def split: prod.splits sum.splits)
  qed (simp add: Inr stream_exchange_def raises_def)
qed (simp add: stream_exchange_def raises_def)

lemma streamed_as_whole:
  assumes "forcing x = None" and "wants_audio x = None" and "f \<noteq> []"
    and "list_all2 (brings w x) as (map (piece_frame m) ps @ [final_frame m f sr u])" and "nothing_more later"
    and "\<forall>raw \<in> set (pieces_calls ps). \<exists>ds. tool_call_deltas_from_wire raw = Inr ds"
    and "parses w text = Loaded (whole_body m f sr u items ps)" and "usage_of w u = Inr counted"
    and "finish_tool_calls (fresh x) (put_together w (pieces_calls ps)) =
      tool_calls_from_wire (py_of w) (\<lambda>n. fresh x (int n)) (JList items)"
    and "items \<noteq> [] \<longrightarrow> tool_calls_from_wire (py_of w) (\<lambda>n. fresh x (int n)) (JList items) \<noteq> []"
  shows "\<exists>out d res. stream_lines w x (as @ later) = (out @ [d], Inr ()) \<and> whole_answer w x text = Inr res \<and>
    calls res = (if tool_calls_from_wire (py_of w) (\<lambda>n. fresh x (int n)) (JList items) = [] then None
      else Some (tool_calls_from_wire (py_of w) (\<lambda>n. fresh x (int n)) (JList items))) \<and>
    (if mode x \<noteq> ''off'' then cresult d = Some res
     else \<exists>shown. cresult d = Some (res\<lparr>content := shown\<rparr>) \<and>
       (no_glue (pieces_text ps) \<longrightarrow>
          (case shown of None \<Rightarrow> content res \<in> {None, Some []} | Some t \<Rightarrow> content res = Some (strip t))))"
proof -
  obtain cs s where s: "read_lines w x (as @ later) (started x) = (cs, Inr s)" "midway w x m ps s" "finish s = f"
      "saw_terminator s" "usage_payload s = (if truthy u then u else JObj [])"
      "stop_seq s = stop_sequence_of [(''stop_reason'', sr)] (stops x)"
      "served_model s = public_model_id (py_of w) m (to_model x)"
    by (rule read_answer [OF assms(1-6)])
  have "usage_of w (usage_payload s) = Inr counted" using assms(8) by (simp add: s(5) usage_or_empty)
  from end_of_midway [OF s(2) assms(1) s(4) this] obtain ds t where
    t: "t = (if mode x = ''off'' then visible (pieces_text ps) else pieces_text ps)" and
    stream: "end_stream w x s = (ds @ [plain_chunk\<lparr>cdone := True, cresult := Some (response
        (if t \<noteq> [] \<or> finish_tool_calls (fresh x) (put_together w (pieces_calls ps)) = [] then Some t else None)
        (if mode x = ''off'' \<or> pieces_thought ps = [] then None else Some (pieces_thought ps))
        (finish_tool_calls (fresh x) (put_together w (pieces_calls ps))) (finish s) (stop_seq s)
        (rest_of x None None [] counted (served_model s)))\<rparr>], Inr ())" by metis
  define made where "made = tool_calls_from_wire (py_of w) (\<lambda>n. fresh x (int n)) (JList items)"
  define sq where "sq = stop_sequence_of [(''stop_reason'', sr)] (stops x)"
  define more where "more = rest_of x None None [] counted (public_model_id (py_of w) m (to_model x))"
  define th where "th = (if mode x = ''off'' \<or> pieces_thought ps = [] then None else Some (pieces_thought ps))"
  define d where "d = plain_chunk\<lparr>cdone := True,
      cresult := Some (response (if t \<noteq> [] \<or> made = [] then Some t else None) th made f sq more)\<rparr>"
  define pre where "pre = (if report x then [plain_chunk\<lparr>cprogress := Some working\<rparr>] else [])"
  have "stream_lines w x (as @ later) = ((pre @ cs @ ds) @ [d], Inr ())"
    unfolding stream_lines_def pre_def [symmetric]
    by (simp add: s(1) then_sent_Inr stream assms(9) s(3,6,7) d_def made_def sq_def more_def th_def)
  moreover have whole: "whole_answer w x text = Inr (response
      (if pieces_text ps = [] \<and> items \<noteq> [] then None
       else Some (if mode x = ''off'' then strip_thinking_blocks (pieces_text ps) else pieces_text ps))
      th made f sq more)"
    unfolding made_def sq_def more_def th_def by (rule whole_of_pieces [OF assms(7,1,3,8) refl assms(10)])
  moreover have none: "items = [] \<longrightarrow> made = []" "items \<noteq> [] \<longrightarrow> made \<noteq> []"
    using assms(10) by (auto simp: made_def tool_calls_from_wire_def)
  moreover have "cresult d = Some (response (if t \<noteq> [] \<or> made = [] then Some t else None) th made f sq more)"
    by (simp add: d_def)
  moreover have "(response c th made f sq more)\<lparr>content := c'\<rparr> = response c' th made f sq more" for c c'
    by (simp add: response_def)
  moreover have "content (response c th made f sq more) = c"
    "calls (response c th made f sq more) = (if made = [] then None else Some made)" for c
    by (simp_all add: response_def)
  moreover define shown where "shown = (if t \<noteq> [] \<or> made = [] then Some t else None)"
  moreover define told where "told = (if pieces_text ps = [] \<and> items \<noteq> [] then None
      else Some (if mode x = ''off'' then strip_thinking_blocks (pieces_text ps) else pieces_text ps))"
  moreover have "case shown of None \<Rightarrow> told \<in> {None, Some []} | Some t \<Rightarrow> told = Some (strip t)"
    if "mode x = ''off''" "no_glue (pieces_text ps)"
    using batch_visible [OF that(2)] that(1) none t
    by (auto simp: shown_def told_def strip_thinking_blocks_def strip_def lstrip_def rstrip_def)
  moreover have "shown = told" if "mode x \<noteq> ''off''" using that none t by (auto simp: shown_def told_def)
  ultimately show ?thesis unfolding made_def [symmetric] by (cases "mode x = ''off''") auto
qed

text \<open>The calls \<open>cs\<close> stand whole in the single body, and their fragments come in any frames and any order that keeps
  each call's own.\<close>

definition cut_into :: "world \<Rightarrow> tool_call list \<Rightarrow> json list \<Rightarrow> bool" where
  "cut_into w cs raws \<longleftrightarrow>
     (\<forall>c \<in> set cs. call_id c \<noteq> [] \<and> fn_name (call_function c) \<noteq> []) \<and>
     (\<forall>k < length cs. cuts_call (py_of w) (cs ! k) (fragments_at raws (int k))) \<and>
     (\<forall>i. i < 0 \<or> int (length cs) \<le> i \<longrightarrow> fragments_at raws i = [])"

lemma cut_put_together:
  assumes "str_ok (py_of w)" and "cut_into w cs raws"
  shows "finish_tool_calls new_id (put_together w raws) = cs"
proof -
  have "finish_tool_calls new_id (assembled (py_of w) raws) = cs"
    using assms by (intro cut_calls_finished) (auto simp: cut_into_def)
  then show ?thesis by (simp add: put_together_def assembled_def)
qed


definition demo_world :: world where
  "demo_world = \<lparr>py_of = \<lparr>str_of = \<lambda>_. ''?'', float_of = \<lambda>_. None\<rparr>,
     parses = \<lambda>p.
       if p = ''think'' then Loaded (piece_frame JNull (Thought ''so''))
       else if p = ''one'' then Loaded (piece_frame JNull (Said ''a''))
       else if p = ''two'' then Loaded (piece_frame JNull (Said ''b''))
       else if p = ''call'' then Loaded (piece_frame JNull (CallParts (JList [JObj [(''index'', JInt 0), (''id'', JStr ''c1''),
         (''function'', JObj [(''name'', JStr ''f''), (''arguments'', JStr ''{'')])]])))
       else if p = ''args'' then Loaded (piece_frame JNull (CallParts (JList [JObj [(''index'', JInt 0),
         (''function'', JObj [(''arguments'', JStr ''}'')])]])))
       else if p = ''last'' then Loaded (final_frame JNull ''tool_calls'' JNull (JObj [(''prompt_tokens'', JInt 3)]))
       else if p = ''whole'' then Loaded (whole_body JNull ''tool_calls'' JNull (JObj [(''prompt_tokens'', JInt 3)])
         [JObj [(''id'', JStr ''c1''), (''function'', JObj [(''name'', JStr ''f''), (''arguments'', JStr ''{}'')])]]
         [Thought ''so'', Said ''a'', Said ''b''])
       else LoadValueError,
     valid_logprobs = \<lambda>_. None, valid_annotation = \<lambda>_. None, round1 = \<lambda>_. None, coerced = \<lambda>_. None,
     other_sum = \<lambda>_ _. None, show_g = \<lambda>_. ''60''\<rparr>"

definition demo_reading :: reading where
  "demo_reading = \<lparr>to_model = demo_target, stops = None, report = True, mode = ''medium'', forcing = None,
     hollow_pings = True, stall_seconds = 60, timeout_seconds = 120, wants_audio = None, assembles = False,
     fresh = \<lambda>_. ''new'', request_id = None, backend_kind = ''openai_compat_http'', latency = 7\<rparr>"

definition demo_line :: "rat \<Rightarrow> string \<Rightarrow> arrival" where
  "demo_line t l = \<lparr>waited = t, clock = 0, brought = Line l\<rparr>"

definition demo_pieces :: "piece list" where
  "demo_pieces = [Thought ''so'', Said ''a'', Said ''b'',
     CallParts (JList [JObj [(''index'', JInt 0), (''id'', JStr ''c1''),
       (''function'', JObj [(''name'', JStr ''f''), (''arguments'', JStr ''{'')])]]),
     CallParts (JList [JObj [(''index'', JInt 0), (''function'', JObj [(''arguments'', JStr ''}'')])]])]"

definition demo_calls :: "tool_call list" where
  "demo_calls = [\<lparr>call_id = ''c1'', call_function = \<lparr>fn_name = ''f'', arguments = ''{}''\<rparr>\<rparr>]"

lemma demo_cut: "cut_into demo_world demo_calls (pieces_calls demo_pieces)"
proof -
  have "fragments (pieces_calls demo_pieces) =
      [(0, [(''index'', JInt 0), (''id'', JStr ''c1''), (''function'', JObj [(''name'', JStr ''f''), (''arguments'', JStr ''{'')])]),
       (0, [(''index'', JInt 0), (''function'', JObj [(''arguments'', JStr ''}'')])])]" by code_simp
  then have "fragments_at (pieces_calls demo_pieces) i =
      (if i = 0 then [[(''index'', JInt 0), (''id'', JStr ''c1''), (''function'', JObj [(''name'', JStr ''f''), (''arguments'', JStr ''{'')])],
         [(''index'', JInt 0), (''function'', JObj [(''arguments'', JStr ''}'')])]] else [])" for i
    by (simp add: fragments_at_def)
  then show ?thesis
    by (simp add: cut_into_def demo_calls_def cuts_call_def frag_id_def frag_name_def frag_args_def said_def as_dict_def
        truthy_def text_of_def)
qed


text \<open>C28. Keepalives of llama.cpp do not hide a dead engine. On a stream that has begun and not ended, the waits
  add up over lines that are no data: once they are longer than the window the stream fails with a timeout, and
  until then reading goes on with nothing lost.\<close>

theorem pings_do_not_hide_silence:
  assumes "armed x s" and "hollow_pings x" and "\<not> saw_terminator s" and "quiet s \<le> stall_seconds x"
    and "only_pings pings"
  shows "let q = quiet s + sum_list (map waited pings)
    in if stall_seconds x < q
       then \<exists>cs e. read_lines w x (pings @ later) s = (cs, Inl e) \<and> exn_class e = BackendTimeout
       else \<exists>cs k. read_lines w x (pings @ later) s =
              then_sent (cs, Inr (s\<lparr>quiet := q, last_keepalive := k\<rparr>)) (read_lines w x later)"
  using assms
proof (induction pings arbitrary: s)
  case Nil
  have "\<exists>cs k. read_lines w x ([] @ later) s =
      then_sent (cs, Inr (s\<lparr>quiet := quiet s + sum_list (map waited []), last_keepalive := k\<rparr>)) (read_lines w x later)"
    by (rule exI [of _ "[]"], rule exI [of _ "last_keepalive s"]) (simp add: then_sent_Inr)
  then show ?case using Nil.prems(4) unfolding Let_def by simp
next
  case (Cons a pings)
  from Cons.prems(5) obtain line where a: "0 \<le> waited a" "brought a = Line line" "\<not> starts_with ''data:'' line"
    and pings: "only_pings pings" by (auto simp: only_pings_def split: got.splits)
  have later: "0 \<le> sum_list (map waited pings)"
    using pings by (induction pings) (auto simp: only_pings_def)
  show ?case
  proof (cases "too_long x (waited a) s")
    case True
    then have "stall_seconds x < quiet s + waited a" by (simp add: too_long_def)
    with later show ?thesis
      using True Cons.prems(3) by (simp add: raises_def stalled_def)
  next
    case False
    then have q: "quiet s + waited a \<le> stall_seconds x" using Cons.prems(1,4) by (auto simp: too_long_def)
    obtain cs k where l: "on_line w x (clock a) line (hear x (waited a) line s) =
        (cs, Inr (False, (hear x (waited a) line s)\<lparr>last_keepalive := k\<rparr>))"
      by (rule ping_line [OF a(3)])
    define s1 where "s1 = s\<lparr>quiet := quiet s + waited a, last_keepalive := k\<rparr>"
    have step: "read_lines w x ((a # pings) @ later) s = then_sent (cs, Inr s1) (read_lines w x (pings @ later))"
      using False Cons.prems(1,2) a(2,3) l by (simp add: hear_def s1_def then_sent_Inr)
    have s1: "armed x s1" "\<not> saw_terminator s1" "quiet s1 = quiet s + waited a" "quiet s1 \<le> stall_seconds x"
      using Cons.prems(1,3) q by (simp_all add: s1_def armed_def)
    show ?thesis
    proof (cases "stall_seconds x < quiet s1 + sum_list (map waited pings)")
      case True
      with Cons.IH [OF s1(1) Cons.prems(2) s1(2,4) pings] obtain ds e where
        "read_lines w x (pings @ later) s1 = (ds, Inl e)" "exn_class e = BackendTimeout"
        by (auto simp: Let_def)
      with True show ?thesis by (simp add: step then_sent_Inr s1(3) add.assoc del: append_Cons read_lines.simps)
    next
      case False
      with Cons.IH [OF s1(1) Cons.prems(2) s1(2,4) pings] obtain ds k' where
        "read_lines w x (pings @ later) s1 =
          then_sent (ds, Inr (s1\<lparr>quiet := quiet s1 + sum_list (map waited pings), last_keepalive := k'\<rparr>)) (read_lines w x later)"
        by (auto simp: Let_def)
      then have "read_lines w x ((a # pings) @ later) s =
          then_sent (cs @ ds, Inr (s\<lparr>quiet := quiet s + sum_list (map waited (a # pings)), last_keepalive := k'\<rparr>)) (read_lines w x later)"
        unfolding step by (simp add: then_sent_Inr s1_def add.assoc)
      with False show ?thesis by (auto simp: s1(3) add.assoc Let_def)
    qed
  qed
qed

theorem pings_do_not_hide_silence_witness:
  "\<exists>cs e. read_lines demo_world demo_reading (map (demo_line 30) ['': ping'', '': ping'', '': ping''] @ [demo_line 0 ''data: last''])
      ((started demo_reading)\<lparr>saw_data := True\<rparr>) = (cs, Inl e) \<and> exn_class e = BackendTimeout"
proof -
  let ?pings = "map (demo_line 30) ['': ping'', '': ping'', '': ping'']"
  let ?s = "(started demo_reading)\<lparr>saw_data := True\<rparr>"
  have "armed demo_reading ?s" "hollow_pings demo_reading" "\<not> saw_terminator ?s" "quiet ?s \<le> stall_seconds demo_reading"
      "only_pings ?pings" "stall_seconds demo_reading < quiet ?s + sum_list (map waited ?pings)" by code_simp+
  with pings_do_not_hide_silence [of demo_reading ?s ?pings demo_world] show ?thesis by (simp add: Let_def)
qed

end
