(* ===== verification/Raw_Completion.thy ===== *)
theory Raw_Completion
  imports Openai_Stream "HOL-Library.List_Lexorder" "HOL-Library.Char_ord"
begin

text \<open>
  Raw completion: a prompt continued as written, and the middle filled in (\<open>raw_completion.py\<close>, and
  \<open>probe_completion\<close>, \<open>_completion_route\<close>, \<open>_complete\<close>, \<open>_complete_stream\<close> of
  \<open>engines/openai_compat_http.py\<close>). A Python error whose words are not the code's own is given by its class.
\<close>

subsection \<open>What is sent\<close>

definition CARRIED :: "string list" where
  "CARRIED = [''maxTokens'', ''temperature'', ''topP'', ''stop'', ''seed'', ''frequencyPenalty'', ''presencePenalty'',
     ''logitBias'']"

definition OLLAMA_CARRIED :: "string list" where
  "OLLAMA_CARRIED = filter (\<lambda>s. s \<noteq> ''logitBias'') CARRIED"

text \<open>A request refused before anything is sent (\<open>CompletionRefusal\<close>), or an exception.\<close>

datatype raw_failure = CompletionRefused string | RawFailed exn

definition failed :: "exn + 'a \<Rightarrow> raw_failure + 'a" where
  "failed r = (case r of Inl e \<Rightarrow> Inl (RawFailed e) | Inr v \<Rightarrow> Inr v)"

definition refuse_uncarried :: "gen_request \<Rightarrow> string list \<Rightarrow> raw_failure + unit" where
  "refuse_uncarried r carried =
     (let extra = sort (remdups (filter (\<lambda>f. f \<notin> set carried) (explicit_settings r)))
      in require (extra = []) (CompletionRefused (py_join '', '' extra @
           '': not carried by a raw completion on this backend; remove '' @
           (if length extra = 1 then ''it'' else ''them''))))"

record completion_prompt =
  prompt :: string
  suffix :: "string option"

text \<open>\<open>_logit_bias\<close>: whole numbers become floats.\<close>

definition bias_entry :: "outside \<Rightarrow> string \<times> json \<Rightarrow> exn + string \<times> json" where
  "bias_entry ou = (\<lambda>(k, v).
     case v of
       JInt i \<Rightarrow>
         if int_overflows i then Inl (crashed ''OverflowError'')
         else from_option (crashed ''TypeError'') (map_option (\<lambda>x. (k, JFloat x)) (float_of ou v))
     | _ \<Rightarrow> from_option (crashed ''TypeError'') (map_option (\<lambda>x. (k, JFloat x)) (float_of ou v)))"

definition logit_bias_of :: "outside \<Rightarrow> chat_request \<Rightarrow> exn + dict option" where
  "logit_bias_of ou r =
     (case logit_bias r of
        None \<Rightarrow> Inr None
      | Some d \<Rightarrow> and_then (collect (bias_entry ou) d) (\<lambda>es. Inr (Some es)))"

definition rational :: "rat \<Rightarrow> json" where "rational x = JFloat (Finite x)"

text \<open>The settings that have a value; the first is under the backend's own name.\<close>

definition sampling :: "string \<Rightarrow> chat_request \<Rightarrow> dict" where
  "sampling budget r =
     opt budget JInt (max_tokens r) @ opt ''temperature'' rational (temperature r) @
     opt ''top_p'' rational (top_p (core r)) @ opt ''stop'' (JList \<circ> map JStr) (stop (core r)) @
     opt ''seed'' JInt (seed (core r)) @ opt ''frequency_penalty'' rational (frequency_penalty r) @
     opt ''presence_penalty'' rational (presence_penalty r)"

definition openai_payload :: "outside \<Rightarrow> chat_request \<Rightarrow> completion_prompt \<Rightarrow> string \<Rightarrow> bool \<Rightarrow> exn + dict" where
  "openai_payload ou r c up streamed =
     and_then (logit_bias_of ou r) (\<lambda>bias.
       Inr ([(''model'', JStr up), (''prompt'', JStr (prompt c))] @ sampling ''max_tokens'' r @
         opt ''logit_bias'' JObj bias @
         (if streamed then [(''stream'', JBool True),
            (''stream_options'', JObj [(''include_usage'', JBool True)])] else [])))"

definition infill_payload :: "outside \<Rightarrow> chat_request \<Rightarrow> completion_prompt \<Rightarrow> bool \<Rightarrow> exn + dict" where
  "infill_payload ou r c streamed =
     and_then (logit_bias_of ou r) (\<lambda>bias.
       Inr ([(''input_prefix'', JStr (prompt c)),
           (''input_suffix'', JStr (case suffix c of Some s \<Rightarrow> s | None \<Rightarrow> []))] @
         sampling ''n_predict'' r @ opt ''logit_bias'' JObj bias @
         (if streamed then [(''stream'', JBool True)] else [])))"

definition ollama_payload :: "chat_request \<Rightarrow> completion_prompt \<Rightarrow> string \<Rightarrow> bool \<Rightarrow> dict" where
  "ollama_payload r c up streamed =
     [(''model'', JStr up), (''prompt'', JStr (prompt c)), (''stream'', JBool streamed)] @
     (case suffix c of Some s \<Rightarrow> [(''suffix'', JStr s)] | None \<Rightarrow> [(''raw'', JBool True)]) @
     (if sampling ''num_predict'' r = [] then [] else [(''options'', JObj (sampling ''num_predict'' r))])"

subsection \<open>Where it is sent\<close>

text \<open>\<open>ask\<close> is the status and body of what answers a path, \<open>None\<close> for a failure of httpx; \<open>cached\<close> is what was
  learned before. The answer is whether raw text is continued, and whether the middle is filled in.\<close>

definition probe_completion ::
  "bool \<Rightarrow> (string \<Rightarrow> (int \<times> loaded) option) \<Rightarrow> (bool \<times> bool) option \<Rightarrow> exn + (bool \<times> bool) \<times> (bool \<times> bool) option"
where
  "probe_completion local ask cached =
     (let unsure = Inr ((False, False), None);
          surely = (\<lambda>c. Inr (c, Some c));
          version = (case ask ''/version'' of
              None \<Rightarrow> unsure
            | Some (st, body) \<Rightarrow>
                if st \<noteq> 200 then surely (False, False)
                else (case body of
                  LoadValueError \<Rightarrow> unsure
                | LoadRecursionError \<Rightarrow> Inl (crashed ''RecursionError'')
                | Loaded v \<Rightarrow> surely (case dget (as_dict v) ''version'' of JStr _ \<Rightarrow> True | _ \<Rightarrow> False, False)))
      in case cached of
           Some c \<Rightarrow> Inr (c, cached)
         | None \<Rightarrow>
             if \<not> local then unsure
             else case ask ''/props'' of
               None \<Rightarrow> unsure
             | Some (st, body) \<Rightarrow>
                 if st \<noteq> 200 then version
                 else (case body of
                   LoadValueError \<Rightarrow> unsure
                 | LoadRecursionError \<Rightarrow> Inl (crashed ''RecursionError'')
                 | Loaded (JObj _) \<Rightarrow>
                     (case ask ''/infill'' of None \<Rightarrow> unsure | Some (st, _) \<Rightarrow> surely (True, st = 200))
                 | Loaded _ \<Rightarrow> version))"

datatype raw_kind = OpenaiText | InfillText | OllamaText

text \<open>\<open>inserts\<close> is the fill-in-the-middle of an account's listed model, \<open>probed\<close> the answer of the probe, which
  is asked only for a suffix; \<open>shown\<close> is \<open>repr\<close> of the model's id.\<close>

definition completion_route ::
  "outside \<Rightarrow> adapter \<Rightarrow> string \<Rightarrow> string \<Rightarrow> bool \<Rightarrow> exn + bool \<times> bool \<Rightarrow> chat_request \<Rightarrow> completion_prompt
     \<Rightarrow> bool \<Rightarrow> int option \<Rightarrow> raw_failure + string \<times> dict \<times> raw_kind"
where
  "completion_route ou a shown up inserts probed r c streamed slot =
     (if catalogue (wire a) = ''ollama'' then
        and_then (refuse_uncarried (core r) OLLAMA_CARRIED) (\<lambda>_.
        and_then (require (suffix c = None \<or> inserts)
          (CompletionRefused (''suffix: '' @ shown @ '' does not fill in the middle (Ollama lists no insert '' @
             ''capability for it); send the prompt alone''))) (\<lambda>_.
          Inr (''/api/generate'', ollama_payload r c up streamed, OllamaText)))
      else
        and_then (refuse_uncarried (core r) CARRIED) (\<lambda>_.
        and_then
          (if suffix c \<noteq> None then
             and_then (failed probed) (\<lambda>(_, fills).
             and_then (require fills
               (CompletionRefused (''suffix: '' @ shown @ '' does not fill in the middle on this backend; send the '' @
                  ''prompt alone, or a model whose fill_in_middle is true''))) (\<lambda>_.
             and_then (failed (infill_payload ou r c streamed)) (\<lambda>p. Inr (''/infill'', p, InfillText))))
           else and_then (failed (openai_payload ou r c up streamed)) (\<lambda>p. Inr (''/v1/completions'', p, OpenaiText)))
          (\<lambda>(path, p, k). Inr (path, case slot of None \<Rightarrow> p | Some n \<Rightarrow> AList.update ''id_slot'' (JInt n) p, k))))"

subsection \<open>What comes back\<close>

definition raw_finish :: "json \<Rightarrow> string" where
  "raw_finish v = (if v \<in> {JStr ''length'', JStr ''limit''} then ''length'' else ''stop'')"

definition raw_usage :: "json \<Rightarrow> json \<Rightarrow> usage option" where
  "raw_usage p c =
     (if count p = None \<and> count c = None then None
      else Some \<lparr>prompt_tokens = count p, completion_tokens = count c,
        total_tokens = Some ((case count p of Some i \<Rightarrow> i | None \<Rightarrow> 0) + (case count c of Some i \<Rightarrow> i | None \<Rightarrow> 0)),
        cached_prompt_tokens = None, reasoning_tokens = None\<rparr>)"

text \<open>An answer: its text, finish reason and usage. \<open>Inl\<close> is the words of the error that makes it unusable.\<close>

type_synonym raw_answer = "string \<times> string \<times> usage option"

definition openai_answer :: "json \<Rightarrow> string + raw_answer" where
  "openai_answer body =
     (case dget (as_dict body) ''choices'' of
        JList (JObj ch # _) \<Rightarrow>
          (case dget ch ''text'' of
             JStr t \<Rightarrow>
               let counted = as_dict (dget (as_dict body) ''usage'')
               in Inr (t, raw_finish (dget ch ''finish_reason''),
                    raw_usage (dget counted ''prompt_tokens'') (dget counted ''completion_tokens''))
           | _ \<Rightarrow> Inl ''the completion answer had no text'')
      | _ \<Rightarrow> Inl ''TypeError'')"

definition infill_answer :: "json \<Rightarrow> string + raw_answer" where
  "infill_answer body =
     (let d = as_dict body
      in case dget d ''content'' of
           JStr t \<Rightarrow> Inr (t, raw_finish (dget d ''stop_type''), raw_usage (dget d ''tokens_evaluated'') (dget d ''tokens_predicted''))
         | _ \<Rightarrow> Inl ''the infill answer had no content'')"

definition ollama_answer :: "json \<Rightarrow> string + raw_answer" where
  "ollama_answer body =
     (let d = as_dict body
      in case dget d ''response'' of
           JStr t \<Rightarrow> Inr (t, raw_finish (dget d ''done_reason''), raw_usage (dget d ''prompt_eval_count'') (dget d ''eval_count''))
         | _ \<Rightarrow> Inl ''the generate answer had no response'')"

definition raw_parse :: "raw_kind \<Rightarrow> json \<Rightarrow> string + raw_answer" where
  "raw_parse k = (case k of OllamaText \<Rightarrow> ollama_answer | InfillText \<Rightarrow> infill_answer | OpenaiText \<Rightarrow> openai_answer)"

definition raw_result :: "reading \<Rightarrow> string \<Rightarrow> raw_answer \<Rightarrow> gen_result" where
  "raw_result x served = (\<lambda>(text, reason, used).
     \<lparr>content = Some text, reasoning_text = None, calls = None, finish_reason = reason, stop_sequence = None,
      rest = opt ''usage'' usage_json used @ [(''backend'', JStr (backend_kind x)), (''modelId'', JStr served),
        (''latencyMs'', JInt (latency x))]\<rparr>)"

definition raw_refused :: "reply \<Rightarrow> exn" where
  "raw_refused r =
     (cli_error (''openai_compat_http returned '' @ str_int (status r) @ '' for a completion: '' @
        redact (take 500 (body_text r))))
     \<lparr>upstream_status := Some (status r), retry_after_seconds := retry_header r\<rparr>"

definition unusable :: "string \<Rightarrow> exn" where
  "unusable words = cli_error (''openai_compat_http completion answer was not usable: '' @ words)"

definition raw_answer_of :: "world \<Rightarrow> reading \<Rightarrow> raw_kind \<Rightarrow> string \<Rightarrow> exn + gen_result" where
  "raw_answer_of w x k body =
     (case parses w body of
        LoadValueError \<Rightarrow> Inl (unusable ''JSONDecodeError'')
      | LoadRecursionError \<Rightarrow> Inl (crashed ''RecursionError'')
      | Loaded v \<Rightarrow>
          (case raw_parse k v of
             Inl words \<Rightarrow> Inl (unusable words)
           | Inr ans \<Rightarrow> Inr (raw_result x (public_model_id (py_of w) (dget (as_dict v) ''model'') (to_model x)) ans)))"

definition complete :: "world \<Rightarrow> reading \<Rightarrow> raw_kind \<Rightarrow> exchange \<Rightarrow> exn + gen_result" where
  "complete w x k ex =
     (case ex of
        Inl f \<Rightarrow> Inl (net_error w (timeout_seconds x) ''the completion'' ''completion'' f)
      | Inr r \<Rightarrow> if 400 \<le> status r then Inl (raw_refused r) else raw_answer_of w x k (body_text r))"

subsection \<open>A stream\<close>

text \<open>\<open>sse_json\<close>, and the frame of a line of Ollama's; \<open>None\<close> for a line that is passed over.\<close>

definition frame_in :: "world \<Rightarrow> string \<Rightarrow> exn + dict option" where
  "frame_in w text =
     (case parses w text of
        LoadRecursionError \<Rightarrow> Inl (crashed ''RecursionError'')
      | Loaded (JObj d) \<Rightarrow> Inr (Some d)
      | _ \<Rightarrow> Inr None)"

definition sse_json :: "world \<Rightarrow> string \<Rightarrow> exn + dict option" where
  "sse_json w line =
     (let data = strip (drop 5 line)
      in if \<not> starts_with ''data:'' line \<or> data \<in> {[], ''[DONE]''} then Inr None else frame_in w data)"

definition ollama_frame :: "world \<Rightarrow> string \<Rightarrow> exn + dict option" where
  "ollama_frame w line = (if strip line = [] then Inr None else frame_in w line)"

record raw_state =
  parts :: "string list"
  reason :: string
  used :: "usage option"
  ended :: bool

definition raw_started :: raw_state where
  "raw_started = \<lparr>parts = [], reason = ''stop'', used = None, ended = False\<rparr>"

text \<open>A piece of the answer; one that is not text fails where it is read instead of where the answer is joined.\<close>

definition show_piece :: "json \<Rightarrow> raw_state \<Rightarrow> raw_state sent" where
  "show_piece v s =
     (if \<not> truthy v then yields [] s
      else case v of
        JStr t \<Rightarrow> yields [plain_chunk\<lparr>ctext := t\<rparr>] (s\<lparr>parts := parts s @ [t]\<rparr>)
      | _ \<Rightarrow> raises (crashed ''TypeError''))"

definition raw_end :: "json \<Rightarrow> json \<Rightarrow> json \<Rightarrow> raw_state \<Rightarrow> raw_state" where
  "raw_end why p c s = s\<lparr>ended := True, reason := raw_finish why, used := raw_usage p c\<rparr>"

text \<open>\<open>choices\<close> and \<open>choices[0]\<close>: the first choice if it is a mapping.\<close>

definition raw_choice :: "dict \<Rightarrow> exn + dict option" where
  "raw_choice d =
     (let v = dget d ''choices''
      in if \<not> truthy v then Inr None
         else case v of
           JList (JObj ch # _) \<Rightarrow> Inr (Some ch)
         | JList _ \<Rightarrow> Inr None
         | JStr _ \<Rightarrow> Inr None
         | JObj _ \<Rightarrow> Inl (crashed ''KeyError'')
         | _ \<Rightarrow> Inl (crashed ''TypeError''))"

definition on_raw_frame :: "raw_kind \<Rightarrow> dict \<Rightarrow> raw_state \<Rightarrow> raw_state sent" where
  "on_raw_frame k d s =
     (case k of
        OllamaText \<Rightarrow>
          show_piece (dget d ''response'')
            (if truthy (dget d ''done'')
             then raw_end (dget d ''done_reason'') (dget d ''prompt_eval_count'') (dget d ''eval_count'') s else s)
      | InfillText \<Rightarrow>
          show_piece (dget d ''content'')
            (if truthy (dget d ''stop'')
             then raw_end (dget d ''stop_type'') (dget d ''tokens_evaluated'') (dget d ''tokens_predicted'') s else s)
      | OpenaiText \<Rightarrow>
          (let s = (case dget d ''usage'' of
                JObj u \<Rightarrow> s\<lparr>used := raw_usage (dget u ''prompt_tokens'') (dget u ''completion_tokens'')\<rparr> | _ \<Rightarrow> s)
           in then_sent (tries (raw_choice d)) (\<lambda>choice.
                case choice of
                  None \<Rightarrow> yields [] s
                | Some ch \<Rightarrow>
                    show_piece (dget ch ''text'')
                      (if truthy (dget ch ''finish_reason'')
                       then s\<lparr>ended := True, reason := raw_finish (dget ch ''finish_reason'')\<rparr> else s))))"

definition on_raw_line :: "world \<Rightarrow> raw_kind \<Rightarrow> string \<Rightarrow> raw_state \<Rightarrow> raw_state sent" where
  "on_raw_line w k line s =
     (if k = OpenaiText \<and> strip line = ''data: [DONE]'' then yields [] (s\<lparr>ended := True\<rparr>)
      else then_sent (tries (if k = OllamaText then ollama_frame w line else sse_json w line)) (\<lambda>frame.
        case frame of None \<Rightarrow> yields [] s | Some d \<Rightarrow> on_raw_frame k d s))"

text \<open>\<open>aiter_lines\<close>; there is no stall clock here.\<close>

fun raw_lines :: "world \<Rightarrow> reading \<Rightarrow> raw_kind \<Rightarrow> got list \<Rightarrow> raw_state \<Rightarrow> raw_state sent" where
  "raw_lines w x k [] s = yields [] s"
| "raw_lines w x k (Closed # _) s = yields [] s"
| "raw_lines w x k (Broken f # _) s =
     raises (net_error w (timeout_seconds x) ''the completion'' ''completion stream'' f)"
| "raw_lines w x k (Line line # later) s = then_sent (on_raw_line w k line s) (raw_lines w x k later)"

definition raw_cut_off :: "string \<Rightarrow> raw_state \<Rightarrow> exn" where
  "raw_cut_off path s =
     cli_error (''openai_compat_http completion stream from '' @ path @ '' ended before it said it was '' @
       ''finished, after '' @ str_int (int (length (concat (parts s)))) @ '' characters: the backend stopped '' @
       ''sending without a terminator'')"

definition end_raw :: "reading \<Rightarrow> string \<Rightarrow> raw_state \<Rightarrow> unit sent" where
  "end_raw x path s =
     (if ended s then
        yields [plain_chunk\<lparr>cdone := True,
          cresult := Some (raw_result x (target_id (to_model x)) (concat (parts s), reason s, used s))\<rparr>] ()
      else raises (raw_cut_off path s))"

definition complete_stream :: "world \<Rightarrow> reading \<Rightarrow> raw_kind \<Rightarrow> string \<Rightarrow> exchange \<Rightarrow> unit sent" where
  "complete_stream w x k path ex =
     (case ex of
        Inl f \<Rightarrow> raises (net_error w (timeout_seconds x) ''the completion'' ''completion stream'' f)
      | Inr r \<Rightarrow>
          if 400 \<le> status r then raises (raw_refused r)
          else then_sent (raw_lines w x k (map brought (arrivals r)) raw_started) (end_raw x path))"

subsection \<open>A stream sums up what it showed\<close>

text \<open>What a stretch of the stream does to the state: no chunk is the last, and the text kept is the text shown.\<close>

definition kept :: "raw_state \<Rightarrow> raw_state sent \<Rightarrow> bool" where
  "kept s r \<longleftrightarrow>
     (\<forall>c \<in> set (fst r). \<not> cdone c \<and> ctext c \<noteq> []) \<and>
     (\<forall>s'. snd r = Inr s' \<longrightarrow> concat (parts s') = concat (parts s) @ concat (map ctext (fst r)))"

lemma kept_yields: "kept s (yields [] s') \<longleftrightarrow> concat (parts s') = concat (parts s)"
  by (auto simp: kept_def yields_def)

lemma kept_raises: "kept s (raises e)"
  by (simp add: kept_def raises_def)

lemma kept_then:
  assumes "kept s r" and "\<And>s'. snd r = Inr s' \<Longrightarrow> kept s' (f s')"
  shows "kept s (then_sent r f)"
proof (cases "snd r")
  case (Inl e)
  with assms(1) show ?thesis by (cases r) (simp add: kept_def then_sent_def)
next
  case (Inr s')
  with assms show ?thesis
    by (cases r; cases "f s'") (auto simp: kept_def then_sent_def)
qed

lemma kept_tries:
  assumes "\<And>v. r = Inr v \<Longrightarrow> kept s (f v)"
  shows "kept s (then_sent (tries r) f)"
  using assms by (cases r) (simp_all add: kept_raises)

lemma kept_cong: "kept s r \<Longrightarrow> parts s' = parts s \<Longrightarrow> kept s' r"
  by (simp add: kept_def)

lemma kept_piece: "kept s (show_piece v s)"
proof (cases "\<exists>t. v = JStr t \<and> t \<noteq> []")
  case True
  then show ?thesis by (auto simp: show_piece_def truthy_def kept_def yields_def plain_chunk_def)
next
  case False
  then show ?thesis
    by (cases v) (auto simp: show_piece_def truthy_def kept_yields kept_raises)
qed

lemma kept_frame: "kept s (on_raw_frame k d s)"
proof (cases k)
  case OpenaiText
  let ?s = "case dget d ''usage'' of
      JObj u \<Rightarrow> s\<lparr>used := raw_usage (dget u ''prompt_tokens'') (dget u ''completion_tokens'')\<rparr> | _ \<Rightarrow> s"
  have s: "parts ?s = parts s" by (simp split: json.split)
  have "kept s (case choice of None \<Rightarrow> yields [] ?s
      | Some ch \<Rightarrow> show_piece (dget ch ''text'')
          (if truthy (dget ch ''finish_reason'')
           then ?s\<lparr>ended := True, reason := raw_finish (dget ch ''finish_reason'')\<rparr> else ?s))" for choice
    using s by (cases choice) (auto simp: kept_yields intro: kept_cong [OF kept_piece])
  then show ?thesis unfolding on_raw_frame_def OpenaiText raw_kind.case Let_def by (rule kept_tries)
qed (auto simp: on_raw_frame_def raw_end_def intro: kept_cong [OF kept_piece])

lemma kept_line: "kept s (on_raw_line w k line s)"
proof -
  have "kept s (case frame of None \<Rightarrow> yields [] s | Some d \<Rightarrow> on_raw_frame k d s)" for frame
    by (simp add: kept_yields kept_frame split: option.split)
  then show ?thesis by (simp add: on_raw_line_def kept_yields kept_tries)
qed

lemma kept_lines: "kept s (raw_lines w x k gs s)"
  by (induction w x k gs s rule: raw_lines.induct)
    (simp_all add: kept_yields kept_raises kept_then kept_line)

text \<open>A raw completion that is streamed ends in one of two ways. Either it is an error, a status or a broken
  connection or a stream that stopped without saying it was finished, and no chunk before it claims to be the
  last; or the backend said it was finished, and the last chunk, the only one marked so, carries the text of
  the chunks before it.\<close>

lemma raw_stream_sums_up:
  "(\<exists>cs e. complete_stream w x k path ex = (cs, Inl e) \<and> list_all (\<lambda>c. \<not> cdone c) cs) \<or>
   (\<exists>r cs s c. ex = Inr r \<and> status r < 400 \<and>
      raw_lines w x k (map brought (arrivals r)) raw_started = (cs, Inr s) \<and> ended s \<and>
      complete_stream w x k path ex = (cs @ [c], Inr ()) \<and> list_all (\<lambda>c. \<not> cdone c \<and> ctext c \<noteq> []) cs \<and> cdone c \<and>
      cresult c = Some (raw_result x (target_id (to_model x)) (concat (map ctext cs), reason s, used s)))"
proof (cases "\<exists>r. ex = Inr r \<and> status r < 400")
  case True
  then obtain r where r: "ex = Inr r" "status r < 400" by blast
  obtain cs out where lines: "raw_lines w x k (map brought (arrivals r)) raw_started = (cs, out)" by fastforce
  have kept: "kept raw_started (cs, out)" using kept_lines [of raw_started w x k "map brought (arrivals r)"] lines by simp
  have all: "complete_stream w x k path ex = then_sent (cs, out) (end_raw x path)"
    using r lines by (simp add: complete_stream_def)
  show ?thesis
  proof (cases out)
    case (Inl e)
    then have "complete_stream w x k path ex = (cs, Inl e)" by (simp add: all then_sent_def)
    with kept show ?thesis by (auto simp: kept_def list_all_iff)
  next
    case (Inr s)
    show ?thesis
    proof (cases "ended s")
      case True
      have "concat (parts s) = concat (map ctext cs)" using kept Inr by (simp add: kept_def raw_started_def)
      with True have "complete_stream w x k path ex = (cs @ [plain_chunk\<lparr>cdone := True,
          cresult := Some (raw_result x (target_id (to_model x)) (concat (map ctext cs), reason s, used s))\<rparr>], Inr ())"
        by (simp add: all Inr then_sent_Inr end_raw_def yields_def)
      with True kept r lines Inr show ?thesis
        by (intro disjI2 exI [of _ r] exI [of _ cs] exI [of _ s] exI conjI) (auto simp: kept_def list_all_iff)
    next
      case False
      with kept Inr show ?thesis
        by (intro disjI1) (auto simp: all then_sent_Inr end_raw_def raises_def kept_def list_all_iff)
    qed
  qed
next
  case False
  then show ?thesis by (cases ex) (auto simp: complete_stream_def raises_def)
qed

subsection \<open>Streamed and whole agree\<close>

text \<open>A line that brings a frame, the frame of a piece, and the frame at the end, whose shape is also the body of
  the same answer sent whole. Each may name a model \<open>m\<close>: the backend's own name for it, or \<open>JNull\<close>.\<close>

definition says :: "world \<Rightarrow> raw_kind \<Rightarrow> string \<Rightarrow> dict \<Rightarrow> bool" where
  "says w k line d \<longleftrightarrow>
     (k = OpenaiText \<longrightarrow> strip line \<noteq> ''data: [DONE]'') \<and>
     (if k = OllamaText then ollama_frame w line else sse_json w line) = Inr (Some d)"

definition raw_piece :: "json \<Rightarrow> raw_kind \<Rightarrow> string \<Rightarrow> dict" where
  "raw_piece m k p = (''model'', m) #
     (case k of
        OllamaText \<Rightarrow> [(''response'', JStr p), (''done'', JBool False)]
      | InfillText \<Rightarrow> [(''content'', JStr p), (''stop'', JBool False)]
      | OpenaiText \<Rightarrow> [(''choices'', JList [JObj [(''text'', JStr p), (''finish_reason'', JNull)]])])"

definition raw_last :: "json \<Rightarrow> raw_kind \<Rightarrow> string \<Rightarrow> json \<Rightarrow> json \<Rightarrow> json \<Rightarrow> dict" where
  "raw_last m k p why pc cc = (''model'', m) #
     (case k of
        OllamaText \<Rightarrow> [(''response'', JStr p), (''done'', JBool True), (''done_reason'', why),
          (''prompt_eval_count'', pc), (''eval_count'', cc)]
      | InfillText \<Rightarrow> [(''content'', JStr p), (''stop'', JBool True), (''stop_type'', why),
          (''tokens_evaluated'', pc), (''tokens_predicted'', cc)]
      | OpenaiText \<Rightarrow> [(''choices'', JList [JObj [(''text'', JStr p), (''finish_reason'', why)]]),
          (''usage'', JObj [(''prompt_tokens'', pc), (''completion_tokens'', cc)])])"

definition piece_chunks :: "string \<Rightarrow> chunk list" where
  "piece_chunks p = (if p = [] then [] else [plain_chunk\<lparr>ctext := p\<rparr>])"

lemma piece_chunks_text [simp]: "concat (map ctext (piece_chunks p)) = p"
  by (simp add: piece_chunks_def plain_chunk_def)

definition with_part :: "string \<Rightarrow> raw_state \<Rightarrow> raw_state" where
  "with_part p s = (if p = [] then s else s\<lparr>parts := parts s @ [p]\<rparr>)"

lemma with_part_fields [simp]:
  "concat (parts (with_part p s)) = concat (parts s) @ p" "reason (with_part p s) = reason s"
  "used (with_part p s) = used s" "ended (with_part p s) = ended s"
  by (simp_all add: with_part_def)

lemma show_text_piece: "show_piece (JStr p) s = yields (piece_chunks p) (with_part p s)"
  by (simp add: show_piece_def truthy_def piece_chunks_def yields_def with_part_def)

lemma said_line: "says w k line d \<Longrightarrow> on_raw_line w k line s = on_raw_frame k d s"
  by (auto simp: says_def on_raw_line_def)

lemma on_raw_piece:
  "\<exists>s'. on_raw_frame k (raw_piece m k p) s = yields (piece_chunks p) s' \<and> concat (parts s') = concat (parts s) @ p"
  by (cases k)
    (auto simp: on_raw_frame_def raw_piece_def raw_choice_def truthy_def show_text_piece tries_def then_sent_def yields_def)

lemma on_last:
  assumes "truthy why"
  shows "\<exists>s'. on_raw_frame k (raw_last m k p why pc cc) s = yields (piece_chunks p) s' \<and>
    concat (parts s') = concat (parts s) @ p \<and> reason s' = raw_finish why \<and> used s' = raw_usage pc cc \<and> ended s'"
  using assms
  by (cases k)
    (auto simp: on_raw_frame_def raw_last_def raw_choice_def raw_end_def show_text_piece truthy_def [of "JList _"]
      truthy_def [of "JBool _"] tries_def then_sent_def yields_def)

lemma pieces_lines:
  assumes "list_all2 (\<lambda>l p. says w k l (raw_piece m k p)) ls ps"
  shows "\<exists>s'. raw_lines w x k (map Line ls @ gs) s =
      then_sent (yields (concat (map piece_chunks ps)) s') (raw_lines w x k gs) \<and>
    concat (parts s') = concat (parts s) @ concat ps"
  using assms
proof (induction arbitrary: s rule: list_all2_induct)
  case Nil
  then show ?case by (auto intro!: exI [of _ s])
next
  case (Cons l ls p ps)
  obtain s1 where s1: "on_raw_frame k (raw_piece m k p) s = yields (piece_chunks p) s1"
      "concat (parts s1) = concat (parts s) @ p" using on_raw_piece by blast
  obtain s2 where s2: "raw_lines w x k (map Line ls @ gs) s1 =
      then_sent (yields (concat (map piece_chunks ps)) s2) (raw_lines w x k gs)"
      "concat (parts s2) = concat (parts s1) @ concat ps" using Cons.IH by blast
  show ?case
    by (intro exI [of _ s2])
      (simp add: said_line [OF Cons.hyps(1)] s1 s2 then_sent_Inr yields_def)
qed

lemma raw_whole_body: "raw_parse k (JObj (raw_last m k p why pc cc)) = Inr (p, raw_finish why, raw_usage pc cc)"
  by (cases k) (simp_all add: raw_parse_def raw_last_def openai_answer_def infill_answer_def ollama_answer_def Let_def as_dict_def)

lemma model_named: "dget (raw_last m k p why pc cc) ''model'' = m"
  by (simp add: raw_last_def)


subsection \<open>No named setting is lost\<close>

text \<open>The backend's name of a setting, and where its settings stand in the body.\<close>

definition raw_key :: "raw_kind \<Rightarrow> string \<Rightarrow> string" where
  "raw_key k f =
     (if f = ''maxTokens''
      then (case k of OpenaiText \<Rightarrow> ''max_tokens'' | InfillText \<Rightarrow> ''n_predict'' | OllamaText \<Rightarrow> ''num_predict'')
      else case map_of [(''topP'', ''top_p''), (''frequencyPenalty'', ''frequency_penalty''),
          (''presencePenalty'', ''presence_penalty''), (''logitBias'', ''logit_bias'')] f of Some n \<Rightarrow> n | None \<Rightarrow> f)"

definition raw_settings :: "raw_kind \<Rightarrow> dict \<Rightarrow> dict" where
  "raw_settings k p = (if k = OllamaText then as_dict (dget p ''options'') else p)"

lemma uncarried_ok: "refuse_uncarried r carried = Inr u \<longleftrightarrow> set (explicit_settings r) \<subseteq> set carried"
proof -
  have "sort (remdups (filter (\<lambda>f. f \<notin> set carried) (explicit_settings r))) = [] \<longleftrightarrow>
      set (sort (remdups (filter (\<lambda>f. f \<notin> set carried) (explicit_settings r)))) = {}"
    by (simp only: set_empty)
  also have "\<dots> \<longleftrightarrow> set (explicit_settings r) \<subseteq> set carried" by auto
  finally show ?thesis by (simp add: refuse_uncarried_def Let_def require_eq_Inr)
qed

lemma opt_member: "opt_json f v \<noteq> JNull \<Longrightarrow> (k, opt_json f v) \<in> set (opt k f v)"
  by (cases v) (simp_all add: opt_json_def opt_def)

lemma sampling_member:
  assumes "f \<in> set OLLAMA_CARRIED" and "setting_value r f \<noteq> JNull"
    and "budget = raw_key k ''maxTokens''"
  shows "(raw_key k f, setting_value r f) \<in> set (sampling budget r)"
proof -
  have stop: "setting_value r ''stop'' \<noteq> JNull \<Longrightarrow>
      (''stop'', setting_value r ''stop'') \<in> set (opt ''stop'' (JList \<circ> map JStr) (stop (core r)))"
    by (cases "stop (core r)") (simp_all add: setting_value_def Let_def given_def opt_def split: if_splits)
  have "f \<in> {''maxTokens'', ''temperature'', ''topP'', ''stop'', ''seed'', ''frequencyPenalty'', ''presencePenalty''}"
    using assms(1) by (simp add: OLLAMA_CARRIED_def CARRIED_def)
  moreover have "(raw_key k ''stop'', setting_value r ''stop'') \<in> set (sampling budget r)" if "f = ''stop''"
    using that assms(2) stop by (simp add: sampling_def raw_key_def)
  moreover have "(raw_key k f, setting_value r f) \<in> set (sampling budget r)" if "f = ''maxTokens''"
    using that assms(2,3) by (simp add: sampling_def setting_value_def Let_def opt_member)
  ultimately show ?thesis
    using assms(2)
    by (elim insertE)
      (simp_all add: sampling_def setting_value_def raw_key_def Let_def opt_member rational_def [abs_def])
qed

lemma update_member: "(k, v) \<in> set p \<Longrightarrow> k \<noteq> n \<Longrightarrow> (k, v) \<in> set (AList.update n u p)"
  by (induction p) auto

lemma raw_key_not_slot: "f \<in> set CARRIED \<Longrightarrow> raw_key k f \<noteq> ''id_slot''"
  by (cases k) (auto simp: CARRIED_def raw_key_def)

text \<open>What each of the three bodies carries.\<close>

definition carries :: "outside \<Rightarrow> chat_request \<Rightarrow> raw_kind \<Rightarrow> dict \<Rightarrow> string \<Rightarrow> bool" where
  "carries ou r k p f \<longleftrightarrow>
     (if f = ''logitBias''
      then \<exists>es. logit_bias_of ou r = Inr (Some es) \<and> (''logit_bias'', JObj es) \<in> set p
      else (raw_key k f, setting_value r f) \<in> set (raw_settings k p))"

lemma bias_value: "setting_value r ''logitBias'' \<noteq> JNull \<Longrightarrow> logit_bias r \<noteq> None"
  by (cases "logit_bias r") (simp_all add: setting_value_def Let_def opt_json_def)

lemma carries_openai:
  assumes "openai_payload ou r c up streamed = Inr p" and "f \<in> set CARRIED" and "setting_value r f \<noteq> JNull"
  shows "carries ou r OpenaiText p f"
proof (cases "f = ''logitBias''")
  case True
  with assms(3) obtain d where "logit_bias r = Some d" using bias_value by blast
  with assms(1) obtain es where "logit_bias_of ou r = Inr (Some es)" "(''logit_bias'', JObj es) \<in> set p"
    by (auto simp: openai_payload_def and_then_eq_Inr logit_bias_of_def opt_def)
  then show ?thesis by (simp add: carries_def True)
next
  case False
  with assms(2) have "f \<in> set OLLAMA_CARRIED" by (simp add: OLLAMA_CARRIED_def)
  from sampling_member [OF this assms(3), of "''max_tokens''" OpenaiText] assms(1) False show ?thesis
    by (auto simp: carries_def openai_payload_def and_then_eq_Inr raw_settings_def raw_key_def [of _ "''maxTokens''"])
qed

lemma carries_infill:
  assumes "infill_payload ou r c streamed = Inr p" and "f \<in> set CARRIED" and "setting_value r f \<noteq> JNull"
  shows "carries ou r InfillText p f"
proof (cases "f = ''logitBias''")
  case True
  with assms(3) obtain d where "logit_bias r = Some d" using bias_value by blast
  with assms(1) obtain es where "logit_bias_of ou r = Inr (Some es)" "(''logit_bias'', JObj es) \<in> set p"
    by (auto simp: infill_payload_def and_then_eq_Inr logit_bias_of_def opt_def)
  then show ?thesis by (simp add: carries_def True)
next
  case False
  with assms(2) have "f \<in> set OLLAMA_CARRIED" by (simp add: OLLAMA_CARRIED_def)
  from sampling_member [OF this assms(3), of "''n_predict''" InfillText] assms(1) False show ?thesis
    by (auto simp: carries_def infill_payload_def and_then_eq_Inr raw_settings_def raw_key_def [of _ "''maxTokens''"])
qed

lemma carries_ollama:
  assumes "f \<in> set OLLAMA_CARRIED" and "setting_value r f \<noteq> JNull"
  shows "carries ou r OllamaText (ollama_payload r c up streamed) f"
proof -
  have m: "(raw_key OllamaText f, setting_value r f) \<in> set (sampling ''num_predict'' r)"
    by (rule sampling_member [OF assms]) (simp add: raw_key_def)
  then have "dget (ollama_payload r c up streamed) ''options'' = JObj (sampling ''num_predict'' r)"
    by (cases "sampling ''num_predict'' r"; cases "suffix c") (simp_all add: ollama_payload_def)
  moreover have "f \<noteq> ''logitBias''" using assms(1) by (auto simp: OLLAMA_CARRIED_def)
  ultimately show ?thesis using m by (simp add: carries_def raw_settings_def as_dict_def)
qed

lemma carries_slot: "carries ou r k p f \<Longrightarrow> f \<in> set CARRIED \<Longrightarrow> k \<noteq> OllamaText \<Longrightarrow> carries ou r k (AList.update ''id_slot'' v p) f"
  using update_member [of "''logit_bias''" _ p "''id_slot''" v] update_member [of "raw_key k f" _ p "''id_slot''" v]
  by (cases "f = ''logitBias''") (auto simp: carries_def raw_settings_def raw_key_not_slot)

text \<open>A raw completion that is sent carries every setting the caller named and gave a value, under the
  backend's own name for it, and is sent with a suffix only where the middle is filled in: the listing says so
  of the model, or the backend was asked and did so. Anything else is refused before anything is sent.\<close>

lemma raw_settings_carried:
  assumes "completion_route ou a shown up inserts probed r c streamed slot = Inr (path, p, k)"
  shows "set (explicit_settings (core r)) \<subseteq> set CARRIED \<and>
    (\<forall>f. f \<in> set (explicit_settings (core r)) \<and> setting_value r f \<noteq> JNull \<longrightarrow> carries ou r k p f) \<and>
    (suffix c \<noteq> None \<longrightarrow> (if k = OllamaText then inserts else k = InfillText \<and> (\<exists>b. probed = Inr (b, True))))"
proof (cases "catalogue (wire a) = ''ollama''")
  case True
  with assms have "set (explicit_settings (core r)) \<subseteq> set OLLAMA_CARRIED" "suffix c = None \<or> inserts"
      "k = OllamaText" "p = ollama_payload r c up streamed"
    by (auto simp: completion_route_def and_then_eq_Inr uncarried_ok require_eq_Inr)
  moreover have "set OLLAMA_CARRIED \<subseteq> set CARRIED" by (auto simp: OLLAMA_CARRIED_def)
  ultimately show ?thesis by (auto intro!: carries_ollama)
next
  case False
  have failed: "failed v = Inr y \<longleftrightarrow> v = Inr y" for v :: "exn + 'z" and y
    by (cases v) (simp_all add: failed_def)
  from assms False obtain q where q: "set (explicit_settings (core r)) \<subseteq> set CARRIED"
      "p = (case slot of None \<Rightarrow> q | Some n \<Rightarrow> AList.update ''id_slot'' (JInt n) q)"
      "suffix c \<noteq> None \<Longrightarrow> k = InfillText \<and> (\<exists>b. probed = Inr (b, True))" "k \<noteq> OllamaText"
      "(k = InfillText \<and> infill_payload ou r c streamed = Inr q) \<or> (k = OpenaiText \<and> openai_payload ou r c up streamed = Inr q)"
    by (cases "suffix c") (auto simp: completion_route_def and_then_eq_Inr uncarried_ok require_eq_Inr failed)
  then have "carries ou r k q f" if "f \<in> set (explicit_settings (core r))" "setting_value r f \<noteq> JNull" for f
    using that carries_openai carries_infill by blast
  then have "carries ou r k p f" if "f \<in> set (explicit_settings (core r))" "setting_value r f \<noteq> JNull" for f
    using that q(1,2,4) carries_slot by (cases slot) auto
  with q(1,3,4) show ?thesis by auto
qed

subsection \<open>Examples\<close>

definition raw_world :: world where
  "raw_world = demo_world\<lparr>parses := (\<lambda>t.
     if t = ''one'' then Loaded (JObj (raw_piece (JStr ''m'') OllamaText ''ab''))
     else if t = ''two'' then Loaded (JObj (raw_piece (JStr ''m'') OllamaText ''c''))
     else if t = ''end'' then Loaded (JObj (raw_last (JStr ''m'') OllamaText [] (JStr ''length'') (JInt 3) (JInt 2)))
     else if t = ''whole'' then Loaded (JObj (raw_last (JStr ''m'') OllamaText ''abc'' (JStr ''length'') (JInt 3) (JInt 2)))
     else LoadValueError)\<rparr>"

definition raw_reply :: "string \<Rightarrow> string list \<Rightarrow> reply" where
  "raw_reply body lines = \<lparr>status = 200, body_text = body, retry_header = None, arrivals = map (demo_line 1) lines\<rparr>"


definition raw_chat :: chat_request where
  "raw_chat = demo_chat\<lparr>max_tokens := Some 5, core := (core demo_chat)\<lparr>caller_settings := Some [''maxTokens'', ''seed'']\<rparr>\<rparr>"

definition demo_prompt :: completion_prompt where
  "demo_prompt = \<lparr>prompt = ''def f(x):'', suffix = Some ''return y''\<rparr>"

lemma raw_settings_carried_witness:
  "\<exists>p. completion_route (py_of demo_world) demo_account [] ''m'' False (Inr (True, True)) raw_chat demo_prompt True (Some 1) =
      Inr (''/infill'', p, InfillText) \<and>
    carries (py_of demo_world) raw_chat InfillText p ''maxTokens'' \<and> carries (py_of demo_world) raw_chat InfillText p ''seed''"
proof -
  let ?p = "[(''input_prefix'', JStr ''def f(x):''), (''input_suffix'', JStr ''return y''), (''n_predict'', JInt 5),
    (''seed'', JInt 1), (''stream'', JBool True), (''id_slot'', JInt 1)]"
  have route: "completion_route (py_of demo_world) demo_account [] ''m'' False (Inr (True, True)) raw_chat demo_prompt True (Some 1) =
      Inr (''/infill'', ?p, InfillText)" by code_simp
  moreover have "''maxTokens'' \<in> set (explicit_settings (core raw_chat)) \<and> setting_value raw_chat ''maxTokens'' \<noteq> JNull"
    "''seed'' \<in> set (explicit_settings (core raw_chat)) \<and> setting_value raw_chat ''seed'' \<noteq> JNull" by code_simp+
  ultimately show ?thesis using raw_settings_carried [OF route] by blast
qed

end
