(* ===== verification/Gemini_Wire.thy ===== *)
theory Gemini_Wire
  imports Openai_Stream Catalogue
begin

text \<open>
  Gemini's wire (\<open>engines/_gemini_wire.py\<close>): the models of Google's listing, messages and settings as Google takes
  them, its answers and errors, and the memory of thought signatures. \<open>repr\<close>, \<open>json.dumps\<close> and the random ids of
  calls are parameters; a request reads the clock once.
\<close>

record google =
  gworld :: world
  shown :: "json \<Rightarrow> string"
  dumped :: "json \<Rightarrow> string"
  new_call_id :: "nat \<Rightarrow> string"

abbreviation gtext :: "google \<Rightarrow> json \<Rightarrow> string" where "gtext g \<equiv> text_of (py_of (gworld g))"

definition has_text :: "string \<Rightarrow> string \<Rightarrow> bool" where
  "has_text p s = search (starts_with p) s"

definition without_prefix :: "string \<Rightarrow> string \<Rightarrow> string" where
  "without_prefix p s = (case after p s of Some r \<Rightarrow> r | None \<Rightarrow> s)"

definition without_suffix :: "string \<Rightarrow> string \<Rightarrow> string" where
  "without_suffix p s = (if ends_with p s then take (length s - length p) s else s)"

subsection \<open>What a model is\<close>

definition VOICES :: "string list" where
  "VOICES = [''Zephyr'', ''Puck'', ''Charon'', ''Kore'', ''Fenrir'', ''Leda'', ''Orus'', ''Aoede'', ''Callirrhoe'',
     ''Autonoe'', ''Enceladus'', ''Iapetus'', ''Umbriel'', ''Algieba'', ''Despina'', ''Erinome'', ''Algenib'', ''Rasalgethi'',
     ''Laomedeia'', ''Achernar'', ''Alnilam'', ''Schedar'', ''Gacrux'', ''Pulcherrima'', ''Achird'', ''Zubenelgenubi'',
     ''Vindemiatrix'', ''Sadachbia'', ''Sadaltager'', ''Sulafat'']"

definition SPEECH_FORMATS :: "speech_format list" where
  "SPEECH_FORMATS = [SMp3, SOpus, SWav, SPcm, SAac, SFlac]"

definition CHAT_SETTINGS :: "string list" where
  "CHAT_SETTINGS = [''maxTokens'', ''temperature'', ''topP'', ''seed'', ''stop'', ''tools'', ''toolChoice'', ''responseFormat'',
     ''topK'', ''frequencyPenalty'', ''presencePenalty'', ''parallelToolCalls'']"

definition VIDEO_SIZES :: "(string \<times> string \<times> string) list" where
  "VIDEO_SIZES =
     [(''1280x720'', ''16:9'', ''720p''), (''720x1280'', ''9:16'', ''720p''), (''1920x1080'', ''16:9'', ''1080p''),
      (''1080x1920'', ''9:16'', ''1080p''), (''3840x2160'', ''16:9'', ''4k''), (''2160x3840'', ''9:16'', ''4k'')]"

definition VIDEO_SECONDS :: "int list" where "VIDEO_SECONDS = [4, 6, 8]"

definition bare_id :: "string \<Rightarrow> string" where "bare_id name = without_prefix ''models/'' name"

text \<open>\<open>gemini-(\d+)(?:\.(\d+))?\<close> at the head of the id.\<close>

definition generation_of :: "string \<Rightarrow> (nat \<times> nat) option" where
  "generation_of model_id =
     (case after ''gemini-'' (lower model_id) of
        None \<Rightarrow> None
      | Some r \<Rightarrow>
          let major = takeWhile is_digit r; tail = dropWhile is_digit r;
              minor = (case after ''.'' tail of Some m \<Rightarrow> takeWhile is_digit m | None \<Rightarrow> [])
          in if major = [] then None else Some (digits_value major, digits_value minor))"

definition surfaces_of :: "string \<Rightarrow> string list \<Rightarrow> string list" where
  "surfaces_of model_id methods =
     (let low = lower model_id; among = (\<lambda>ms. set methods \<inter> set ms \<noteq> {})
      in if among [''embedContent'', ''batchEmbedContents''] \<or> has_text ''embedding'' low then [''embeddings'']
         else if ''predictLongRunning'' \<in> set methods \<or> starts_with ''veo-'' low then [''video'']
         else if \<not> among [''generateContent'', ''streamGenerateContent''] then []
         else if has_text ''-tts'' low then [''speech'']
         else if has_text ''transcribe'' low then [''transcription'']
         else if has_text ''-image'' low then [''image'']
         else if starts_with ''gemini-live'' low \<or> starts_with ''gemini-robotics'' low \<or> has_text ''native-audio'' low then []
         else if starts_with ''gemini'' low then [''chat'', ''transcription''] else [''chat''])"

definition is_gemma :: "string \<Rightarrow> bool" where "is_gemma model_id = starts_with ''gemma'' (lower model_id)"

definition chat_capabilities :: "dict \<Rightarrow> string \<Rightarrow> capabilities" where
  "chat_capabilities e model_id =
     no_caps\<lparr>cap_settings := Some (CHAT_SETTINGS @ (if dget e ''thinking'' = JBool True then [''reasoningEffort''] else [])),
       cap_streaming := Some True, cap_image_in := Some (\<not> is_gemma model_id), cap_audio_in := Some (\<not> is_gemma model_id),
       cap_file_in := Some (\<not> is_gemma model_id), cap_tools := Some True, cap_context := positive (dget e ''inputTokenLimit'')\<rparr>"

text \<open>What a model that does not chat takes: its capabilities, what goes in and comes out, and its voices.\<close>

definition other_model :: "string list \<Rightarrow> int option \<Rightarrow> string \<Rightarrow> capabilities \<times> string list \<times> string list \<times> string list option" where
  "other_model surfaces window model_id =
     (let bare = no_caps\<lparr>cap_settings := Some []\<rparr>
      in if ''image'' \<in> set surfaces then
           (bare\<lparr>cap_streaming := Some False, cap_image_in := Some True, cap_context := window,
              cap_image := Some \<lparr>img_streaming = False, max_images = Some 1, min_references = Some 0,
                max_references = Some 14, takes_mask = False, qualities = Some [], backgrounds = Some [],
                output_formats = None\<rparr>\<rparr>,
            [''text'', ''image''], [''text'', ''image''], None)
         else if ''video'' \<in> set surfaces then
           (bare\<lparr>cap_video := Some \<lparr>durations = Some VIDEO_SECONDS,
              sizes = Some (map fst (filter (\<lambda>(_, _, res). \<not> (has_text ''lite'' (lower model_id) \<and> res = ''4k'')) VIDEO_SIZES)),
              first_frame = True, prices = None\<rparr>\<rparr>,
            [''text'', ''image''], [''video''], None)
         else if ''speech'' \<in> set surfaces then
           (bare\<lparr>cap_speech := Some SPEECH_FORMATS, cap_audio_out := Some False\<rparr>, [''text''], [''audio''], Some VOICES)
         else if ''transcription'' \<in> set surfaces then (bare\<lparr>cap_audio_in := Some True\<rparr>, [''audio''], [''text''], None)
         else (bare\<lparr>cap_context := window\<rparr>, [''text''], [], None))"

definition model_from_listing :: "dict \<Rightarrow> read_fault + driver_model option" where
  "model_from_listing e =
     (case text_at e ''name'' of
        None \<Rightarrow> Inr None
      | Some name \<Rightarrow>
          let i = bare_id name;
              methods = (case dget e ''supportedGenerationMethods'' of JList vs \<Rightarrow> strings_in vs | _ \<Rightarrow> []);
              surfaces = surfaces_of i methods;
              (caps, ins, outs, voices) =
                (if ''chat'' \<in> set surfaces
                 then (chat_capabilities e i,
                   if is_gemma i then [''text''] else [''text'', ''image'', ''audio'', ''video'', ''file''], [''text''], None)
                 else other_model surfaces (positive (dget e ''inputTokenLimit'')) i)
          in if surfaces = [] then Inr None
             else and_then (with_id \<lparr>dm_id = i, dm_name = text_at e ''displayName'', dm_upstream = None,
               dm_surfaces = surfaces, dm_inputs = some_of ins, dm_outputs = some_of outs, dm_voices = voices,
               dm_caps = Some caps\<rparr>) (\<lambda>m. Inr (Some m)))"

subsection \<open>Thought signatures\<close>

definition SIGNATURE_ENTRIES :: nat where "SIGNATURE_ENTRIES = 4096"
definition SIGNATURE_SECONDS :: rat where "SIGNATURE_SECONDS = 24 * 60 * 60"

record remembered =
  called_name :: string
  signature :: "string option"
  google_id :: bool

text \<open>The calls in the order they were remembered, each with the moment it expires.\<close>

record signatures =
  max_entries :: nat
  lifetime :: rat
  items :: "(string \<times> rat \<times> remembered) list"

definition no_signatures :: signatures where
  "no_signatures = \<lparr>max_entries = SIGNATURE_ENTRIES, lifetime = SIGNATURE_SECONDS, items = []\<rparr>"

definition remember :: "rat \<Rightarrow> string \<Rightarrow> remembered \<Rightarrow> signatures \<Rightarrow> signatures" where
  "remember now i c k =
     (let more = AList.delete i (items k) @ [(i, now + lifetime k, c)]
      in k\<lparr>items := drop (length more - max_entries k) more\<rparr>)"

definition recall :: "rat \<Rightarrow> string \<Rightarrow> signatures \<Rightarrow> remembered option \<times> signatures" where
  "recall now i k =
     (case map_of (items k) i of
        None \<Rightarrow> (None, k)
      | Some (expires, c) \<Rightarrow>
          if expires \<le> now then (None, k\<lparr>items := AList.delete i (items k)\<rparr>) else (Some c, k))"

subsection \<open>Requests\<close>

definition refused :: "string \<Rightarrow> exn" where
  "refused words = (cli_error words)\<lparr>upstream_status := Some 400\<rparr>"

definition data_url :: "string \<Rightarrow> string \<Rightarrow> exn + string \<times> string" where
  "data_url url field =
     (case partition_at '','' url of
        Some (header, d) \<Rightarrow>
          if starts_with ''data:'' header \<and> ends_with '';base64'' header
          then Inr (without_suffix '';base64'' (drop 5 header), d)
          else Inl (refused (field @ '': only inline base64 data URLs are sent to Gemini''))
      | None \<Rightarrow> Inl (refused (field @ '': only inline base64 data URLs are sent to Gemini'')))"

definition text_part :: "json \<Rightarrow> dict" where "text_part t = [(''text'', t)]"

definition inline_part :: "string \<Rightarrow> json \<Rightarrow> dict" where
  "inline_part mime d = [(''inlineData'', JObj [(''mimeType'', JStr mime), (''data'', d)])]"

text \<open>\<open>part[key][inner]\<close> of a part the contract types.\<close>

definition member :: "dict \<Rightarrow> string \<Rightarrow> string \<Rightarrow> exn + json" where
  "member part key inner =
     from_option (crashed ''KeyError'') (Option.bind (map_of part key) (\<lambda>v. getitem v inner))"

definition part_from :: "google \<Rightarrow> string \<Rightarrow> dict \<Rightarrow> exn + dict" where
  "part_from g where_at part =
     (let kind = dget part ''type''
      in if kind = JStr ''text'' then
           Inr (text_part (case map_of part ''text'' of Some t \<Rightarrow> t | None \<Rightarrow> JStr []))
         else if kind = JStr ''image_url'' then
           and_then (member part ''image_url'' ''url'') (\<lambda>u.
           and_then (data_url (gtext g u) where_at) (\<lambda>(mime, d). Inr (inline_part mime (JStr d))))
         else if kind = JStr ''input_audio'' then
           and_then (member part ''input_audio'' ''data'') (\<lambda>d.
             Inr (inline_part (if dget (as_dict (dget part ''input_audio'')) ''format'' = JStr ''wav'' then ''audio/wav'' else ''audio/mp3'') d))
         else if kind = JStr ''file'' then
           and_then (member part ''file'' ''file_data'') (\<lambda>u.
           and_then (data_url (gtext g u) where_at) (\<lambda>(mime, d). Inr (inline_part mime (JStr d))))
         else Inl (refused (where_at @ '': a '' @ shown g kind @ '' content part cannot be sent to Gemini'')))"

text \<open>Content is nothing, a text or a list of parts.\<close>

definition parts_from :: "google \<Rightarrow> json \<Rightarrow> string \<Rightarrow> exn + dict list" where
  "parts_from g v field =
     (case v of
        JStr t \<Rightarrow> Inr (if t = [] then [] else [text_part v])
      | JList vs \<Rightarrow>
          collect (\<lambda>(n, p). part_from g (field @ ''['' @ str_int (int n) @ '']'') (as_dict p)) (enumerate 0 vs)
      | _ \<Rightarrow> Inr [])"

definition joined_text :: "google \<Rightarrow> dict list \<Rightarrow> string" where
  "joined_text g ps = concat (map (\<lambda>p. case map_of p ''text'' of Some t \<Rightarrow> gtext g t | None \<Rightarrow> []) ps)"

definition args_of :: "google \<Rightarrow> string \<Rightarrow> json \<Rightarrow> exn + dict" where
  "args_of g i raw =
     (case raw of
        JObj d \<Rightarrow> Inr d
      | _ \<Rightarrow>
          let t = (case raw of JStr t \<Rightarrow> t | _ \<Rightarrow> [])
          in if strip t = [] then Inr []
             else (case parses (gworld g) t of
               LoadValueError \<Rightarrow> Inl (refused (''tool call '' @ shown g (JStr i) @ '': its arguments are not JSON''))
             | LoadRecursionError \<Rightarrow> Inl (crashed ''RecursionError'')
             | Loaded (JObj d) \<Rightarrow> Inr d
             | Loaded _ \<Rightarrow> Inl (refused (''tool call '' @ shown g (JStr i) @ '': its arguments are not a JSON object''))))"

definition response_of :: "google \<Rightarrow> string \<Rightarrow> exn + dict" where
  "response_of g t =
     (case parses (gworld g) t of
        LoadValueError \<Rightarrow> Inr [(''result'', JStr t)]
      | LoadRecursionError \<Rightarrow> Inl (crashed ''RecursionError'')
      | Loaded (JObj d) \<Rightarrow> Inr d
      | Loaded v \<Rightarrow> Inr [(''result'', v)])"

text \<open>The turns so far, the system texts, the names of the calls, whether a call goes back with no signature, and the
  memory of signatures, which looking up may prune.\<close>

record turns =
  contents :: "(string \<times> dict list) list"
  system_texts :: "string list"
  call_names :: "(string \<times> string) list"
  unsigned_call :: bool
  known_calls :: signatures

definition add_turn :: "string \<Rightarrow> dict list \<Rightarrow> turns \<Rightarrow> turns" where
  "add_turn role ps s =
     (if ps = [] then s
      else if contents s \<noteq> [] \<and> fst (last (contents s)) = role
      then s\<lparr>contents := butlast (contents s) @ [(role, snd (last (contents s)) @ ps)]\<rparr>
      else s\<lparr>contents := contents s @ [(role, ps)]\<rparr>)"

definition call_part :: "string \<Rightarrow> string \<Rightarrow> dict \<Rightarrow> remembered option \<Rightarrow> dict" where
  "call_part i name args k =
     (''functionCall'', JObj ([(''name'', JStr name), (''args'', JObj args)] @
       (case k of Some c \<Rightarrow> if google_id c then [(''id'', JStr i)] else [] | None \<Rightarrow> []))) #
     (case Option.bind k signature of Some sg \<Rightarrow> if sg = [] then [] else [(''thoughtSignature'', JStr sg)] | None \<Rightarrow> [])"

text \<open>\<open>v or {}\<close> of a value that should be a mapping, \<open>str(v or "")\<close>.\<close>

definition or_no_text :: "google \<Rightarrow> json \<Rightarrow> string" where
  "or_no_text g v = (if truthy v then gtext g v else [])"

fun add_calls :: "google \<Rightarrow> rat \<Rightarrow> dict list \<Rightarrow> dict list \<Rightarrow> turns \<Rightarrow> exn + dict list \<times> turns" where
  "add_calls g now [] ps s = Inr (ps, s)"
| "add_calls g now (c # cs) ps s =
     (let i = or_no_text g (dget c ''id'')
      in and_then (dict_or_empty (dget c ''function'')) (\<lambda>fn.
         let name = or_no_text g (dget fn ''name'')
         in and_then (args_of g i (dget fn ''arguments'')) (\<lambda>args.
            let (k, cache) = recall now i (known_calls s);
                signed = (case Option.bind k signature of Some sg \<Rightarrow> sg \<noteq> [] | None \<Rightarrow> False)
            in add_calls g now cs (ps @ [call_part i name args k])
                 (s\<lparr>call_names := AList.update i name (call_names s), known_calls := cache,
                    unsigned_call := (unsigned_call s \<or> \<not> signed)\<rparr>))))"

definition result_part :: "string \<Rightarrow> string \<Rightarrow> dict \<Rightarrow> remembered option \<Rightarrow> dict" where
  "result_part i name resp k =
     [(''functionResponse'', JObj ([(''name'', JStr name), (''response'', JObj resp)] @
        (case k of Some c \<Rightarrow> if google_id c then [(''id'', JStr i)] else [] | None \<Rightarrow> [])))]"

definition add_result :: "google \<Rightarrow> rat \<Rightarrow> nat \<Rightarrow> string \<Rightarrow> message \<Rightarrow> turns \<Rightarrow> exn + turns" where
  "add_result g now n field m s =
     (let i = (case tool_call_id m of Some i \<Rightarrow> i | None \<Rightarrow> []);
          (k, cache) = recall now i (known_calls s);
          s = s\<lparr>known_calls := cache\<rparr>;
          said = (case map_of (call_names s) i of Some nm \<Rightarrow> nm | None \<Rightarrow> []);
          name = (if said \<noteq> [] then said else case k of Some c \<Rightarrow> called_name c | None \<Rightarrow> [])
      in and_then (require (name \<noteq> []) (refused (''messages['' @ str_int (int n) @ '']: the tool result for '' @
             shown g (JStr i) @ '' matches no earlier tool call, so Gemini cannot be told which function it answers''))) (\<lambda>_.
         and_then (parts_from g (Openai_Wire.content m) field) (\<lambda>ps.
         and_then (response_of g (joined_text g ps)) (\<lambda>resp.
           Inr (add_turn ''user'' [result_part i name resp k] s)))))"

definition add_message :: "google \<Rightarrow> rat \<Rightarrow> nat \<Rightarrow> message \<Rightarrow> turns \<Rightarrow> exn + turns" where
  "add_message g now n m s =
     (let field = ''messages['' @ str_int (int n) @ ''].content''
      in case msg_role m of
           System \<Rightarrow>
             and_then (parts_from g (Openai_Wire.content m) field) (\<lambda>ps.
               let t = joined_text g ps
               in Inr (if t = [] then s else s\<lparr>system_texts := system_texts s @ [t]\<rparr>))
         | Assistant \<Rightarrow>
             and_then (parts_from g (Openai_Wire.content m) field) (\<lambda>ps.
             and_then (add_calls g now (case tool_calls m of Some cs \<Rightarrow> cs | None \<Rightarrow> []) ps s) (\<lambda>(ps, s).
               Inr (add_turn ''model'' ps s)))
         | Tool \<Rightarrow> add_result g now n field m s
         | _ \<Rightarrow> and_then (parts_from g (Openai_Wire.content m) field) (\<lambda>ps. Inr (add_turn ''user'' ps s)))"

fun add_messages :: "google \<Rightarrow> rat \<Rightarrow> nat \<Rightarrow> message list \<Rightarrow> turns \<Rightarrow> exn + turns" where
  "add_messages g now n [] s = Inr s"
| "add_messages g now n (m # ms) s = and_then (add_message g now n m s) (add_messages g now (Suc n) ms)"

definition paragraphs :: "string list \<Rightarrow> string" where
  "paragraphs ts = py_join (CHR 0x0A # CHR 0x0A # []) ts"

text \<open>Text in front of the first user turn.\<close>

definition led_by :: "dict list \<Rightarrow> (string \<times> dict list) list \<Rightarrow> (string \<times> dict list) list" where
  "led_by lead cs =
     (case cs of
        [] \<Rightarrow> [(''user'', lead)]
      | (role, ps) # later \<Rightarrow> if role = ''user'' then (role, lead @ ps) # later else (''user'', lead) # (role, ps) # later)"

text \<open>\<open>contents_from\<close>: the turns, the system instruction, whether a call is replayed with no signature, and the memory.\<close>

definition contents_from ::
  "google \<Rightarrow> rat \<Rightarrow> message list \<Rightarrow> signatures \<Rightarrow> bool \<Rightarrow> exn + (string \<times> dict list) list \<times> string option \<times> bool \<times> signatures"
where
  "contents_from g now ms cache fold_system =
     and_then (add_messages g now 0 ms
       \<lparr>contents = [], system_texts = [], call_names = [], unsigned_call = False, known_calls = cache\<rparr>) (\<lambda>s.
       let sys = paragraphs (system_texts s)
       in Inr (if fold_system \<and> system_texts s \<noteq> [] then
            (let lead = [text_part (JStr (sys @ [CHR 0x0A, CHR 0x0A]))]
             in (led_by lead (contents s),
                 None, unsigned_call s, known_calls s))
          else (contents s, if system_texts s = [] then None else Some sys, unsigned_call s, known_calls s)))"

definition tool_config_from :: "json \<Rightarrow> dict option" where
  "tool_config_from choice =
     (let config = (\<lambda>d. Some [(''functionCallingConfig'', JObj d)])
      in case choice of
           JStr m \<Rightarrow> config [(''mode'', JStr (if m = ''auto'' then ''AUTO'' else if m = ''required'' then ''ANY'' else ''NONE''))]
         | JObj d \<Rightarrow> config [(''mode'', JStr ''ANY''), (''allowedFunctionNames'', JList [dget (as_dict (dget d ''function'')) ''name''])]
         | _ \<Rightarrow> None)"

definition declaration_from :: "dict \<Rightarrow> dict" where
  "declaration_from t =
     (let fn = as_dict (dget t ''function'')
      in (''name'', dget fn ''name'') #
         (if truthy (dget fn ''description'') then [(''description'', dget fn ''description'')] else []) @
         (if truthy (dget fn ''parameters'') then [(''parametersJsonSchema'', dget fn ''parameters'')] else []))"

definition declarations_from :: "dict list \<Rightarrow> json" where
  "declarations_from ts = JList [JObj [(''functionDeclarations'', JList (map (JObj \<circ> declaration_from) ts))]]"

definition thinking_config :: "string \<Rightarrow> string option \<Rightarrow> dict" where
  "thinking_config model_id effort =
     (''includeThoughts'', JBool (effort \<noteq> Some ''none'')) #
     (case (effort, generation_of model_id) of
        (Some e, Some gen) \<Rightarrow>
          if 3 \<le> fst gen then
            [(''thinkingLevel'', JStr (if e \<in> {''none'', ''minimal''} then ''minimal''
               else if e = ''low'' then ''low'' else if e = ''medium'' then ''medium'' else ''high''))]
          else
            let pro = has_text ''pro'' (lower model_id)
            in [(''thinkingBudget'', JInt (if e = ''none'' then 0
                 else if e = ''minimal'' then (if pro then 128 else 512)
                 else if e = ''low'' then 1024 else if e = ''medium'' then 8192
                 else if pro then 32768 else 24576))]
      | _ \<Rightarrow> [])"


subsection \<open>Answers\<close>

definition FINISH :: "(string \<times> string) list" where
  "FINISH = [(''STOP'', ''stop''), (''MAX_TOKENS'', ''length''), (''SAFETY'', ''content_filter''), (''RECITATION'', ''content_filter''),
     (''BLOCKLIST'', ''content_filter''), (''PROHIBITED_CONTENT'', ''content_filter''), (''SPII'', ''content_filter''),
     (''IMAGE_SAFETY'', ''content_filter''), (''IMAGE_PROHIBITED_CONTENT'', ''content_filter''), (''LANGUAGE'', ''content_filter'')]"

definition BROKEN_CALL :: "string list" where
  "BROKEN_CALL = [''MALFORMED_FUNCTION_CALL'', ''UNEXPECTED_TOOL_CALL'', ''TOO_MANY_TOOL_CALLS'']"

definition gemini_finish :: "google \<Rightarrow> json \<Rightarrow> bool \<Rightarrow> exn + string" where
  "gemini_finish g why called =
     (let name = (if truthy why then gtext g why else ''STOP'');
          found = (case map_of FINISH name of Some f \<Rightarrow> f | None \<Rightarrow> ''stop'')
      in and_then (require (name \<notin> set BROKEN_CALL) (cli_error (''Gemini could not form the tool call it tried to make '' @
           ''(finishReason='' @ name @ ''); the answer is not usable. Try again or simplify the tool's schema.''))) (\<lambda>_.
         Inr (if called \<and> found = ''stop'' then ''tool_calls'' else found)))"

definition refusal_note :: "google \<Rightarrow> dict \<Rightarrow> string" where
  "refusal_note g candidate =
     ''[Gemini stopped this answer: finishReason='' @ gtext g (dget candidate ''finishReason'') @
     (case text_at candidate ''finishMessage'' of Some m \<Rightarrow> '' ('' @ m @ '')]'' | None \<Rightarrow> '']'')"

definition blocked_prompt :: "google \<Rightarrow> dict \<Rightarrow> exn option" where
  "blocked_prompt g body =
     (case dget body ''promptFeedback'' of
        JObj f \<Rightarrow>
          if truthy (dget f ''blockReason'') then
            Some (refused (''Gemini blocked the prompt (blockReason='' @ gtext g (dget f ''blockReason'') @
              (case text_at f ''blockReasonMessage'' of Some m \<Rightarrow> '': '' @ m | None \<Rightarrow> []) @
              ''). Nothing was answered; rephrase the request.''))
          else None
      | _ \<Rightarrow> None)"

definition or0 :: "int option \<Rightarrow> int" where "or0 v = (case v of Some i \<Rightarrow> i | None \<Rightarrow> 0)"

definition gemini_usage :: "json \<Rightarrow> usage option" where
  "gemini_usage v =
     (let d = as_dict v; whole = (\<lambda>k. count (dget d k));
          p = or0 (whole ''promptTokenCount'') + or0 (whole ''toolUsePromptTokenCount'');
          c = or0 (whole ''candidatesTokenCount'') + or0 (whole ''thoughtsTokenCount'')
      in if whole ''promptTokenCount'' = None \<and> whole ''candidatesTokenCount'' = None then None
         else Some \<lparr>prompt_tokens = Some p, completion_tokens = Some c,
           total_tokens = Some (case whole ''totalTokenCount'' of Some t \<Rightarrow> t | None \<Rightarrow> p + c),
           cached_prompt_tokens = whole ''cachedContentTokenCount'', reasoning_tokens = whole ''thoughtsTokenCount''\<rparr>)"

record parsed =
  p_text :: string
  p_reasoning :: string
  p_calls :: "tool_call list"
  p_images :: "dict list"
  p_audio :: "dict list"

definition nothing_parsed :: parsed where
  "nothing_parsed = \<lparr>p_text = [], p_reasoning = [], p_calls = [], p_images = [], p_audio = []\<rparr>"

text \<open>The memory, and the number of ids made.\<close>

type_synonym memory = "signatures \<times> nat"

definition read_call :: "google \<Rightarrow> rat \<Rightarrow> bool \<Rightarrow> dict \<Rightarrow> dict \<Rightarrow> memory \<Rightarrow> tool_call \<times> memory" where
  "read_call g now keep part call mem =
     (let own = truthy (dget call ''id'');
          i = (if own then gtext g (dget call ''id'') else new_call_id g (snd mem));
          name = gtext g (dget call ''name'');
          args = (case dget call ''args'' of JObj d \<Rightarrow> d | _ \<Rightarrow> [])
      in (\<lparr>call_id = i, call_function = \<lparr>fn_name = name, arguments = dumped g (JObj args)\<rparr>\<rparr>,
          (if keep then remember now i \<lparr>called_name = name, signature = text_at part ''thoughtSignature'', google_id = own\<rparr> (fst mem)
           else fst mem,
           if own then snd mem else Suc (snd mem))))"

definition read_part :: "google \<Rightarrow> rat \<Rightarrow> bool \<Rightarrow> dict \<Rightarrow> parsed \<times> memory \<Rightarrow> parsed \<times> memory" where
  "read_part g now keep part pm =
     (let (p, mem) = pm; call = as_dict (dget part ''functionCall''); heard = as_dict (dget part ''audioTranscription'');
          inline = as_dict (dget part ''inlineData'')
      in if truthy (dget call ''name'') then
           (let (c, mem) = read_call g now keep part call mem in (p\<lparr>p_calls := p_calls p @ [c]\<rparr>, mem))
         else if is_str (dget heard ''text'') then (p\<lparr>p_text := p_text p @ gtext g (dget heard ''text'')\<rparr>, mem)
         else if truthy (dget inline ''data'') then
           (if starts_with ''audio/'' (or_no_text g (dget inline ''mimeType''))
            then p\<lparr>p_audio := p_audio p @ [inline]\<rparr> else p\<lparr>p_images := p_images p @ [inline]\<rparr>, mem)
         else (case text_at part ''text'' of
             None \<Rightarrow> (p, mem)
           | Some t \<Rightarrow>
               (if dget part ''thought'' = JBool True then p\<lparr>p_reasoning := p_reasoning p @ t\<rparr>
                else p\<lparr>p_text := p_text p @ t\<rparr>, mem)))"

definition read_parts :: "google \<Rightarrow> rat \<Rightarrow> bool \<Rightarrow> json \<Rightarrow> memory \<Rightarrow> parsed \<times> memory" where
  "read_parts g now keep v mem =
     fold (read_part g now keep) (case v of JList vs \<Rightarrow> dicts_in vs | _ \<Rightarrow> []) (nothing_parsed, mem)"

subsection \<open>Audio\<close>

text \<open>\<open>rate=(\d+)\<close> anywhere; \<open>int\<close> of ASCII digits.\<close>

fun rate_in :: "string \<Rightarrow> nat option" where
  "rate_in s =
     (case after ''rate='' s of
        Some r \<Rightarrow> if takeWhile is_digit r \<noteq> [] then Some (digits_value (takeWhile is_digit r))
          else (case s of [] \<Rightarrow> None | _ # cs \<Rightarrow> rate_in cs)
      | None \<Rightarrow> (case s of [] \<Rightarrow> None | _ # cs \<Rightarrow> rate_in cs))"

definition pcm_rate :: "string \<Rightarrow> nat" where
  "pcm_rate mime = (case rate_in mime of Some n \<Rightarrow> n | None \<Rightarrow> 24000)"

text \<open>\<open>None\<close> where a size or a rate does not fit its field and \<open>struct\<close> raises.\<close>

definition wav_of :: "bytes \<Rightarrow> nat \<Rightarrow> bytes option" where
  "wav_of pcm rate =
     (case (pack_I (36 + length pcm), pack_I 16, pack_H 1, pack_I rate, pack_I (rate * 2), pack_H 2, pack_H 16, pack_I (length pcm)) of
        (Some riff, Some fmt, Some one, Some r, Some br, Some block, Some bits, Some len) \<Rightarrow>
          Some (ascii ''RIFF'' @ riff @ ascii ''WAVEfmt '' @ fmt @ one @ one @ r @ br @ block @ bits @ ascii ''data'' @ len @ pcm)
      | _ \<Rightarrow> None)"

definition decode_b64 :: "string \<Rightarrow> string \<Rightarrow> exn + bytes" where
  "decode_b64 d what = from_option (cli_error (''Gemini's '' @ what @ '' was not base64'')) (b64decode d)"

subsection \<open>Errors\<close>

definition any_text :: "string list \<Rightarrow> string \<Rightarrow> bool" where
  "any_text ps s = list_ex (\<lambda>p. has_text p (lower s)) ps"

definition signature_refusal :: "string \<Rightarrow> bool" where
  "signature_refusal = any_text [''thought signature'', ''thought_signature'', ''thoughtsignature'']"

definition region_refusal :: "string \<Rightarrow> bool" where
  "region_refusal = any_text [''location is not supported'', ''not available in your country'', ''not available in your region'']"

definition bad_key :: "string \<Rightarrow> bool" where
  "bad_key = any_text [''api key not valid'', ''api key expired'', ''api key was reported as leaked'', ''api_key_invalid'']"

text \<open>\<open>(\d+(?:\.\d+)?)s\<close>: its number as text.\<close>

definition delay_text :: "string \<Rightarrow> string option" where
  "delay_text s =
     (let t = (if ends_with [CHR 0x0A] s then butlast s else s);
          ws = takeWhile is_digit t; r = dropWhile is_digit t;
          fs = (case after ''.'' r of Some f \<Rightarrow> takeWhile is_digit f | None \<Rightarrow> [])
      in if ws = [] then None
         else if r = ''s'' then Some ws
         else if fs \<noteq> [] \<and> r = ''.'' @ fs @ ''s'' then Some (ws @ ''.'' @ fs)
         else None)"

definition google_error :: "google \<Rightarrow> string \<Rightarrow> exn + dict" where
  "google_error g text =
     (case parses (gworld g) text of
        LoadValueError \<Rightarrow> Inr []
      | LoadRecursionError \<Rightarrow> Inl (crashed ''RecursionError'')
      | Loaded v \<Rightarrow> Inr (as_dict (dget (as_dict (case v of JList (b # _) \<Rightarrow> b | _ \<Rightarrow> v)) ''error'')))"

definition delay_of :: "google \<Rightarrow> dict \<Rightarrow> rat option" where
  "delay_of g d =
     (if ends_with ''RetryInfo'' (case map_of d ''@type'' of Some t \<Rightarrow> gtext g t | None \<Rightarrow> [])
      then Option.bind (delay_text (or_no_text g (dget d ''retryDelay''))) (\<lambda>t.
        case float_of (py_of (gworld g)) (JStr t) of Some (Finite x) \<Rightarrow> Some x | _ \<Rightarrow> None)
      else None)"

definition first_of_list :: "('a \<Rightarrow> 'b option) \<Rightarrow> 'a list \<Rightarrow> 'b option" where
  "first_of_list f xs = (case List.map_filter f xs of [] \<Rightarrow> None | y # _ \<Rightarrow> Some y)"

definition delay_from :: "google \<Rightarrow> dict \<Rightarrow> exn + rat option" where
  "delay_from g e =
     (let v = dget e ''details''
      in if \<not> truthy v then Inr None
         else and_then (from_option (crashed ''TypeError'') (py_iter v)) (\<lambda>ds. Inr (first_of_list (delay_of g) (dicts_in ds))))"

definition with_status :: "int \<Rightarrow> rat option \<Rightarrow> exn \<Rightarrow> exn" where
  "with_status st wait e = e\<lparr>upstream_status := Some st, retry_after_seconds := wait\<rparr>"

text \<open>\<open>failure_from\<close>: the failure of a response, or what reading it raises; \<open>scrub\<close> takes the key out of its words.\<close>

definition failure_from :: "google \<Rightarrow> (string \<Rightarrow> string) \<Rightarrow> reply \<Rightarrow> string \<Rightarrow> exn" where
  "failure_from g scrub r what =
     case_sum (\<lambda>e. e) (\<lambda>e. e)
       (and_then (google_error g (body_text r)) (\<lambda>e.
        and_then (case retry_header r of Some x \<Rightarrow> if x \<noteq> 0 then Inr (Some x) else delay_from g e | None \<Rightarrow> delay_from g e) (\<lambda>wait.
        let st = status r;
            msg = scrub (if truthy (dget e ''message'') then gtext g (dget e ''message'')
              else if take 300 (body_text r) \<noteq> [] then take 300 (body_text r) else ''HTTP '' @ str_int st);
            name = or_no_text g (dget e ''status'');
            details = dumped g (if truthy (dget e ''details'') then dget e ''details'' else JList [])
        in Inr (if bad_key msg \<or> bad_key details then
             with_status 401 None (cli_error (''Gemini refused this driver's API key for '' @ what @ '': '' @ msg))
           else if st \<in> {401, 403} \<or> name \<in> {''PERMISSION_DENIED'', ''UNAUTHENTICATED''} then
             with_status (if st \<in> {401, 403} then st else 403) None
               (cli_error (''Gemini refused this driver's API key for '' @ what @ '' ('' @
                  (if name \<noteq> [] then name else str_int st) @ ''): '' @ msg))
           else if region_refusal msg then
             with_status 403 None (cli_error (''Gemini is not available from where this driver runs (a region Google does not '' @
               ''serve) for '' @ what @ '': '' @ msg))
           else if st = 429 \<or> name = ''RESOURCE_EXHAUSTED'' then
             with_status 429 wait (cli_error (''Gemini's quota or rate limit was reached for '' @ what @
               '' (RESOURCE_EXHAUSTED; the limits are per Google project): '' @ msg))
           else with_status st wait (cli_error (''Gemini returned '' @ str_int st @
             (if name \<noteq> [] then '' ('' @ name @ '')'' else []) @ '' for '' @ what @ '': '' @ msg))))))"

definition MISSING_SIGNATURE_WORDS :: string where
  "MISSING_SIGNATURE_WORDS =
     ''This conversation's tool call was made before the driver restarted (or more than '' @
     ''24 hours ago); Gemini needs its thought signature, which this driver kept only in '' @
     ''memory, and refused the turn without it. Start the conversation again, or send the '' @
     ''tool result to a model that does not need signatures.''"

text \<open>\<open>raise explain_signature_refusal(e) from e\<close>: the cause of what is raised is \<open>e\<close>, and so is its own when
  nothing is explained. Only a \<open>CliError\<close> is caught.\<close>

definition explained :: "bool \<Rightarrow> exn \<Rightarrow> exn" where
  "explained replayed_unsigned e =
     (if exn_class e = OtherError then e
      else if replayed_unsigned \<and> upstream_status e = Some 400 \<and> signature_refusal (message e)
      then (refused (MISSING_SIGNATURE_WORDS @ '' Google said: '' @ take 300 (message e)))\<lparr>cause := OtherCause\<rparr>
      else e\<lparr>cause := OtherCause\<rparr>)"


subsection \<open>The memory is bounded, and keeps what is recent\<close>

text \<open>What happens to the memory: a call is remembered, or looked up.\<close>

datatype memory_event = Remembers rat string remembered | Recalls rat string

definition apply_event :: "memory_event \<Rightarrow> signatures \<Rightarrow> signatures" where
  "apply_event e k = (case e of Remembers now i c \<Rightarrow> remember now i c k | Recalls now i \<Rightarrow> snd (recall now i k))"

definition apply_events :: "memory_event list \<Rightarrow> signatures \<Rightarrow> signatures" where
  "apply_events es k = fold apply_event es k"

inductive memory_step :: "signatures \<Rightarrow> signatures \<Rightarrow> bool" where
  "memory_step k (apply_event e k)"

definition memory_sound :: "signatures \<Rightarrow> bool" where
  "memory_sound k \<longleftrightarrow> distinct (map fst (items k)) \<and> length (items k) \<le> max_entries k"

lemma limits_kept [simp]:
  "max_entries (apply_event e k) = max_entries k" "lifetime (apply_event e k) = lifetime k"
  by (auto simp: apply_event_def remember_def recall_def Let_def split: memory_event.split option.split)

lemma delete_append [simp]: "AList.delete i (xs @ ys) = AList.delete i xs @ AList.delete i ys"
  by (simp add: AList.delete_eq)

lemma length_delete: "length (AList.delete i xs) \<le> length xs"
  by (simp add: AList.delete_eq)

lemma deleted_gone: "i \<notin> fst ` set (AList.delete i xs)"
  by (auto simp: AList.delete_eq)

lemma memory_step_sound: "memory_sound k \<Longrightarrow> memory_step k k' \<Longrightarrow> memory_sound k'"
proof (erule memory_step.cases)
  fix k0 e
  assume sound: "memory_sound k" and "k = k0" "k' = apply_event e k0"
  then have k': "k' = apply_event e k" by simp
  show ?thesis
  proof (cases e)
    case (Remembers now i c)
    let ?more = "AList.delete i (items k) @ [(i, now + lifetime k, c)]"
    have "distinct (map fst ?more)" using sound deleted_gone [of i "items k"] by (simp add: memory_sound_def distinct_delete)
    then have "distinct (map fst (drop (length ?more - max_entries k) ?more))"
      by (simp add: drop_map [symmetric] del: drop_append)
    then show ?thesis by (simp add: k' Remembers apply_event_def remember_def memory_sound_def Let_def del: drop_append)
  next
    case (Recalls now i)
    have "length (AList.delete i (items k)) \<le> max_entries k"
      using sound length_delete [of i "items k"] by (simp add: memory_sound_def)
    with sound show ?thesis
      by (auto simp: k' Recalls apply_event_def recall_def memory_sound_def distinct_delete split: option.split)
  qed
qed

interpretation mem: step_system memory_step memory_sound
  by unfold_locales (rule memory_step_sound)

lemma events_reach: "reaches memory_step k (apply_events es k)"
  unfolding apply_events_def
  by (induction es rule: rev_induct) (auto intro: reaches_refl reaches_step memory_step.intros)

text \<open>A call stands in the memory until enough others have come after it.\<close>

definition stands :: "string \<Rightarrow> rat \<times> remembered \<Rightarrow> nat \<Rightarrow> signatures \<Rightarrow> bool" where
  "stands i v n k \<longleftrightarrow> (\<exists>older newer. items k = older @ (i, v) # newer \<and> length newer \<le> n \<and> i \<notin> fst ` set older)"

lemma stands_recall: "stands i (expires, c) n k \<Longrightarrow> now < expires \<Longrightarrow> recall now i k = (Some c, k)"
proof -
  assume "stands i (expires, c) n k" and "now < expires"
  then obtain older newer where "items k = older @ (i, expires, c) # newer" "map_of older i = None"
    by (auto simp: stands_def map_of_eq_None_iff)
  then have "map_of (items k) i = Some (expires, c)" by (simp add: map_add_def)
  with \<open>now < expires\<close> show ?thesis by (simp add: recall_def)
qed

lemma stands_remembered: "memory_sound k \<Longrightarrow> 0 < max_entries k \<Longrightarrow> stands i (now + lifetime k, c) 0 (remember now i c k)"
proof -
  assume "memory_sound k" and pos: "0 < max_entries k"
  let ?older = "AList.delete i (items k)" and ?n = "Suc (length (AList.delete i (items k))) - max_entries k"
  have "items (remember now i c k) = drop ?n ?older @ [(i, now + lifetime k, c)]"
    using pos by (simp add: remember_def Let_def)
  moreover have "i \<notin> fst ` set (drop ?n ?older)"
    using set_drop_subset [of ?n ?older] by (auto simp: AList.delete_eq)
  ultimately show ?thesis unfolding stands_def by blast
qed

lemma out_of_older: "i \<notin> fst ` set older \<Longrightarrow> i \<notin> fst ` set (AList.delete j older)"
  by (auto simp: AList.delete_eq)

lemma stands_remember:
  assumes "stands i v n k" and "Suc n < max_entries k" and "j \<noteq> i"
  shows "stands i v (Suc n) (remember now j d k)"
proof -
  obtain older newer where k: "items k = older @ (i, v) # newer" "length newer \<le> n" "i \<notin> fst ` set older"
    using assms(1) by (auto simp: stands_def)
  let ?o = "AList.delete j older" and ?w = "AList.delete j newer @ [(j, now + lifetime k, d)]"
  let ?m = "length (?o @ (i, v) # ?w) - max_entries k"
  have len: "length ?w \<le> Suc n" using length_delete [of j newer] k(2) by simp
  then have "?m \<le> length ?o" using assms(2) by simp
  then have "drop ?m (?o @ (i, v) # ?w) = drop ?m ?o @ (i, v) # ?w" by simp
  moreover have all: "AList.delete j (items k) @ [(j, now + lifetime k, d)] = ?o @ (i, v) # ?w"
    using assms(3) by (simp add: k(1))
  have "items (remember now j d k) = drop ?m (?o @ (i, v) # ?w)"
    unfolding remember_def Let_def all by simp
  ultimately have "items (remember now j d k) = drop ?m ?o @ (i, v) # ?w" by simp
  moreover have "i \<notin> fst ` set (drop ?m ?o)"
    using out_of_older [OF k(3), of j] set_drop_subset [of ?m ?o] by auto
  ultimately show ?thesis using len unfolding stands_def by blast
qed

lemma stands_look_up:
  assumes "stands i (expires, c) n k" and "j = i \<longrightarrow> now < expires"
  shows "stands i (expires, c) n (snd (recall now j k))"
proof (cases "j = i")
  case True
  with assms stands_recall [OF assms(1)] show ?thesis by simp
next
  case False
  obtain older newer where k: "items k = older @ (i, expires, c) # newer" "length newer \<le> n" "i \<notin> fst ` set older"
    using assms(1) by (auto simp: stands_def)
  have "items (snd (recall now j k)) = items k \<or> items (snd (recall now j k)) = AList.delete j (items k)"
    by (auto simp: recall_def split: option.split)
  moreover have "AList.delete j (items k) = AList.delete j older @ (i, expires, c) # AList.delete j newer"
    using False by (simp add: k(1))
  moreover have "length (AList.delete j newer) \<le> n" using length_delete [of j newer] k(2) by simp
  ultimately show ?thesis using k out_of_older [OF k(3), of j] unfolding stands_def by auto
qed

text \<open>The events that leave a call alone: fewer than the memory holds are remembered, under other ids, and the call is
  not looked up past its time.\<close>

definition leaves_alone :: "string \<Rightarrow> rat \<Rightarrow> memory_event \<Rightarrow> bool" where
  "leaves_alone i expires e \<longleftrightarrow>
     (case e of Remembers now j d \<Rightarrow> j \<noteq> i | Recalls now j \<Rightarrow> j = i \<longrightarrow> now < expires)"

definition remembering :: "memory_event list \<Rightarrow> nat" where
  "remembering es = length (filter (\<lambda>e. case e of Remembers now i c \<Rightarrow> True | Recalls now i \<Rightarrow> False) es)"

lemma stands_events:
  assumes "stands i (expires, c) n k" and "n + remembering es < max_entries k" and "list_all (leaves_alone i expires) es"
  shows "\<exists>m. stands i (expires, c) m (apply_events es k)"
  using assms
proof (induction es arbitrary: n k)
  case Nil
  then show ?case by (auto simp: apply_events_def)
next
  case (Cons e es)
  let ?n = "case e of Remembers now j d \<Rightarrow> Suc n | Recalls now j \<Rightarrow> n"
  have "stands i (expires, c) ?n (apply_event e k)"
    using Cons.prems
    by (cases e) (auto simp: apply_event_def remembering_def leaves_alone_def intro: stands_remember stands_look_up)
  moreover have "?n + remembering es < max_entries (apply_event e k)"
    using Cons.prems(2) by (cases e) (simp_all add: remembering_def)
  ultimately show ?case using Cons.IH Cons.prems(3) by (simp add: apply_events_def)
qed

lemma recalled_after:
  assumes "memory_sound k" and "remembering es < max_entries k"
    and "list_all (leaves_alone i (t + lifetime k)) es" and "now < t + lifetime k"
  shows "recall now i (apply_events es (remember t i c k)) = (Some c, apply_events es (remember t i c k))"
proof -
  have "0 < max_entries k" using assms(2) by simp
  from stands_remembered [OF assms(1) this, of i t c]
  obtain m where "stands i (t + lifetime k, c) m (apply_events es (remember t i c k))"
    using stands_events [of i "t + lifetime k" c 0 "remember t i c k" es] assms(2,3)
      limits_kept(1) [of "Remembers t i c" k] by (auto simp: apply_event_def)
  then show ?thesis using assms(4) by (rule stands_recall)
qed

subsection \<open>Turns\<close>

text \<open>No turn is empty and no two turns in a row have the same role.\<close>

definition well_turned :: "(string \<times> dict list) list \<Rightarrow> bool" where
  "well_turned cs \<longleftrightarrow> successively (\<lambda>a b. fst a \<noteq> fst b) cs \<and> list_all (\<lambda>c. snd c \<noteq> []) cs"

lemma add_turn_well: "well_turned (contents s) \<Longrightarrow> well_turned (contents (add_turn role ps s))"
proof (cases "contents s" rule: rev_cases)
  case Nil
  then show ?thesis by (simp add: add_turn_def well_turned_def)
next
  case (snoc cs c)
  assume "well_turned (contents s)"
  then show ?thesis
    by (auto simp: snoc add_turn_def well_turned_def successively_append_iff split: if_splits)
qed

lemma add_turn_fields [simp]: "known_calls (add_turn role ps s) = known_calls s" "unsigned_call (add_turn role ps s) = unsigned_call s"
  "system_texts (add_turn role ps s) = system_texts s" "call_names (add_turn role ps s) = call_names s"
  by (auto simp: add_turn_def)

lemma add_calls_contents: "add_calls g now cs ps s = Inr (ps', s') \<Longrightarrow> contents s' = contents s"
proof (induction cs arbitrary: ps s)
  case (Cons c cs)
  obtain k cache where "recall now (or_no_text g (dget c ''id'')) (known_calls s) = (k, cache)" by fastforce
  with Cons.prems show ?case by (auto simp: Let_def and_then_eq_Inr dest!: Cons.IH)
qed simp

lemma add_message_well:
  assumes "add_message g now n m s = Inr s'" and "well_turned (contents s)"
  shows "well_turned (contents s')"
  using assms
  by (cases "msg_role m")
    (auto simp: add_message_def add_result_def Let_def and_then_eq_Inr split: prod.splits if_splits
      dest!: add_calls_contents intro: add_turn_well)

lemma add_messages_well:
  "add_messages g now n ms s = Inr s' \<Longrightarrow> well_turned (contents s) \<Longrightarrow> well_turned (contents s')"
  by (induction ms arbitrary: n s) (auto simp: and_then_eq_Inr intro: add_message_well)

lemma led_by_well: "well_turned cs \<Longrightarrow> lead \<noteq> [] \<Longrightarrow> well_turned (led_by lead cs)"
  by (cases cs) (auto simp: led_by_def well_turned_def successively_Cons split: if_splits)

text \<open>Google takes turns whose roles alternate, so the results of parallel calls stand in one turn.\<close>

lemma contents_alternate:
  assumes "contents_from g now ms cache fold_system = Inr (cs, instruction, u, cache')"
  shows "well_turned cs"
proof -
  from assms obtain s where s: "add_messages g now 0 ms
       \<lparr>contents = [], system_texts = [], call_names = [], unsigned_call = False, known_calls = cache\<rparr> = Inr s"
    and cs: "cs = contents s \<or> (\<exists>t. cs = led_by [text_part t] (contents s))"
    by (auto simp: contents_from_def and_then_eq_Inr Let_def split: if_splits)
  have "well_turned (contents s)" by (rule add_messages_well [OF s]) (simp add: well_turned_def)
  with cs led_by_well show ?thesis by blast
qed

subsection \<open>A call goes back as it came\<close>

text \<open>A call as Google answers it, and as an OpenAI client sends it back.\<close>

definition google_part :: "string \<Rightarrow> dict \<Rightarrow> string option \<Rightarrow> string option \<Rightarrow> dict" where
  "google_part name args gid sg =
     (''functionCall'', JObj ([(''name'', JStr name), (''args'', JObj args)] @
       (case gid of Some i \<Rightarrow> [(''id'', JStr i)] | None \<Rightarrow> []))) #
     (case sg of Some t \<Rightarrow> [(''thoughtSignature'', JStr t)] | None \<Rightarrow> [])"

definition replayed :: "tool_call \<Rightarrow> dict" where
  "replayed c = [(''id'', JStr (call_id c)), (''type'', JStr ''function''),
     (''function'', JObj [(''name'', JStr (fn_name (call_function c))), (''arguments'', JStr (arguments (call_function c)))])]"

lemma google_part_fields:
  "dget (google_part name args gid sg) ''functionCall'' = JObj ([(''name'', JStr name), (''args'', JObj args)] @
     (case gid of Some i \<Rightarrow> [(''id'', JStr i)] | None \<Rightarrow> []))"
  "sg \<noteq> Some [] \<Longrightarrow> text_at (google_part name args gid sg) ''thoughtSignature'' = sg"
  by (cases sg; cases gid; simp add: google_part_def text_at_def split: list.split)+

lemma read_google_part:
  assumes "name \<noteq> []" and "gid \<noteq> Some []" and "sg \<noteq> Some []"
    and "i = (case gid of Some i \<Rightarrow> i | None \<Rightarrow> new_call_id g made)"
  shows "read_parts g t True (JList [JObj (google_part name args gid sg)]) (k, made) =
    (nothing_parsed\<lparr>p_calls := [\<lparr>call_id = i, call_function = \<lparr>fn_name = name, arguments = dumped g (JObj args)\<rparr>\<rparr>]\<rparr>,
     remember t i \<lparr>called_name = name, signature = sg, google_id = (gid \<noteq> None)\<rparr> k,
     if gid = None then Suc made else made)"
  using assms
  by (cases gid)
    (simp_all add: read_parts_def dicts_in_def map_filter_simps read_part_def read_call_def google_part_fields
      as_dict_def truthy_def text_of_def nothing_parsed_def Let_def)

lemma google_part_again:
  assumes "gid \<noteq> None \<Longrightarrow> gid = Some i" and "sg \<noteq> Some []"
  shows "call_part i name args (Some \<lparr>called_name = name, signature = sg, google_id = (gid \<noteq> None)\<rparr>) =
    google_part name args gid sg"
  using assms by (cases gid; cases sg) (simp_all add: call_part_def google_part_def)

text \<open>C30. The memory of thought signatures makes up for the client. A call of an answer is shown to the client in the
  OpenAI form, which has no place for the signature and, where Google gave none, an id of the driver's. When the
  client sends it back, the driver sends Google the part it answered with, name, arguments, id and signature,
  provided fewer calls than the memory holds were remembered since, under other ids, and its time has not run out.
  \<open>json.loads\<close> is taken to read back what \<open>json.dumps\<close> wrote.\<close>

theorem call_goes_back_as_it_came:
  assumes "memory_sound k" and "name \<noteq> []" and "gid \<noteq> Some []" and "sg \<noteq> Some []"
    and "i = (case gid of Some i \<Rightarrow> i | None \<Rightarrow> new_call_id g made)" and "i \<noteq> []"
    and "parses (gworld g) (dumped g (JObj args)) = Loaded (JObj args)" and "strip (dumped g (JObj args)) \<noteq> []"
    and "read_parts g t True (JList [JObj (google_part name args gid sg)]) (k, made) = (seen, k', made')"
    and "remembering es < max_entries k" and "list_all (leaves_alone i (t + lifetime k)) es" and "now < t + lifetime k"
    and "known_calls s = apply_events es k'"
  shows "\<exists>c s'. p_calls seen = [c] \<and> add_calls g now [replayed c] ps s = Inr (ps @ [google_part name args gid sg], s') \<and>
    (unsigned_call s' \<longleftrightarrow> unsigned_call s \<or> sg = None)"
proof -
  let ?r = "\<lparr>called_name = name, signature = sg, google_id = (gid \<noteq> None)\<rparr>"
  let ?c = "\<lparr>call_id = i, call_function = \<lparr>fn_name = name, arguments = dumped g (JObj args)\<rparr>\<rparr>"
  from assms(9) have seen: "p_calls seen = [?c]" and k': "k' = remember t i ?r k"
    unfolding read_google_part [OF assms(2-5)] by auto
  have known: "recall now i (known_calls s) = (Some ?r, known_calls s)"
    unfolding assms(13) k' by (rule recalled_after [OF assms(1,10,11,12)])
  have signed: "(case sg of None \<Rightarrow> False | Some sg \<Rightarrow> sg \<noteq> []) \<longleftrightarrow> sg \<noteq> None" using assms(4) by (cases sg) auto
  have args: "args_of g i (JStr (dumped g (JObj args))) = Inr args"
    using assms(7,8) by (simp add: args_of_def Let_def)
  have same: "call_part i name args (Some ?r) = google_part name args gid sg"
    by (rule google_part_again) (use assms(4,5) in auto)
  have "add_calls g now [replayed ?c] ps s = Inr (ps @ [call_part i name args (Some ?r)],
      s\<lparr>call_names := AList.update i name (call_names s), known_calls := known_calls s,
        unsigned_call := (unsigned_call s \<or> sg = None)\<rparr>)"
    using assms(2,6) by (simp add: replayed_def or_no_text_def truthy_def text_of_def dict_or_empty_def args known signed Let_def)
  then have again: "add_calls g now [replayed ?c] ps s = Inr (ps @ [google_part name args gid sg],
      s\<lparr>call_names := AList.update i name (call_names s), known_calls := known_calls s,
        unsigned_call := (unsigned_call s \<or> sg = None)\<rparr>)"
    unfolding same .
  show ?thesis by (intro exI conjI, rule seen, rule again, simp)
qed

definition demo_google :: google where
  "demo_google = \<lparr>gworld = demo_world\<lparr>parses := (\<lambda>t. if t = ''{}'' then Loaded (JObj []) else LoadValueError)\<rparr>,
     shown = (\<lambda>_. []), dumped = (\<lambda>_. ''{}''), new_call_id = (\<lambda>n. ''call_'' @ str_int (int n))\<rparr>"

definition other_call :: remembered where
  "other_call = \<lparr>called_name = ''g'', signature = None, google_id = False\<rparr>"

lemma call_goes_back_as_it_came_witness:
  "\<exists>c s'. p_calls (fst (read_parts demo_google 0 True (JList [JObj (google_part ''f'' [] None (Some ''sig''))]) (no_signatures, 0))) = [c] \<and>
    add_calls demo_google 7 [replayed c] []
      \<lparr>contents = [], system_texts = [], call_names = [], unsigned_call = False,
       known_calls = apply_events [Remembers 1 ''call_1'' other_call, Recalls 2 ''call_0'']
         (fst (snd (read_parts demo_google 0 True (JList [JObj (google_part ''f'' [] None (Some ''sig''))]) (no_signatures, 0))))\<rparr> =
      Inr ([google_part ''f'' [] None (Some ''sig'')], s') \<and> \<not> unsigned_call s'"
proof -
  let ?es = "[Remembers 1 ''call_1'' other_call, Recalls 2 ''call_0'']"
  let ?out = "read_parts demo_google 0 True (JList [JObj (google_part ''f'' [] None (Some ''sig''))]) (no_signatures, 0)"
  let ?s = "\<lparr>contents = [], system_texts = [], call_names = [], unsigned_call = False, known_calls = apply_events ?es (fst (snd ?out))\<rparr>"
  have sound: "memory_sound no_signatures" by (simp add: memory_sound_def no_signatures_def)
  have i: "''call_0'' = (case None of Some i \<Rightarrow> i | None \<Rightarrow> new_call_id demo_google 0)" by code_simp
  have loads: "parses (gworld demo_google) (dumped demo_google (JObj [])) = Loaded (JObj [])"
    "strip (dumped demo_google (JObj [])) \<noteq> []" by code_simp+
  have out: "?out = (fst ?out, fst (snd ?out), snd (snd ?out))" by simp
  have "remembering ?es < max_entries no_signatures"
    by (simp add: remembering_def no_signatures_def SIGNATURE_ENTRIES_def)
  moreover have "list_all (leaves_alone ''call_0'' (0 + lifetime no_signatures)) ?es"
    by (simp add: leaves_alone_def no_signatures_def SIGNATURE_SECONDS_def)
  moreover have "7 < 0 + lifetime no_signatures" by (simp add: no_signatures_def SIGNATURE_SECONDS_def)
  ultimately show ?thesis
    using call_goes_back_as_it_came [OF sound _ _ _ i _ loads out, where es = ?es and now = 7 and s = ?s and ps = "[]"]
    by simp
qed


end
