(* ===== verification/Gemini_Api.thy ===== *)
theory Gemini_Api
  imports Gemini_Wire
begin

text \<open>
  Google's Gemini as an account (\<open>engines/gemini_api.py\<close>): what a request may ask for and what is said of what it
  may not, the account's model list, a chat answered whole and as a stream, and the count of a prompt's tokens.
  The engine's state is its list, its memory of calls and the settings it has warned of. What Google answers is a
  parameter, as for the OpenAI-compatible adapter; of a failure of httpx the text is its class and its words.
  The two clocks the code reads are one.
\<close>

subsection \<open>The key is kept to the driver\<close>

fun replaced :: "string \<Rightarrow> string \<Rightarrow> string \<Rightarrow> string" where
  "replaced p q [] = []"
| "replaced p q (c # cs) =
     (if p \<noteq> [] \<and> starts_with p (c # cs) then q @ replaced p q (drop (length p - 1) cs) else c # replaced p q cs)"

definition key_char :: "char \<Rightarrow> bool" where
  "key_char c \<longleftrightarrow> c \<noteq> CHR ''&'' \<and> \<not> is_space c \<and> c \<noteq> CHR 0x22 \<and> c \<noteq> CHR 0x27"

text \<open>\<open>(?i)(key=)[^&\s"']+\<close>, and what the match is replaced with.\<close>

function key_hidden :: "string \<Rightarrow> string" where
  "key_hidden [] = []"
| "key_hidden (c # cs) =
     (if starts_with ''key='' (lower (c # cs)) \<and> takeWhile key_char (drop 3 cs) \<noteq> []
      then take 4 (c # cs) @ ''<redacted>'' @ key_hidden (dropWhile key_char (drop 3 cs))
      else c # key_hidden cs)"
  by pat_completeness auto
termination
  by (relation "measure length") (auto intro: le_less_trans [OF length_dropWhile_le])

definition scrub :: "string option \<Rightarrow> string \<Rightarrow> string" where
  "scrub key t = key_hidden (case key of None \<Rightarrow> t | Some k \<Rightarrow> if k = [] then t else replaced k ''<redacted>'' t)"

definition google_headers :: "string option \<Rightarrow> (string \<times> string) list" where
  "google_headers key =
     (''Accept'', ''application/json'') # (case key of Some (c # cs) \<Rightarrow> [(''x-goog-api-key'', c # cs)] | _ \<Rightarrow> [])"

subsection \<open>The account\<close>

definition DEFAULT_BASE_URL :: string where
  "DEFAULT_BASE_URL = ''https://generativelanguage.googleapis.com/v1beta''"

definition ALL_SETTINGS :: "string list" where
  "ALL_SETTINGS = CHAT_SETTINGS @
     [''minP'', ''logprobs'', ''logitBias'', ''reasoningEffort'', ''verbosity'', ''prediction'', ''webSearchOptions'']"

record gemini =
  api_key :: "string option"
  base_address :: string
  time_limit :: rat
  stall_limit :: rat
  only_model :: "string option"
  account_list :: listing
  account_filters :: "string list \<times> string list"
  call_memory :: memory
  warned_of :: "(string \<times> string) list"

text \<open>How a call fails: no such model, a refusal of the engine's before anything is sent, an exception.\<close>

datatype api_failure = NoModel model_refusal | Unfit string | Raised exn

definition raised :: "exn + 'a \<Rightarrow> api_failure + 'a" where
  "raised r = (case r of Inl e \<Rightarrow> Inl (Raised e) | Inr v \<Rightarrow> Inr v)"

text \<open>\<open>_guard\<close>.\<close>

definition google_unreached :: "world \<Rightarrow> gemini \<Rightarrow> string \<Rightarrow> net_failure \<Rightarrow> exn" where
  "google_unreached w a what f =
     (case f of
        ConnectTimedOut name \<Rightarrow>
          (cli_error (''Gemini could not be reached for '' @ what @ '': '' @ name))\<lparr>cause := ConnectTimeout\<rparr>
      | TimedOut name \<Rightarrow>
          (crashed (''Gemini did not answer '' @ what @ '' within '' @ show_g w (time_limit a) @ ''s ('' @ name @
             ''). The backend was still working, not broken. Raise '' @
             ''requestTimeoutSeconds on this driver (and on the gateway).''))
          \<lparr>exn_class := BackendTimeout, cause := OtherCause\<rparr>
      | HttpFailed connect r \<Rightarrow>
          (cli_error (scrub (api_key a) (''Gemini failed '' @ what @ '': '' @ r)))
          \<lparr>cause := (if connect then ConnectError else OtherCause)\<rparr>)"

text \<open>A request and its answer: \<open>Inl\<close> for a failure of httpx or a status that refuses.\<close>

definition google_refused :: "google \<Rightarrow> gemini \<Rightarrow> reply \<Rightarrow> string \<Rightarrow> exn" where
  "google_refused g a r what = failure_from g (scrub (api_key a)) r what"

definition google_answer :: "google \<Rightarrow> gemini \<Rightarrow> string \<Rightarrow> string \<Rightarrow> exchange \<Rightarrow> exn + reply" where
  "google_answer g a asking what ex =
     (case ex of
        Inl f \<Rightarrow> Inl (google_unreached (gworld g) a asking f)
      | Inr r \<Rightarrow> if 400 \<le> status r then Inl (google_refused g a r what) else Inr r)"

text \<open>\<open>response.json()\<close>, where a \<open>ValueError\<close> gives the words \<open>otherwise\<close>.\<close>

definition json_of :: "google \<Rightarrow> string \<Rightarrow> reply \<Rightarrow> exn + json" where
  "json_of g otherwise r =
     (case parses (gworld g) (body_text r) of
        Loaded v \<Rightarrow> Inr v
      | LoadValueError \<Rightarrow> Inl ((cli_error otherwise)\<lparr>cause := OtherCause\<rparr>)
      | LoadRecursionError \<Rightarrow> Inl (crashed ''RecursionError''))"

definition google_said :: "google \<Rightarrow> gemini \<Rightarrow> string \<Rightarrow> string \<Rightarrow> string \<Rightarrow> exchange \<Rightarrow> exn + json" where
  "google_said g a asking what otherwise ex = and_then (google_answer g a asking what ex) (json_of g otherwise)"

subsection \<open>The model list\<close>

definition google_gaps :: "gap list" where
  "google_gaps = [\<lparr>setting = ''parallelToolCalls'', in_vain = [JBool False]\<rparr>]"

definition google_view :: "driver_model \<Rightarrow> driver_model" where
  "google_view m =
     (case dm_caps m of
        None \<Rightarrow> m
      | Some c \<Rightarrow> if ''chat'' \<notin> set (dm_surfaces m) then m else m\<lparr>dm_caps := Some (c\<lparr>cap_not_honoured := Some google_gaps\<rparr>)\<rparr>)"

definition LIST_PAGES :: nat where "LIST_PAGES = 20"

text \<open>One page and the token of the next; \<open>Inl\<close> of the exchange is \<open>repr\<close> of an httpx error.\<close>

definition list_page :: "google \<Rightarrow> gemini \<Rightarrow> string + reply \<Rightarrow> read_fault + driver_model list \<times> string option" where
  "list_page g a ex =
     (case ex of
        Inl e \<Rightarrow> Inl (HttpFault e)
      | Inr r \<Rightarrow>
          if 400 \<le> status r then
            (let e = google_refused g a r ''the model list''
             in if exn_class e = OtherError then Inl (OtherFault (message e))
                else Inl (ListFault (''Gemini refused the model list ('' @ str_int (status r) @ ''): '' @ message e)))
          else (case parses (gworld g) (body_text r) of
            LoadValueError \<Rightarrow> Inl (ListFault ''Gemini's model list was not JSON'')
          | LoadRecursionError \<Rightarrow> Inl (OtherFault ''RecursionError'')
          | Loaded v \<Rightarrow>
              (case dget (as_dict v) ''models'' of
                 JList vs \<Rightarrow>
                   and_then (collect model_from_listing (dicts_in vs)) (\<lambda>ms.
                     Inr (List.map_filter id ms, text_at (as_dict v) ''nextPageToken''))
               | _ \<Rightarrow> Inl (ListFault ''Gemini's model list had no `models` array''))))"

fun list_pages ::
  "google \<Rightarrow> gemini \<Rightarrow> (string option \<Rightarrow> string + reply) \<Rightarrow> nat \<Rightarrow> string option \<Rightarrow> read_fault + driver_model list"
where
  "list_pages g a ask 0 token = Inr []"
| "list_pages g a ask (Suc n) token =
     and_then (list_page g a (ask token)) (\<lambda>(ms, onward).
       case onward of
         None \<Rightarrow> Inr ms
       | Some t \<Rightarrow> and_then (list_pages g a ask n (Some t)) (\<lambda>others. Inr (ms @ others)))"

definition fetch_google_list :: "google \<Rightarrow> gemini \<Rightarrow> (string option \<Rightarrow> string + reply) \<Rightarrow> read_fault + driver_model list" where
  "fetch_google_list g a ask =
     and_then (list_pages g a ask LIST_PAGES None) (\<lambda>ms.
       Inr (case only_model a of None \<Rightarrow> ms | Some i \<Rightarrow> if i = [] then ms else filter (\<lambda>m. dm_id m = i) ms))"

definition google_exposed :: "gemini \<Rightarrow> driver_model list" where
  "google_exposed a = exposed google_view (account_filters a) (account_list a)"

definition resolve_google :: "gemini \<Rightarrow> string option \<Rightarrow> model_refusal + driver_model" where
  "resolve_google a requested =
     (if \<not> given requested then Inl ModelRequired
      else from_option (ModelNotServed (the requested) (length (google_exposed a)))
        (find_model google_view (account_filters a) (account_list a) (bare_id (the requested))))"

definition resolved :: "gemini \<Rightarrow> string option \<Rightarrow> api_failure + driver_model" where
  "resolved a requested = (case resolve_google a requested of Inl e \<Rightarrow> Inl (NoModel e) | Inr m \<Rightarrow> Inr m)"

text \<open>\<open>_surface\<close>; \<open>shown\<close> is \<open>repr\<close>.\<close>

definition serves :: "google \<Rightarrow> driver_model \<Rightarrow> string \<Rightarrow> string \<Rightarrow> exn + unit" where
  "serves g m surface what =
     require (surface \<in> set (dm_surfaces m))
       (refused (shown g (JStr (dm_id m)) @ '' does not serve '' @ what @ '' (it serves '' @
          (if dm_surfaces m = [] then ''nothing Eugene routes'' else py_join '', '' (dm_surfaces m)) @ '').''))"

subsection \<open>What is not honoured\<close>

definition google_unsupported :: "driver_model \<Rightarrow> string list" where
  "google_unsupported m =
     (let listed = (case dm_caps m of None \<Rightarrow> [] | Some c \<Rightarrow> (case cap_settings c of None \<Rightarrow> [] | Some ss \<Rightarrow> ss))
      in filter (\<lambda>s. s \<notin> set listed) ALL_SETTINGS)"

text \<open>\<open>getattr(request, setting, None) in values\<close> for the settings of \<open>google_gaps\<close>.\<close>

definition sent_value :: "chat_request \<Rightarrow> string \<Rightarrow> json" where
  "sent_value r s =
     (if s = ''parallelToolCalls'' then (case parallel_tool_calls (core r) of Some b \<Rightarrow> JBool b | None \<Rightarrow> JNull) else JNull)"

definition google_ignored :: "gemini \<Rightarrow> chat_request \<Rightarrow> string list" where
  "google_ignored a r =
     (case resolve_google a (asked_model (core r)) of
        Inl _ \<Rightarrow> []
      | Inr m \<Rightarrow>
          if ''chat'' \<notin> set (dm_surfaces m) then []
          else map setting (filter (\<lambda>s. setting s \<in> set (explicit_settings (core r)) \<and> sent_value r (setting s) \<in> set (in_vain s)) google_gaps) @
            (if ''reasoningEffort'' \<in> set (explicit_settings (core r)) \<and> reasoning_effort (core r) \<noteq> None \<and>
                ''reasoningEffort'' \<in> set (google_unsupported m) then [''reasoningEffort''] else []))"

text \<open>What a chat drops with a warning, said once of each model.\<close>

definition dropped_from_chat :: "driver_model \<Rightarrow> chat_request \<Rightarrow> string list" where
  "dropped_from_chat m r =
     (if parallel_tool_calls (core r) = Some False then [''parallel_tool_calls''] else []) @
     map fst (filter (\<lambda>(s, has). has \<and> s \<in> set (google_unsupported m))
       [(''minP'', min_p r \<noteq> None), (''logprobs'', logprobs r \<noteq> None), (''logitBias'', logit_bias r \<noteq> None),
        (''verbosity'', verbosity r \<noteq> None), (''prediction'', prediction r \<noteq> JNull),
        (''webSearchOptions'', web_search_options r \<noteq> JNull), (''reasoningEffort'', reasoning_effort (core r) \<noteq> None)])"

definition warn_chat :: "driver_model \<Rightarrow> chat_request \<Rightarrow> gemini \<Rightarrow> gemini" where
  "warn_chat m r a =
     a\<lparr>warned_of := warned_of a @ filter (\<lambda>p. p \<notin> set (warned_of a)) (map (Pair (dm_id m)) (dropped_from_chat m r))\<rparr>"


subsection \<open>The body of a chat\<close>

definition whole_numbers :: "chat_request \<Rightarrow> dict" where
  "whole_numbers r =
     (let num = JFloat \<circ> Finite
      in opt ''temperature'' num (temperature r) @ opt ''topP'' num (top_p (core r)) @ opt ''topK'' JInt (top_k r) @
         opt ''maxOutputTokens'' JInt (max_tokens r) @ opt ''seed'' JInt (seed (core r)) @
         opt ''presencePenalty'' num (presence_penalty r) @ opt ''frequencyPenalty'' num (frequency_penalty r))"

definition response_schema :: "json \<Rightarrow> dict" where
  "response_schema fmt =
     (case fmt of
        JNull \<Rightarrow> []
      | _ \<Rightarrow>
          let d = as_dict fmt; kind = dget d ''type''
          in (if kind \<in> {JStr ''json_object'', JStr ''json_schema''} then [(''responseMimeType'', JStr ''application/json'')] else []) @
             (if kind = JStr ''json_schema'' \<and> dget d ''json_schema'' \<noteq> JNull
              then [(''responseJsonSchema'', dget (as_dict (dget d ''json_schema'')) ''schema'')] else []))"

definition generation_config :: "driver_model \<Rightarrow> chat_request \<Rightarrow> dict" where
  "generation_config m r =
     whole_numbers r @
     (case stop (core r) of Some (s # ss) \<Rightarrow> [(''stopSequences'', JList (map JStr (s # ss)))] | _ \<Rightarrow> []) @
     response_schema (response_format r) @
     (if ''reasoningEffort'' \<in> set (google_unsupported m) then []
      else [(''thinkingConfig'', JObj (thinking_config (dm_id m) (reasoning_effort (core r))))])"

definition turn_json :: "string \<times> dict list \<Rightarrow> json" where
  "turn_json = (\<lambda>(role, ps). JObj [(''role'', JStr role), (''parts'', JList (map JObj ps))])"

definition google_tools :: "chat_request \<Rightarrow> dict" where
  "google_tools r =
     (case tools (core r) of
        Some (t # ts) \<Rightarrow>
          (''tools'', declarations_from (t # ts)) #
          (case tool_config_from (tool_choice (core r)) of Some d \<Rightarrow> [(''toolConfig'', JObj d)] | None \<Rightarrow> [])
      | _ \<Rightarrow> [])"

definition chat_fits :: "google \<Rightarrow> driver_model \<Rightarrow> chat_request \<Rightarrow> exn + unit" where
  "chat_fits g m r =
     and_then (serves g m ''chat'' ''chat'') (\<lambda>_.
     and_then (require (audio_output (core r) = None \<and> completion_prompt (core r) = None)
       (refused (''audioOutput and raw completion are not served by Gemini's chat; speech has its own surface.''))) (\<lambda>_.
       case refuse_unsupported_settings (core r) (google_unsupported m) None of
         Inl words \<Rightarrow> Inl (refused words)
       | Inr _ \<Rightarrow> Inr ()))"

text \<open>\<open>_chat_body\<close>: the engine after it, and the body with whether it replays a call with no signature.\<close>

definition chat_body :: "google \<Rightarrow> rat \<Rightarrow> driver_model \<Rightarrow> chat_request \<Rightarrow> gemini \<Rightarrow> gemini \<times> (exn + dict \<times> bool)" where
  "chat_body g now m r a =
     (case chat_fits g m r of
        Inl e \<Rightarrow> (a, Inl e)
      | Inr _ \<Rightarrow>
          let a = warn_chat m r a
          in case contents_from g now (messages r) (fst (call_memory a)) (is_gemma (dm_id m)) of
               Inl e \<Rightarrow> (a, Inl e)
             | Inr (cs, sys, replayed_bare, k) \<Rightarrow>
                 let a = a\<lparr>call_memory := (k, snd (call_memory a))\<rparr>
                 in if cs = [] then (a, Inl (refused ''messages: nothing to send to Gemini.''))
                    else (a, Inr ([(''contents'', JList (map turn_json cs))] @
                      (case sys of Some t \<Rightarrow> [(''systemInstruction'', JObj [(''parts'', JList [JObj [(''text'', JStr t)]])])] | None \<Rightarrow> []) @
                      google_tools r @
                      (if generation_config m r = [] then [] else [(''generationConfig'', JObj (generation_config m r))]),
                      replayed_bare)))"

subsection \<open>A whole answer\<close>

text \<open>\<open>candidates[0]\<close> of a body, with the error when it holds none.\<close>

definition head_of :: "json \<Rightarrow> exn + dict" where
  "head_of v =
     (case v of
        JList (x # _) \<Rightarrow> Inr (as_dict x)
      | JStr _ \<Rightarrow> Inr []
      | JObj _ \<Rightarrow> Inl (crashed ''KeyError'')
      | _ \<Rightarrow> Inl (crashed ''TypeError''))"

definition first_candidate :: "google \<Rightarrow> json \<Rightarrow> exn + dict" where
  "first_candidate g body =
     (case body of
        JObj d \<Rightarrow>
          if truthy (dget d ''candidates'') then head_of (dget d ''candidates'')
          else Inl (case blocked_prompt g d of Some e \<Rightarrow> e | None \<Rightarrow> cli_error ''Gemini returned no candidates'')
      | _ \<Rightarrow> Inl (crashed ''AttributeError''))"

definition candidate_parts :: "dict \<Rightarrow> exn + json" where
  "candidate_parts c = and_then (dict_or_empty (dget c ''content'')) (\<lambda>d. Inr (dget d ''parts''))"

text \<open>A request as the chat reads it: what is asked, its own id, whether progress is told, and how long it took.\<close>

record chat_ask =
  asks :: chat_request
  ask_id :: "string option"
  tells :: bool
  took :: int

definition google_result ::
  "driver_model \<Rightarrow> chat_ask \<Rightarrow> string option \<Rightarrow> string \<Rightarrow> tool_call list \<Rightarrow> string \<Rightarrow> usage option \<Rightarrow> gen_result"
where
  "google_result m x text thought made fin counted =
     \<lparr>content = text, reasoning_text = (if thought = [] then None else Some thought),
      calls = (if made = [] then None else Some made), finish_reason = fin, stop_sequence = None,
      rest = opt ''usage'' usage_json counted @ opt ''requestId'' JStr (ask_id x) @
        [(''backend'', JStr ''gemini_api''), (''modelId'', JStr (dm_id m)), (''latencyMs'', JInt (took x))]\<rparr>"

definition some_text :: "string \<Rightarrow> string option" where
  "some_text t = (if t = [] then None else Some t)"

text \<open>\<open>_result\<close>.\<close>

definition result_of :: "google \<Rightarrow> driver_model \<Rightarrow> chat_ask \<Rightarrow> dict \<Rightarrow> parsed \<Rightarrow> dict \<Rightarrow> exn + gen_result" where
  "result_of g m x body p candidate =
     and_then (gemini_finish g (dget candidate ''finishReason'') (p_calls p \<noteq> [])) (\<lambda>fin.
       Inr (google_result m x
         (if fin = ''content_filter'' \<and> p_text p = [] \<and> p_calls p = [] then Some (refusal_note g candidate) else some_text (p_text p))
         (p_reasoning p) (p_calls p) fin (gemini_usage (dget body ''usageMetadata''))))"

definition says_nothing :: "parsed \<Rightarrow> bool" where
  "says_nothing p \<longleftrightarrow> p_text p = [] \<and> p_calls p = [] \<and> p_reasoning p = []"

definition whole_reply :: "google \<Rightarrow> rat \<Rightarrow> driver_model \<Rightarrow> chat_ask \<Rightarrow> json \<Rightarrow> memory \<Rightarrow> memory \<times> (exn + gen_result)" where
  "whole_reply g now m x body k =
     (case and_then (first_candidate g body) (\<lambda>c. and_then (candidate_parts c) (\<lambda>v. Inr (c, v))) of
        Inl e \<Rightarrow> (k, Inl e)
      | Inr (c, v) \<Rightarrow>
          let (p, k) = read_parts g now True v k
          in (k, if says_nothing p \<and> dget c ''finishReason'' \<in> {JNull, JStr ''STOP''}
                 then Inl (cli_error ''Gemini returned an answer with no text, reasoning or tool call'')
                 else result_of g m x (as_dict body) p c))"

definition generate :: "google \<Rightarrow> rat \<Rightarrow> chat_ask \<Rightarrow> exchange \<Rightarrow> gemini \<Rightarrow> gemini \<times> (api_failure + gen_result)" where
  "generate g now x ex a =
     (case resolved a (asked_model (core (asks x))) of
        Inl f \<Rightarrow> (a, Inl f)
      | Inr m \<Rightarrow>
          (case chat_body g now m (asks x) a of
             (a, Inl e) \<Rightarrow> (a, Inl (Raised e))
           | (a, Inr (_, bare)) \<Rightarrow>
               (case google_said g a ''the completion'' ''the completion'' ''Gemini returned non-JSON for the completion'' ex of
                  Inl e \<Rightarrow> (a, Inl (Raised (explained bare e)))
                | Inr body \<Rightarrow>
                    let (k, out) = whole_reply g now m x body (call_memory a)
                    in (a\<lparr>call_memory := k\<rparr>, raised out))))"

subsection \<open>A streamed answer\<close>

record heard =
  said_text :: "string list"
  said_thought :: "string list"
  said_calls :: "tool_call list"
  said_usage :: json
  said_finish :: json
  last_candidate :: dict
  has_finished :: bool
  saw_first :: bool
  last_ping :: rat
  held_memory :: memory

definition heard_nothing :: "memory \<Rightarrow> heard" where
  "heard_nothing k =
     \<lparr>said_text = [], said_thought = [], said_calls = [], said_usage = JObj [], said_finish = JNull, last_candidate = [],
      has_finished = False, saw_first = False, last_ping = 0, held_memory = k\<rparr>"

text \<open>What a stretch of the stream comes to: the chunks shown, the state after it, and the exception that ended it.\<close>

type_synonym stretch = "chunk list \<times> heard \<times> exn option"

definition call_chunk :: "nat \<Rightarrow> tool_call \<Rightarrow> chunk" where
  "call_chunk n c =
     plain_chunk\<lparr>ctool_calls := Some [\<lparr>delta_index = int n, delta_id = Some (call_id c),
       delta_function = Some (Some (fn_name (call_function c)), Some (arguments (call_function c)))\<rparr>]\<rparr>"

definition parsed_chunks :: "nat \<Rightarrow> parsed \<Rightarrow> chunk list" where
  "parsed_chunks n p =
     (if p_reasoning p = [] then [] else [plain_chunk\<lparr>creasoning := p_reasoning p\<rparr>]) @
     (if p_text p = [] then [] else [plain_chunk\<lparr>ctext := p_text p\<rparr>]) @
     map (\<lambda>(i, c). call_chunk i c) (enumerate n (p_calls p))"

definition on_candidate :: "google \<Rightarrow> rat \<Rightarrow> dict \<Rightarrow> heard \<Rightarrow> stretch" where
  "on_candidate g now c s =
     (let s = s\<lparr>last_candidate := c\<rparr>
      in case candidate_parts c of
           Inl e \<Rightarrow> ([], s, Some e)
         | Inr v \<Rightarrow>
             let (p, k) = read_parts g now True v (held_memory s);
                 why = dget c ''finishReason''
             in (parsed_chunks (length (said_calls s)) p,
                 s\<lparr>said_thought := said_thought s @ [p_reasoning p], said_text := said_text s @ [p_text p],
                    said_calls := said_calls s @ p_calls p, held_memory := k,
                    said_finish := (if truthy why then why else said_finish s),
                    has_finished := (has_finished s \<or> truthy why)\<rparr>, None))"

definition stream_error :: "google \<Rightarrow> gemini \<Rightarrow> dict \<Rightarrow> exn" where
  "stream_error g a err =
     (cli_error (scrub (api_key a) (''Gemini's stream failed ('' @ gtext g (dget err ''status'') @ ''): '' @ gtext g (dget err ''message''))))
     \<lparr>upstream_status := int_of (dget err ''code'')\<rparr>"

definition on_stream_event :: "google \<Rightarrow> gemini \<Rightarrow> rat \<Rightarrow> dict \<Rightarrow> heard \<Rightarrow> stretch" where
  "on_stream_event g a now d s =
     (case dget d ''error'' of
        JObj err \<Rightarrow> ([], s, Some (stream_error g a err))
      | _ \<Rightarrow>
          let s = (case dget d ''usageMetadata'' of JObj u \<Rightarrow> s\<lparr>said_usage := JObj u\<rparr> | _ \<Rightarrow> s)
          in if \<not> truthy (dget d ''candidates'') then ([], s, blocked_prompt g d)
             else case head_of (dget d ''candidates'') of
               Inl e \<Rightarrow> ([], s, Some e)
             | Inr c \<Rightarrow> on_candidate g now c s)"

definition on_stream_line :: "google \<Rightarrow> gemini \<Rightarrow> bool \<Rightarrow> rat \<Rightarrow> string \<Rightarrow> heard \<Rightarrow> stretch" where
  "on_stream_line g a tell now line s =
     (if tell \<and> starts_with '':'' line then
        (if KEEPALIVE_PROGRESS_SECONDS \<le> now - last_ping s
         then ([plain_chunk\<lparr>cprogress := Some working\<rparr>], s\<lparr>last_ping := now\<rparr>, None) else ([], s, None))
      else if \<not> starts_with ''data:'' line \<or> strip (drop 5 line) \<in> {[], ''[DONE]''} then ([], s, None)
      else let s = s\<lparr>saw_first := True\<rparr>
           in case parses (gworld g) (strip (drop 5 line)) of
                LoadRecursionError \<Rightarrow> ([], s, Some (crashed ''RecursionError''))
              | Loaded (JObj d) \<Rightarrow> on_stream_event g a now d s
              | _ \<Rightarrow> ([], s, None))"

definition characters_heard :: "heard \<Rightarrow> nat" where
  "characters_heard s = length (concat (said_text s)) + length (concat (said_thought s))"

definition went_silent :: "google \<Rightarrow> gemini \<Rightarrow> heard \<Rightarrow> exn" where
  "went_silent g a s =
     (crashed (''Gemini's stream went silent for '' @ show_g (gworld g) (stall_limit a) @ ''s mid-answer, after '' @
        str_int (int (characters_heard s)) @ '' characters. If it legitimately pauses that long, '' @
        ''raise streamStallSeconds on this driver (0 disables).''))
     \<lparr>exn_class := BackendTimeout, cause := OtherCause\<rparr>"

fun hear_lines :: "google \<Rightarrow> gemini \<Rightarrow> bool \<Rightarrow> arrival list \<Rightarrow> heard \<Rightarrow> stretch" where
  "hear_lines g a tell [] s = ([], s, None)"
| "hear_lines g a tell (ar # later) s =
     (if saw_first s \<and> 0 < stall_limit a \<and> stall_limit a < waited ar
      then ([], s, if has_finished s then None else Some (went_silent g a s))
      else case brought ar of
        Closed \<Rightarrow> ([], s, None)
      | Broken f \<Rightarrow> ([], s, Some (google_unreached (gworld g) a ''the stream'' f))
      | Line line \<Rightarrow>
          (case on_stream_line g a tell (clock ar) line s of
             (cs, s, Some e) \<Rightarrow> (cs, s, Some e)
           | (cs, s, None) \<Rightarrow> (case hear_lines g a tell later s of (ds, s, e) \<Rightarrow> (cs @ ds, s, e))))"

definition cut_mid_answer :: "heard \<Rightarrow> exn" where
  "cut_mid_answer s =
     cli_error (''Gemini's stream ended without a finishReason after '' @ str_int (int (characters_heard s)) @
       '' characters: the backend closed the connection mid-answer'')"

definition end_of_stream :: "google \<Rightarrow> driver_model \<Rightarrow> chat_ask \<Rightarrow> heard \<Rightarrow> chunk list \<times> (exn + unit)" where
  "end_of_stream g m x s =
     (if \<not> has_finished s then ([], Inl (cut_mid_answer s))
      else case gemini_finish g (said_finish s) (said_calls s \<noteq> []) of
        Inl e \<Rightarrow> ([], Inl e)
      | Inr fin \<Rightarrow>
          let text = concat (said_text s);
              refuses = (fin = ''content_filter'' \<and> text = [] \<and> said_calls s = []);
              note = refusal_note g (last_candidate s)
          in ((if refuses then [plain_chunk\<lparr>ctext := note\<rparr>] else []) @
              [plain_chunk\<lparr>cdone := True, cresult := Some (google_result m x (if refuses then Some note else some_text text)
                 (concat (said_thought s)) (said_calls s) fin (gemini_usage (said_usage s)))\<rparr>], Inr ()))"

text \<open>From the answer on: a failure of the exchange, or the lines of the response and what they end in.\<close>

definition stream_reply ::
  "google \<Rightarrow> gemini \<Rightarrow> driver_model \<Rightarrow> chat_ask \<Rightarrow> bool \<Rightarrow> exchange \<Rightarrow> chunk list \<times> memory \<times> (exn + unit)"
where
  "stream_reply g a m x bare ex =
     (case google_answer g a ''the stream'' ''the stream'' ex of
        Inl e \<Rightarrow> ([], call_memory a, Inl (explained bare e))
      | Inr r \<Rightarrow>
          let opening = (if tells x then [plain_chunk\<lparr>cprogress := Some working\<rparr>] else [])
          in case hear_lines g a (tells x) (arrivals r) (heard_nothing (call_memory a)) of
               (cs, s, Some e) \<Rightarrow> (opening @ cs, held_memory s, Inl (explained bare e))
             | (cs, s, None) \<Rightarrow>
                 (case end_of_stream g m x s of (ds, out) \<Rightarrow> (opening @ cs @ ds, held_memory s, out)))"

definition stream_chat :: "google \<Rightarrow> rat \<Rightarrow> chat_ask \<Rightarrow> exchange \<Rightarrow> gemini \<Rightarrow> chunk list \<times> gemini \<times> (api_failure + unit)" where
  "stream_chat g now x ex a =
     (case resolved a (asked_model (core (asks x))) of
        Inl f \<Rightarrow> ([], a, Inl f)
      | Inr m \<Rightarrow>
          (case chat_body g now m (asks x) a of
             (a, Inl e) \<Rightarrow> ([], a, Inl (Raised e))
           | (a, Inr (_, bare)) \<Rightarrow>
               (case stream_reply g a m x bare ex of
                  (cs, k, out) \<Rightarrow> (cs, a\<lparr>call_memory := k\<rparr>, raised out))))"

subsection \<open>The count of a prompt\<close>

definition count_prompt_tokens :: "google \<Rightarrow> rat \<Rightarrow> chat_request \<Rightarrow> exchange \<Rightarrow> gemini \<Rightarrow> gemini \<times> (api_failure + int)" where
  "count_prompt_tokens g now r ex a =
     (case resolved a (asked_model (core r)) of
        Inl f \<Rightarrow> (a, Inl f)
      | Inr m \<Rightarrow>
          (case chat_body g now m r a of
             (a, Inl e) \<Rightarrow> (a, Inl (Raised e))
           | (a, Inr _) \<Rightarrow>
               (a, raised (and_then (google_answer g a ''countTokens'' ''countTokens'' ex) (\<lambda>rep.
                  let invalid = (\<lambda>why. Inl ((cli_error (''Gemini countTokens returned invalid totalTokens: '' @ why))\<lparr>cause := OtherCause\<rparr>))
                  in case parses (gworld g) (body_text rep) of
                       LoadValueError \<Rightarrow> invalid ''JSONDecodeError''
                     | LoadRecursionError \<Rightarrow> Inl (crashed ''RecursionError'')
                     | Loaded (JObj d) \<Rightarrow>
                         (case map_of d ''totalTokens'' of
                            None \<Rightarrow> invalid ''KeyError''
                          | Some (JInt n) \<Rightarrow> if 0 \<le> n then Inr n else invalid ''totalTokens must be a nonnegative integer''
                          | Some _ \<Rightarrow> invalid ''totalTokens must be a nonnegative integer'')
                     | Loaded _ \<Rightarrow> invalid ''TypeError'')))))"

subsection \<open>No words of the driver carry the key\<close>

lemma contains_at: "contains p s \<longleftrightarrow> (\<exists>i \<le> length s. starts_with p (drop i s))"
proof
  assume "contains p s"
  then obtain i where i: "find_sub p s = Some i" by (auto simp: contains_def)
  show "\<exists>i \<le> length s. starts_with p (drop i s)"
    using find_sub_Some_match [OF i] find_sub_Some_bound [OF i] by (intro exI [of _ i]) simp
next
  assume "\<exists>i \<le> length s. starts_with p (drop i s)"
  then show "contains p s" using find_sub_None_no_match by (auto simp: contains_def)
qed

lemma contains_append: "contains p (u @ p @ v)"
  by (auto simp: contains_at intro: exI [of _ "length u"])

lemma contains_split: "contains p s \<longleftrightarrow> (\<exists>u v. s = u @ p @ v)"
proof
  assume "contains p s"
  then obtain i where "starts_with p (drop i s)" by (auto simp: contains_at)
  then have "s = take i s @ p @ drop (length p) (drop i s)"
    by (metis append_take_drop_id starts_with_def)
  then show "\<exists>u v. s = u @ p @ v" by blast
qed (auto intro: contains_append)

lemma contains_wider: "contains p s \<Longrightarrow> contains p (u @ s @ v)"
  unfolding contains_split by (metis append.assoc)

text \<open>A needle is not found across a character it does not have.\<close>

lemma contains_across:
  assumes "c \<notin> set p" and "contains p (u @ c # v)"
  shows "contains p u \<or> contains p v"
proof -
  from assms(2) obtain a b where "u @ c # v = a @ p @ b" by (auto simp: contains_split)
  then consider w where "u = a @ w" "w @ c # v = p @ b" | w where "a = u @ w" "c # v = w @ p @ b"
    by (auto simp: append_eq_append_conv2)
  then show ?thesis
  proof cases
    case 1
    then consider z where "w = p @ z" | z where "p = w @ z" "c # v = z @ b"
      by (auto simp: append_eq_append_conv2)
    then show ?thesis
    proof cases
      case 1
      with \<open>u = a @ w\<close> show ?thesis by (metis contains_split)
    next
      case 2
      with assms(1) have "z = []" by (cases z) auto
      with 2 \<open>u = a @ w\<close> show ?thesis by (metis append.right_neutral contains_split)
    qed
  next
    case 2
    then show ?thesis
      by (cases w) (use assms(1) in \<open>cases p; auto simp: contains_split\<close>)+
  qed
qed

text \<open>A key that the mark put in its place does not hold.\<close>

definition markless :: "string \<Rightarrow> bool" where
  "markless k \<longleftrightarrow> k \<noteq> [] \<and> CHR ''<'' \<notin> set k \<and> CHR ''>'' \<notin> set k \<and> \<not> contains k ''redacted''"

lemma contains_mark:
  assumes "markless k" and "contains k (u @ ''<redacted>'' @ v)"
  shows "contains k u \<or> contains k v"
  using assms contains_across [of "CHR ''<''" k u "''redacted>'' @ v"]
    contains_across [of "CHR ''>''" k "''redacted''" v] by (auto simp: markless_def)

lemma replaced_hides:
  assumes "markless k"
  shows "(\<And>i. i < length u \<Longrightarrow> \<not> starts_with k (drop i u @ s)) \<Longrightarrow> \<not> contains k (u @ replaced k ''<redacted>'' s)"
proof (induction s arbitrary: u rule: length_induct)
  case (1 s)
  have k: "k \<noteq> []" using assms by (simp add: markless_def)
  have u: "\<not> contains k u"
  proof
    assume "contains k u"
    then obtain i where i: "i \<le> length u" "starts_with k (drop i u)" by (auto simp: contains_at)
    with k have "i < length u" by (cases "i = length u") (auto simp: starts_with_def)
    with 1(2) i(2) starts_with_append show False by blast
  qed
  show ?case
  proof (cases s)
    case Nil
    with u show ?thesis by simp
  next
    case (Cons c cs)
    show ?thesis
    proof (cases "starts_with k s")
      case True
      have "\<not> contains k ([] @ replaced k ''<redacted>'' (drop (length k - 1) cs))"
        by (rule 1(1) [rule_format]) (simp_all add: Cons)
      with u contains_mark [OF assms] True k Cons show ?thesis by auto
    next
      case False
      have "\<not> contains k ((u @ [c]) @ replaced k ''<redacted>'' cs)"
      proof (rule 1(1) [rule_format])
        fix i assume "i < length (u @ [c])"
        then show "\<not> starts_with k (drop i (u @ [c]) @ cs)"
          using 1(2) [of i] False Cons by (cases "i < length u") (auto simp: not_less)
      qed (simp add: Cons)
      with False k Cons show ?thesis by simp
    qed
  qed
qed

lemma key_hidden_hides:
  assumes "markless k"
  shows "\<not> contains k (u @ s) \<Longrightarrow> \<not> contains k (u @ key_hidden s)"
proof (induction s arbitrary: u rule: key_hidden.induct)
  case (1 u)
  then show ?case by simp
next
  case (2 c cs)
  let ?run = "takeWhile key_char (drop 3 cs)" and ?rest = "dropWhile key_char (drop 3 cs)"
  show ?case
  proof (cases "starts_with ''key='' (lower (c # cs)) \<and> ?run \<noteq> []")
    case True
    have whole: "u @ c # cs = u @ take 4 (c # cs) @ ?run @ ?rest" by (simp del: takeWhile_eq_Nil_iff)
    have "\<not> contains k (u @ take 4 (c # cs))"
      using 2(3) contains_wider [of k "u @ take 4 (c # cs)" "[]" "?run @ ?rest"] unfolding whole by auto
    moreover have "\<not> contains k ?rest"
    proof
      assume "contains k ?rest"
      from contains_wider [OF this, of "u @ take 4 (c # cs) @ ?run" "[]"] have "contains k (u @ c # cs)"
        unfolding whole by simp
      with 2(3) show False ..
    qed
    then have "\<not> contains k ([] @ key_hidden ?rest)" by (intro 2(1) [OF True]) simp
    ultimately show ?thesis using contains_mark [OF assms, of "u @ take 4 (c # cs)"] True by auto
  next
    case False
    then show ?thesis using 2(2) [of "u @ [c]"] 2(3) by auto
  qed
qed

text \<open>C31. Words a failure takes from outside are scrubbed, and no scrubbed words carry the key: not where the key
  stands, and not where taking out one place would make another.\<close>

theorem scrubbed_words_hide_the_key:
  assumes "markless k"
  shows "\<not> contains k (scrub (Some k) t)"
proof -
  have "\<not> contains k ([] @ replaced k ''<redacted>'' t)" by (rule replaced_hides [OF assms]) simp
  then show ?thesis using key_hidden_hides [OF assms, of "[]"] assms by (simp add: scrub_def markless_def)
qed

lemma scrubbed_words_hide_the_key_witness:
  "\<not> contains ''AIzaSy'' (scrub (Some ''AIzaSy'') ''GET ?key=AIzaAIzaSySy refused AIzaSy'')"
  by (rule scrubbed_words_hide_the_key) (simp add: markless_def contains_def)

subsection \<open>A chat that could not connect\<close>

text \<open>C32. A failure to connect means that nothing was sent, so the request may be sent again, and that is how the
  engine's other calls report it. A chat does not: explaining a refused signature makes an error that needs no
  explanation its own cause, the failed connection is forgotten, and the caller is told that work may have been
  done and not to send the request again.\<close>

theorem chat_forgets_why_it_failed:
  assumes "resolved a (asked_model (core (asks x))) = Inr m" and "chat_body g now m (asks x) a = (a', Inr (body, bare))"
    and "f = ConnectTimedOut words \<or> f = HttpFailed True words"
    and "e = google_unreached (gworld g) a' ''the completion'' f" and "unworded e"
  shows "disposition loads e = Safe \<and>
    (\<exists>e'. generate g now x (Inl f) a = (a', Inl (Raised e')) \<and> message e' = message e \<and>
       disposition loads e' = Indeterminate) \<and>
    (\<exists>e'. stream_chat g now x (Inl f) a = ([], a', Inl (Raised e')) \<and> cause e' = OtherCause)"
proof -
  have e: "upstream_status e = None" "cause e \<in> {ConnectError, ConnectTimeout}" "exn_class e = exn_class.CliError"
    using assms(3) by (auto simp: assms(4) google_unreached_def cli_error_def crashed_def)
  have "generate g now x (Inl f) a = (a', Inl (Raised (e\<lparr>cause := OtherCause\<rparr>)))"
    using e by (simp add: generate_def assms(1,2) google_said_def google_answer_def explained_def flip: assms(4))
  moreover have "disposition loads (e\<lparr>cause := OtherCause\<rparr>) = Indeterminate"
    using e assms(5) loading_is_503 [of loads "e\<lparr>cause := OtherCause\<rparr>"]
    by (auto simp: disposition_def Let_def unworded_def capacity_refused_def)
  moreover have "stream_chat g now x (Inl f) a =
      ([], a', Inl (Raised (google_unreached (gworld g) a' ''the stream'' f\<lparr>cause := OtherCause\<rparr>)))"
    using assms(3)
    by (auto simp: stream_chat_def assms(1,2) stream_reply_def google_answer_def raised_def explained_def
        google_unreached_def cli_error_def crashed_def)
  moreover have "disposition loads e = Safe" using e(2) by (auto simp: disposition_def Let_def)
  ultimately show ?thesis by auto
qed

definition demo_model :: driver_model where
  "demo_model = (bare_model ''gemini-3'')\<lparr>dm_surfaces := [''chat''],
     dm_caps := Some (no_caps\<lparr>cap_settings := Some CHAT_SETTINGS, cap_not_honoured := Some google_gaps\<rparr>)\<rparr>"

definition demo_gemini :: gemini where
  "demo_gemini = \<lparr>api_key = Some ''k'', base_address = DEFAULT_BASE_URL, time_limit = 60, stall_limit = 30, only_model = None,
     account_list = set_models [demo_model] None empty_listing, account_filters = ([''*''], []),
     call_memory = (no_signatures, 0), warned_of = []\<rparr>"

definition demo_ask :: chat_ask where
  "demo_ask = \<lparr>asks = demo_chat\<lparr>
       messages := [\<lparr>msg_role = User, content = JStr ''hi'', tool_calls = None, tool_call_id = None, reasoning = None\<rparr>],
       core := (core demo_chat)\<lparr>asked_model := Some ''models/gemini-3''\<rparr>\<rparr>,
     ask_id = None, tells = False, took = 5\<rparr>"

lemma demo_google_resolved: "resolved demo_gemini (asked_model (core (asks demo_ask))) = Inr demo_model"
  by code_simp

lemma demo_body:
  "\<exists>a' body. chat_body demo_google 0 demo_model (asks demo_ask) demo_gemini = (a', Inr (body, False))"
proof -
  have "map_sum (\<lambda>e. ()) snd (snd (chat_body demo_google 0 demo_model (asks demo_ask) demo_gemini)) = Inr False" by code_simp
  then show ?thesis
    by (cases "chat_body demo_google 0 demo_model (asks demo_ask) demo_gemini"; cases "snd (chat_body demo_google 0 demo_model (asks demo_ask) demo_gemini)") auto
qed

lemma chat_forgets_why_it_failed_witness:
  "\<exists>e. snd (generate demo_google 0 demo_ask (Inl (ConnectTimedOut ''ConnectTimeout'')) demo_gemini) = Inl (Raised e) \<and>
    disposition (\<lambda>_. LoadValueError) e = Indeterminate"
proof -
  obtain a' body where b: "chat_body demo_google 0 demo_model (asks demo_ask) demo_gemini = (a', Inr (body, False))"
    using demo_body by blast
  have "message (google_unreached (gworld demo_google) a' ''the completion'' (ConnectTimedOut ''ConnectTimeout'')) =
    ''Gemini could not be reached for the completion: ConnectTimeout''"
    by (simp add: google_unreached_def cli_error_def crashed_def)
  then have u: "unworded (google_unreached (gworld demo_google) a' ''the completion'' (ConnectTimedOut ''ConnectTimeout''))"
    by (simp add: unworded_def pool_full_def template_refusal_def contains_def input_too_long_def too_long_at_def Let_def)
  show ?thesis
    using chat_forgets_why_it_failed [OF demo_google_resolved b disjI1 [OF refl] refl u, of "\<lambda>_. LoadValueError"] by fastforce
qed

subsection \<open>A streamed chat is the whole one\<close>

text \<open>What two stretches of an answer come to together.\<close>

definition parsed_after :: "parsed \<Rightarrow> parsed \<Rightarrow> parsed" where
  "parsed_after p q = \<lparr>p_text = p_text p @ p_text q, p_reasoning = p_reasoning p @ p_reasoning q, p_calls = p_calls p @ p_calls q,
     p_images = p_images p @ p_images q, p_audio = p_audio p @ p_audio q\<rparr>"

lemma parsed_after_nothing [simp]: "parsed_after p nothing_parsed = p" "parsed_after nothing_parsed p = p"
  by (simp_all add: parsed_after_def nothing_parsed_def)

lemma parsed_after_assoc: "parsed_after (parsed_after p q) r = parsed_after p (parsed_after q r)"
  by (simp add: parsed_after_def)

lemma read_part_after:
  "read_part g now keep d (parsed_after p q, k) =
     (parsed_after p (fst (read_part g now keep d (q, k))), snd (read_part g now keep d (q, k)))"
  by (simp add: read_part_def parsed_after_def Let_def split: option.split prod.split)

lemma read_dicts_after:
  "fold (read_part g now keep) ds (parsed_after p q, k) =
     (parsed_after p (fst (fold (read_part g now keep) ds (q, k))), snd (fold (read_part g now keep) ds (q, k)))"
proof (induction ds arbitrary: q k)
  case (Cons d ds)
  then show ?case
    using Cons [of "fst (read_part g now keep d (q, k))" "snd (read_part g now keep d (q, k))"]
    by (simp add: read_part_after)
qed simp

lemma dicts_in_objects [simp]: "dicts_in (map JObj ps) = ps"
  by (induction ps) (simp_all add: dicts_in_def map_filter_simps)

lemma read_parts_append:
  assumes "read_parts g now keep (JList (map JObj ps)) k = (p, k')"
    and "read_parts g now keep (JList (map JObj qs)) k' = (q, k'')"
  shows "read_parts g now keep (JList (map JObj (ps @ qs))) k = (parsed_after p q, k'')"
proof -
  have "fold (read_part g now keep) qs (p, k') = (parsed_after p q, k'')"
    using assms(2) read_dicts_after [of g now keep qs p nothing_parsed k']
    by (simp add: read_parts_def)
  with assms(1) show ?thesis by (simp add: read_parts_def del: map_append)
qed

text \<open>A body of Google's: the parts of its answer, what else the candidate says and what else the body says.\<close>

definition google_body :: "dict list \<Rightarrow> dict \<Rightarrow> dict \<Rightarrow> dict" where
  "google_body ps extra others =
     (''candidates'', JList [JObj ((''content'', JObj [(''parts'', JList (map JObj ps))]) # extra)]) # others"

text \<open>The line of a frame, read at \<open>now\<close>.\<close>

definition framed :: "google \<Rightarrow> rat \<Rightarrow> rat \<Rightarrow> dict \<Rightarrow> arrival \<Rightarrow> bool" where
  "framed g now wait d ar \<longleftrightarrow>
     (\<exists>t. brought ar = Line (''data: '' @ t) \<and> strip t = t \<and> t \<notin> {[], ''[DONE]''} \<and> parses (gworld g) t = Loaded (JObj d)) \<and>
     clock ar = now \<and> (wait \<le> 0 \<or> waited ar \<le> wait)"

lemma framed_line:
  assumes "framed g now (stall_limit a) d ar" and "dget d ''error'' = JNull" and "dget d ''candidates'' = JList [JObj c]"
    and "s' = (case dget d ''usageMetadata'' of JObj u \<Rightarrow> s\<lparr>saw_first := True, said_usage := JObj u\<rparr> | _ \<Rightarrow> s\<lparr>saw_first := True\<rparr>)"
    and "on_candidate g now c s' = (cs, s'', None)"
  shows "hear_lines g a tell (ar # later) s = (case hear_lines g a tell later s'' of (ds, s, e) \<Rightarrow> (cs @ ds, s, e))"
proof -
  from assms(1) obtain t where t: "brought ar = Line (''data: '' @ t)" "strip t = t" "t \<notin> {[], ''[DONE]''}"
    "parses (gworld g) t = Loaded (JObj d)" "clock ar = now" and slow: "stall_limit a \<le> 0 \<or> waited ar \<le> stall_limit a"
    by (auto simp: framed_def)
  have data: "strip (drop 5 (''data: '' @ t)) = t" using t(2) by (simp add: strip_def lstrip_def is_space_def)
  have "on_stream_line g a tell now (''data: '' @ t) s = (cs, s'', None)"
    using t assms(2-5) data
    by (simp add: on_stream_line_def on_stream_event_def head_of_def as_dict_def truthy_def Let_def starts_with_def)
  with slow t show ?thesis by auto
qed

text \<open>What has been heard is what the parts so far come to.\<close>

definition heard_as :: "heard \<Rightarrow> parsed \<Rightarrow> memory \<Rightarrow> bool" where
  "heard_as s p k \<longleftrightarrow>
     concat (said_text s) = p_text p \<and> concat (said_thought s) = p_reasoning p \<and> said_calls s = p_calls p \<and>
     held_memory s = k"

definition tells_text :: "string \<Rightarrow> chunk list \<Rightarrow> bool" where
  "tells_text t cs \<longleftrightarrow> list_all (\<lambda>c. \<not> cdone c) cs \<and> concat (map ctext cs) = t"

lemma tells_append: "tells_text t cs \<Longrightarrow> tells_text u ds \<Longrightarrow> tells_text (t @ u) (cs @ ds)"
  by (simp add: tells_text_def)

lemma tells_parsed: "tells_text (p_text p) (parsed_chunks n p)"
proof -
  have "concat (map ctext (map (\<lambda>(i, c). call_chunk i c) (enumerate n cs))) = []" for cs
    by (induction cs arbitrary: n) (simp_all add: call_chunk_def plain_chunk_def)
  moreover have "list_all (\<lambda>c. \<not> cdone c) (map (\<lambda>(i, c). call_chunk i c) (enumerate n cs))" for cs
    by (induction cs arbitrary: n) (simp_all add: call_chunk_def plain_chunk_def)
  ultimately show ?thesis by (simp add: tells_text_def parsed_chunks_def plain_chunk_def)
qed

lemma candidate_heard:
  assumes "heard_as s p k" and "read_parts g now True (JList (map JObj ps)) k = (q, k')"
    and "c = (''content'', JObj [(''parts'', JList (map JObj ps))]) # extra"
  shows "\<exists>s'. on_candidate g now c s = (parsed_chunks (length (p_calls p)) q, s', None) \<and>
    heard_as s' (parsed_after p q) k' \<and> said_usage s' = said_usage s \<and> last_candidate s' = c \<and>
    (truthy (dget extra ''finishReason'') \<longrightarrow> has_finished s' \<and> said_finish s' = dget extra ''finishReason'')"
  using assms
  by (simp add: on_candidate_def candidate_parts_def dict_or_empty_def heard_as_def parsed_after_def Let_def)

lemma frames_heard:
  "list_all2 (\<lambda>ps. framed g now (stall_limit a) (google_body ps [] [])) pss as \<Longrightarrow> heard_as s p k \<Longrightarrow>
     read_parts g now True (JList (map JObj (concat pss))) k = (q, k') \<Longrightarrow>
   \<exists>cs s'. hear_lines g a tell (as @ later) s = (case hear_lines g a tell later s' of (ds, s, e) \<Rightarrow> (cs @ ds, s, e)) \<and>
     heard_as s' (parsed_after p q) k' \<and> said_usage s' = said_usage s \<and> tells_text (p_text q) cs"
proof (induction pss as arbitrary: s p k q rule: list_all2_induct)
  case Nil
  then have "q = nothing_parsed" "k' = k" by (simp_all add: read_parts_def dicts_in_def map_filter_simps)
  with Nil show ?case
    by (intro exI [of _ "[]"] exI [of _ s]) (simp add: tells_text_def nothing_parsed_def parsed_after_def heard_as_def split: prod.split)
next
  case (Cons ps pss ar as)
  obtain q1 k1 where q1: "read_parts g now True (JList (map JObj ps)) k = (q1, k1)"
    by (cases "read_parts g now True (JList (map JObj ps)) k")
  obtain q2 k2 where q2: "read_parts g now True (JList (map JObj (concat pss))) k1 = (q2, k2)"
    by (cases "read_parts g now True (JList (map JObj (concat pss))) k1")
  from read_parts_append [OF q1 q2] Cons.prems(2) have q: "q = parsed_after q1 q2" "k2 = k'" by simp_all
  have s: "heard_as (s\<lparr>saw_first := True\<rparr>) p k" using Cons.prems(1) by (simp add: heard_as_def)
  from candidate_heard [OF s q1 refl, of "[]"] obtain s1 where
    s1: "on_candidate g now [(''content'', JObj [(''parts'', JList (map JObj ps))])] (s\<lparr>saw_first := True\<rparr>) =
        (parsed_chunks (length (p_calls p)) q1, s1, None)" "heard_as s1 (parsed_after p q1) k1" "said_usage s1 = said_usage s"
    using s by (auto simp: heard_as_def)
  have line: "hear_lines g a tell (ar # as @ later) s =
      (case hear_lines g a tell (as @ later) s1 of (ds, s, e) \<Rightarrow> (parsed_chunks (length (p_calls p)) q1 @ ds, s, e))"
    by (rule framed_line [OF Cons.hyps(1) _ _ _ s1(1)]) (simp_all add: google_body_def)
  from Cons.IH [OF s1(2) q2 [unfolded q(2)]] obtain cs s' where
    "hear_lines g a tell (as @ later) s1 = (case hear_lines g a tell later s' of (ds, s, e) \<Rightarrow> (cs @ ds, s, e))"
    "heard_as s' (parsed_after p q) k'" "said_usage s' = said_usage s" "tells_text (p_text q2) cs"
    by (auto simp: parsed_after_assoc q(1) s1(3))
  with line tells_append [OF tells_parsed this(4), of q1 "length (p_calls p)"] show ?case
    by (intro exI [of _ "parsed_chunks (length (p_calls p)) q1 @ cs"] exI [of _ s'])
      (simp add: q(1) parsed_after_def split: prod.split)
qed

lemma usage_heard: "gemini_usage (case v of JObj u \<Rightarrow> JObj u | _ \<Rightarrow> JObj []) = gemini_usage v"
  by (cases v) (simp_all add: gemini_usage_def as_dict_def)

lemma note_heard:
  "refusal_note g ((''content'', v) # extra) = refusal_note g ((''content'', v') # extra)"
  by (simp add: refusal_note_def text_at_def)

text \<open>C33. A chat is answered the same way whole and as a stream. Google splits an answer over the frames of a stream; when
  the parts of the frames are, in order, the parts of a body that the whole answer accepts, with what else the last
  frame says, the stream ends with the result the whole answer gives, it remembers the same calls, and the text
  shown before the end is the text of that result.\<close>

theorem google_streams_the_whole_answer:
  assumes "list_all2 (\<lambda>ps. framed g now (stall_limit a) (google_body ps [] [])) pss as"
    and "framed g now (stall_limit a) (google_body qs extra others) ar"
    and "truthy (dget extra ''finishReason'')" and "map_of others ''error'' = None"
    and "ends = [] \<or> brought (hd ends) = Closed" and "arrivals r = as @ ar # ends" and "status r < 400"
    and "whole_reply g now m x (JObj (google_body (concat pss @ qs) extra others)) (call_memory a) = (k', Inr res)"
  shows "\<exists>cs c. stream_reply g a m x bare (Inr r) = (cs @ [c], k', Inr ()) \<and> list_all (\<lambda>c. \<not> cdone c) cs \<and>
    cdone c \<and> cresult c = Some res \<and> Engine_Base.content res = some_text (concat (map ctext cs))"
proof -
  let ?c = "\<lambda>ps. (''content'', JObj [(''parts'', JList (map JObj ps))]) # extra"
  obtain p k where p: "read_parts g now True (JList (map JObj (concat pss))) (call_memory a) = (p, k)"
    by (cases "read_parts g now True (JList (map JObj (concat pss))) (call_memory a)")
  obtain q k1 where q: "read_parts g now True (JList (map JObj qs)) k = (q, k1)"
    by (cases "read_parts g now True (JList (map JObj qs)) k")
  note all = read_parts_append [OF p q]
  have "heard_as (heard_nothing (call_memory a)) nothing_parsed (call_memory a)"
    by (simp add: heard_as_def heard_nothing_def nothing_parsed_def)
  from frames_heard [OF assms(1) this p, of "tells x" "ar # ends"] obtain cs s where
    read: "hear_lines g a (tells x) (arrivals r) (heard_nothing (call_memory a)) =
        (case hear_lines g a (tells x) (ar # ends) s of (ds, s, e) \<Rightarrow> (cs @ ds, s, e))"
    and s: "heard_as s p k" "said_usage s = JObj []" and cs: "tells_text (p_text p) cs"
    by (auto simp: assms(6) heard_nothing_def)
  define s0 where "s0 = (case dget others ''usageMetadata'' of
      JObj u \<Rightarrow> s\<lparr>saw_first := True, said_usage := JObj u\<rparr> | _ \<Rightarrow> s\<lparr>saw_first := True\<rparr>)"
  have s0: "heard_as s0 p k" using s by (simp add: s0_def heard_as_def split: json.split)
  from candidate_heard [OF s0 q refl, of extra] assms(3) obtain s1 where
    s1: "on_candidate g now (?c qs) s0 = (parsed_chunks (length (p_calls p)) q, s1, None)"
      "heard_as s1 (parsed_after p q) k1" "said_usage s1 = said_usage s0" "last_candidate s1 = ?c qs"
      "has_finished s1" "said_finish s1 = dget extra ''finishReason''"
    by auto
  have usage: "gemini_usage (said_usage s1) = gemini_usage (dget others ''usageMetadata'')"
    using usage_heard [of "dget others ''usageMetadata''"] s(2)
    by (simp add: s1(3) s0_def split: json.split json.split_asm)
  have "hear_lines g a (tells x) ends s1 = ([], s1, None)"
    using assms(5) s1(5) by (cases ends) simp_all
  moreover have "hear_lines g a (tells x) (ar # ends) s =
      (case hear_lines g a (tells x) ends s1 of (ds, s, e) \<Rightarrow> (parsed_chunks (length (p_calls p)) q @ ds, s, e))"
    using assms(4) by (intro framed_line [OF assms(2) _ _ _ s1(1)]) (simp_all add: google_body_def s0_def, simp add: dget_def)
  ultimately have last: "hear_lines g a (tells x) (ar # ends) s = (parsed_chunks (length (p_calls p)) q, s1, None)" by simp
  have all_read: "hear_lines g a (tells x) (arrivals r) (heard_nothing (call_memory a)) =
      (cs @ parsed_chunks (length (p_calls p)) q, s1, None)"
    unfolding read last by simp
  let ?b = "google_body (concat pss @ qs) extra others"
  have body: "first_candidate g (JObj ?b) = Inr (?c (concat pss @ qs))"
    by (simp add: first_candidate_def google_body_def head_of_def truthy_def as_dict_def)
  have "result_of g m x ?b (parsed_after p q) (?c (concat pss @ qs)) = Inr res \<and> k' = k1"
    using assms(8) all unfolding whole_reply_def body
    by (auto simp: candidate_parts_def dict_or_empty_def as_dict_def split: if_splits)
  then have res: "result_of g m x ?b (parsed_after p q) (?c (concat pss @ qs)) = Inr res" and k': "k' = k1" by simp_all
  let ?P = "parsed_after p q" and ?opening = "if tells x then [plain_chunk\<lparr>cprogress := Some working\<rparr>] else []"
  from res obtain fin where fin: "gemini_finish g (dget extra ''finishReason'') (p_calls ?P \<noteq> []) = Inr fin"
    and r: "res = google_result m x (if fin = ''content_filter'' \<and> p_text ?P = [] \<and> p_calls ?P = [] then Some (refusal_note g (?c qs))
        else some_text (p_text ?P)) (p_reasoning ?P) (p_calls ?P) fin (gemini_usage (dget others ''usageMetadata''))"
    using note_heard [of g "JObj [(''parts'', JList (map JObj (concat pss @ qs)))]" extra "JObj [(''parts'', JList (map JObj qs))]"]
    by (auto simp: result_of_def and_then_eq_Inr google_body_def)
  let ?refuses = "fin = ''content_filter'' \<and> p_text ?P = [] \<and> p_calls ?P = []"
  let ?note = "if ?refuses then [plain_chunk\<lparr>ctext := refusal_note g (?c qs)\<rparr>] else []"
  have ends: "end_of_stream g m x s1 = (?note @ [plain_chunk\<lparr>cdone := True, cresult := Some res\<rparr>], Inr ())"
    using s1 fin usage by (simp add: end_of_stream_def heard_as_def r Let_def)
  define ds where "ds = ?opening @ cs @ parsed_chunks (length (p_calls p)) q"
  have ds: "tells_text (p_text ?P) ds"
    using tells_append [OF cs tells_parsed, of q "length (p_calls p)"]
    by (simp add: ds_def tells_text_def parsed_after_def plain_chunk_def)
  have "refusal_note g (?c qs) \<noteq> []" by (simp add: refusal_note_def)
  with ds have "list_all (\<lambda>c. \<not> cdone c) (ds @ ?note)"
    "Engine_Base.content res = some_text (concat (map ctext (ds @ ?note)))"
    by (auto simp: tells_text_def r google_result_def some_text_def plain_chunk_def simp del: concat_eq_Nil_conv)
  moreover have "stream_reply g a m x bare (Inr r) = ((ds @ ?note) @ [plain_chunk\<lparr>cdone := True, cresult := Some res\<rparr>], k', Inr ())"
    using assms(7) s1(2) by (simp add: stream_reply_def google_answer_def all_read ends k' heard_as_def ds_def Let_def)
  ultimately show ?thesis
    by (intro exI [of _ "ds @ ?note"] exI [of _ "plain_chunk\<lparr>cdone := True, cresult := Some res\<rparr>"]) simp
qed

definition demo_frames_google :: google where
  "demo_frames_google = demo_google\<lparr>gworld := demo_world\<lparr>parses := (\<lambda>t.
     if t = ''1'' then Loaded (JObj (google_body [text_part (JStr ''Hel'')] [] []))
     else if t = ''2'' then Loaded (JObj (google_body [text_part (JStr ''lo'')] [(''finishReason'', JStr ''STOP'')] []))
     else LoadValueError)\<rparr>\<rparr>"

definition demo_stream_reply :: reply where
  "demo_stream_reply = \<lparr>status = 200, body_text = [], retry_header = None,
     arrivals = [\<lparr>waited = 1, clock = 5, brought = Line ''data: 1''\<rparr>, \<lparr>waited = 1, clock = 5, brought = Line ''data: 2''\<rparr>]\<rparr>"

lemma google_streams_the_whole_answer_witness:
  "\<exists>cs c res. stream_reply demo_frames_google demo_gemini demo_model demo_ask False (Inr demo_stream_reply) =
      (cs @ [c], call_memory demo_gemini, Inr ()) \<and> cresult c = Some res \<and> Engine_Base.content res = Some ''Hello'' \<and>
    Engine_Base.content res = some_text (concat (map ctext cs))"
proof -
  let ?g = demo_frames_google and ?ar = "\<lambda>t. \<lparr>waited = 1, clock = 5, brought = Line t\<rparr>"
  let ?qs = "[text_part (JStr ''lo'')]" and ?final = "[(''finishReason'', JStr ''STOP'')]"
  let ?res = "google_result demo_model demo_ask (Some ''Hello'') [] [] ''stop'' None"
  have f: "framed ?g 5 (stall_limit demo_gemini) (google_body [text_part (JStr ''Hel'')] [] []) (?ar ''data: 1'')"
    "framed ?g 5 (stall_limit demo_gemini) (google_body ?qs ?final []) (?ar ''data: 2'')"
    unfolding framed_def
    by (rule conjI, rule exI [of _ "''1''"], code_simp, code_simp, rule conjI, rule exI [of _ "''2''"], code_simp, code_simp)
  have w: "whole_reply ?g 5 demo_model demo_ask (JObj (google_body (concat [[text_part (JStr ''Hel'')]] @ ?qs) ?final [])) (call_memory demo_gemini) =
      (call_memory demo_gemini, Inr ?res)"
    by code_simp
  from google_streams_the_whole_answer [where r = demo_stream_reply and bare = False, OF _ f(2) _ _ _ _ _ w, of "[?ar ''data: 1'']" "[]"] f(1)
  have "\<exists>cs c. stream_reply ?g demo_gemini demo_model demo_ask False (Inr demo_stream_reply) =
      (cs @ [c], call_memory demo_gemini, Inr ()) \<and> list_all (\<lambda>c. \<not> cdone c) cs \<and> cdone c \<and> cresult c = Some ?res \<and>
      Engine_Base.content ?res = some_text (concat (map ctext cs))"
    by (simp add: demo_stream_reply_def truthy_def)
  moreover have "Engine_Base.content ?res = Some ''Hello''" by (simp add: google_result_def)
  ultimately show ?thesis by blast
qed

end
