(* ===== verification/Gemini_Media.thy ===== *)
theory Gemini_Media
  imports Gemini_Api
begin

text \<open>
  What Gemini does beside chat (\<open>engines/gemini_api.py\<close>): embeddings in batches, images, Veo's jobs of video and
  the download of what they made, speech and transcription. The encoder of sound, the parts of an address and
  what Google answers each request are parameters.
\<close>

subsection \<open>Embeddings\<close>

definition EMBED_BATCH :: nat where "EMBED_BATCH = 100"

text \<open>\<open>range(0, len(inputs), n)\<close> and the slices it gives.\<close>

fun batches :: "nat \<Rightarrow> 'a list \<Rightarrow> 'a list list" where
  "batches n [] = []"
| "batches n (x # xs) = (x # take (n - 1) xs) # batches n (drop (n - 1) xs)"

definition embed_payload :: "driver_model \<Rightarrow> int option \<Rightarrow> string list \<Rightarrow> dict" where
  "embed_payload m dims batch =
     [(''requests'', JList (map (\<lambda>t. JObj ([(''model'', JStr (''models/'' @ dm_id m)),
        (''content'', JObj [(''parts'', JList [JObj (text_part (JStr t))])])] @ opt ''outputDimensionality'' JInt dims)) batch))]"

definition not_usable :: "string \<Rightarrow> string \<Rightarrow> exn" where
  "not_usable what why = (cli_error (''Gemini's '' @ what @ '' answer was not usable: '' @ why))\<lparr>cause := OtherCause\<rparr>"

text \<open>\<open>[float(x) for x in row["values"]]\<close>; an integer too large for a float is not caught.\<close>

definition number_of_value :: "google \<Rightarrow> json \<Rightarrow> exn + pyfloat" where
  "number_of_value g v =
     (let read = from_option (not_usable ''embeddings'' (if is_str v then ''ValueError'' else ''TypeError'')) (float_of (py_of (gworld g)) v)
      in case v of JInt i \<Rightarrow> if int_overflows i then Inl (crashed ''OverflowError'') else read | _ \<Rightarrow> read)"

text \<open>The values of \<open>v[key]\<close>.\<close>

definition items_of :: "json \<Rightarrow> string \<Rightarrow> exn + json list" where
  "items_of v key =
     and_then (from_option (not_usable ''embeddings'' (case v of JObj _ \<Rightarrow> ''KeyError'' | _ \<Rightarrow> ''TypeError'')) (getitem v key)) (\<lambda>w.
       from_option (not_usable ''embeddings'' ''TypeError'') (py_iter w))"

definition vectors_of :: "google \<Rightarrow> json \<Rightarrow> exn + pyfloat list list" where
  "vectors_of g body =
     and_then (items_of body ''embeddings'')
       (collect (\<lambda>row. and_then (items_of row ''values'') (collect (number_of_value g))))"

definition embed_batch :: "google \<Rightarrow> gemini \<Rightarrow> int option \<Rightarrow> string list \<Rightarrow> exchange \<Rightarrow> exn + pyfloat list list \<times> int" where
  "embed_batch g a dims batch ex =
     and_then (google_answer g a ''the embeddings request'' (if dims = None then ''embeddings'' else ''embeddings dimensions'') ex) (\<lambda>r.
       case parses (gworld g) (body_text r) of
         LoadValueError \<Rightarrow> Inl (not_usable ''embeddings'' ''JSONDecodeError'')
       | LoadRecursionError \<Rightarrow> Inl (crashed ''RecursionError'')
       | Loaded body \<Rightarrow>
           and_then (vectors_of g body) (\<lambda>got.
           and_then (require (length got = length batch \<and> [] \<notin> set got)
             (cli_error (''Gemini returned '' @ str_int (int (length got)) @ '' embeddings for '' @ str_int (int (length batch)) @
                '' inputs; order and count are the only way a caller can match vectors to text''))) (\<lambda>_.
           Inr (got, case int_of (dget (as_dict (dget (as_dict body) ''usageMetadata'')) ''promptTokenCount'') of Some n \<Rightarrow> n | None \<Rightarrow> 0))))"

text \<open>\<open>ask\<close> answers the n-th request.\<close>

fun embed_all ::
  "google \<Rightarrow> gemini \<Rightarrow> driver_model \<Rightarrow> int option \<Rightarrow> (nat \<Rightarrow> dict \<Rightarrow> exchange) \<Rightarrow> nat \<Rightarrow> string list list
     \<Rightarrow> exn + pyfloat list list \<times> int"
where
  "embed_all g a m dims ask n [] = Inr ([], 0)"
| "embed_all g a m dims ask n (b # bs) =
     and_then (embed_batch g a dims b (ask n (embed_payload m dims b))) (\<lambda>(vs, t).
     and_then (embed_all g a m dims ask (Suc n) bs) (\<lambda>(ws, u). Inr (vs @ ws, t + u)))"

text \<open>The vectors, the tokens they took (none when nothing is said of them) and the model.\<close>

definition embed ::
  "google \<Rightarrow> gemini \<Rightarrow> string list \<Rightarrow> string option \<Rightarrow> int option \<Rightarrow> (nat \<Rightarrow> dict \<Rightarrow> exchange)
     \<Rightarrow> api_failure + pyfloat list list \<times> int option \<times> string"
where
  "embed g a inputs asked dims ask =
     and_then (resolved a asked) (\<lambda>m.
     and_then (raised (serves g m ''embeddings'' ''embeddings'')) (\<lambda>_.
     and_then (raised (embed_all g a m dims ask 0 (batches EMBED_BATCH inputs))) (\<lambda>(vs, t).
     and_then (require (0 \<le> t) (Raised (crashed ''ValidationError''))) (\<lambda>_.
       Inr (vs, if t = 0 then None else Some t, dm_id m)))))"

subsection \<open>One answer of \<open>generateContent\<close>\<close>

text \<open>Images, speech and transcripts come as parts of a first candidate; nothing is remembered of them.\<close>

definition media_parts :: "google \<Rightarrow> json \<Rightarrow> memory \<Rightarrow> exn + dict \<times> parsed \<times> memory" where
  "media_parts g body k =
     and_then (first_candidate g body) (\<lambda>c.
     and_then (candidate_parts c) (\<lambda>v. Inr (c, read_parts g 0 False v k)))"

text \<open>\<open>f"{candidate.get('finishReason')}"\<close>.\<close>

definition why_finished :: "google \<Rightarrow> dict \<Rightarrow> string" where
  "why_finished g c = ''(finishReason='' @ gtext g (dget c ''finishReason'') @ '')''"

definition unfit :: "string \<Rightarrow> api_failure + 'a" where "unfit words = Inl (Unfit words)"

definition fits :: "bool \<Rightarrow> string \<Rightarrow> api_failure + unit" where "fits ok words = require ok (Unfit words)"

definition shown_id :: "google \<Rightarrow> driver_model \<Rightarrow> string" where "shown_id g m = shown g (JStr (dm_id m))"


subsection \<open>Images\<close>

text \<open>A reference is the media type it was sent with.\<close>

record image_ask =
  im_model :: "string option"
  im_prompt :: string
  im_n :: "int option"
  im_size :: "string option"
  im_quality :: "string option"
  im_background :: "string option"
  im_format :: "string option"
  im_compression :: "int option"
  im_moderation :: "string option"
  im_style :: "string option"
  im_fidelity :: "string option"
  im_partial :: "int option"
  im_references :: "string list"

text \<open>The settings Gemini has none of, under the names callers know, with whether the request has a value.\<close>

definition image_extras :: "image_ask \<Rightarrow> (string \<times> bool) list" where
  "image_extras r =
     [(''n'', im_n r \<noteq> None \<and> im_n r \<noteq> Some 1), (''size'', im_size r \<noteq> None), (''quality'', im_quality r \<noteq> None),
      (''background'', im_background r \<noteq> None), (''output_format'', im_format r \<noteq> None),
      (''output_compression'', im_compression r \<noteq> None), (''moderation'', im_moderation r \<noteq> None),
      (''style'', im_style r \<noteq> None), (''input_fidelity'', im_fidelity r \<noteq> None), (''partial_images'', im_partial r \<noteq> None)]"

definition image_fits :: "google \<Rightarrow> driver_model \<Rightarrow> image_ask \<Rightarrow> bytes option \<Rightarrow> api_failure + unit" where
  "image_fits g m r masked =
     and_then (fits (''image'' \<in> set (dm_surfaces m))
       (shown_id g m @ '' does not make images; choose a model with the image surface'')) (\<lambda>_.
     and_then (fits (masked = None) (''mask: Gemini edits by instruction and takes no mask, so the edit would change '' @
       ''the whole image. Send it without a mask.'')) (\<lambda>_.
       case List.find snd (image_extras r) of
         Some (field, _) \<Rightarrow> Inl (Unfit (field @ '': Gemini's image models take none of this setting and would ignore '' @
           ''it (and make one image per request); remove it.''))
       | None \<Rightarrow> Inr ()))"

definition upload_part :: "string \<Rightarrow> bytes \<Rightarrow> dict" where
  "upload_part declared raw = inline_part (case sniff raw of Some m \<Rightarrow> m | None \<Rightarrow> declared) (JStr (b64encode raw))"

definition one_turn :: "dict list \<Rightarrow> json" where
  "one_turn ps = JList [JObj [(''role'', JStr ''user''), (''parts'', JList (map JObj ps))]]"

text \<open>\<open>zip(..., strict=True)\<close> raises for unequal lengths.\<close>

definition image_payload :: "image_ask \<Rightarrow> bytes list \<Rightarrow> exn + dict" where
  "image_payload r uploads =
     and_then (require (length (im_references r) = length uploads) (crashed ''ValueError'')) (\<lambda>_.
       Inr [(''contents'', one_turn (text_part (JStr (im_prompt r)) # map (\<lambda>(m, raw). upload_part m raw) (zip (im_references r) uploads))),
         (''generationConfig'', JObj [(''responseModalities'', JList [JStr ''TEXT'', JStr ''IMAGE''])])])"

definition made_image :: "google \<Rightarrow> dict \<Rightarrow> exn + generated_image" where
  "made_image g inline =
     (let d = gtext g (dget inline ''data'')
      in and_then (decode_b64 d ''image'') (\<lambda>raw.
           from_option (cli_error ''an image in Gemini's answer was not PNG, JPEG, WebP, GIF or SVG'')
             (map_option (\<lambda>media. \<lparr>image_data = d, media_type = media, revised_prompt = None\<rparr>) (sniff raw))))"

definition said_briefly :: "string \<Rightarrow> string" where
  "said_briefly t = (if t = [] then [] else '' It said: '' @ take 300 t)"

definition image_answered :: "google \<Rightarrow> json \<Rightarrow> memory \<Rightarrow> api_failure + image_response \<times> memory" where
  "image_answered g body k =
     and_then (raised (media_parts g body k)) (\<lambda>(c, p, k).
     and_then (fits (p_images p \<noteq> []) (''Gemini made no image '' @ why_finished g c @ ''.'' @ said_briefly (p_text p))) (\<lambda>_.
     and_then (raised (collect (made_image g) (p_images p))) (\<lambda>imgs.
       Inr (\<lparr>images = imgs, created = None, img_size = None, img_quality = None, img_background = None,
         img_usage = map_option (\<lambda>u. \<lparr>u_input = prompt_tokens u, u_output = completion_tokens u, u_total = total_tokens u, u_cost = None\<rparr>)
           (gemini_usage (dget (as_dict body) ''usageMetadata''))\<rparr>, k))))"

text \<open>\<open>ask\<close> answers a payload; the result has the id of the model.\<close>

definition image ::
  "google \<Rightarrow> gemini \<Rightarrow> image_ask \<Rightarrow> bytes list \<Rightarrow> bytes option \<Rightarrow> (dict \<Rightarrow> exchange)
     \<Rightarrow> api_failure + image_response \<times> string"
where
  "image g a r uploads masked ask =
     and_then (resolved a (im_model r)) (\<lambda>m.
     and_then (image_fits g m r masked) (\<lambda>_.
     and_then (raised (image_payload r uploads)) (\<lambda>payload.
     and_then (raised (google_said g a ''the image request'' ''an image request'' ''Gemini returned non-JSON for an image request'' (ask payload))) (\<lambda>body.
     and_then (image_answered g body (call_memory a)) (\<lambda>(out, _). Inr (out, dm_id m))))))"

subsection \<open>The jobs of videos\<close>

definition utf8 :: "string \<Rightarrow> bytes" where
  "utf8 s = concat (map (\<lambda>c. let n = (of_char c :: nat) in if n < 128 then [of_nat n] else [of_nat (192 + n div 64), of_nat (128 + n mod 64)]) s)"

text \<open>\<open>urlsafe_b64encode(name).rstrip("=")\<close>.\<close>

definition to_url :: "char \<Rightarrow> char" where
  "to_url c = (if c = CHR ''+'' then CHR ''-'' else if c = CHR ''/'' then CHR ''_'' else c)"

definition from_url :: "char \<Rightarrow> char" where
  "from_url c = (if c = CHR ''-'' then CHR ''+'' else if c = CHR ''_'' then CHR ''/'' else c)"

definition job_id_of :: "string \<Rightarrow> string" where
  "job_id_of operation = rstrip_of ''='' (map to_url (b64encode (utf8 operation)))"

text \<open>\<open>b64decode(s)\<close> without \<open>validate\<close>: what is not in the alphabet is passed over, and reading ends with the padding. The
  first two arguments are the place in a group of four and what is left of the digit before.\<close>

fun lenient :: "nat \<Rightarrow> nat \<Rightarrow> nat \<Rightarrow> string \<Rightarrow> bytes option" where
  "lenient q left pads [] = (if q = 0 then Some [] else None)"
| "lenient q left pads (c # cs) =
     (if c = CHR ''='' then
        (if 2 \<le> q then (if 4 \<le> q + Suc pads then Some [] else lenient q left (Suc pads) cs) else lenient q left pads cs)
      else case b64_value c of
        None \<Rightarrow> lenient q left pads cs
      | Some v \<Rightarrow>
          if q = 0 then lenient 1 v 0 cs
          else if q = 1 then map_option ((#) (byte1 left v)) (lenient 2 v 0 cs)
          else if q = 2 then map_option ((#) (byte2 left v)) (lenient 3 v 0 cs)
          else map_option ((#) (byte3 left v)) (lenient 0 0 0 cs))"

definition safe_char :: "char \<Rightarrow> bool" where
  "safe_char c \<longleftrightarrow> (let n = (of_char c :: nat)
     in (65 \<le> n \<and> n \<le> 90) \<or> (97 \<le> n \<and> n \<le> 122) \<or> is_digit c \<or> c \<in> {CHR ''_'', CHR ''.'', CHR ''/'', CHR ''-''})"

text \<open>\<open>_SAFE_NAME.match\<close>: \<open>$\<close> also matches before a newline that ends the name.\<close>

definition safe_name :: "string \<Rightarrow> bool" where
  "safe_name s \<longleftrightarrow> (let t = (if ends_with [CHR 0x0A] s then butlast s else s) in t \<noteq> [] \<and> list_all safe_char t)"

text \<open>\<open>_operation\<close>. Bytes that are not ASCII are no UTF-8 or no safe name: the same refusal.\<close>

definition operation_of :: "string \<Rightarrow> exn + string" where
  "operation_of j =
     (let none = (cli_error ''No such video job.'')\<lparr>upstream_status := Some 404\<rparr>;
          padded = map from_url j @ replicate ((4 - length j mod 4) mod 4) (CHR ''='')
      in case (if list_all (\<lambda>c. (of_char c :: nat) < 128) j then lenient 0 0 0 padded else None) of
           None \<Rightarrow> Inl none
         | Some raw \<Rightarrow>
             let name = map (\<lambda>b. char_of (unat b)) raw
             in if list_all (\<lambda>b. unat b < 128) raw \<and> safe_name name \<and> \<not> contains ''..'' name \<and> \<not> starts_with ''/'' name
                then Inr name else Inl none)"

record video_ask =
  vd_model :: "string option"
  vd_prompt :: string
  vd_size :: "string option"
  vd_seconds :: "int option"
  vd_frame :: "(string \<times> bytes) option"

text \<open>What a model takes: what its listing says, else Veo's own table.\<close>

definition listed_sizes :: "video_caps option \<Rightarrow> string list" where
  "listed_sizes c = (case Option.bind c sizes of Some (s # ss) \<Rightarrow> s # ss | _ \<Rightarrow> map fst VIDEO_SIZES)"

definition listed_seconds :: "video_caps option \<Rightarrow> int list" where
  "listed_seconds c = (case Option.bind c durations of Some (s # ss) \<Rightarrow> s # ss | _ \<Rightarrow> VIDEO_SECONDS)"

text \<open>The parameters of a job, or the words of a refusal.\<close>

definition video_parameters :: "google \<Rightarrow> driver_model \<Rightarrow> video_ask \<Rightarrow> api_failure + dict" where
  "video_parameters g m r =
     (let caps = Option.bind (dm_caps m) cap_video
      in and_then (case vd_size r of
             None \<Rightarrow> Inr None
           | Some sz \<Rightarrow>
               (case (sz \<in> set (listed_sizes caps), map_of VIDEO_SIZES sz) of
                  (True, Some (ratio, res)) \<Rightarrow> Inr (Some (ratio, res))
                | _ \<Rightarrow> unfit (''size: '' @ shown_id g m @ '' makes '' @ py_join '', '' (listed_sizes caps) @ ''; '' @
                    shown g (JStr sz) @ '' is not one''))) (\<lambda>shape.
         and_then (case vd_seconds r of
             None \<Rightarrow> Inr ()
           | Some n \<Rightarrow> fits (n \<in> set (listed_seconds caps)) (''seconds: Veo makes '' @
               py_join '', '' (map str_int (listed_seconds caps)) @ '' second videos, not '' @ str_int n)) (\<lambda>_.
         and_then (case (shape, vd_seconds r) of
             (Some (_, res), Some n) \<Rightarrow> fits (\<not> (res \<in> {''1080p'', ''4k''} \<and> n \<noteq> 8))
               (''seconds: Veo makes '' @ res @ '' only at 8 seconds, not '' @ str_int n)
           | _ \<Rightarrow> Inr ()) (\<lambda>_.
           Inr ((case shape of Some (ratio, res) \<Rightarrow> [(''aspectRatio'', JStr ratio), (''resolution'', JStr res)] | None \<Rightarrow> []) @
             opt ''durationSeconds'' JInt (vd_seconds r))))))"

definition video_payload :: "video_ask \<Rightarrow> dict \<Rightarrow> dict" where
  "video_payload r ps =
     (''instances'', JList [JObj ((''prompt'', JStr (vd_prompt r)) #
       (case vd_frame r of Some (declared, raw) \<Rightarrow> [(''image'', JObj (upload_part declared raw))] | None \<Rightarrow> []))]) #
     (if ps = [] then [] else [(''parameters'', JObj ps)])"

text \<open>\<open>video\<close>: the job.\<close>

definition video :: "google \<Rightarrow> gemini \<Rightarrow> video_ask \<Rightarrow> (dict \<Rightarrow> exchange) \<Rightarrow> api_failure + video_job" where
  "video g a r ask =
     and_then (resolved a (vd_model r)) (\<lambda>m.
     and_then (fits (''video'' \<in> set (dm_surfaces m)) (shown_id g m @ '' makes no videos; choose a model with the video surface'')) (\<lambda>_.
     and_then (video_parameters g m r) (\<lambda>ps.
     and_then (raised (google_answer g a ''the video submit'' ''a video submit'' (ask (video_payload r ps)))) (\<lambda>rep.
       raised (case parses (gworld g) (body_text rep) of
           LoadRecursionError \<Rightarrow> Inl (crashed ''RecursionError'')
         | LoadValueError \<Rightarrow> Inl (not_usable ''video submit'' ''JSONDecodeError'')
         | Loaded body \<Rightarrow>
             (case getitem body ''name'' of
                Some (JStr (c # cs)) \<Rightarrow> Inr \<lparr>job_id = job_id_of (c # cs), job_status = Queued, job_progress = None,
                  job_error = None, job_cost = None, job_model = Some (dm_id m)\<rparr>
              | Some _ \<Rightarrow> Inl (not_usable ''video submit'' ''name is not a string'')
              | None \<Rightarrow> Inl (not_usable ''video submit'' (case body of JObj _ \<Rightarrow> ''KeyError'' | _ \<Rightarrow> ''TypeError''))))))))"

text \<open>What one request is: where it goes and with what headers. \<open>poll\<close> asks for the state of a job.\<close>

type_synonym sent_request = "string \<times> (string \<times> string) list"

definition poll :: "google \<Rightarrow> gemini \<Rightarrow> string \<Rightarrow> (sent_request \<Rightarrow> exchange) \<Rightarrow> sent_request list \<times> (exn + dict)" where
  "poll g a j ask =
     (case operation_of j of
        Inl e \<Rightarrow> ([], Inl e)
      | Inr name \<Rightarrow>
          let q = (base_address a @ ''/'' @ name, google_headers (api_key a))
          in ([q], and_then (google_said g a ''the video poll'' ''a video poll'' ''Gemini's video poll answer was not JSON'' (ask q)) (\<lambda>v.
               case v of JObj d \<Rightarrow> Inr d | _ \<Rightarrow> Inl (cli_error ''Gemini's video poll answer was not an object''))))"

definition samples_of :: "dict \<Rightarrow> dict list" where
  "samples_of d =
     (case dget (as_dict (dget (as_dict (dget d ''response'')) ''generateVideoResponse'')) ''generatedSamples'' of
        JList vs \<Rightarrow> dicts_in vs | _ \<Rightarrow> [])"

text \<open>\<open>or "failed"\<close>.\<close>

definition failure_said :: "google \<Rightarrow> dict \<Rightarrow> string" where
  "failure_said g err =
     (if truthy (dget err ''message'') then gtext g (dget err ''message'')
      else if truthy (dget err ''status'') then gtext g (dget err ''status'') else ''failed'')"

definition filtered_why :: "google \<Rightarrow> dict \<Rightarrow> exn + string" where
  "filtered_why g d =
     and_then (dict_or_empty (dget d ''response'')) (\<lambda>r.
     and_then (dict_or_empty (dget r ''generateVideoResponse'')) (\<lambda>made.
       Inr (case dget made ''raiMediaFilteredReasons'' of JList vs \<Rightarrow> py_join ''; '' (map (gtext g) vs) | _ \<Rightarrow> ''no reason given'')))"

definition job_of :: "google \<Rightarrow> gemini \<Rightarrow> string \<Rightarrow> dict \<Rightarrow> exn + video_job" where
  "job_of g a j d =
     (let made = (\<lambda>st n words. \<lparr>job_id = j, job_status = st, job_progress = n, job_error = words, job_cost = None, job_model = None\<rparr>)
      in if \<not> truthy (dget d ''done'') then Inr (made InProgress None None)
         else case dget d ''error'' of
           JObj err \<Rightarrow> Inr (made Failed None (Some (''Gemini: '' @ scrub (api_key a) (failure_said g err))))
         | _ \<Rightarrow>
             if samples_of d = [] then
               and_then (filtered_why g d) (\<lambda>said.
                 Inr (made Failed None (Some (''Gemini made no video (filtered by its safety checks: '' @ said @ '')''))))
             else Inr (made Completed (Some 100) None))"

definition video_job :: "google \<Rightarrow> gemini \<Rightarrow> string \<Rightarrow> (sent_request \<Rightarrow> exchange) \<Rightarrow> exn + video_job" where
  "video_job g a j ask = and_then (snd (poll g a j ask)) (job_of g a j)"

subsection \<open>The download of a video\<close>

text \<open>\<open>urlsplit\<close>: the scheme, and the host and port; \<open>None\<close> where it, or reading the port, raises \<open>ValueError\<close>.\<close>

type_synonym address = "string \<times> (string option \<times> int option) option"

definition site_of :: "(string \<Rightarrow> address option) \<Rightarrow> string \<Rightarrow> (string \<times> string option \<times> int option) option" where
  "site_of split u = Option.bind (split u) (\<lambda>(scheme, place). map_option (Pair scheme) place)"

text \<open>The answer to a download: httpx fails, or a response with its \<open>Location\<close> and the bytes that come before it ends
  or breaks.\<close>

record download =
  dl_reply :: reply
  dl_location :: string
  dl_bytes :: "bytes list"
  dl_broken :: "net_failure option"

definition video_address :: "google \<Rightarrow> gemini \<Rightarrow> (string \<Rightarrow> address option) \<Rightarrow> dict \<Rightarrow> exn + string" where
  "video_address g a split d =
     and_then (case if truthy (dget d ''done'') then samples_of d else [] of
         [] \<Rightarrow> Inr JNull
       | s # _ \<Rightarrow> and_then (dict_or_empty (dget s ''video'')) (\<lambda>v. Inr (dget v ''uri''))) (\<lambda>uri.
     case uri of
       JStr (c # cs) \<Rightarrow>
         and_then (from_option (crashed ''ValueError'') (site_of split (base_address a))) (\<lambda>base.
         and_then (from_option (crashed ''ValueError'') (site_of split (c # cs))) (\<lambda>named.
         and_then (require (named = base) (cli_error (''Gemini named a video address outside its own API host; '' @
           ''the key was not sent.''))) (\<lambda>_. Inr (c # cs))))
     | _ \<Rightarrow> Inl ((cli_error ''This video job has no finished video yet.'')\<lparr>upstream_status := Some 404\<rparr>))"

text \<open>\<open>aiter_raw\<close>: the bytes shown and how it ends.\<close>

definition bytes_shown :: "google \<Rightarrow> gemini \<Rightarrow> download \<Rightarrow> bytes list \<times> (exn + unit)" where
  "bytes_shown g a d =
     (if 400 \<le> status (dl_reply d) then ([], Inl (google_refused g a (dl_reply d) ''the video download''))
      else (filter (\<lambda>b. b \<noteq> []) (dl_bytes d), case dl_broken d of
        None \<Rightarrow> Inr () | Some f \<Rightarrow> Inl (google_unreached (gworld g) a ''the video download'' f)))"

definition is_redirect :: "download \<Rightarrow> bool" where
  "is_redirect d \<longleftrightarrow> 300 \<le> status (dl_reply d) \<and> status (dl_reply d) \<le> 399"

text \<open>The requests made after the poll, what was shown, and how it ended.\<close>

definition fetch_video ::
  "google \<Rightarrow> gemini \<Rightarrow> (string \<Rightarrow> address option) \<Rightarrow> (sent_request \<Rightarrow> net_failure + download) \<Rightarrow> string
     \<Rightarrow> sent_request list \<times> bytes list \<times> (exn + unit)"
where
  "fetch_video g a split fetch uri =
     (let q = (uri, AList.update ''Accept'' ''video/mp4'' (google_headers (api_key a)));
          failed = (\<lambda>f. Inl (google_unreached (gworld g) a ''the video download'' f))
      in case fetch q of
           Inl f \<Rightarrow> ([q], [], failed f)
         | Inr d \<Rightarrow>
             if \<not> is_redirect d then ([q], bytes_shown g a d)
             else (case (split (dl_location d), split (base_address a)) of
                 (Some (scheme, _), Some (base, _)) \<Rightarrow>
                   if scheme \<notin> {''https'', base} then ([q], [], Inl (cli_error ''Gemini redirected the video download somewhere unsafe.''))
                   else (case fetch (dl_location d, []) of
                       Inl f \<Rightarrow> ([q, (dl_location d, [])], [], failed f)
                     | Inr d' \<Rightarrow> ([q, (dl_location d, [])], bytes_shown g a d'))
               | _ \<Rightarrow> ([q], [], Inl (crashed ''ValueError''))))"

definition video_content ::
  "google \<Rightarrow> gemini \<Rightarrow> (string \<Rightarrow> address option) \<Rightarrow> (sent_request \<Rightarrow> exchange) \<Rightarrow> (sent_request \<Rightarrow> net_failure + download)
     \<Rightarrow> string \<Rightarrow> sent_request list \<times> bytes list \<times> (exn + unit)"
where
  "video_content g a split ask fetch j =
     (case poll g a j ask of
        (qs, Inl e) \<Rightarrow> (qs, [], Inl e)
      | (qs, Inr d) \<Rightarrow>
          (case video_address g a split d of
             Inl e \<Rightarrow> (qs, [], Inl e)
           | Inr uri \<Rightarrow> (case fetch_video g a split fetch uri of (ps, bs, out) \<Rightarrow> (qs @ ps, bs, out))))"

subsection \<open>Speech\<close>

record speak_ask =
  sp_model :: "string option"
  sp_input :: string
  sp_voice :: json
  sp_format :: "speech_format option"
  sp_speed :: "rat option"
  sp_instructions :: "string option"

definition resolve_speech :: "google \<Rightarrow> gemini \<Rightarrow> string option \<Rightarrow> api_failure + driver_model" where
  "resolve_speech g a asked =
     and_then (resolved a asked) (\<lambda>m.
     and_then (fits (''speech'' \<in> set (dm_surfaces m)) (shown_id g m @ '' does not speak; choose a model with the speech surface'')) (\<lambda>_.
       Inr m))"

definition speech_asked :: "speak_ask \<Rightarrow> speech_format" where
  "speech_asked r = (case sp_format r of Some f \<Rightarrow> f | None \<Rightarrow> SMp3)"

definition speech_fits :: "google \<Rightarrow> speak_ask \<Rightarrow> api_failure + unit" where
  "speech_fits g r =
     and_then (case refuse_format (\<lambda>f. shown g (JStr f)) (speech_asked r) SPEECH_FORMATS of
         Inl (Refused words) \<Rightarrow> unfit words | Inl _ \<Rightarrow> unfit [] | Inr _ \<Rightarrow> Inr ()) (\<lambda>_.
     and_then (fits (sp_speed r = None) ''speed: Gemini's speech takes no speed and would ignore it; remove it'') (\<lambda>_.
       fits (\<not> given (sp_instructions r)) (''instructions: Gemini speaks the text it is given and takes style only as part '' @
         ''of that text, so instructions would be dropped; remove them'')))"

definition speech_payload :: "speak_ask \<Rightarrow> dict" where
  "speech_payload r =
     [(''contents'', one_turn [text_part (JStr (sp_input r))]),
      (''generationConfig'', JObj [(''responseModalities'', JList [JStr ''AUDIO'']),
        (''speechConfig'', JObj [(''voiceConfig'', JObj [(''prebuiltVoiceConfig'', JObj [(''voiceName'', sp_voice r)])])])])]"

definition has_wav_header :: "bytes \<Rightarrow> bool" where
  "has_wav_header raw \<longleftrightarrow> take 4 raw = ascii ''RIFF'' \<and> take 4 (drop 8 raw) = ascii ''WAVE''"

text \<open>The sound in the format that was asked for; \<open>encode\<close> is PyAV's.\<close>

definition sound_as :: "(bytes \<Rightarrow> speech_format \<Rightarrow> exn + bytes) \<Rightarrow> speech_format \<Rightarrow> nat \<Rightarrow> bytes \<Rightarrow> exn + bytes" where
  "sound_as encode f rate raw =
     (let wav = (if has_wav_header raw then Inr raw else from_option (crashed ''struct.error'') (wav_of raw rate))
      in if f = SWav then wav
         else if f = SPcm then Inr (if has_wav_header raw then drop 44 raw else raw)
         else and_then wav (\<lambda>w. encode w f))"

definition speak ::
  "google \<Rightarrow> gemini \<Rightarrow> (bytes \<Rightarrow> speech_format \<Rightarrow> exn + bytes) \<Rightarrow> speak_ask \<Rightarrow> (dict \<Rightarrow> exchange) \<Rightarrow> api_failure + bytes"
where
  "speak g a encode r ask =
     and_then (resolve_speech g a (sp_model r)) (\<lambda>m.
     and_then (speech_fits g r) (\<lambda>_.
     raised (
       and_then (google_said g a ''the speech request'' ''speech'' ''Gemini returned non-JSON for speech'' (ask (speech_payload r))) (\<lambda>body.
       and_then (media_parts g body (call_memory a)) (\<lambda>(c, p, _).
       case p_audio p of
         [] \<Rightarrow> Inl (cli_error (''Gemini made no audio '' @ why_finished g c))
       | inline # _ \<Rightarrow>
           and_then (decode_b64 (gtext g (dget inline ''data'')) ''audio'') (\<lambda>raw.
             sound_as encode (speech_asked r) (pcm_rate (or_no_text g (dget inline ''mimeType''))) raw))))))"

subsection \<open>Transcription\<close>

record transcribe_ask =
  tr_model :: "string option"
  tr_media :: "string option"
  tr_filename :: string
  tr_language :: "string option"
  tr_prompt :: "string option"
  tr_temperature :: "rat option"
  tr_granularities :: "string list option"

definition AUDIO_TYPES :: "(string \<times> string) list" where
  "AUDIO_TYPES =
     [(''wav'', ''audio/wav''), (''mp3'', ''audio/mp3''), (''mpeg'', ''audio/mp3''), (''aac'', ''audio/aac''), (''m4a'', ''audio/aac''),
      (''flac'', ''audio/flac''), (''ogg'', ''audio/ogg''), (''oga'', ''audio/ogg''), (''aiff'', ''audio/aiff''), (''aif'', ''audio/aiff'')]"

text \<open>\<open>s.rsplit(".", 1)[-1]\<close>.\<close>

definition extension_of :: "string \<Rightarrow> string" where
  "extension_of s = rev (takeWhile (\<lambda>c. c \<noteq> CHR ''.'') (rev s))"

definition declared_type :: "transcribe_ask \<Rightarrow> string" where
  "declared_type r = lower (strip (takeWhile (\<lambda>c. c \<noteq> CHR '';'') (case tr_media r of Some t \<Rightarrow> t | None \<Rightarrow> [])))"

definition audio_mime :: "google \<Rightarrow> transcribe_ask \<Rightarrow> api_failure + string" where
  "audio_mime g r =
     (let d = declared_type r; e = lower (extension_of (tr_filename r))
      in from_option (Unfit (''audio: Gemini reads wav, mp3, aac, flac, ogg and aiff; this file is '' @
             shown g (JStr (if d \<noteq> [] then d else e))))
           (first_of_list (map_of AUDIO_TYPES) [without_prefix ''audio/'' d, without_prefix ''audio/x-'' d, e]))"

definition transcribe_payload :: "transcribe_ask \<Rightarrow> string \<Rightarrow> bytes \<Rightarrow> dict" where
  "transcribe_payload r mime sound =
     (''contents'', one_turn [inline_part mime (JStr (b64encode sound)),
        text_part (JStr (''Transcribe this audio exactly as spoken. Reply with the transcript text only, '' @
          ''with no commentary, headings or translation.'' @
          (case tr_language r of Some (c # cs) \<Rightarrow> '' The language spoken is '' @ (c # cs) @ ''.'' | _ \<Rightarrow> []) @
          (case tr_prompt r of Some (c # cs) \<Rightarrow> '' Context and spellings to expect: '' @ (c # cs) | _ \<Rightarrow> [])))]) #
     (case tr_temperature r of Some t \<Rightarrow> [(''generationConfig'', JObj [(''temperature'', JFloat (Finite t))])] | None \<Rightarrow> [])"

text \<open>The transcript and the id of the model.\<close>

definition transcribe ::
  "google \<Rightarrow> gemini \<Rightarrow> transcribe_ask \<Rightarrow> bytes \<Rightarrow> (dict \<Rightarrow> exchange) \<Rightarrow> api_failure + transcription \<times> string"
where
  "transcribe g a r sound ask =
     and_then (resolved a (tr_model r)) (\<lambda>m.
     and_then (fits (''transcription'' \<in> set (dm_surfaces m)) (shown_id g m @ '' does not transcribe'')) (\<lambda>_.
     and_then (fits (\<not> given (tr_granularities r)) (''timestamp_granularities: Gemini returns text without timings, so word or '' @
       ''segment timestamps would be invented; remove them'')) (\<lambda>_.
     and_then (audio_mime g r) (\<lambda>mime.
     raised (
       and_then (google_said g a ''the transcription'' ''a transcription'' ''Gemini returned non-JSON for a transcription''
         (ask (transcribe_payload r mime sound))) (\<lambda>body.
       and_then (media_parts g body (call_memory a)) (\<lambda>(c, p, _).
       and_then (require (strip (p_text p) \<noteq> []) (cli_error (''Gemini returned no transcript '' @ why_finished g c @
         ''; the audio may be silent or blocked''))) (\<lambda>_.
         Inr (\<lparr>t_text = strip (p_text p), t_language = None, t_duration = None, t_segments = None, t_words = None,
           t_usage = map_option (\<lambda>u. \<lparr>t_seconds = None, t_input = prompt_tokens u, t_output = completion_tokens u, t_total = total_tokens u\<rparr>)
             (gemini_usage (dget (as_dict body) ''usageMetadata''))\<rparr>, dm_id m)))))))))"

lemma raised_Inr [result_simps]: "raised r = Inr v \<longleftrightarrow> r = Inr v"
  by (simp add: raised_def split: sum.split)

subsection \<open>Vectors in the order of their texts\<close>

lemma batches_concat: "0 < n \<Longrightarrow> concat (batches n xs) = xs"
  by (induction n xs rule: batches.induct) simp_all

lemma batches_bound: "0 < n \<Longrightarrow> b \<in> set (batches n xs) \<Longrightarrow> b \<noteq> [] \<and> length b \<le> n"
  by (induction n xs rule: batches.induct) auto

definition answers_batch :: "google \<Rightarrow> driver_model \<Rightarrow> int option \<Rightarrow> (nat \<Rightarrow> dict \<Rightarrow> exchange) \<Rightarrow> nat \<times> string list \<Rightarrow> pyfloat list list \<Rightarrow> bool" where
  "answers_batch g m dims ask = (\<lambda>(n, b) ws.
     length ws = length b \<and> [] \<notin> set ws \<and>
     (\<exists>r body. ask n (embed_payload m dims b) = Inr r \<and> status r < 400 \<and> parses (gworld g) (body_text r) = Loaded body \<and>
        vectors_of g body = Inr ws))"

lemma embed_batch_answers:
  "embed_batch g a dims b (ask n (embed_payload m dims b)) = Inr (ws, t) \<Longrightarrow> answers_batch g m dims ask (n, b) ws"
proof -
  assume ok: "embed_batch g a dims b (ask n (embed_payload m dims b)) = Inr (ws, t)"
  then obtain r where r: "google_answer g a ''the embeddings request'' (if dims = None then ''embeddings'' else ''embeddings dimensions'')
      (ask n (embed_payload m dims b)) = Inr r"
    by (simp only: embed_batch_def and_then_eq_Inr) blast
  then have "ask n (embed_payload m dims b) = Inr r \<and> status r < 400"
    by (cases "ask n (embed_payload m dims b)") (simp_all add: google_answer_def split: if_split_asm)
  moreover from ok r obtain body where body: "parses (gworld g) (body_text r) = Loaded body"
    unfolding embed_batch_def by (cases "parses (gworld g) (body_text r)") simp_all
  moreover from ok have "vectors_of g body = Inr ws \<and> length ws = length b \<and> [] \<notin> set ws"
    unfolding embed_batch_def r and_then_Inr body loaded.case by (simp add: result_simps)
  ultimately show ?thesis unfolding answers_batch_def prod.case by blast
qed

lemma embed_all_answers:
  "embed_all g a m dims ask n bs = Inr (vs, t) \<Longrightarrow>
   \<exists>vss. vs = concat vss \<and> list_all2 (answers_batch g m dims ask) (enumerate n bs) vss"
proof (induction bs arbitrary: n vs t)
  case (Cons b bs)
  then obtain ws t1 us t2 where "embed_batch g a dims b (ask n (embed_payload m dims b)) = Inr (ws, t1)"
    "embed_all g a m dims ask (Suc n) bs = Inr (us, t2)" "vs = ws @ us"
    by (auto simp: and_then_eq_Inr)
  moreover from Cons.IH [OF this(2)] obtain uss where "us = concat uss"
    "list_all2 (answers_batch g m dims ask) (enumerate (Suc n) bs) uss" by blast
  ultimately show ?case using embed_batch_answers [of g a dims b ask n m ws t1] by (intro exI [of _ "ws # uss"]) simp
qed simp

text \<open>The vectors of an embedding are those of its texts, in their order. The texts go to Google in requests of at most
  a hundred, in order and none left out; what comes back is one after another the vectors Google gave each request,
  as many as the texts of that request and none of them empty.\<close>

lemma embeddings_follow_the_inputs:
  assumes "embed g a inputs asked dims ask = Inr (vs, t, i)"
  shows "\<exists>m vss. resolved a asked = Inr m \<and> vs = concat vss \<and> concat (batches EMBED_BATCH inputs) = inputs \<and>
    list_all (\<lambda>b. length b \<le> 100) (batches EMBED_BATCH inputs) \<and>
    list_all2 (answers_batch g m dims ask) (enumerate 0 (batches EMBED_BATCH inputs)) vss \<and> length vs = length inputs"
proof -
  from assms obtain m t' where m: "resolved a asked = Inr m"
    and all: "embed_all g a m dims ask 0 (batches EMBED_BATCH inputs) = Inr (vs, t')"
    by (auto simp: embed_def result_simps)
  from embed_all_answers [OF all] obtain vss where vss: "vs = concat vss"
    "list_all2 (answers_batch g m dims ask) (enumerate 0 (batches EMBED_BATCH inputs)) vss" by blast
  have "length (concat vss) = length (concat bs)" if "list_all2 (answers_batch g m dims ask) (enumerate n bs) vss" for n bs vss
    using that by (induction bs arbitrary: n vss) (auto simp: list_all2_Cons1 answers_batch_def)
  with vss m show ?thesis
    using batches_concat [of EMBED_BATCH inputs] batches_bound [of EMBED_BATCH _ inputs]
    by (auto simp: EMBED_BATCH_def list_all_iff)
qed

subsection \<open>The key goes nowhere else\<close>

text \<open>C34. The download of a video takes its address from Google's answer, and a redirect from whoever serves it. The key
  goes with none of them but to the place \<open>baseUrl\<close> names: each request that carries it asks the account's own
  address for the state of the job, or has the same scheme, host and port.\<close>

theorem video_key_stays_home:
  "list_all (\<lambda>(u, hs). map_of hs ''x-goog-api-key'' = None \<or>
       (\<exists>name. operation_of j = Inr name \<and> u = base_address a @ ''/'' @ name) \<or>
       (\<exists>place. site_of split u = Some place \<and> site_of split (base_address a) = Some place))
     (fst (video_content g a split ask fetch j))"
proof -
  have uri: "\<exists>place. site_of split u = Some place \<and> site_of split (base_address a) = Some place"
    if "video_address g a split d = Inr u" for u d
  proof -
    from that obtain v where "(case v of JStr (c # cs) \<Rightarrow>
         and_then (from_option (crashed ''ValueError'') (site_of split (base_address a))) (\<lambda>base.
         and_then (from_option (crashed ''ValueError'') (site_of split (c # cs))) (\<lambda>named.
         and_then (require (named = base) (cli_error (''Gemini named a video address outside its own API host; '' @
           ''the key was not sent.''))) (\<lambda>_. Inr (c # cs))))
     | _ \<Rightarrow> Inl ((cli_error ''This video job has no finished video yet.'')\<lparr>upstream_status := Some 404\<rparr>)) = Inr u"
      by (simp only: video_address_def and_then_eq_Inr) blast
    then show ?thesis by (cases v) (auto simp: result_simps split: list.split_asm)
  qed
  have fetched: "list_all (\<lambda>(v, hs). map_of hs ''x-goog-api-key'' = None \<or> v = u) (fst (fetch_video g a split fetch u))" for u
    by (simp add: fetch_video_def Let_def split: sum.split option.split prod.split)
  have polled: "\<exists>name. operation_of j = Inr name \<and> u = base_address a @ ''/'' @ name" if "(u, hs) \<in> set (fst (poll g a j ask))" for u hs
    using that by (auto simp: poll_def Let_def split: sum.split_asm)
  show ?thesis
  proof (cases "poll g a j ask")
    case (Pair qs out)
    show ?thesis
    proof (cases out)
      case (Inl e)
      with Pair polled show ?thesis by (fastforce simp: video_content_def list_all_iff)
    next
      case (Inr d)
      show ?thesis
      proof (cases "video_address g a split d")
        case (Inl e)
        with Pair \<open>out = Inr d\<close> polled show ?thesis by (fastforce simp: video_content_def list_all_iff)
      next
        case (Inr u)
        with Pair \<open>out = Inr d\<close> polled uri [OF Inr] fetched [of u] show ?thesis
          by (fastforce simp: video_content_def list_all_iff split: prod.split)
      qed
    qed
  qed
qed

definition demo_embedder :: gemini where
  "demo_embedder = demo_gemini\<lparr>account_list := set_models [(bare_model ''e'')\<lparr>dm_surfaces := [''embeddings'']\<rparr>] None empty_listing\<rparr>"

definition demo_vectors :: google where
  "demo_vectors = demo_google\<lparr>gworld := demo_world\<lparr>py_of := demo_out, parses := (\<lambda>_. Loaded (JObj [(''embeddings'',
     JList [JObj [(''values'', JList [JFloat (Finite 1)])], JObj [(''values'', JList [JFloat (Finite 2)])]])]))\<rparr>\<rparr>"

lemma embeddings_follow_the_inputs_witness:
  "\<exists>vss. [[Finite 1], [Finite 2]] = concat vss \<and> concat (batches EMBED_BATCH [''a'', ''b'']) = [''a'', ''b''] \<and>
    length vss = length (batches EMBED_BATCH [''a'', ''b''])"
proof -
  have "embed demo_vectors demo_embedder [''a'', ''b''] (Some ''models/e'') (Some 3)
      (\<lambda>_ _. Inr \<lparr>status = 200, body_text = [], retry_header = None, arrivals = []\<rparr>) = Inr ([[Finite 1], [Finite 2]], None, ''e'')"
    by code_simp
  from embeddings_follow_the_inputs [OF this] show ?thesis by (force dest: list_all2_lengthD)
qed

subsection \<open>The id of a job is its operation\<close>

lemma lenient_encode: "lenient 0 left pads (b64encode bs) = Some bs"
  by (induction bs arbitrary: left pads rule: b64encode.induct)
    (simp_all add: b64_value_digit b64_digit_no_pad digit_bounds byte_parts)

text \<open>The digits of an encoding, and its padding.\<close>

lemma b64_shape:
  "\<exists>ds n. b64encode bs = ds @ replicate n (CHR ''='') \<and> list_all (\<lambda>c. b64_value c \<noteq> None) ds \<and>
     CHR ''='' \<notin> set ds \<and> n < 3 \<and> (length ds + n) mod 4 = 0"
proof (induction bs rule: b64encode.induct)
  case 1
  then show ?case by (intro exI [of _ "[]"] exI [of _ 0]) simp
next
  case (2 a)
  show ?case
    by (intro exI [of _ "[b64_digit (unat a div 4), b64_digit (unat a mod 4 * 16)]"] exI [of _ 2])
      (use b64_digit_no_pad digit_bounds in \<open>simp add: b64_value_digit numeral_2_eq_2 eq_commute [of "CHR ''=''"]\<close>)
next
  case (3 a b)
  show ?case
    by (intro exI [of _ "[b64_digit (unat a div 4), b64_digit (unat a mod 4 * 16 + unat b div 16), b64_digit (unat b mod 16 * 4)]"]
        exI [of _ 1]) (use b64_digit_no_pad digit_bounds in \<open>simp add: b64_value_digit eq_commute [of "CHR ''=''"]\<close>)
next
  case (4 a b c rest)
  then obtain ds n where ds: "b64encode rest = ds @ replicate n (CHR ''='')" "list_all (\<lambda>c. b64_value c \<noteq> None) ds"
    "CHR ''='' \<notin> set ds" "n < 3" "(length ds + n) mod 4 = 0" by (elim exE conjE)
  let ?four = "[b64_digit (unat a div 4), b64_digit (unat a mod 4 * 16 + unat b div 16),
    b64_digit (unat b mod 16 * 4 + unat c div 64), b64_digit (unat c mod 64)]"
  show ?case
    by (intro exI [of _ "?four @ ds"] exI [of _ n])
      (use ds b64_digit_no_pad digit_bounds in \<open>simp add: b64_value_digit eq_commute [of "CHR ''=''"]\<close>)
qed

lemma padding_length: "k < 3 \<Longrightarrow> (l + k) mod 4 = 0 \<Longrightarrow> (4 - l mod 4) mod 4 = (k :: nat)"
proof -
  assume "k < 3" and "(l + k) mod 4 = 0"
  then have "(l mod 4 + k) mod 4 = 0" by (simp add: mod_add_left_eq)
  moreover have "l mod 4 < 4" by simp
  then have "l mod 4 \<in> {0, 1, 2, 3}" by auto
  moreover have "k \<in> {0, 1, 2}" using \<open>k < 3\<close> by auto
  ultimately show "(4 - l mod 4) mod 4 = k" by (elim insertE emptyE) simp_all
qed

lemma url_back: "b64_value c \<noteq> None \<Longrightarrow> from_url (to_url c) = c"
proof -
  have "b64_value (CHR ''-'') = None" "b64_value (CHR ''_'') = None" by code_simp+
  then show "b64_value c \<noteq> None \<Longrightarrow> from_url (to_url c) = c" by (auto simp: from_url_def to_url_def)
qed

lemma to_url_digit: "b64_value c \<noteq> None \<Longrightarrow> to_url c \<noteq> CHR ''='' \<and> of_char (to_url c) < (128 :: nat)"
proof -
  have "list_all (\<lambda>c. to_url c \<noteq> CHR ''='' \<and> of_char (to_url c) < (128 :: nat)) B64" by code_simp
  moreover have "b64_value c \<noteq> None \<Longrightarrow> c \<in> set B64"
  proof -
    have "place_in c ds \<noteq> None \<Longrightarrow> c \<in> set ds" for ds by (induction ds) (auto split: if_splits)
    then show "b64_value c \<noteq> None \<Longrightarrow> c \<in> set B64" by (simp add: b64_value_def)
  qed
  ultimately show "b64_value c \<noteq> None \<Longrightarrow> to_url c \<noteq> CHR ''='' \<and> of_char (to_url c) < (128 :: nat)"
    by (auto simp: list_all_iff)
qed

lemma rstrip_padding:
  "CHR ''='' \<notin> set ds \<Longrightarrow> rstrip_of ''='' (ds @ replicate n (CHR ''='')) = ds"
  by (cases ds rule: rev_cases) (auto simp: rstrip_of_def lstrip_of_def dropWhile_append)

text \<open>A name as Google gives its operations.\<close>

definition operation_name :: "string \<Rightarrow> bool" where
  "operation_name n \<longleftrightarrow> n \<noteq> [] \<and> list_all safe_char n \<and> \<not> contains ''..'' n \<and> \<not> starts_with ''/'' n"

lemma safe_char_ascii: "safe_char c \<Longrightarrow> (of_char c :: nat) < 128"
  by (auto simp: safe_char_def is_digit_def Let_def)

lemma byte_of_char: "word_of_nat (of_char c) = (of_char c :: byte)"
  by (rule of_nat_of_char)

lemma byte_char: "unat (of_char c :: byte) = (of_char c :: nat)"
  using of_char_bound [of c] by (simp flip: byte_of_char add: unat_of_nat take_bit_eq_mod)

lemma safe_utf8: "operation_name n \<Longrightarrow> utf8 n = map of_char n"
proof -
  have "list_all safe_char n \<Longrightarrow> utf8 n = map of_char n"
    using safe_char_ascii by (induction n) (auto simp: utf8_def byte_of_char Let_def)
  then show "operation_name n \<Longrightarrow> utf8 n = map of_char n" by (simp add: operation_name_def)
qed

lemma safe_operation: "operation_name n \<Longrightarrow> safe_name n"
proof -
  assume n: "operation_name n"
  have "\<not> ends_with [CHR 0x0A] n"
  proof
    assume "ends_with [CHR 0x0A] n"
    then have "CHR 0x0A \<in> set n" unfolding ends_with_def by (metis in_set_dropD list.set_intros(1))
    with n have "safe_char (CHR 0x0A)" by (auto simp: operation_name_def list_all_iff)
    moreover have "\<not> safe_char (CHR 0x0A)" by code_simp
    ultimately show False by simp
  qed
  with n show "safe_name n" by (simp add: safe_name_def operation_name_def)
qed

text \<open>The id a client is given for a video stands for Google's operation and for nothing else: reading it back gives the
  name Google gave, whatever its length, so the job a client asks for is the job that was made.\<close>

lemma job_id_is_the_operation:
  assumes "operation_name n"
  shows "operation_of (job_id_of n) = Inr n"
proof -
  from b64_shape [of "utf8 n"] obtain ds k where shape: "b64encode (utf8 n) = ds @ replicate k (CHR ''='')"
    "list_all (\<lambda>c. b64_value c \<noteq> None) ds" "CHR ''='' \<notin> set ds" "k < 3" "(length ds + k) mod 4 = 0"
    by (elim exE conjE)
  have digit: "to_url c \<noteq> CHR ''='' \<and> of_char (to_url c) < (128 :: nat)" if "c \<in> set ds" for c
    using to_url_digit [of c] shape(2) that by (simp add: list_all_iff)
  have unpadded: "CHR ''='' \<notin> set (map to_url ds)"
  proof
    assume "CHR ''='' \<in> set (map to_url ds)"
    then obtain c where "c \<in> set ds" "to_url c = CHR ''=''" unfolding set_map by (elim imageE) metis
    with digit [of c] show False by simp
  qed
  have eq: "to_url (CHR ''='') = CHR ''=''" by code_simp
  have id: "job_id_of n = map to_url ds"
    unfolding job_id_of_def shape(1) map_append map_replicate eq by (rule rstrip_padding [OF unpadded])
  have pad: "(4 - length ds mod 4) mod 4 = k" by (rule padding_length [OF shape(4,5)])
  have restored: "from_url (to_url c) = c" if "c \<in> set ds" for c
    using url_back [of c] shape(2) that by (simp add: list_all_iff)
  have "map from_url (map to_url ds) = ds" unfolding map_map comp_def by (rule map_idI) (rule restored)
  then have "map from_url (job_id_of n) @ replicate ((4 - length (job_id_of n) mod 4) mod 4) (CHR ''='') = b64encode (utf8 n)"
    using pad shape(1) by (simp add: id)
  moreover have "list_all (\<lambda>c. (of_char c :: nat) < 128) (job_id_of n)"
    using digit by (simp add: id list_all_iff)
  ultimately have "(if list_all (\<lambda>c. (of_char c :: nat) < 128) (job_id_of n)
      then lenient 0 0 0 (map from_url (job_id_of n) @ replicate ((4 - length (job_id_of n) mod 4) mod 4) (CHR ''='')) else None) =
      Some (map of_char n)"
    using safe_utf8 [OF assms] lenient_encode [of 0 0 "utf8 n"] by simp
  moreover have "map (\<lambda>b. char_of (unat b)) (map of_char n :: bytes) = n" by (simp add: comp_def byte_char)
  moreover have "list_all (\<lambda>b. unat b < 128) (map of_char n :: bytes)"
    using assms by (auto simp: operation_name_def list_all_iff byte_char intro: safe_char_ascii)
  ultimately show ?thesis using assms safe_operation [OF assms] by (simp add: operation_of_def operation_name_def Let_def)
qed

lemma job_id_is_the_operation_witness:
  "operation_of (job_id_of ''models/veo-3/operations/a1'') = Inr ''models/veo-3/operations/a1''"
proof -
  have "operation_name ''models/veo-3/operations/a1''" by code_simp
  then show ?thesis by (rule job_id_is_the_operation)
qed

text \<open>A newline at the end of a name is let through, and goes into the address that is asked.\<close>

lemma newline_passes: "operation_of (job_id_of (''models/x'' @ [CHR 0x0A])) = Inr (''models/x'' @ [CHR 0x0A])"
  by code_simp

subsection \<open>Sound in its wrapping\<close>

text \<open>The samples Google gives stand unchanged in the WAV made of them, behind a header of 44 bytes.\<close>

lemma samples_kept:
  assumes "wav_of pcm rate = Some w"
  shows "has_wav_header w \<and> drop 44 w = pcm"
proof -
  from assms obtain riff fmt one r br block bits len where
    sizes: "pack_I (36 + length pcm) = Some riff" "pack_I 16 = Some fmt" "pack_H 1 = Some one" "pack_I rate = Some r"
      "pack_I (rate * 2) = Some br" "pack_H 2 = Some block" "pack_H 16 = Some bits" "pack_I (length pcm) = Some len"
    and w: "w = ascii ''RIFF'' @ riff @ ascii ''WAVEfmt '' @ fmt @ one @ one @ r @ br @ block @ bits @ ascii ''data'' @ len @ pcm"
    by (auto simp: wav_of_def split: option.splits)
  have n: "length riff = 4" "length fmt = 4" "length one = 2" "length r = 4" "length br = 4" "length block = 2" "length bits = 2"
    "length len = 4"
    using pack_lengths sizes by blast+
  have "take 4 w = ascii ''RIFF''" by (simp add: w ascii_def)
  moreover have "take 4 (drop 8 w) = ascii ''WAVE''" using n(1) by (simp add: w ascii_def)
  moreover have "drop 44 w = pcm" using n by (simp add: w ascii_def)
  ultimately show ?thesis by (simp add: has_wav_header_def)
qed

lemma pcm_of_own_wav: "wav_of pcm rate = Some w \<Longrightarrow> sound_as encode SPcm r w = Inr pcm"
  using samples_kept [of pcm rate w] by (simp add: sound_as_def Let_def)

end
