(* ===== verification/Strata.thy ===== *)
theory Strata
  imports Engine_Base Incremental
begin

text \<open>
  Strata's endpoint (\<open>engines/strata_http.py\<close>). Strata knows no stop strings, so the engine looks for
  them in the visible text as it arrives: text that could be the start of one is held back until
  it is decided, and a match ends the answer. The engine's stream is a function of the chunks of
  the generic adapter's stream.
\<close>

subsection \<open>Where a text stops\<close>

text \<open>\<open>min(matches, key=...)\<close>: the first of the leftmost matches in the order of \<open>stops\<close>.\<close>

definition matches :: "string list \<Rightarrow> string \<Rightarrow> (nat \<times> string) list" where
  "matches stops s =
     List.map_filter (\<lambda>p. map_option (\<lambda>i. (i, p)) (find_sub p s)) stops"

definition first_match :: "string list \<Rightarrow> string \<Rightarrow> (nat \<times> string) option" where
  "first_match stops s = (case matches stops s of [] \<Rightarrow> None | m # ms \<Rightarrow> Some (arg_min_list fst (m # ms)))"

text \<open>The length of the longest end of \<open>s\<close> that begins a stop without being all of it.\<close>

definition keep :: "string list \<Rightarrow> string \<Rightarrow> nat" where
  "keep stops s =
     fold max
       (concat (map (\<lambda>p. filter (\<lambda>n. ends_with (take n p) s) [1..<min (length p) (length s + 1)]) stops)) 0"

record stop_state =
  pending :: string
  emitted :: "string list"
  reasoned :: "string list"
  call_parts :: "(int \<times> slot) list"

definition new_stop_state :: stop_state where
  "new_stop_state = \<lparr>pending = [], emitted = [], reasoned = [], call_parts = []\<rparr>"

text \<open>\<open>join\<close> of a list that may be empty, and \<open>x or None\<close>.\<close>

definition or_none :: "'a list \<Rightarrow> 'a list option" where
  "or_none xs = (if xs = [] then None else Some xs)"

definition stopped_result ::
  "(int \<Rightarrow> string) \<Rightarrow> dict \<Rightarrow> stop_state \<Rightarrow> string \<Rightarrow> gen_result"
where
  "stopped_result new_id other s matched =
     \<lparr>content = Some (concat (emitted s)), reasoning_text = or_none (concat (reasoned s)),
      calls = or_none (finish_tool_calls new_id (call_parts s)), finish_reason = ''stop'',
      stop_sequence = Some matched, rest = other\<rparr>"

text \<open>One chunk: what is yielded, the state after it, and whether the stream is over. \<open>other\<close> is what
  the engine knows of itself (its kind, the model, the request's id, the time).\<close>

definition note_other :: "outside \<Rightarrow> chunk \<Rightarrow> stop_state \<Rightarrow> stop_state" where
  "note_other ou c s =
     (let s = (if creasoning c = [] then s else s\<lparr>reasoned := reasoned s @ [creasoning c]\<rparr>)
      in if given (ctool_calls c)
         then s\<lparr>call_parts := accumulate_tool_calls ou (JList (map dump_delta (the (ctool_calls c))))
                  (call_parts s)\<rparr>
         else s)"

definition text_chunk ::
  "string list \<Rightarrow> (int \<Rightarrow> string) \<Rightarrow> dict \<Rightarrow> chunk \<Rightarrow> stop_state \<Rightarrow> chunk list \<times> stop_state \<times> bool"
where
  "text_chunk stops new_id other c s =
     (let p = pending s @ ctext c
      in case first_match stops p of
           Some (i, matched) \<Rightarrow>
             (let s' = s\<lparr>pending := p, emitted := emitted s @ [take i p]\<rparr>
              in ((if take i p = [] then [] else [c\<lparr>ctext := take i p\<rparr>]) @
                  [plain_chunk\<lparr>cdone := True, cresult := Some (stopped_result new_id other s' matched)\<rparr>],
                  s', True))
         | None \<Rightarrow>
             (let n = length p - keep stops p
              in (if take n p = [] then [] else [c\<lparr>ctext := take n p\<rparr>],
                  s\<lparr>pending := drop n p, emitted := emitted s @ [take n p]\<rparr>, False)))"

definition other_chunk :: "chunk \<Rightarrow> stop_state \<Rightarrow> chunk list \<times> stop_state" where
  "other_chunk c s =
     (let flush = pending s \<noteq> [] \<and> (cdone c \<or> given (ctool_calls c) \<or> creasoning c \<noteq> []);
          out = (if flush then [plain_chunk\<lparr>ctext := pending s\<rparr>] else []);
          s = (if flush then s\<lparr>pending := [], emitted := emitted s @ [pending s]\<rparr> else s);
          c = (case cresult c of
                 Some r \<Rightarrow>
                   if cdone c \<and> emitted s \<noteq> []
                   then c\<lparr>cresult := Some (r\<lparr>content := Some (concat (emitted s))\<rparr>)\<rparr> else c
               | None \<Rightarrow> c)
      in (out @ [c], s))"

fun stop_stream ::
  "outside \<Rightarrow> string list \<Rightarrow> (int \<Rightarrow> string) \<Rightarrow> dict \<Rightarrow> stop_state \<Rightarrow> chunk list \<Rightarrow> chunk list"
where
  "stop_stream ou stops new_id other s [] = []"
| "stop_stream ou stops new_id other s (c # cs) =
     (let s = note_other ou c s
      in if ctext c \<noteq> [] then
           (case text_chunk stops new_id other c s of
              (out, s', True) \<Rightarrow> out
            | (out, s', False) \<Rightarrow> out @ stop_stream ou stops new_id other s' cs)
         else (case other_chunk c s of (out, s') \<Rightarrow> out @ stop_stream ou stops new_id other s' cs))"

definition strata_stream ::
  "outside \<Rightarrow> (int \<Rightarrow> string) \<Rightarrow> dict \<Rightarrow> gen_request \<Rightarrow> chunk list \<Rightarrow> chunk list"
where
  "strata_stream ou new_id other r upstream =
     (let stops = filter (\<lambda>p. p \<noteq> []) (case stop r of None \<Rightarrow> [] | Some ps \<Rightarrow> ps)
      in if stops = [] then upstream else stop_stream ou stops new_id other new_stop_state upstream)"

text \<open>\<open>generate\<close>: without stops the adapter's own answer \<open>whole\<close>, with them the result the stream ends
  with; \<open>None\<close> is the \<open>CliError\<close> of a stream that ended without one.\<close>

definition strata_generate ::
  "outside \<Rightarrow> (int \<Rightarrow> string) \<Rightarrow> dict \<Rightarrow> gen_request \<Rightarrow> gen_result \<Rightarrow> chunk list \<Rightarrow> gen_result option"
where
  "strata_generate ou new_id other r whole upstream =
     (if \<not> given (stop r) then Some whole
      else Option.bind
             (List.find (\<lambda>c. cdone c \<and> cresult c \<noteq> None) (strata_stream ou new_id other r upstream))
             cresult)"

subsection \<open>What Strata is sent\<close>

text \<open>A seed of zero or below is refused when the caller named it and left out otherwise; the flag says
  that it was left out. \<open>Inl\<close> carries the words of the refusal, a 400.\<close>

definition strata_seed :: "gen_request \<Rightarrow> string + gen_request \<times> bool" where
  "strata_seed r =
     (case seed r of
        Some n \<Rightarrow>
          if n \<le> 0 then
            (if ''seed'' \<in> set (explicit_settings r)
             then Inl (''seed: '' @ str_int n @ '' cannot be used with Strata.'')
             else Inr (r\<lparr>seed := None\<rparr>, True))
          else Inr (r, False)
      | None \<Rightarrow> Inr (r, False))"

definition strata_effort :: "string \<Rightarrow> gen_request \<Rightarrow> gen_request" where
  "strata_effort thinking_mode r =
     (if reasoning_effort r = None \<and> thinking_mode \<in> {''off'', ''low'', ''medium'', ''high''}
      then r\<lparr>reasoning_effort := Some (if thinking_mode = ''off'' then ''none'' else thinking_mode)\<rparr>
      else r)"

definition strata_request :: "string \<Rightarrow> gen_request \<Rightarrow> string + gen_request \<times> bool" where
  "strata_request thinking_mode r = strata_seed (strata_effort thinking_mode r)"

definition strata_thinking_mode :: "string \<Rightarrow> gen_request \<Rightarrow> string" where
  "strata_thinking_mode thinking_mode r =
     (case reasoning_effort r of
        Some e \<Rightarrow> if e \<in> {''none'', ''minimal''} then ''off'' else ''auto''
      | None \<Rightarrow> thinking_mode)"

text \<open>\<open>_ctx_llama_cpp\<close> and \<open>probe_image_input\<close> read a status document; an answer other than 200 is
  \<open>None\<close>.\<close>

definition strata_context :: "json option \<Rightarrow> int option" where
  "strata_context reply =
     (case reply of
        Some (JObj b) \<Rightarrow>
          if dget b ''service'' = JStr ''strata'' \<and> dget b ''loaded'' = JBool True
          then (case dget b ''max_context'' of JInt n \<Rightarrow> if 0 < n then Some n else None | _ \<Rightarrow> None)
          else None
      | _ \<Rightarrow> None)"

definition strata_sees :: "string option \<Rightarrow> json option \<Rightarrow> bool" where
  "strata_sees upstream reply =
     (case reply of
        Some (JObj b) \<Rightarrow>
          (case dget b ''vision'' of
             JObj v \<Rightarrow>
               dget b ''service'' = JStr ''strata'' \<and>
               dget b ''model'' = (case upstream of None \<Rightarrow> JNull | Some m \<Rightarrow> JStr m) \<and>
               dget b ''loaded'' = JBool True \<and> dget v ''enabled'' = JBool True \<and>
               dget v ''available'' = JBool True \<and> \<not> truthy (dget v ''error'')
           | _ \<Rightarrow> False)
      | _ \<Rightarrow> False)"

subsection \<open>The visible text as an incremental stage\<close>

text \<open>The reference: the text up to the first place where a stop begins.\<close>

fun cut :: "string list \<Rightarrow> string \<Rightarrow> string" where
  "cut stops [] = []"
| "cut stops (c # cs) =
     (if list_ex (\<lambda>p. starts_with p (c # cs)) stops then [] else c # cut stops cs)"

text \<open>No stop lies strictly inside another, so the stop that ends first also begins first.\<close>

definition no_inside :: "string list \<Rightarrow> bool" where
  "no_inside stops \<longleftrightarrow> (\<forall>p \<in> set stops. \<forall>q \<in> set stops. \<not> contains p (butlast (tl q)))"

lemma cut_skip:
  "(\<And>j p. j < n \<Longrightarrow> p \<in> set stops \<Longrightarrow> \<not> starts_with p (drop j s)) \<Longrightarrow> n \<le> length s \<Longrightarrow>
    cut stops s = take n s @ cut stops (drop n s)"
proof (induction n arbitrary: s)
  case (Suc n)
  then obtain c cs where s: "s = c # cs" by (cases s) auto
  have "\<not> list_ex (\<lambda>p. starts_with p s) stops" using Suc.prems(1) [of 0] by (auto simp: list_ex_iff)
  moreover have "cut stops cs = take n cs @ cut stops (drop n cs)"
    using Suc.prems s by (intro Suc.IH) (fastforce dest: Suc.prems(1) [OF Suc_mono])+
  ultimately show ?case by (simp add: s)
qed simp

lemma cut_none: "(\<And>j p. p \<in> set stops \<Longrightarrow> \<not> starts_with p (drop j s)) \<Longrightarrow> cut stops s = s"
  using cut_skip [of "length s" stops s] by simp

lemma cut_at:
  assumes "p \<in> set stops" and "p \<noteq> []" and "starts_with p (drop i s)"
    and "\<And>j p. j < i \<Longrightarrow> p \<in> set stops \<Longrightarrow> \<not> starts_with p (drop j s)"
  shows "cut stops s = take i s"
proof -
  have "drop i s \<noteq> []" using assms(2,3) by (cases p) auto
  then have "cut stops (drop i s) = []" using assms(1,3) by (cases "drop i s") (auto simp: list_ex_iff)
  moreover have "i \<le> length s" using \<open>drop i s \<noteq> []\<close> by simp
  ultimately show ?thesis using cut_skip [of i stops s] assms(4) by simp
qed

lemma find_sub_None_iff:
  assumes "p \<noteq> []"
  shows "find_sub p s = None \<longleftrightarrow> (\<forall>j. \<not> starts_with p (drop j s))"
proof
  assume "\<forall>j. \<not> starts_with p (drop j s)"
  then show "find_sub p s = None" by (metis find_sub_Some_match not_None_eq)
qed (simp add: find_sub_None_no_match)

lemma set_matches: "set (matches stops s) = {(i, p). p \<in> set stops \<and> find_sub p s = Some i}"
  by (force simp: matches_def List.map_filter_def)

lemma first_match_None: "first_match stops s = None \<longleftrightarrow> (\<forall>p \<in> set stops. find_sub p s = None)"
proof -
  have "first_match stops s = None \<longleftrightarrow> set (matches stops s) = {}"
    by (cases "matches stops s") (simp_all add: first_match_def)
  then show ?thesis unfolding set_matches by (auto simp flip: not_Some_eq)
qed

lemma first_match_Some:
  assumes "first_match stops s = Some (i, p)"
  shows "p \<in> set stops" and "find_sub p s = Some i"
    and "q \<in> set stops \<Longrightarrow> find_sub q s = Some j \<Longrightarrow> i \<le> j"
proof -
  have ne: "matches stops s \<noteq> []" and m: "(i, p) = arg_min_list fst (matches stops s)"
    using assms by (auto simp: first_match_def simp del: arg_min_list.simps split: list.splits)
  have "(i, p) \<in> set (matches stops s)" using arg_min_list_in [OF ne, of fst] m by simp
  then show "p \<in> set stops" "find_sub p s = Some i" unfolding set_matches by auto
  assume "q \<in> set stops" "find_sub q s = Some j"
  then have "(j, q) \<in> set (matches stops s)" unfolding set_matches by simp
  then show "i \<le> j"
    using f_arg_min_list_f [OF ne, of fst] Min_le [of "fst ` set (matches stops s)" j] m
    by (metis fst_conv finite_imageI image_eqI List.finite_set)
qed

lemma fold_max_ge: "(x :: nat) \<in> set xs \<Longrightarrow> x \<le> fold max xs a"
  and fold_max_start: "a \<le> fold max xs (a :: nat)"
proof -
  show start: "a \<le> fold max xs a" for a :: nat and xs
  proof (induction xs arbitrary: a)
    case (Cons y ys)
    show ?case using Cons [of "max y a"] by simp
  qed simp
  show "x \<in> set xs \<Longrightarrow> x \<le> fold max xs a"
  proof (induction xs arbitrary: a)
    case (Cons y ys)
    then show ?case using start [of "max y a" ys] by (cases "x = y") auto
  qed simp
qed

text \<open>What is let go cannot be the start of a stop.\<close>

lemma keep_covers:
  assumes "p \<in> set stops" and "p \<noteq> []" and "starts_with p (drop j (s @ t))"
    and "\<not> starts_with p (drop j s)" and "j < length s"
  shows "length s - keep stops s \<le> j"
proof -
  let ?n = "length s - j"
  have short: "?n < length p"
  proof (rule ccontr)
    assume "\<not> ?n < length p"
    then have "length p \<le> length (drop j s)" by simp
    then show False using assms(3,4,5) by (simp add: starts_with_append_long)
  qed
  have "take ?n p = drop j s"
    using assms(3,5) short by (simp add: starts_with_def) (metis (no_types, lifting) append_eq_conv_conj
        length_drop less_imp_le_nat min.absorb1 take_append take_take diff_is_0_eq take0 append_Nil2 take_all_iff)
  then have "ends_with (take ?n p) s" using assms(5) by (simp add: ends_with_def)
  then have "?n \<in> set (concat (map (\<lambda>p. filter (\<lambda>n. ends_with (take n p) s)
      [1..<min (length p) (length s + 1)]) stops))"
    using assms(1,5) short by auto
  then have "?n \<le> keep stops s" unfolding keep_def by (rule fold_max_ge)
  then show ?thesis by simp
qed

lemma inside:
  assumes "starts_with q (drop j s)" and "starts_with p (drop i s)" and "j < i"
    and "i + length p < j + length q" and "p \<noteq> []"
  shows "contains p (butlast (tl q))"
proof -
  let ?d = "i - j - 1"
  have q: "q = take (length q) (drop j s)" using assms(1) by (simp add: starts_with_def)
  have "length q \<le> length (drop j s)" using starts_with_length [OF assms(1)] .
  then have inner: "butlast (tl q) = take (length q - 2) (drop (j + 1) s)"
    by (subst (1) q) (simp add: butlast_take tl_take tl_drop drop_Suc [symmetric] numeral_2_eq_2 drop_tl [symmetric])
  have "drop ?d (butlast (tl q)) = take (length q - 2 - ?d) (drop i s)"
    unfolding inner using assms(3) by (simp add: drop_take add.commute)
  moreover have "length p \<le> length q - 2 - ?d" using assms(3,4) by simp
  ultimately have "starts_with p (drop ?d (butlast (tl q)))"
    using assms(2) by (simp add: starts_with_def min_absorb1)
  then show ?thesis using find_sub_None_no_match unfolding contains_def by blast
qed

text \<open>The stage: what is pending, \<open>None\<close> once a stop has matched.\<close>

definition stop_feed :: "string list \<Rightarrow> string option \<Rightarrow> string \<Rightarrow> string \<times> string option" where
  "stop_feed stops st c =
     (case st of
        None \<Rightarrow> ([], None)
      | Some p \<Rightarrow>
          (case first_match stops (p @ c) of
             Some (i, _) \<Rightarrow> (take i (p @ c), None)
           | None \<Rightarrow>
               let n = length (p @ c) - keep stops (p @ c)
               in (take n (p @ c), Some (drop n (p @ c)))))"

definition stop_flush :: "string option \<Rightarrow> string" where
  "stop_flush st = (case st of None \<Rightarrow> [] | Some p \<Rightarrow> p)"

definition stop_owed :: "string list \<Rightarrow> string option \<Rightarrow> string \<Rightarrow> string" where
  "stop_owed stops st fut = (case st of None \<Rightarrow> [] | Some p \<Rightarrow> cut stops (p @ fut))"

definition no_stop_in :: "string list \<Rightarrow> string \<Rightarrow> bool" where
  "no_stop_in stops s \<longleftrightarrow> (\<forall>j. \<forall>p \<in> set stops. \<not> starts_with p (drop j s))"

definition stage_ok :: "string list \<Rightarrow> string option \<Rightarrow> bool" where
  "stage_ok stops st \<longleftrightarrow>
     [] \<notin> set stops \<and> no_inside stops \<and> (case st of None \<Rightarrow> True | Some p \<Rightarrow> no_stop_in stops p)"

lemma no_stop_first_match:
  "[] \<notin> set stops \<Longrightarrow> first_match stops s = None \<longleftrightarrow> no_stop_in stops s"
  by (metis first_match_None no_stop_in_def find_sub_None_iff)

lemma no_stop_in_drop: "no_stop_in stops s \<Longrightarrow> no_stop_in stops (drop n s)"
  by (simp add: no_stop_in_def)

lemma let_go_quiet:
  assumes "[] \<notin> set stops" and "no_stop_in stops s" and "p \<in> set stops"
    and "j < length s - keep stops s"
  shows "\<not> starts_with p (drop j (s @ t))"
proof
  assume "starts_with p (drop j (s @ t))"
  then have "length s - keep stops s \<le> j"
    using assms by (intro keep_covers) (auto simp: no_stop_in_def)
  then show False using assms(4) by simp
qed

lemma cut_let_go:
  assumes "[] \<notin> set stops" and "no_stop_in stops s"
  shows "cut stops (s @ t) = take (length s - keep stops s) s @ cut stops (drop (length s - keep stops s) s @ t)"
proof -
  let ?n = "length s - keep stops s"
  have "cut stops (s @ t) = take ?n (s @ t) @ cut stops (drop ?n (s @ t))"
    using let_go_quiet [OF assms] by (intro cut_skip) auto
  then show ?thesis by simp
qed

lemma no_stop_let_go:
  assumes "[] \<notin> set stops" and "no_stop_in stops s"
  shows "no_stop_in stops (s @ t) \<longleftrightarrow> no_stop_in stops (drop (length s - keep stops s) s @ t)"
proof
  let ?n = "length s - keep stops s"
  assume "no_stop_in stops (s @ t)"
  from no_stop_in_drop [OF this, of ?n] show "no_stop_in stops (drop ?n s @ t)" by simp
next
  let ?n = "length s - keep stops s"
  assume rest: "no_stop_in stops (drop ?n s @ t)"
  have "\<not> starts_with p (drop j (s @ t))" if "p \<in> set stops" for j p
  proof (cases "j < ?n")
    case True
    then show ?thesis using let_go_quiet [OF assms that] by blast
  next
    case False
    then obtain k where j: "j = ?n + k" using le_Suc_ex not_less by blast
    have "drop ?n (s @ t) = drop ?n s @ t" by simp
    then have "drop j (s @ t) = drop k (drop ?n s @ t)"
      unfolding j by (metis add.commute drop_drop)
    then show ?thesis using rest that by (simp add: no_stop_in_def del: drop_append)
  qed
  then show "no_stop_in stops (s @ t)" by (simp add: no_stop_in_def)
qed

lemma cut_matched:
  assumes "[] \<notin> set stops" and "no_inside stops" and "first_match stops s = Some (i, p)"
  shows "cut stops (s @ t) = take i s"
proof -
  note m = first_match_Some [OF assms(3)]
  have pne: "p \<noteq> []" using m(1) assms(1) by auto
  have bound: "i + length p \<le> length s" by (rule find_sub_Some_bound [OF m(2)])
  have at: "starts_with p (drop i (s @ t))"
    using find_sub_Some_match [OF m(2)] bound by (simp add: starts_with_append)
  have "\<not> starts_with q (drop j (s @ t))" if q: "q \<in> set stops" and j: "j < i" for q j
  proof
    assume s: "starts_with q (drop j (s @ t))"
    show False
    proof (cases "j + length q \<le> length s")
      case True
      then have here: "starts_with q (drop j s)"
        using s j bound by (simp add: starts_with_append_long)
      then obtain k where k: "find_sub q s = Some k" using find_sub_None_no_match by blast
      then have "k \<le> j" using find_sub_first here by (metis not_le_imp_less)
      then show False using m(3) [OF q k] j by simp
    next
      case False
      then have "contains p (butlast (tl q))"
        using inside [OF s at j _ pne] bound by simp
      then show False using assms(2) m(1) q by (auto simp: no_inside_def)
    qed
  qed
  then have "cut stops (s @ t) = take i (s @ t)" by (intro cut_at [OF m(1) pne at])
  then show ?thesis using bound by simp
qed

lemma stop_feed_correct:
  assumes "stage_ok stops st" and "stop_feed stops st c = (out, st')"
  shows "stage_ok stops st' \<and> stop_owed stops st (c @ fut) = out @ stop_owed stops st' fut"
proof (cases st)
  case (Some p)
  have ok: "[] \<notin> set stops" "no_inside stops" using assms(1) by (auto simp: stage_ok_def)
  show ?thesis
  proof (cases "first_match stops (p @ c)")
    case None
    then have "no_stop_in stops (p @ c)" using no_stop_first_match ok by blast
    then show ?thesis
      using assms(2) Some None cut_let_go [OF ok(1), of "p @ c" fut] ok
      by (auto simp: stop_feed_def stop_owed_def stage_ok_def Let_def no_stop_in_drop simp flip: drop_append)
  next
    case m: (Some ip)
    obtain i q where ip: "ip = (i, q)" by force
    then show ?thesis
      using assms(2) Some m cut_matched [OF ok, of "p @ c" i q fut] ok
      by (auto simp: stop_feed_def stop_owed_def stage_ok_def simp flip: take_append)
  qed
qed (use assms in \<open>auto simp: stop_feed_def stop_owed_def\<close>)

lemma stop_flush_owed: "stage_ok stops st \<Longrightarrow> stop_flush st = stop_owed stops st []"
  by (cases st) (auto simp: stop_flush_def stop_owed_def stage_ok_def no_stop_in_def intro!: cut_none [symmetric])

interpretation sf: incremental "stop_feed stops" stop_flush "stop_owed stops" "stage_ok stops"
  by unfold_locales (auto simp: stop_flush_owed dest: stop_feed_correct)

lemma run_stopped: "run_stream (stop_feed stops) stop_flush None cs = []"
  by (induction cs) (simp_all add: stop_feed_def stop_flush_def)

lemma stop_feed_quiet:
  assumes "p @ c = q" and "first_match stops q = None" and "length q - keep stops q = n"
  shows "stop_feed stops (Some p) c = (take n q, Some (drop n q))"
  using assms by (simp add: stop_feed_def Let_def)

lemma stop_feed_stop:
  assumes "p @ c = q" and "first_match stops q = Some (i, m)"
  shows "stop_feed stops (Some p) c = (take i q, None)"
  using assms by (simp add: stop_feed_def)

subsection \<open>The stream of chunks\<close>

definition shown :: "chunk list \<Rightarrow> string" where
  "shown cs = concat (map ctext cs)"

text \<open>A chunk of text alone, and the last chunk of a stream.\<close>

definition text_only :: "chunk \<Rightarrow> bool" where
  "text_only c \<longleftrightarrow> ctext c \<noteq> [] \<and> creasoning c = [] \<and> \<not> given (ctool_calls c) \<and> \<not> cdone c"

definition ends_with_result :: "chunk \<Rightarrow> gen_result \<Rightarrow> bool" where
  "ends_with_result c r \<longleftrightarrow> ctext c = [] \<and> creasoning c = [] \<and> \<not> given (ctool_calls c) \<and> cdone c \<and> cresult c = Some r"

lemma shown_simps [simp]: "shown [] = []" "shown (c # cs) = ctext c @ shown cs" "shown (cs @ ds) = shown cs @ shown ds"
  by (simp_all add: shown_def)

lemma note_other_text: "text_only c \<or> ends_with_result c r \<Longrightarrow> note_other ou c s = s"
  by (auto simp: note_other_def text_only_def ends_with_result_def)

lemma plain_done: "ctext (plain_chunk\<lparr>cdone := b, cresult := x\<rparr>) = []"
  by (simp add: plain_chunk_def)

text \<open>What the last chunk says when the stream began in state \<open>s\<close> and the text to come is \<open>t\<close>.\<close>

definition right_end :: "string list \<Rightarrow> stop_state \<Rightarrow> string \<Rightarrow> gen_result \<Rightarrow> gen_result \<Rightarrow> bool" where
  "right_end stops s t r r' \<longleftrightarrow>
     (let v = cut stops (pending s @ t)
      in content r' = Some (concat (emitted s) @ v) \<and>
         (if no_stop_in stops (pending s @ t) then r' = r\<lparr>content := Some (concat (emitted s) @ v)\<rparr>
          else finish_reason r' = ''stop'' \<and>
            (\<exists>p \<in> set stops. stop_sequence r' = Some p \<and> starts_with p (drop (length v) (pending s @ t)))))"

lemma text_chunk_quiet:
  assumes "pending s @ ctext c = q" and "first_match stops q = None" and "length q - keep stops q = n"
  shows "text_chunk stops new_id other c s =
    (if take n q = [] then [] else [c\<lparr>ctext := take n q\<rparr>],
     s\<lparr>pending := drop n q, emitted := emitted s @ [take n q]\<rparr>, False)"
  using assms(2,3) by (simp add: text_chunk_def assms(1) Let_def)

lemma text_chunk_stop:
  assumes "pending s @ ctext c = q" and "first_match stops q = Some (i, p)"
  shows "text_chunk stops new_id other c s =
    (let s' = s\<lparr>pending := q, emitted := emitted s @ [take i q]\<rparr>
     in ((if take i q = [] then [] else [c\<lparr>ctext := take i q\<rparr>]) @
         [plain_chunk\<lparr>cdone := True, cresult := Some (stopped_result new_id other s' p)\<rparr>], s', True))"
  using assms(2) by (simp add: text_chunk_def assms(1) Let_def)

lemma text_stream:
  assumes "stage_ok stops (Some (pending s))" and "\<forall>c \<in> set cs. text_only c"
    and "ends_with_result d r" and "cs \<noteq> [] \<or> emitted s \<noteq> []"
  shows "\<exists>out last r'. stop_stream ou stops new_id other s (cs @ [d]) = out @ [last] \<and>
    cdone last \<and> cresult last = Some r' \<and> right_end stops s (shown cs) r r'"
  using assms
proof (induction cs arbitrary: s)
  case Nil
  have p: "no_stop_in stops (pending s)" using Nil.prems(1) by (simp add: stage_ok_def)
  then have "cut stops (pending s) = pending s"
    by (intro cut_none) (simp add: no_stop_in_def)
  then show ?case
    using Nil.prems(3,4) p
    by (auto simp: note_other_text [of d r] ends_with_result_def other_chunk_def right_end_def
        plain_chunk_def Let_def)
next
  case (Cons c cs)
  obtain q where q: "pending s @ ctext c = q" by simp
  have q': "pending s @ ctext c @ x = q @ x" for x using q by (metis append.assoc)
  have c: "text_only c" "ctext c \<noteq> []" using Cons.prems(2) by (simp_all add: text_only_def)
  have ok: "[] \<notin> set stops" "no_inside stops" using Cons.prems(1) by (simp_all add: stage_ok_def)
  show ?case
  proof (cases "first_match stops q")
    case None
    obtain n where n: "length q - keep stops q = n" by simp
    let ?s = "s\<lparr>pending := drop n q, emitted := emitted s @ [take n q]\<rparr>"
    let ?out = "if take n q = [] then [] else [c\<lparr>ctext := take n q\<rparr>]"
    have quiet: "no_stop_in stops q" using None no_stop_first_match ok by blast
    have st: "stage_ok stops (Some (pending ?s))"
      using quiet ok by (simp add: stage_ok_def no_stop_in_drop)
    obtain out last r' where ih: "stop_stream ou stops new_id other ?s (cs @ [d]) = out @ [last]"
        "cdone last" "cresult last = Some r'" "right_end stops ?s (shown cs) r r'"
      using Cons.IH [of ?s] st Cons.prems by auto
    have le: "n \<le> length q" using n by simp
    have "drop n (q @ x) = drop n q @ x" for x using le by simp
    then have dr: "drop (n + k) (q @ x) = drop k (drop n q @ x)" for k x by (metis add.commute drop_drop)
    note cutq = cut_let_go [OF ok(1) quiet, unfolded n]
    have "stop_stream ou stops new_id other s ((c # cs) @ [d]) = ?out @ out @ [last]"
      using ih(1) c text_chunk_quiet [OF q None n] by (simp add: note_other_text [of c] Let_def)
    moreover have "right_end stops s (shown (c # cs)) r r'"
      using ih(4) no_stop_let_go [OF ok(1) quiet, of "shown cs", unfolded n]
      by (cases "no_stop_in stops (drop n q @ shown cs)")
        (simp_all add: right_end_def Let_def q' cutq dr le min_absorb2 del: drop_append)
    ultimately show ?thesis using ih(2,3)
      by (intro exI [of _ "?out @ out"] exI [of _ last] exI [of _ r']) simp
  next
    case (Some ip)
    obtain i p where ip: "first_match stops q = Some (i, p)" using Some by force
    let ?s = "s\<lparr>pending := q, emitted := emitted s @ [take i q]\<rparr>"
    let ?out = "if take i q = [] then [] else [c\<lparr>ctext := take i q\<rparr>]"
    let ?last = "plain_chunk\<lparr>cdone := True, cresult := Some (stopped_result new_id other ?s p)\<rparr>"
    note m = first_match_Some [OF ip]
    have cutq: "cut stops (q @ shown cs) = take i q" by (rule cut_matched [OF ok ip])
    have bound: "i + length p \<le> length q" by (rule find_sub_Some_bound [OF m(2)])
    have at: "starts_with p (drop i (q @ shown cs))"
      using find_sub_Some_match [OF m(2)] bound by (simp add: starts_with_append)
    then have "\<not> no_stop_in stops (q @ shown cs)" using m(1) by (auto simp: no_stop_in_def)
    moreover have "length (take i q) = i" using bound by simp
    ultimately have "right_end stops s (shown (c # cs)) r (stopped_result new_id other ?s p)"
      using at m(1) by (simp add: right_end_def stopped_result_def Let_def q' cutq del: drop_append)
    moreover have "stop_stream ou stops new_id other s ((c # cs) @ [d]) = ?out @ [?last]"
      using c text_chunk_stop [OF q ip] by (simp add: note_other_text [of c] Let_def)
    ultimately show ?thesis
      by (intro exI [of _ ?out] exI [of _ ?last] exI [of _ "stopped_result new_id other ?s p"])
        (simp add: plain_chunk_def)
  qed
qed

text \<open>What the caller sees of a stream of text is the output of the incremental stage.\<close>

lemma shown_text_stream:
  assumes "\<forall>c \<in> set cs. text_only c" and "ends_with_result d r"
  shows "shown (stop_stream ou stops new_id other s (cs @ [d])) =
    run_stream (stop_feed stops) stop_flush (Some (pending s)) (map ctext cs)"
  using assms
proof (induction cs arbitrary: s)
  case Nil
  then show ?case
    by (auto simp: note_other_text [of d r] ends_with_result_def other_chunk_def stop_flush_def
        plain_chunk_def Let_def)
next
  case (Cons c cs)
  obtain q where q: "pending s @ ctext c = q" by simp
  have c: "text_only c" "ctext c \<noteq> []" using Cons.prems(1) by (simp_all add: text_only_def)
  have rest: "\<forall>c \<in> set cs. text_only c" using Cons.prems(1) by simp
  show ?case
  proof (cases "first_match stops q")
    case None
    obtain n where n: "length q - keep stops q = n" by simp
    show ?thesis
      using c text_chunk_quiet [OF q None n] Cons.IH [OF rest Cons.prems(2)]
      by (simp add: note_other_text [of c] stop_feed_quiet [OF q None n] Let_def)
  next
    case (Some ip)
    obtain i p where ip: "first_match stops q = Some (i, p)" using Some by force
    show ?thesis
      using c text_chunk_stop [OF q ip]
      by (simp add: note_other_text [of c] stop_feed_stop [OF q ip] run_stopped plain_chunk_def Let_def)
  qed
qed

text \<open>C35. However Strata's stream cuts its text into chunks, the caller sees the text up to the first place
  where a stop begins and no more, the result at the end has that text, and it names a stop that
  begins there; without a stop the text and the result come through as they are. No stop may lie
  strictly inside another.\<close>

theorem strata_stops:
  assumes "stop r = Some ps" and "filter (\<lambda>p. p \<noteq> []) ps = stops" and "stops \<noteq> []" and "no_inside stops"
    and "\<forall>c \<in> set cs. text_only c" and "cs \<noteq> []" and "ends_with_result d res"
  shows "\<exists>out last res'. strata_stream ou new_id other r (cs @ [d]) = out @ [last] \<and>
    shown (out @ [last]) = cut stops (shown cs) \<and> cresult last = Some res' \<and>
    content res' = Some (cut stops (shown cs)) \<and>
    (if no_stop_in stops (shown cs) then res' = res\<lparr>content := Some (shown cs)\<rparr>
     else \<exists>p \<in> set stops. stop_sequence res' = Some p \<and>
       starts_with p (drop (length (cut stops (shown cs))) (shown cs)))"
proof -
  have "[] \<notin> set stops" using assms(2) by auto
  then have ok: "stage_ok stops (Some [])"
    using assms(4) by (auto simp: stage_ok_def no_stop_in_def starts_with_def)
  then have "shown (stop_stream ou stops new_id other new_stop_state (cs @ [d])) = cut stops (shown cs)"
    unfolding shown_text_stream [OF assms(5,7)]
    by (simp add: new_stop_state_def sf.run_owed stop_owed_def shown_def)
  moreover obtain out last res' where o:
    "stop_stream ou stops new_id other new_stop_state (cs @ [d]) = out @ [last]"
    "cresult last = Some res'" "right_end stops new_stop_state (shown cs) res res'"
    using text_stream [OF _ assms(5,7), where s = new_stop_state] ok assms(6) by (force simp: new_stop_state_def)
  moreover have "cut stops (shown cs) = shown cs" if "no_stop_in stops (shown cs)"
    using that by (intro cut_none) (simp add: no_stop_in_def)
  ultimately show ?thesis
    using assms(1-3)
    by (intro exI [of _ out] exI [of _ last] exI [of _ res'])
      (simp add: strata_stream_def right_end_def new_stop_state_def Let_def split: if_splits)
qed

text \<open>With a stop inside another the visible text depends on the chunks.\<close>

lemma stops_inside_depend_on_chunks:
  "shown (stop_stream ou [''abc'', ''b''] new_id [] new_stop_state
      [plain_chunk\<lparr>ctext := ''xabc''\<rparr>]) = ''x''"
  "shown (stop_stream ou [''abc'', ''b''] new_id [] new_stop_state
      [plain_chunk\<lparr>ctext := ''xab''\<rparr>, plain_chunk\<lparr>ctext := ''c''\<rparr>]) = ''xa''"
  by code_simp+

theorem strata_stops_witness:
  "\<exists>out last res'. strata_stream demo_out (\<lambda>_. []) [] (demo_request\<lparr>stop := Some [''END'', []]\<rparr>)
      [plain_chunk\<lparr>ctext := ''a E''\<rparr>, plain_chunk\<lparr>ctext := ''ND b''\<rparr>,
       plain_chunk\<lparr>cdone := True, cresult := Some (stopped_result (\<lambda>_. []) [] new_stop_state [])\<rparr>] =
      out @ [last] \<and> shown (out @ [last]) = ''a '' \<and> cresult last = Some res' \<and> content res' = Some ''a ''"
proof -
  let ?cs = "[plain_chunk\<lparr>ctext := ''a E''\<rparr>, plain_chunk\<lparr>ctext := ''ND b''\<rparr>]"
  let ?r = "stopped_result (\<lambda>_. []) [] new_stop_state []"
  let ?d = "plain_chunk\<lparr>cdone := True, cresult := Some ?r\<rparr>"
  have "no_inside [''END'']" "\<forall>c \<in> set ?cs. text_only c" "ends_with_result ?d ?r"
    by (simp_all add: no_inside_def contains_def text_only_def plain_chunk_def given_def ends_with_result_def)
  moreover have "cut [''END''] (shown ?cs) = ''a ''" by (simp add: plain_chunk_def)
  ultimately show ?thesis
    using strata_stops [of "demo_request\<lparr>stop := Some [''END'', []]\<rparr>" "[''END'', []]" "[''END'']" ?cs ?d ?r
        demo_out "\<lambda>_. []" "[]"]
    by fastforce
qed

subsection \<open>The whole answer and the stream\<close>

text \<open>\<open>emitted\<close> is not empty once text has come.\<close>

definition said_something :: "stop_state \<Rightarrow> bool" where
  "said_something s \<longleftrightarrow> (pending s = [] \<or> emitted s \<noteq> [])"

lemma note_other_same [simp]: "pending (note_other ou c s) = pending s" "emitted (note_other ou c s) = emitted s"
  by (simp_all add: note_other_def Let_def)

lemma other_chunk_running:
  assumes "\<not> cdone c" and "ctext c = []" and "said_something s" and "other_chunk c s = (out, s')"
  shows "said_something s' \<and> (emitted s' \<noteq> [] \<longleftrightarrow> emitted s \<noteq> []) \<and> (\<forall>c \<in> set out. \<not> cdone c) \<and>
    concat (emitted s') = concat (emitted s) @ shown out"
proof (cases "pending s \<noteq> [] \<and> (given (ctool_calls c) \<or> creasoning c \<noteq> [])")
  case True
  then show ?thesis
    using assms by (auto simp: other_chunk_def said_something_def plain_chunk_def Let_def split: option.splits)
next
  case False
  then show ?thesis
    using assms by (auto simp: other_chunk_def Let_def split: option.splits)
qed

lemma stream_content:
  assumes "said_something s" and "\<forall>c \<in> set cs. \<not> cdone c" and "cdone d" and "ctext d = []"
    and "cresult d = Some r"
  shows "\<exists>out last r'. stop_stream ou stops new_id other s (cs @ [d]) = out @ [last] \<and>
    (\<forall>c \<in> set out. \<not> cdone c) \<and> cdone last \<and> cresult last = Some r' \<and>
    content r' = (if emitted s \<noteq> [] \<or> (\<exists>c \<in> set cs. ctext c \<noteq> [])
                  then Some (concat (emitted s) @ shown (out @ [last])) else content r)"
  using assms(1,2)
proof (induction cs arbitrary: s)
  case Nil
  then show ?case
    using assms(3-5) by (auto simp: said_something_def other_chunk_def plain_chunk_def Let_def)
next
  case (Cons c cs)
  let ?s = "note_other ou c s"
  have rest: "\<forall>c \<in> set cs. \<not> cdone c" and c: "\<not> cdone c" using Cons.prems(2) by simp_all
  show ?case
  proof (cases "ctext c = []")
    case True
    obtain o1 s1 where o: "other_chunk c ?s = (o1, s1)" by force
    have "said_something ?s" using Cons.prems(1) by (simp add: said_something_def)
    from other_chunk_running [OF c True this o]
    have s1: "said_something s1" "emitted s1 \<noteq> [] \<longleftrightarrow> emitted s \<noteq> []" "\<forall>c \<in> set o1. \<not> cdone c"
        "concat (emitted s1) = concat (emitted s) @ shown o1" by simp_all
    from Cons.IH [OF s1(1) rest] obtain out last r' where ih:
        "stop_stream ou stops new_id other s1 (cs @ [d]) = out @ [last]" "\<forall>c \<in> set out. \<not> cdone c"
        "cdone last" "cresult last = Some r'"
        "content r' = (if emitted s1 \<noteq> [] \<or> (\<exists>c \<in> set cs. ctext c \<noteq> [])
                  then Some (concat (emitted s1) @ shown (out @ [last])) else content r)" by blast
    then show ?thesis
      using True o s1
      by (intro exI [of _ "o1 @ out"] exI [of _ last] exI [of _ r']) auto
  next
    case says: False
    obtain o1 s1 fin where o: "text_chunk stops new_id other c ?s = (o1, s1, fin)" by (metis prod_cases3)
    show ?thesis
    proof (cases fin)
      case True
      then show ?thesis
        using o says c
        by (auto simp: text_chunk_def plain_chunk_def stopped_result_def Let_def split: option.splits if_splits)
    next
      case False
      have s1: "said_something s1" "emitted s1 \<noteq> []" "\<forall>c \<in> set o1. \<not> cdone c"
          "concat (emitted s1) = concat (emitted s) @ shown o1"
        using o c False
        by (auto simp: text_chunk_def said_something_def Let_def split: option.splits if_splits prod.splits)
      from Cons.IH [OF s1(1) rest] obtain out last r' where ih:
          "stop_stream ou stops new_id other s1 (cs @ [d]) = out @ [last]" "\<forall>c \<in> set out. \<not> cdone c"
          "cdone last" "cresult last = Some r'"
          "content r' = Some (concat (emitted s1) @ shown (out @ [last]))" using s1(2) by auto
      then show ?thesis
        using says o False s1
        by (intro exI [of _ "o1 @ out"] exI [of _ last] exI [of _ r']) auto
    qed
  qed
qed

lemma find_last: "\<forall>x \<in> set xs. \<not> P x \<Longrightarrow> P y \<Longrightarrow> List.find P (xs @ [y]) = Some y"
  by (induction xs) auto

lemma strata_answers:
  assumes "stop r = Some ps" and "\<exists>p \<in> set ps. p \<noteq> []" and "\<forall>c \<in> set cs. \<not> cdone c"
    and "cdone d" and "ctext d = []" and "cresult d = Some res"
  obtains out last res' where "strata_stream ou new_id other r (cs @ [d]) = out @ [last]"
    and "\<forall>c \<in> set out. \<not> cdone c" and "cdone last" and "cresult last = Some res'"
    and "content res' = (if \<exists>c \<in> set cs. ctext c \<noteq> [] then Some (shown (out @ [last])) else content res)"
proof -
  let ?stops = "filter (\<lambda>p. p \<noteq> []) ps"
  have stops: "?stops \<noteq> []" using assms(2) by (auto simp: filter_empty_conv)
  have start: "said_something new_stop_state" "emitted new_stop_state = []"
    by (simp_all add: said_something_def new_stop_state_def)
  show ?thesis
    using stream_content [OF start(1) assms(3-6), of ou ?stops new_id other] start(2) stops assms(1) that
    by (auto simp: strata_stream_def Let_def)
qed

text \<open>A chunk that carries text carries nothing else; the stream keeps it so.\<close>

definition one_kind :: "chunk \<Rightarrow> bool" where
  "one_kind c \<longleftrightarrow> (ctext c \<noteq> [] \<longrightarrow> \<not> cdone c \<and> creasoning c = [] \<and> \<not> given (ctool_calls c) \<and>
     cprogress c = None \<and> caudio c = None \<and> \<not> given (cannotations c))"

text \<open>What the two steps of the filter keep, the stream keeps.\<close>

lemma stream_keeps:
  assumes "\<forall>c \<in> set cs. Q c"
    and "\<And>c s. Q c \<Longrightarrow> ctext c = [] \<Longrightarrow> \<forall>x \<in> set (fst (other_chunk c s)). Q x"
    and "\<And>c s. Q c \<Longrightarrow> ctext c \<noteq> [] \<Longrightarrow> \<forall>x \<in> set (fst (text_chunk stops new_id other c s)). Q x"
  shows "\<forall>c \<in> set (stop_stream ou stops new_id other s cs). Q c"
  using assms(1)
proof (induction cs arbitrary: s)
  case (Cons c cs)
  show ?case
  proof (cases "ctext c = []")
    case True
    obtain o1 s1 where o: "other_chunk c (note_other ou c s) = (o1, s1)" by force
    then have "\<forall>x \<in> set o1. Q x" using assms(2) [of c] Cons.prems True by (metis fst_conv list.set_intros(1))
    then show ?thesis using Cons True o by (auto simp: Let_def)
  next
    case False
    obtain o1 s1 fin where o: "text_chunk stops new_id other c (note_other ou c s) = (o1, s1, fin)"
      by (metis prod_cases3)
    then have "\<forall>x \<in> set o1. Q x" using assms(3) [of c] Cons.prems False by (metis fst_conv list.set_intros(1))
    then show ?thesis using Cons False o by (cases fin) (auto simp: Let_def)
  qed
qed simp

lemma stream_one_kind:
  "\<forall>c \<in> set cs. one_kind c \<Longrightarrow> \<forall>c \<in> set (stop_stream ou stops new_id other s cs). one_kind c"
  by (erule stream_keeps)
    (auto simp: other_chunk_def text_chunk_def one_kind_def plain_chunk_def given_def Let_def split: option.splits)

lemma stream_no_progress:
  "\<forall>c \<in> set cs. cprogress c = None \<Longrightarrow> \<forall>c \<in> set (stop_stream ou stops new_id other s cs). cprogress c = None"
  by (erule stream_keeps)
    (auto simp: other_chunk_def text_chunk_def plain_chunk_def Let_def split: option.splits)

text \<open>With stops the whole answer is the stream's: whatever chunks the backend sent before its last, the
  stream has one last chunk, the answer is the result in it, and its content is the text the chunks
  showed, or the backend's own when it sent no text.\<close>

lemma strata_whole_is_stream:
  assumes "stop r = Some ps" and "\<exists>p \<in> set ps. p \<noteq> []" and "\<forall>c \<in> set cs. \<not> cdone c"
    and "cdone d" and "ctext d = []" and "cresult d = Some res"
  shows "\<exists>out last res'. strata_stream ou new_id other r (cs @ [d]) = out @ [last] \<and>
    (\<forall>c \<in> set out. \<not> cdone c) \<and> cdone last \<and> cresult last = Some res' \<and>
    strata_generate ou new_id other r whole (cs @ [d]) = Some res' \<and>
    content res' = (if \<exists>c \<in> set cs. ctext c \<noteq> [] then Some (shown (out @ [last])) else content res)"
proof -
  obtain out last res' where o: "strata_stream ou new_id other r (cs @ [d]) = out @ [last]"
      "\<forall>c \<in> set out. \<not> cdone c" "cdone last" "cresult last = Some res'"
      "content res' = (if \<exists>c \<in> set cs. ctext c \<noteq> [] then Some (shown (out @ [last])) else content res)"
    by (rule strata_answers [OF assms, of ou new_id other])
  moreover have "given (stop r)" using assms(1,2) by (auto simp: given_def)
  then have "strata_generate ou new_id other r whole (cs @ [d]) = Some res'"
    using o(2-4) find_last [of out "\<lambda>c. cdone c \<and> cresult c \<noteq> None" last]
    by (simp add: strata_generate_def o(1))
  ultimately show ?thesis by blast
qed

lemma strata_whole_is_stream_witness:
  "\<exists>res'. strata_generate demo_out (\<lambda>_. []) [] (demo_request\<lparr>stop := Some [''END'']\<rparr>)
      (stopped_result (\<lambda>_. []) [] new_stop_state [])
      [plain_chunk\<lparr>ctext := ''a E''\<rparr>, plain_chunk\<lparr>creasoning := ''hm''\<rparr>, plain_chunk\<lparr>ctext := ''ND b''\<rparr>,
       plain_chunk\<lparr>cdone := True, cresult := Some (stopped_result (\<lambda>_. []) [] new_stop_state [])\<rparr>] =
      Some res' \<and> content res' \<noteq> None"
proof -
  let ?cs = "[plain_chunk\<lparr>ctext := ''a E''\<rparr>, plain_chunk\<lparr>creasoning := ''hm''\<rparr>, plain_chunk\<lparr>ctext := ''ND b''\<rparr>]"
  let ?r = "stopped_result (\<lambda>_. []) [] new_stop_state []"
  let ?d = "plain_chunk\<lparr>cdone := True, cresult := Some ?r\<rparr>"
  have "\<forall>c \<in> set ?cs. \<not> cdone c" "cdone ?d" "ctext ?d = []" "cresult ?d = Some ?r"
    "\<exists>c \<in> set ?cs. ctext c \<noteq> []"
    by (simp_all add: plain_chunk_def)
  then show ?thesis
    using strata_whole_is_stream [of "demo_request\<lparr>stop := Some [''END'']\<rparr>" "[''END'']" ?cs ?d ?r
        demo_out "\<lambda>_. []" "[]" ?r]
    by fastforce
qed

end
