(* ===== verification/Body_Limit.thy ===== *)
theory Body_Limit
  imports Media_Out
begin

text \<open>
  The bound on request bodies (\<open>body_limit.py\<close>): a body is read whole before the application sees any of it, and
  one that is too large, by its declared length or by its bytes, never reaches it. What a server sends is a list
  of events; the end of the list is a server that sends nothing more.
\<close>

datatype event = Disconnect | Request bytes bool

record scope =
  scope_type :: string
  scope_path :: string
  scope_headers :: "(string \<times> string) list"

record body_limit =
  limited_paths :: "string set"
  own_limits :: "(string \<times> nat) list"

definition MAX_BODY_BYTES :: nat where "MAX_BODY_BYTES = 16 * 1024 * 1024"

text \<open>The limit of a request, \<open>None\<close> for one that is passed on as it is.\<close>

definition limit_for :: "body_limit \<Rightarrow> scope \<Rightarrow> nat option" where
  "limit_for g s =
     (if scope_type s \<noteq> ''http'' then None
      else case map_of (own_limits g) (scope_path s) of
        Some n \<Rightarrow> Some n
      | None \<Rightarrow> if scope_path s \<in> limited_paths g then Some MAX_BODY_BYTES else None)"

text \<open>\<open>bytes.isdigit\<close>, and what a declared length may be.\<close>

definition ascii_digits :: "string \<Rightarrow> bool" where
  "ascii_digits v \<longleftrightarrow> v \<noteq> [] \<and> list_all is_digit v"

definition may_declare :: "nat \<Rightarrow> string \<Rightarrow> bool" where
  "may_declare limit v \<longleftrightarrow>
     (let significant = dropWhile (\<lambda>c. c = CHR ''0'') v
      in length significant \<le> 10 \<and> digits_value significant \<le> limit)"

definition lengths_ok :: "nat \<Rightarrow> (string \<times> string) list \<Rightarrow> bool" where
  "lengths_ok limit hs \<longleftrightarrow>
     list_all (\<lambda>(k, v). k = ''content-length'' \<and> ascii_digits v \<longrightarrow> may_declare limit v) hs"

text \<open>The loop that reads the body: nothing more comes, the caller left, the body is too large, or it is whole, and
  the events after it.\<close>

datatype gathered = Waiting | Gone | TooLarge | Whole bytes "event list"

fun gather :: "nat \<Rightarrow> bytes \<Rightarrow> event list \<Rightarrow> gathered" where
  "gather limit body [] = Waiting"
| "gather limit body (Disconnect # es) = Gone"
| "gather limit body (Request piece go_on # es) =
     (if limit < length body + length piece then TooLarge
      else if go_on then gather limit (body @ piece) es
      else Whole (body @ piece) es)"

text \<open>What becomes of a request: the application is called with the events it can receive, or it is refused (413)
  with the words, or nothing is answered.\<close>

datatype passed = ToApp "event list" | Refuse413 string | Nothing_sent

definition refusal_text :: "body_limit \<Rightarrow> scope \<Rightarrow> nat \<Rightarrow> string" where
  "refusal_text g s limit =
     ''body: exceeds the '' @
     (if map_of (own_limits g) (scope_path s) \<noteq> None then str_int (int (limit div (1024 * 1024))) @ '' MiB'' else ''16 MiB'') @
     '' request limit; resize or remove attachments.''"

definition limit_body :: "body_limit \<Rightarrow> scope \<Rightarrow> event list \<Rightarrow> passed" where
  "limit_body g s es =
     (case limit_for g s of
        None \<Rightarrow> ToApp es
      | Some limit \<Rightarrow>
          if \<not> lengths_ok limit (scope_headers s) then Refuse413 (refusal_text g s limit)
          else (case gather limit [] es of
            Whole body later \<Rightarrow> ToApp (Request body False # later)
          | TooLarge \<Rightarrow> Refuse413 (refusal_text g s limit)
          | _ \<Rightarrow> Nothing_sent))"

subsection \<open>What reaches the application\<close>

lemma digits_value_snoc: "digits_value (ds @ [c]) = 10 * digits_value ds + (of_char c - 48)"
  by (simp add: digits_value_def)

lemma fold_digits: "foldl (\<lambda>n c. 10 * n + (of_char c - 48)) k ds = k * 10 ^ length ds + digits_value ds"
proof (induction ds rule: rev_induct)
  case (snoc c ds)
  then show ?case by (simp add: digits_value_snoc algebra_simps)
qed (simp add: digits_value_def)

lemma digits_value_Cons: "digits_value (c # ds) = (of_char c - 48) * 10 ^ length ds + digits_value ds"
  using fold_digits [of "of_char c - 48" ds] by (simp add: digits_value_def)

lemma leading_zeros: "digits_value (dropWhile (\<lambda>c. c = CHR ''0'') v) = digits_value v"
  by (induction v) (simp_all add: digits_value_Cons)

lemma digit_positive: "is_digit c \<Longrightarrow> c \<noteq> CHR ''0'' \<Longrightarrow> 1 \<le> (of_char c :: nat) - 48"
proof -
  assume d: "is_digit c" and "c \<noteq> CHR ''0''"
  then have "(of_char c :: nat) \<noteq> of_char (CHR ''0'')" by (simp only: of_char_eq_iff not_False_eq_True)
  moreover have "(of_char (CHR ''0'') :: nat) = 48" by simp
  moreover have "48 \<le> (of_char c :: nat)" using d by (simp add: is_digit_def Let_def)
  ultimately have "48 < (of_char c :: nat)" by linarith
  then show ?thesis by linarith
qed

lemma long_is_large:
  assumes "list_all is_digit v" and "10 < length (dropWhile (\<lambda>c. c = CHR ''0'') v)"
  shows "10 ^ 10 \<le> digits_value v"
proof -
  let ?s = "dropWhile (\<lambda>c. c = CHR ''0'') v"
  obtain c cs where s: "?s = c # cs" using assms(2) by (cases ?s) auto
  then have "c \<noteq> CHR ''0''" using hd_dropWhile [of "\<lambda>c. c = CHR ''0''" v] by auto
  moreover have "c \<in> set v" using s set_dropWhileD [of c "\<lambda>c. c = CHR ''0''" v] by simp
  with assms(1) have "is_digit c" by (simp add: list_all_iff)
  ultimately have "1 * 10 ^ 10 \<le> ((of_char c :: nat) - 48) * 10 ^ length cs"
    using assms(2) s by (intro mult_le_mono digit_positive power_increasing) auto
  also have "\<dots> \<le> digits_value ?s" by (simp add: s digits_value_Cons)
  finally show ?thesis by (simp add: leading_zeros)
qed

lemma may_declare_iff:
  assumes "list_all is_digit v" and "limit < 10 ^ 10"
  shows "may_declare limit v \<longleftrightarrow> digits_value v \<le> limit"
proof (cases "10 < length (dropWhile (\<lambda>c. c = CHR ''0'') v)")
  case True
  then show ?thesis using long_is_large [OF assms(1)] assms(2) by (auto simp: may_declare_def Let_def)
qed (simp add: may_declare_def Let_def leading_zeros)

lemma gather_pieces:
  "gather limit body (map (\<lambda>b. Request b True) bs @ Request b False # later) =
     (if length (body @ concat bs @ b) \<le> limit then Whole (body @ concat bs @ b) later else TooLarge)"
  by (induction bs arbitrary: body) auto

lemma gather_bounded: "gather limit body es = Whole whole later \<Longrightarrow> length body \<le> limit \<Longrightarrow> length whole \<le> limit"
  by (induction limit body es rule: gather.induct) (auto split: if_splits)

lemma gather_cut:
  "tail = [] \<or> hd tail = Disconnect \<Longrightarrow> length body \<le> limit \<Longrightarrow>
    gather limit body (map (\<lambda>b. Request b True) bs @ tail) =
      (if limit < length (body @ concat bs) then TooLarge else if tail = [] then Waiting else Gone)"
proof (induction bs arbitrary: body)
  case Nil
  then show ?case by (cases tail) auto
next
  case (Cons b bs)
  then show ?case using Cons.IH [of "body @ b"] by auto
qed

text \<open>Every list of events is pieces with more to come, then the last piece, a caller who leaves, or nothing.\<close>

lemma events_split:
  obtains bs b later where "es = map (\<lambda>b. Request b True) bs @ Request b False # later"
    | bs tail where "es = map (\<lambda>b. Request b True) bs @ tail" "tail = [] \<or> hd tail = Disconnect"
proof (induction es arbitrary: thesis)
  case Nil
  then show ?case by (metis append_Nil2 list.map_disc_iff)
next
  case (Cons e es)
  show ?case
  proof (cases e)
    case Disconnect
    then show ?thesis using Cons.prems(2) [of "[]" "e # es"] by simp
  next
    case (Request b go_on)
    show ?thesis
    proof (cases go_on)
      case False
      then show ?thesis using Cons.prems(1) [of "[]" b es] Request by simp
    next
      case True
      show ?thesis
      proof (rule Cons.IH)
        fix bs c later
        assume "es = map (\<lambda>b. Request b True) bs @ Request c False # later"
        then show thesis using Cons.prems(1) [of "b # bs" c later] Request True by simp
      next
        fix bs tail
        assume "es = map (\<lambda>b. Request b True) bs @ tail" "tail = [] \<or> hd tail = Disconnect"
        then show thesis using Cons.prems(2) [of "b # bs" tail] Request True by simp
      qed
    qed
  qed
qed

definition declares_at_most :: "nat \<Rightarrow> scope \<Rightarrow> bool" where
  "declares_at_most limit s \<longleftrightarrow>
     (\<forall>v. (''content-length'', v) \<in> set (scope_headers s) \<and> ascii_digits v \<longrightarrow> digits_value v \<le> limit)"

lemma lengths_declared: "limit < 10 ^ 10 \<Longrightarrow> lengths_ok limit (scope_headers s) \<longleftrightarrow> declares_at_most limit s"
  using may_declare_iff [of _ limit] by (auto simp: lengths_ok_def list_all_iff ascii_digits_def declares_at_most_def)

lemma limit_whole:
  assumes "limit_for g s = Some limit" and "limit < 10 ^ 10"
  shows "limit_body g s (map (\<lambda>b. Request b True) bs @ Request b False # later) =
    (if declares_at_most limit s \<and> length (concat bs @ b) \<le> limit then ToApp (Request (concat bs @ b) False # later)
     else Refuse413 (refusal_text g s limit))"
  using assms by (simp add: limit_body_def gather_pieces lengths_declared)

lemma limit_cut:
  assumes "limit_for g s = Some limit" and "limit < 10 ^ 10" and "tail = [] \<or> hd tail = Disconnect"
  shows "limit_body g s (map (\<lambda>b. Request b True) bs @ tail) =
    (if declares_at_most limit s \<and> length (concat bs) \<le> limit then Nothing_sent
     else Refuse413 (refusal_text g s limit))"
  using assms by (simp add: limit_body_def gather_cut lengths_declared)

text \<open>C36. A limited body reaches the application exactly when it is complete and fits, and then as it was sent. The
  application is called exactly when the pieces sent end with a last one, no declared length is above the limit, and
  all pieces together are not: then with the whole of them in one piece, and after that with what the server sends
  later. A body whose declared length is too large, though its own is not, and one that passes the limit, complete or
  not, are refused; a body within the limit that the caller breaks off, or that never ends, is neither delivered nor
  answered. Lengths are declared in decimal with any number of leading zeros, and are read up to ten digits, so this
  holds for limits below ten thousand million.\<close>

theorem body_limit_exact:
  assumes "limit_for g s = Some limit" and "limit < 10 ^ 10"
  shows "(limit_body g s es = ToApp seen \<longleftrightarrow>
      (\<exists>bs b later. es = map (\<lambda>b. Request b True) bs @ Request b False # later \<and>
         declares_at_most limit s \<and> length (concat bs @ b) \<le> limit \<and>
         seen = Request (concat bs @ b) False # later)) \<and>
    limit_body g s (map (\<lambda>b. Request b True) bs @ Request b False # later) =
      (if declares_at_most limit s \<and> length (concat bs @ b) \<le> limit
       then ToApp (Request (concat bs @ b) False # later) else Refuse413 (refusal_text g s limit)) \<and>
    (tail = [] \<or> hd tail = Disconnect \<longrightarrow>
       limit_body g s (map (\<lambda>b. Request b True) bs @ tail) =
         (if declares_at_most limit s \<and> length (concat bs) \<le> limit then Nothing_sent
          else Refuse413 (refusal_text g s limit)))"
proof (intro conjI impI)
  show "limit_body g s es = ToApp seen \<longleftrightarrow>
      (\<exists>bs b later. es = map (\<lambda>b. Request b True) bs @ Request b False # later \<and>
         declares_at_most limit s \<and> length (concat bs @ b) \<le> limit \<and>
         seen = Request (concat bs @ b) False # later)"
    (is "_ \<longleftrightarrow> ?fits")
  proof
    assume sent: "limit_body g s es = ToApp seen"
    show ?fits
    proof (rule events_split [of es])
      fix bs b later
      assume "es = map (\<lambda>b. Request b True) bs @ Request b False # later"
      then show ?fits using sent limit_whole [OF assms, of bs b later] by (metis passed.distinct(1) passed.inject(1))
    next
      fix bs tail
      assume "es = map (\<lambda>b. Request b True) bs @ tail" "tail = [] \<or> hd tail = Disconnect"
      then show ?fits using sent limit_cut [OF assms, of tail bs] by (simp split: if_splits)
    qed
  next
    assume ?fits
    then show "limit_body g s es = ToApp seen" using limit_whole [OF assms] by auto
  qed
qed (simp_all only: limit_whole [OF assms] limit_cut [OF assms])

definition demo_limit :: body_limit where
  "demo_limit = \<lparr>limited_paths = {''/v1/generate''}, own_limits = [(''/v1/transcribe'', 4)]\<rparr>"

definition demo_upload :: scope where
  "demo_upload = \<lparr>scope_type = ''http'', scope_path = ''/v1/transcribe'', scope_headers = [(''content-length'', ''0003'')]\<rparr>"

lemma body_limit_exact_witness:
  "limit_body demo_limit demo_upload [Request [1, 2] True, Request [3] False] = ToApp [Request [1, 2, 3] False] \<and>
   limit_body demo_limit demo_upload [Request [1, 2] True, Request [3, 4, 5] False] =
     Refuse413 (refusal_text demo_limit demo_upload 4) \<and>
   limit_body demo_limit demo_upload [Request [1, 2] True, Disconnect] = Nothing_sent"
proof -
  have l: "limit_for demo_limit demo_upload = Some 4" by (simp add: limit_for_def demo_limit_def demo_upload_def)
  have v: "digits_value ''0003'' = 3" by (simp add: digits_value_def)
  have h: "declares_at_most 4 demo_upload" by (simp add: declares_at_most_def demo_upload_def v)
  show ?thesis
    using body_limit_exact [OF l, THEN conjunct2, THEN conjunct1, of "[[1, 2]]" "[3]" "[]"]
      body_limit_exact [OF l, THEN conjunct2, THEN conjunct1, of "[[1, 2]]" "[3, 4, 5]" "[]"]
      body_limit_exact [OF l, THEN conjunct2, THEN conjunct2, of "[Disconnect]" "[[1, 2]]"]
    by (simp add: h)
qed

end
