(* ===== verification/Routes.thy ===== *)
theory Routes
  imports Decisions Engine_Base
begin

text \<open>
  The inference routes (\<open>routes/generate.py\<close>, with \<open>locality.py\<close> and \<open>disconnect.py\<close>): the checks a
  request passes before the backend is asked, in their order, and the frames of a stream. An
  engine is what the routes read of it, its optional hooks included; a call to it is its outcome.
\<close>

subsection \<open>What the routes read\<close>

record capability =
  tool_calling :: "bool option"
  audio_out :: "bool option"
  takes_input :: "string \<Rightarrow> bool option"

record model_entry =
  entry_id :: string
  surfaces :: "string list"
  capabilities :: "capability option"

text \<open>\<open>resolver\<close> is the hook \<open>resolve_model\<close>; the engines of one model have none and hold \<open>only_model\<close>.
  \<open>input_probe k\<close> is \<open>probe_<k>_input\<close>, false for an engine without it.\<close>

record engine =
  kind :: string
  resolver :: "(string option \<Rightarrow> model_refusal + model_entry option) option"
  only_model :: "string option"
  chat_capable :: bool
  decides :: bool
  counts :: bool
  supports_tools :: bool
  tools_refused_words :: "string option \<Rightarrow> string option"
  tools_reask :: "string option"
  tools_off_because :: "string option \<Rightarrow> string option"
  completes :: bool
  embeds :: bool
  input_probe :: "string \<Rightarrow> bool"
  routing_locality :: "string option"
  ignored_settings :: "gen_request \<Rightarrow> string list"

text \<open>How a call to the engine ends for the route.\<close>

datatype 'a served = Served 'a | ClientGone | CompletionRefused string | BackendFailed exn

text \<open>The work is raced against the client's departure; \<open>gone\<close> says that the client left while the work
  was still running.\<close>

definition serve_while_connected :: "bool \<Rightarrow> 'a served \<Rightarrow> 'a served" where
  "serve_while_connected gone work = (if gone then ClientGone else work)"

definition labelled :: "engine \<Rightarrow> string option" where
  "labelled en = Some (''inference-driver:'' @ kind en)"

subsection \<open>Locality\<close>

definition DECLARABLE_PROVIDERS :: "string list" where
  "DECLARABLE_PROVIDERS =
     [''openai_compat_custom'', ''ollama_local'', ''lmstudio_local'', ''systemone_custom'', ''strata_local'']"

definition classify :: "string \<Rightarrow> json \<Rightarrow> bool \<Rightarrow> string" where
  "classify provider declared managed =
     (if provider \<notin> set DECLARABLE_PROVIDERS then ''external''
      else if managed then ''local''
      else case declared of
             JStr d \<Rightarrow> if d = ''local'' \<or> d = ''external'' then d else ''unknown''
           | _ \<Rightarrow> ''unknown'')"

definition engine_locality :: "engine \<Rightarrow> string" where
  "engine_locality en =
     (case routing_locality en of
        Some l \<Rightarrow> if l = ''local'' \<or> l = ''external'' then l else ''unknown''
      | None \<Rightarrow> ''unknown'')"

definition enforce :: "engine \<Rightarrow> bool option \<Rightarrow> http_error + unit" where
  "enforce en asked_local =
     require (\<not> (asked_local = Some True \<and> engine_locality en \<noteq> ''local''))
       (refusal ''local-only'' ''Local-only policy refused this backend'' 403
          (''This local-only request requires a confirmed local active engine. '' @
           ''No prompt, image or embedding input was forwarded.'') (Some ''inference-driver'') None)"

subsection \<open>The checks\<close>

definition not_configured :: "string option \<Rightarrow> http_error" where
  "not_configured adapter_error =
     refusal ''engine-not-configured'' ''Engine not configured'' 503
       (''This driver has no working engine. '' @
        (if given adapter_error then the adapter_error else ''Unknown error.'') @
        '' Update the configuration via PATCH /v1/config and restart the driver.'')
       (Some ''inference-driver:degraded'') (Some Safe)"

definition resolve :: "python \<Rightarrow> engine \<Rightarrow> string option \<Rightarrow> http_error + model_entry option" where
  "resolve py en asked =
     (case (case resolver en of
              Some f \<Rightarrow> f asked
            | None \<Rightarrow> and_then (resolve_single_model (only_model en) asked) (\<lambda>_. Inr None)) of
        Inr entry \<Rightarrow> Inr entry
      | Inl (ModelNotServed r n) \<Rightarrow>
          Inl (refusal ''model-not-served'' ''Model not served by this driver'' 404
                 (model_refusal_words (\<lambda>s. py_repr py (JStr s)) (ModelNotServed r n) @ '' No backend was called.'')
                 (Some ''inference-driver'') (Some Safe))
      | Inl ModelRequired \<Rightarrow>
          Inl (refusal ''model-required'' ''This driver needs to be told which model'' 400
                 (model_refusal_words (\<lambda>s. py_repr py (JStr s)) ModelRequired)
                 (Some ''inference-driver'') None))"

definition refuse_non_completion :: "engine \<Rightarrow> model_entry option \<Rightarrow> http_error + unit" where
  "refuse_non_completion en entry =
     require (case entry of Some e \<Rightarrow> ''completion'' \<in> set (surfaces e) | None \<Rightarrow> completes en)
       (refusal ''completion-unsupported'' ''This model does not continue raw text'' 400
          (''This driver's backend ('' @ kind en @ '') does not continue raw text with this '' @
           ''model, so nothing was sent. A local llama-server, vLLM or Ollama model does; '' @
           ''GET /v1/info lists what each model answers.'') (Some ''inference-driver'') None)"

definition refuse_non_chat :: "python \<Rightarrow> engine \<Rightarrow> model_entry option \<Rightarrow> http_error + unit" where
  "refuse_non_chat py en entry =
     (case entry of
        Some e \<Rightarrow>
          require (''chat'' \<in> set (surfaces e))
            (refusal ''chat-unsupported'' ''This model does not answer chat'' 400
               (py_repr py (JStr (entry_id e)) @ '' answers '' @
                (if surfaces e = [] then ''nothing Eugene serves yet'' else py_join '', '' (surfaces e)) @
                '', not chat. GET /v1/info lists what each model answers.'')
               (Some ''inference-driver'') None)
      | None \<Rightarrow>
          require (chat_capable en)
            (refusal ''chat-unsupported'' ''This backend answers typed decisions, not chat'' 400
               (''This driver's backend ('' @ kind en @ '') serves the System One decision '' @
                ''protocol. Send decisions to POST /v1/systemone on the gateway; for a '' @
                ''conversation, name a chat model instead.'') (labelled en) None))"

definition tools_refusal_cause :: "python \<Rightarrow> engine \<Rightarrow> string option \<Rightarrow> string" where
  "tools_refusal_cause py en asked =
     (case tools_refused_words en asked of
        Some w \<Rightarrow>
          ''This driver's backend ('' @ kind en @ '') refused a request for its tools earlier, '' @
          ''in its own words: '' @ py_repr py (JStr w) @
          ''. Eugene treats tools as off for it, so this request '' @
          ''was refused rather than answered without them. '' @
          (case tools_reask en of
             Some every \<Rightarrow> ''This driver asks the backend again every '' @ every @
               '', with a one-token request that carries a tool, and turns tools back on the first '' @
               ''time it answers one. ''
           | None \<Rightarrow> [])
      | None \<Rightarrow>
          (case tools_off_because en asked of
             Some c \<Rightarrow> ''Tools are off for this model: '' @ c @ ''. This request carries tools, so it '' @
               ''was refused rather than answered without them. ''
           | None \<Rightarrow> ''This driver's backend ('' @ kind en @ '') cannot carry tool definitions, '' @
               ''so the request was refused rather than answered without them. ''))"

text \<open>Only an explicit \<open>false\<close> of an account's entry refuses.\<close>

definition carries_tools :: "engine \<Rightarrow> model_entry option \<Rightarrow> bool" where
  "carries_tools en entry =
     (case entry of
        Some e \<Rightarrow> (case capabilities e of None \<Rightarrow> True | Some c \<Rightarrow> tool_calling c \<noteq> Some False)
      | None \<Rightarrow> supports_tools en)"

definition refuse_unsupported_tools ::
  "python \<Rightarrow> engine \<Rightarrow> gen_request \<Rightarrow> model_entry option \<Rightarrow> http_error + unit"
where
  "refuse_unsupported_tools py en r entry =
     require (\<not> given (tools r) \<or> carries_tools en entry)
       (refusal ''tools-unsupported'' ''Tools not supported by this backend'' 400
          (tools_refusal_cause py en (asked_model r) @
           ''GET /v1/info reports capabilities.toolCalling; the gateway reports '' @
           ''the same per model as x_eugene_plexus.tool_calling on GET /v1/models.'') (labelled en) None)"

definition BATCH_FORMATS :: "string list" where "BATCH_FORMATS = [''pcm16'', ''wav'']"
definition STREAM_FORMATS :: "string list" where "STREAM_FORMATS = [''pcm16'']"

definition speaks :: "model_entry option \<Rightarrow> bool" where
  "speaks entry =
     (case entry of
        Some e \<Rightarrow> (case capabilities e of Some c \<Rightarrow> audio_out c = Some True | None \<Rightarrow> False)
      | None \<Rightarrow> False)"

text \<open>\<open>formats\<close> is in the order \<open>sorted\<close> gives it.\<close>

definition refuse_audio_output ::
  "python \<Rightarrow> engine \<Rightarrow> gen_request \<Rightarrow> model_entry option \<Rightarrow> string list \<Rightarrow> http_error + unit"
where
  "refuse_audio_output py en r entry formats =
     (case audio_output r of
        None \<Rightarrow> Inr ()
      | Some f \<Rightarrow>
          and_then (require (speaks entry)
            (refusal ''audio-output-unsupported'' ''Audio output not supported'' 400
               (''This model is not confirmed to answer with audio. Select a model that '' @
                ''speaks; capabilities.audioOutput must be true.'') (labelled en) None)) (\<lambda>_.
          require (f \<in> set formats)
            (refusal ''audio-format-unsupported'' ''Audio format not supported'' 400
               (''audioOutput.format '' @ py_repr py (JStr f) @ '' cannot be served here: the '' @
                ''backend streams pcm16 only, so this route can answer in '' @
                py_join '' or '' formats @ ''.'') (labelled en) None)))"

text \<open>\<open>_validate_content\<close>: \<open>valid\<close> is what \<open>validate_messages\<close> says of the messages, \<open>kinds\<close> their
  attachment kinds sorted.\<close>

definition UNCONFIRMED :: "(string \<times> string \<times> string) list" where
  "UNCONFIRMED =
     [(''image'', ''Image input not supported'',
       ''This backend has no confirmed vision model loaded. Select a vision model with its '' @
       ''projector loaded; capabilities.imageInput must be true.''),
      (''audio'', ''Audio input not supported'',
       ''This backend has no model confirmed to take audio. Select a model that hears audio; '' @
       ''capabilities.audioInput must be true.''),
      (''file'', ''File input not supported'',
       ''This backend has no model confirmed to read files. Select a model that reads PDFs; '' @
       ''capabilities.fileInput must be true.'')]"

definition confirmed :: "engine \<Rightarrow> model_entry option \<Rightarrow> string \<Rightarrow> bool" where
  "confirmed en entry k =
     (case entry of
        Some e \<Rightarrow> (case capabilities e of Some c \<Rightarrow> takes_input c k = Some True | None \<Rightarrow> False)
      | None \<Rightarrow> input_probe en k)"

fun confirm_inputs :: "engine \<Rightarrow> model_entry option \<Rightarrow> string list \<Rightarrow> http_error + unit" where
  "confirm_inputs en entry [] = Inr ()"
| "confirm_inputs en entry (k # ks) =
     and_then (require (confirmed en entry k)
       (case map_of UNCONFIRMED k of
          Some (ttl, words) \<Rightarrow> plain_refusal ttl 400 words
        | None \<Rightarrow> plain_refusal [] 400 [])) (\<lambda>_. confirm_inputs en entry ks)"

definition validate_content ::
  "engine \<Rightarrow> model_entry option \<Rightarrow> string + unit \<Rightarrow> string list \<Rightarrow> http_error + unit"
where
  "validate_content en entry valid kinds =
     (case valid of
        Inl words \<Rightarrow> Inl (plain_refusal ''Invalid attachment'' 400 words)
      | Inr _ \<Rightarrow> confirm_inputs en entry kinds)"

subsection \<open>The handlers\<close>

text \<open>The checks of \<open>/v1/generate\<close> and \<open>/v1/generate/stream\<close>, which answer the entry of the model.\<close>

definition admit ::
  "python \<Rightarrow> engine option \<Rightarrow> string option \<Rightarrow> gen_request \<Rightarrow> string list \<Rightarrow> string + unit \<Rightarrow> string list
     \<Rightarrow> http_error + engine \<times> model_entry option"
where
  "admit py adapter adapter_error r formats valid kinds =
     and_then (from_option (not_configured adapter_error) adapter) (\<lambda>en.
     and_then (resolve py en (asked_model r)) (\<lambda>entry.
     and_then (if completion_prompt r \<noteq> None then refuse_non_completion en entry
               else refuse_non_chat py en entry) (\<lambda>_.
     and_then (enforce en (local_only r)) (\<lambda>_.
     and_then (refuse_unsupported_tools py en r entry) (\<lambda>_.
     and_then (refuse_audio_output py en r entry formats) (\<lambda>_.
     and_then (validate_content en entry valid kinds) (\<lambda>_. Inr (en, entry))))))))"

definition client_gone :: http_error where
  "client_gone =
     refusal ''client-disconnected'' ''Client disconnected'' 499
       (''The caller went away while this request was running; the backend '' @
        ''call was cancelled rather than left to finish into a closed socket.'')
       (Some ''inference-driver'') None"

definition completion_refused :: "string \<Rightarrow> http_error" where
  "completion_refused words =
     refusal ''completion-refused'' ''Completion request refused'' 400 (words @ ''. Nothing was sent.'')
       (Some ''inference-driver'') None"

text \<open>The routes catch \<open>CliError\<close> and its subclasses. Any other exception leaves the handler, and the server
  answers 500 in plain text.\<close>

definition caught :: "exn \<Rightarrow> bool" where
  "caught e \<longleftrightarrow> exn_class e \<noteq> OtherError"

definition server_error :: http_error where
  "server_error = plain_refusal [] 500 ''Internal Server Error''"

definition failure :: "(string \<Rightarrow> loaded) \<Rightarrow> engine \<Rightarrow> exn \<Rightarrow> http_error" where
  "failure loads en e = (if caught e then backend_error loads e (kind en) else server_error)"

definition outcome :: "(string \<Rightarrow> loaded) \<Rightarrow> engine \<Rightarrow> 'a served \<Rightarrow> http_error + 'a" where
  "outcome loads en res =
     (case res of
        Served x \<Rightarrow> Inr x
      | ClientGone \<Rightarrow> Inl client_gone
      | CompletionRefused words \<Rightarrow> Inl (completion_refused words)
      | BackendFailed e \<Rightarrow> Inl (failure loads en e))"

text \<open>\<open>dict.fromkeys\<close> keeps the first of each.\<close>

definition ignored_header :: "engine \<Rightarrow> gen_request \<Rightarrow> (string \<times> string) list" where
  "ignored_header en r =
     (let fields = rev (remdups (rev (ignored_settings en r)))
      in if fields = [] then [] else [(''x-eugene-plexus-ignored-settings'', py_join '', '' fields)])"

text \<open>\<open>run\<close> is \<open>engine.generate(body)\<close>.\<close>

definition generate ::
  "python \<Rightarrow> (string \<Rightarrow> loaded) \<Rightarrow> engine option \<Rightarrow> string option \<Rightarrow> gen_request \<Rightarrow> string + unit
     \<Rightarrow> string list \<Rightarrow> bool \<Rightarrow> (engine \<Rightarrow> gen_result served) \<Rightarrow> http_error + (string \<times> string) list \<times> gen_result"
where
  "generate py loads adapter adapter_error r valid kinds gone run =
     and_then (admit py adapter adapter_error r BATCH_FORMATS valid kinds) (\<lambda>(en, _).
     and_then (outcome loads en (serve_while_connected gone (run en))) (\<lambda>res.
       Inr (ignored_header en r, res)))"

text \<open>\<open>_frame\<close>: a chunk is one event. The JSON of a fragment, of usage and of the rest is that of
  their values here.\<close>

datatype frame =
    DoneFrame "gen_result option"
  | ProgressFrame json
  | ToolCallsFrame "json list"
  | AudioFrame json
  | AnnotationsFrame "json list"
  | ReasoningFrame string
  | TextFrame string "json option"
  | ErrorFrame problem

definition event_name :: "frame \<Rightarrow> string" where
  "event_name f =
     (case f of DoneFrame _ \<Rightarrow> ''done'' | ProgressFrame _ \<Rightarrow> ''progress'' | ErrorFrame _ \<Rightarrow> ''error'' | _ \<Rightarrow> ''token'')"

definition frame_of :: "chunk \<Rightarrow> frame" where
  "frame_of c =
     (if cdone c then DoneFrame (cresult c)
      else case cprogress c of
        Some p \<Rightarrow> ProgressFrame p
      | None \<Rightarrow>
          if given (ctool_calls c) then ToolCallsFrame (map dump_delta (the (ctool_calls c)))
          else case caudio c of
            Some a \<Rightarrow> AudioFrame a
          | None \<Rightarrow>
              if given (cannotations c) then AnnotationsFrame (the (cannotations c))
              else if creasoning c \<noteq> [] then ReasoningFrame (creasoning c)
              else TextFrame (ctext c) (clogprobs c))"

text \<open>The engine's stream: the chunks it yields, and how it ends; \<open>Broke\<close> is any exception but a refused completion.\<close>

datatype stream_end = Finished | Broke exn | RefusedCompletion string

record engine_stream =
  chunks :: "chunk list"
  stream_end :: stream_end

text \<open>\<open>anext(stream)\<close>, \<open>None\<close> for a stream without a chunk.\<close>

definition first_of :: "engine_stream \<Rightarrow> chunk option served" where
  "first_of st =
     (case chunks st of
        c # _ \<Rightarrow> Served (Some c)
      | [] \<Rightarrow>
          (case stream_end st of
             Finished \<Rightarrow> Served None
           | Broke e \<Rightarrow> BackendFailed e
           | RefusedCompletion words \<Rightarrow> CompletionRefused words))"

text \<open>\<open>events\<close>: what is sent once the response is open. Only a \<open>CliError\<close> becomes a frame; after any other exception
  nothing more is sent.\<close>

definition events :: "(string \<Rightarrow> loaded) \<Rightarrow> engine \<Rightarrow> chunk option \<Rightarrow> engine_stream \<Rightarrow> frame list" where
  "events loads en first st =
     (case first of None \<Rightarrow> [] | Some c \<Rightarrow> [frame_of c]) @
     map frame_of (tl (chunks st)) @
     (case (first, stream_end st) of
        (Some _, Broke e) \<Rightarrow> if caught e then [ErrorFrame (problem (backend_error loads e (kind en)))] else []
      | _ \<Rightarrow> [])"

definition generate_stream ::
  "python \<Rightarrow> (string \<Rightarrow> loaded) \<Rightarrow> engine option \<Rightarrow> string option \<Rightarrow> gen_request \<Rightarrow> string + unit
     \<Rightarrow> string list \<Rightarrow> bool \<Rightarrow> (engine \<Rightarrow> engine_stream) \<Rightarrow> http_error + (string \<times> string) list \<times> frame list"
where
  "generate_stream py loads adapter adapter_error r valid kinds gone run =
     and_then (admit py adapter adapter_error r STREAM_FORMATS valid kinds) (\<lambda>(en, _).
     and_then (outcome loads en (serve_while_connected gone (first_of (run en)))) (\<lambda>first.
       Inr (ignored_header en r, events loads en first (run en))))"

text \<open>A count passes the checks of a chat but the content's.\<close>

definition cannot_count :: "string \<Rightarrow> engine \<Rightarrow> http_error" where
  "cannot_count reason en =
     refusal ''token-count-unsupported'' ''This backend cannot count this prompt without generating'' 501
       (''Cannot count exactly: '' @ reason @ ''. Nothing was sent to the model.'') (labelled en) None"

datatype counted = Count int | Uncountable string | CountGone | CountFailed exn

definition count_prompt_tokens ::
  "python \<Rightarrow> (string \<Rightarrow> loaded) \<Rightarrow> engine option \<Rightarrow> string option \<Rightarrow> gen_request \<Rightarrow> (engine \<Rightarrow> counted)
     \<Rightarrow> http_error + int"
where
  "count_prompt_tokens py loads adapter adapter_error r counter =
     and_then (from_option (not_configured adapter_error) adapter) (\<lambda>en.
     and_then (resolve py en (asked_model r)) (\<lambda>entry.
     and_then (refuse_non_chat py en entry) (\<lambda>_.
     and_then (enforce en (local_only r)) (\<lambda>_.
     and_then (refuse_unsupported_tools py en r entry) (\<lambda>_.
     and_then (require (counts en)
       (cannot_count (kind en @ '' has no prompt to count without generating'') en)) (\<lambda>_.
       case counter en of
         Count n \<Rightarrow> Inr n
       | Uncountable reason \<Rightarrow> Inl (cannot_count reason en)
       | CountGone \<Rightarrow> Inl client_gone
       | CountFailed e \<Rightarrow> Inl (failure loads en e)))))))"

definition embed ::
  "python \<Rightarrow> (string \<Rightarrow> loaded) \<Rightarrow> engine option \<Rightarrow> string option \<Rightarrow> string option \<Rightarrow> bool option
     \<Rightarrow> nat option \<Rightarrow> (engine \<Rightarrow> nat option \<Rightarrow> 'v served) \<Rightarrow> http_error + (string \<times> string) list \<times> 'v"
where
  "embed py loads adapter adapter_error asked localonly dimensions run =
     and_then (from_option (not_configured adapter_error) adapter) (\<lambda>en.
     and_then (resolve py en asked) (\<lambda>entry.
     and_then (enforce en localonly) (\<lambda>_.
     and_then (require (case entry of Some e \<Rightarrow> ''embeddings'' \<in> set (surfaces e) | None \<Rightarrow> embeds en)
       (refusal ''embeddings-unsupported'' ''Embeddings not supported by this backend'' 400
          (''This driver's backend ('' @ kind en @ '') does not serve embeddings, so the '' @
           ''request was refused rather than answered with something that is not one.'') (labelled en) None))
       (\<lambda>_.
       let taken = kind en = ''gemini_api''
       in and_then (outcome loads en (run en (if taken then dimensions else None))) (\<lambda>v.
            Inr (if dimensions \<noteq> None \<and> \<not> taken
                 then [(''x-eugene-plexus-ignored-settings'', ''dimensions'')] else [], v))))))"

text \<open>\<open>/v1/decide\<close>: \<open>raw\<close> is the \<open>questions\<close> of the body as it came. The call is not raced against
  the client.\<close>

definition decide_route ::
  "python \<Rightarrow> (string \<Rightarrow> loaded) \<Rightarrow> engine option \<Rightarrow> string option \<Rightarrow> string option \<Rightarrow> bool option \<Rightarrow> json
     \<Rightarrow> (engine \<Rightarrow> fault + decision) \<Rightarrow> (http_error + decision) option"
where
  "decide_route py loads adapter adapter_error asked localonly raw run =
     (case and_then (from_option (not_configured adapter_error) adapter) (\<lambda>en.
           and_then (resolve py en asked) (\<lambda>entry.
           and_then (require (entry = None \<and> decides en)
             (refusal ''decisions-unsupported'' ''This backend does not answer typed decisions'' 400
                (''This driver's backend ('' @ kind en @ '') serves chat, not the System One '' @
                 ''decision protocol.'') (labelled en) None)) (\<lambda>_.
           and_then (enforce en localonly) (\<lambda>_.
           and_then (require (validate_questions py raw = [])
             (refusal ''decision-protocol'' ''Decision request violates the pinned protocol'' 400
                (py_join ''; '' (validate_questions py raw)) (labelled en) None)) (\<lambda>_. Inr en))))) of
        Inl e \<Rightarrow> Some (Inl e)
      | Inr en \<Rightarrow>
          (case run en of
             Inr d \<Rightarrow> Some (Inr d)
           | Inl (Failed e) \<Rightarrow> Some (Inl (backend_error loads e (kind en)))
           | Inl (Raised _) \<Rightarrow> None))"

subsection \<open>What reaches a backend\<close>

text \<open>What must hold of a request, and of the model it is for, before anything is sent.\<close>

definition may_run ::
  "engine option \<Rightarrow> engine \<Rightarrow> model_entry option \<Rightarrow> gen_request \<Rightarrow> string list \<Rightarrow> string + unit \<Rightarrow> string list \<Rightarrow> bool"
where
  "may_run adapter en entry r formats valid kinds \<longleftrightarrow>
     adapter = Some en \<and>
     (case resolver en of
        Some f \<Rightarrow> f (asked_model r) = Inr entry
      | None \<Rightarrow> entry = None \<and> (asked_model r = None \<or> asked_model r = only_model en)) \<and>
     (if completion_prompt r \<noteq> None
      then (case entry of Some e \<Rightarrow> ''completion'' \<in> set (surfaces e) | None \<Rightarrow> completes en)
      else (case entry of Some e \<Rightarrow> ''chat'' \<in> set (surfaces e) | None \<Rightarrow> chat_capable en)) \<and>
     (local_only r = Some True \<longrightarrow> routing_locality en = Some ''local'') \<and>
     (given (tools r) \<longrightarrow> carries_tools en entry) \<and>
     (\<forall>f. audio_output r = Some f \<longrightarrow> speaks entry \<and> f \<in> set formats) \<and>
     valid = Inr () \<and> (\<forall>k \<in> set kinds. confirmed en entry k)"

lemma resolve_served:
  "resolve py en asked = Inr entry \<longleftrightarrow>
    (case resolver en of
       Some f \<Rightarrow> f asked = Inr entry
     | None \<Rightarrow> entry = None \<and> (asked = None \<or> asked = only_model en))"
  by (auto simp: resolve_def resolve_single_model_def split: option.splits sum.splits model_refusal.splits)

lemma enforce_ok: "enforce en local = Inr u \<longleftrightarrow> (local = Some True \<longrightarrow> routing_locality en = Some ''local'')"
  by (auto simp: enforce_def require_eq_Inr engine_locality_def split: option.splits if_splits)

lemma chat_ok: "refuse_non_chat py en entry = Inr u \<longleftrightarrow>
    (case entry of Some e \<Rightarrow> ''chat'' \<in> set (surfaces e) | None \<Rightarrow> chat_capable en)"
  by (auto simp: refuse_non_chat_def require_eq_Inr split: option.splits)

lemma completion_ok: "refuse_non_completion en entry = Inr u \<longleftrightarrow>
    (case entry of Some e \<Rightarrow> ''completion'' \<in> set (surfaces e) | None \<Rightarrow> completes en)"
  by (simp add: refuse_non_completion_def require_eq_Inr)

lemma audio_ok: "refuse_audio_output py en r entry formats = Inr u \<longleftrightarrow>
    (\<forall>f. audio_output r = Some f \<longrightarrow> speaks entry \<and> f \<in> set formats)"
  by (auto simp: refuse_audio_output_def result_simps split: option.splits)

lemma inputs_ok: "confirm_inputs en entry kinds = Inr u \<longleftrightarrow> (\<forall>k \<in> set kinds. confirmed en entry k)"
  by (induction kinds) (auto simp: result_simps)

lemmas checks_ok = resolve_served enforce_ok chat_ok completion_ok audio_ok inputs_ok

lemma admit_iff: "admit py adapter err r formats valid kinds = Inr (en, entry) \<longleftrightarrow>
    may_run adapter en entry r formats valid kinds"
proof -
  have content: "validate_content en entry valid kinds = Inr u \<longleftrightarrow>
      valid = Inr () \<and> (\<forall>k \<in> set kinds. confirmed en entry k)" for u en entry
    by (cases valid) (simp_all add: validate_content_def inputs_ok)
  have surface: "(if completion_prompt r \<noteq> None then refuse_non_completion en entry
       else refuse_non_chat py en entry) = Inr u \<longleftrightarrow>
      (if completion_prompt r \<noteq> None
      then (case entry of Some e \<Rightarrow> ''completion'' \<in> set (surfaces e) | None \<Rightarrow> completes en)
      else (case entry of Some e \<Rightarrow> ''chat'' \<in> set (surfaces e) | None \<Rightarrow> chat_capable en))" for u en entry
    by (simp add: chat_ok completion_ok)
  show ?thesis
    unfolding admit_def may_run_def refuse_unsupported_tools_def and_then_eq_Inr require_eq_Inr
      from_option_eq_Inr content surface enforce_ok audio_ok resolve_served
    by auto
qed

text \<open>A refusal of the checks is one of four statuses.\<close>

definition refusal_codes :: "int set" where
  "refusal_codes = {400, 403, 404, 503}"

definition refuses_well :: "http_error + 'a \<Rightarrow> bool" where
  "refuses_well m \<longleftrightarrow> (\<forall>e. m = Inl e \<longrightarrow> status_code e \<in> refusal_codes)"

lemma refuses_well_intros [intro]:
  "refuses_well (Inr x)"
  "status_code e \<in> refusal_codes \<Longrightarrow> refuses_well (Inl e)"
  "status_code e \<in> refusal_codes \<Longrightarrow> refuses_well (require b e)"
  "status_code e \<in> refusal_codes \<Longrightarrow> refuses_well (from_option e v)"
  by (auto simp: refuses_well_def require_def from_option_def split: option.splits)

lemma refuses_well_chain: "refuses_well m \<Longrightarrow> (\<And>x. refuses_well (f x)) \<Longrightarrow> refuses_well (and_then m f)"
  by (cases m) (auto simp: refuses_well_def)

lemma plain_refusal_status [simp]: "status_code (plain_refusal ttl st words) = st"
  by (simp add: plain_refusal_def)

lemma codes [simp]: "400 \<in> refusal_codes" "403 \<in> refusal_codes" "404 \<in> refusal_codes" "503 \<in> refusal_codes"
  by (simp_all add: refusal_codes_def)

lemma inputs_refused: "refuses_well (confirm_inputs en entry kinds)"
proof (induction kinds)
  case (Cons k ks)
  then show ?case by (auto intro!: refuses_well_chain split: option.splits)
qed auto

lemma checks_refuse_well:
  "refuses_well (from_option (not_configured err) adapter)"
  "refuses_well (resolve py en asked)"
  "refuses_well (refuse_non_completion en entry)"
  "refuses_well (refuse_non_chat py en entry)"
  "refuses_well (enforce en local)"
  "refuses_well (refuse_unsupported_tools py en r entry)"
  "refuses_well (refuse_audio_output py en r entry formats)"
  "refuses_well (validate_content en entry valid kinds)"
proof -
  show "refuses_well (resolve py en asked)"
    by (auto simp: refuses_well_def resolve_def split: option.splits sum.splits model_refusal.splits)
  show "refuses_well (validate_content en entry valid kinds)"
    by (auto simp: validate_content_def inputs_refused split: sum.splits)
  show "refuses_well (refuse_non_chat py en entry)"
    by (auto simp: refuse_non_chat_def split: option.splits)
  show "refuses_well (refuse_audio_output py en r entry formats)"
    by (auto simp: refuse_audio_output_def intro!: refuses_well_chain split: option.splits)
qed (auto simp: not_configured_def refuse_non_completion_def enforce_def refuse_unsupported_tools_def)

lemma admit_refused: "refuses_well (admit py adapter err r formats valid kinds)"
  unfolding admit_def by (intro refuses_well_chain checks_refuse_well) (auto intro: checks_refuse_well)

text \<open>C37. A request reaches an engine exactly when it may: the engine is there, the model asked for is one it
  serves and does what is asked, and a local-only request, tools, a spoken answer and attachments
  have what they need. Any other request gets one refusal, the same whatever the engine would have
  done, before anything is sent.\<close>

theorem admitted_exactly:
  "if \<exists>en entry. may_run adapter en entry r BATCH_FORMATS valid kinds
   then \<exists>en. adapter = Some en \<and> (\<forall>gone run. generate py loads adapter err r valid kinds gone run =
      and_then (outcome loads en (serve_while_connected gone (run en))) (\<lambda>res. Inr (ignored_header en r, res)))
   else \<exists>e. status_code e \<in> refusal_codes \<and> (\<forall>gone run. generate py loads adapter err r valid kinds gone run = Inl e)"
proof (cases "admit py adapter err r BATCH_FORMATS valid kinds")
  case (Inl e)
  then have "\<nexists>en entry. may_run adapter en entry r BATCH_FORMATS valid kinds"
    unfolding admit_iff [of py _ err, symmetric] by simp
  then show ?thesis
    using Inl admit_refused [of py adapter err r BATCH_FORMATS valid kinds]
    by (auto simp: generate_def refuses_well_def)
next
  case (Inr x)
  obtain en entry where x: "x = (en, entry)" by force
  then have "may_run adapter en entry r BATCH_FORMATS valid kinds"
    using Inr admit_iff [of py adapter err] by simp
  moreover from this have "adapter = Some en" by (simp add: may_run_def)
  ultimately show ?thesis using Inr x by (auto simp: generate_def)
qed

subsection \<open>The frames of a stream\<close>

text \<open>The contract of an engine's stream: a stream that ends has one last chunk and it is the last; a
  stream that breaks off has none; a completion is refused before the first chunk.\<close>

definition keeps_contract :: "engine_stream \<Rightarrow> bool" where
  "keeps_contract st \<longleftrightarrow>
     (case stream_end st of
        Finished \<Rightarrow> chunks st \<noteq> [] \<and> cdone (last (chunks st)) \<and> list_all (\<lambda>c. \<not> cdone c) (butlast (chunks st))
      | Broke _ \<Rightarrow> list_all (\<lambda>c. \<not> cdone c) (chunks st)
      | RefusedCompletion _ \<Rightarrow> chunks st = [])"

definition terminal :: "frame \<Rightarrow> bool" where
  "terminal f \<longleftrightarrow> event_name f \<in> {''done'', ''error''}"

lemma terminal_frame_of: "terminal (frame_of c) \<longleftrightarrow> cdone c"
  by (simp add: terminal_def frame_of_def event_name_def split: option.splits)


definition demo_route_engine :: engine where
  "demo_route_engine = \<lparr>kind = ''openai_compat_http'', resolver = None, only_model = Some ''m'',
     chat_capable = True, decides = False, counts = False, supports_tools = False,
     tools_refused_words = (\<lambda>_. None), tools_reask = None, tools_off_because = (\<lambda>_. None),
     completes = False, embeds = False, input_probe = (\<lambda>k. k = ''image''),
     routing_locality = Some ''local'', ignored_settings = (\<lambda>_. [''seed'', ''seed''])\<rparr>"

lemma demo_admitted:
  "admit py (Some demo_route_engine) None (demo_request\<lparr>local_only := Some True\<rparr>) STREAM_FORMATS (Inr ())
     [''image''] = Inr (demo_route_engine, None)"
  unfolding admit_iff
  by (simp add: may_run_def demo_route_engine_def demo_request_def given_def confirmed_def)


end
