(* ===== verification/Spec2Isabelle.thy ===== *)
theory Spec2Isabelle
  imports Thinking Slots Failures Tokens Machines Config_Schema Config_Store Openai_Wire Attachments Decisions
    Engine_Base Openai_Settings Openai_Tools Media_Out Catalogue Openai_Stream Raw_Completion
    Gemini_Wire Gemini_Api Gemini_Media Strata Body_Limit Routes Audio_Out
begin

text \<open>
  Verification library of the inference driver: the process that puts one model engine, or one account
  with a provider, behind the driver protocol. A request reaches a route, the route checks it and asks
  the engine, the engine translates it for its backend, carries it there and translates the answer
  back, whole or as a stream. Around that sit the settings of the driver and their file, the tokens
  that say who may ask, the trust bundle they are checked against, and the table of the other
  machines of the install. Paths below are under \<open>src/eugene_plexus_inference_driver\<close>.

  \<^bold>\<open>Shared.\<close> \<open>Py_Prelude\<close> (strings, JSON documents, dictionaries, errors as \<open>Inl\<close>) and \<open>Py_Bytes\<close>
  (base64, little-endian packing) hold the parts of Python the components use. \<open>Incremental\<close> is the
  contract of a stage that consumes its input in pieces (locale \<open>incremental\<close>), \<open>Step_Systems\<close> the
  contract of a state machine (locales \<open>step_system\<close> and \<open>monotone_system\<close>).

  \<^bold>\<open>Components, in the order a request meets them.\<close>

  \<^item> \<open>Tokens\<close> (\<open>tokens.py\<close>): minting and verifying tokens, the trust bundle and its replacement. Its
    lemmas show who can pass \<open>verify\<close>, for which actions and how long, and that an accepted bundle is
    never replaced by an older one. Bundle files are a \<open>monotone_system\<close> (\<open>bf\<close>).
  \<^item> \<open>Machines\<close> (\<open>_http.py\<close>): which client dials an address, the table of machines, the TLS port a
    request for another machine is carried to and the check of the key it presents. The table is a
    \<open>step_system\<close> (\<open>mt\<close>).
  \<^item> \<open>Config_Schema\<close> (\<open>providers.py\<close>, \<open>config.py\<close>, each engine's \<open>field_specs\<close>) and \<open>Config_Store\<close>
    (\<open>ConfigStore\<close> of \<open>config.py\<close>, envelopes of \<open>security.py\<close>): the fields of a driver's settings,
    loading, patching, saving and showing them. The store is a \<open>step_system\<close> (\<open>cs\<close>): after any run
    every stored value is one the schema allows.
  \<^item> \<open>Body_Limit\<close> (\<open>body_limit.py\<close>): the bound on a body before anything reads it.
  \<^item> \<open>Routes\<close> (\<open>routes/generate.py\<close>, \<open>locality.py\<close>, \<open>disconnect.py\<close>): admission of a request in the order of
    the checks, the frames of a stream.
  \<^item> \<open>Engine_Base\<close> (\<open>engines/base.py\<close>): requests and chunks as the engines read them, and the two ways a
    setting the backend cannot carry is met.
  \<^item> \<open>Attachments\<close> (\<open>images.py\<close>): what may ride inline, how it is recognised and bounded.
  \<^item> \<open>Slots\<close> (\<open>slots.py\<close>): conversations pinned to the slots of a llama-server. Requests interleave in
    the step relation \<open>slot_step\<close>, a \<open>step_system\<close> (\<open>sl\<close>).
  \<^item> \<open>Openai_Settings\<close>, \<open>Openai_Tools\<close>, \<open>Openai_Wire\<close> (\<open>engines/openai_compat_http.py\<close>, with
    \<open>dialects.py\<close>, \<open>_prompt.py\<close>): what is sent for a request and what of it is known not to be honoured;
    what is learned of a backend that refuses tools (\<open>step_system\<close> \<open>tl\<close>); messages, tool calls,
    embeddings and rerank scores on the wire.
  \<^item> \<open>Openai_Stream\<close> (\<open>generate\<close> and \<open>stream\<close> of \<open>engines/openai_compat_http.py\<close>): one chat exchange, streamed or
    whole. Its lemmas show that the last chunk sums up the stream, that streamed and whole answers agree, and
    when silence is a failure.
  \<^item> \<open>Raw_Completion\<close> (\<open>raw_completion.py\<close>, \<open>_complete\<close> and \<open>_complete_stream\<close> of the adapter): a prompt continued as
    written, on each of three backends. Its lemmas show that settings are carried, that a stream sums up what it
    showed and that streamed and whole answers agree.
  \<^item> \<open>Gemini_Wire\<close> (\<open>engines/_gemini_wire.py\<close>), \<open>Gemini_Api\<close> and \<open>Gemini_Media\<close> (\<open>engines/gemini_api.py\<close>): Google's
    Gemini as an account. The memory of thought signatures is a \<open>step_system\<close> (\<open>mem\<close>): it stays bounded and keeps
    what is recent, so a call goes back to Google as it came. The lemmas on the exchange show that turns
    alternate, that streamed and whole answers agree, that embeddings follow their texts, what a failure to connect
    becomes, and where the key of the account may go.
  \<^item> \<open>Media_Out\<close> (\<open>images_out.py\<close>, \<open>videos_out.py\<close>, \<open>speech.py\<close>, \<open>transcription.py\<close>): listings and answers of what
    is not text. Its lemmas show that an image is labelled by its own bytes.
  \<^item> \<open>Catalogue\<close> (\<open>engines/_catalogue.py\<close>, \<open>_fetch_catalogue\<close>): the model list of an account, read, filtered, saved
    and loaded, a \<open>step_system\<close> (\<open>ct\<close>, and \<open>acct\<close> for lists read from a provider). Its lemmas show that patterns
    are globs, that a request finds exactly what the patterns keep, that a list survives a restart, and that
    what a read list says of its models is what the checks of \<open>Openai_Settings\<close> rely on.
  \<^item> \<open>Thinking\<close> (\<open>engines/_thinking.py\<close>): removal of thinking spans, from a whole answer and from one
    that arrives in pieces. The filter is an \<open>incremental\<close> stage (\<open>tf\<close>), its specification \<open>visible\<close>.
  \<^item> \<open>Strata\<close> (\<open>engines/strata_http.py\<close>): stop strings looked for in the stream, an \<open>incremental\<close> stage
    (\<open>sf\<close>).
  \<^item> \<open>Decisions\<close> (\<open>engines/systemone_http.py\<close>): typed questions and the check of their answers.
  \<^item> \<open>Audio_Out\<close> (\<open>audio_out.py\<close>): the fragments of a spoken answer and the clip they make.
  \<^item> \<open>Failures\<close> (\<open>failures.py\<close>, the errors of \<open>engines/_subprocess.py\<close>): what a failed backend call means
    for the caller, and whether it may be sent again.

  \<^bold>\<open>Conventions.\<close> A function that raises returns \<open>Inl\<close> of its error. A coroutine is split where it
  awaits: either into the rules of a step relation (slots, tables, files, settings) or into a
  function of what the outside answered (streams are functions of the list of what arrived).
  Third-party code is an argument: httpx, PyJWT and the Ed25519 keys, the secretbox, the image library,
  the validation by the generated classes, \<open>repr\<close> and the formats of floats. Text is
  Latin-1 where a function looks at characters.

  \<^bold>\<open>Bounds and fuel.\<close> No definition runs on fuel: recursion is structural or comes with a measure, so
  every operation is total and returns. Limits of the
  code (bytes, pixels, counts, seconds) are the constants of the code.

  \<^bold>\<open>Not modelled.\<close> The generated API models (made by the build from the OpenAPI documents); sockets,
  files and processes themselves; log lines, except that a warning is said once; the labels and
  descriptions of settings. The manifest lists every module and says what is left.
\<close>

section \<open>Properties that span components\<close>

subsection \<open>The adapters keep the contract of a stream\<close>

text \<open>An adapter's stream as the route reads it. The chat and the raw completion of the OpenAI-compatible adapter keep
  the contract whatever their backend does; a Strata driver keeps it when the stream it filters does.\<close>

definition engine_stream_of :: "unit sent \<Rightarrow> engine_stream" where
  "engine_stream_of r = \<lparr>chunks = fst r, stream_end = (case snd r of Inl e \<Rightarrow> Broke e | Inr _ \<Rightarrow> Finished)\<rparr>"

lemma contract_of:
  assumes "(\<exists>cs e. r = (cs, Inl e) \<and> list_all (\<lambda>c. \<not> cdone c) cs) \<or>
    (\<exists>cs d. r = (cs @ [d], Inr ()) \<and> list_all (\<lambda>c. \<not> cdone c) cs \<and> cdone d)"
  shows "keeps_contract (engine_stream_of r)"
  using assms by (auto simp: keeps_contract_def engine_stream_of_def)

lemma chat_keeps_contract: "keeps_contract (engine_stream_of (stream_exchange w x refuse ex))"
  by (rule contract_of) (rule exchange_ends)

lemma completion_keeps_contract: "keeps_contract (engine_stream_of (complete_stream w x k path ex))"
  by (rule contract_of) (use raw_stream_sums_up [of w x k path ex] in \<open>auto simp: list_all_iff\<close>)

lemma strata_keeps_contract:
  assumes "stop r = Some ps" and "\<exists>p \<in> set ps. p \<noteq> []" and "\<forall>c \<in> set cs. \<not> cdone c"
    and "cdone d" and "ctext d = []" and "cresult d = Some res"
  shows "keeps_contract \<lparr>chunks = strata_stream ou new_id other r (cs @ [d]), stream_end = Finished\<rparr>"
  by (rule strata_answers [OF assms, of ou new_id other]) (auto simp: keeps_contract_def list_all_iff)


subsection \<open>Strata behind the streaming route\<close>

text \<open>The text a caller reads off the frames.\<close>

definition frame_text :: "frame \<Rightarrow> string" where
  "frame_text f = (case f of TextFrame t _ \<Rightarrow> t | _ \<Rightarrow> [])"

lemma frame_text_of: "one_kind c \<Longrightarrow> frame_text (frame_of c) = ctext c"
  by (cases "ctext c = []") (auto simp: one_kind_def frame_of_def frame_text_def split: option.splits)

lemma frames_text: "\<forall>c \<in> set cs. one_kind c \<Longrightarrow> concat (map (frame_text \<circ> frame_of) cs) = shown cs"
  by (induction cs) (simp_all add: frame_text_of)

lemma no_terminal_event: "\<not> terminal f \<longleftrightarrow> event_name f \<in> {''token'', ''progress''}"
  by (cases f) (simp_all add: terminal_def event_name_def)

lemma token_frame: "\<not> cdone c \<Longrightarrow> cprogress c = None \<Longrightarrow> event_name (frame_of c) = ''token''"
  by (auto simp: frame_of_def event_name_def split: option.splits)



end
